(* ===== verification/LoomPrelude.thy ===== *)
theory LoomPrelude
  imports Main "HOL-Library.Word" "HOL-Library.Char_ord" "HOL-Library.List_Lexorder"
    "HOL-Library.Sublist"
begin

text \<open>
  Shared vocabulary of the LoomDB development: byte strings with the lexicographic order of
  Rust's \<open>Vec<u8>\<close>, fixed-width little- and big-endian encodings, machine integers with the
  checks of a build with \<open>overflow-checks = true\<close>, the result monad, and the generic list,
  map and prefix lemmas that several components use.  The collections \<open>loom_simps\<close> and
  \<open>loom_keys\<close> are filled by the component theories.
\<close>

named_theorems loom_simps \<open>rewrite rules of the components' operations\<close>
named_theorems loom_keys \<open>facts on the key layout\<close>

section \<open>Bytes, keys, machine integers\<close>

text \<open>
  A byte is a HOL \<open>char\<close> (8 bits), a byte vector and a Rust string (its UTF-8 bytes) are both a
  \<open>char list\<close>.  \<open>HOL-Library.List_Lexorder\<close> and \<open>Char_ord\<close> give it the order Rust's
  slices have: byte by byte, a proper prefix first.
\<close>

type_synonym bytes = "char list"
type_synonym key = bytes
type_synonym u64 = "64 word"
type_synonym i64 = "64 word"

text \<open>The results of fallible code: \<open>Inl\<close> is the error of the source, \<open>Inr\<close> the value.\<close>

definition bind_r :: "'e + 'a \<Rightarrow> ('a \<Rightarrow> 'e + 'b) \<Rightarrow> 'e + 'b" where
  "bind_r m f = (case m of Inl e \<Rightarrow> Inl e | Inr a \<Rightarrow> f a)"

lemma bind_r_simps [simp]:
  "bind_r (Inl e) f = Inl e"
  "bind_r (Inr a) f = f a"
  by (simp_all add: bind_r_def)

lemma bind_r_Inr_iff: "bind_r m f = Inr b \<longleftrightarrow> (\<exists>a. m = Inr a \<and> f a = Inr b)"
  by (cases m) auto

lemma bind_r_Inl_iff: "bind_r m f = Inl e \<longleftrightarrow> m = Inl e \<or> (\<exists>a. m = Inr a \<and> f a = Inl e)"
  by (cases m) auto

lemma bind_r_cong [fundef_cong]:
  "m = m' \<Longrightarrow> (\<And>a. m' = Inr a \<Longrightarrow> f a = g a) \<Longrightarrow> bind_r m f = bind_r m' g"
  by (cases m') auto

fun map_r :: "('a \<Rightarrow> 'e + 'b) \<Rightarrow> 'a list \<Rightarrow> 'e + 'b list" where
  "map_r f [] = Inr []"
| "map_r f (x # xs) = bind_r (f x) (\<lambda>y. bind_r (map_r f xs) (\<lambda>ys. Inr (y # ys)))"

fun fold_r :: "('a \<Rightarrow> 's \<Rightarrow> 'e + 's) \<Rightarrow> 'a list \<Rightarrow> 's \<Rightarrow> 'e + 's" where
  "fold_r f [] s = Inr s"
| "fold_r f (x # xs) s = bind_r (f x s) (fold_r f xs)"

lemma fold_r_append:
  "fold_r f (xs @ ys) s = bind_r (fold_r f xs s) (fold_r f ys)"
  by (induction xs arbitrary: s) (auto simp: bind_r_def split: sum.splits)

lemma fold_r_invariant:
  assumes "fold_r f xs s = Inr t" and "P s"
    and "\<And>x u v. x \<in> set xs \<Longrightarrow> P u \<Longrightarrow> f x u = Inr v \<Longrightarrow> P v"
  shows "P t"
  using assms
proof (induction xs arbitrary: s)
  case (Cons x xs)
  then obtain u where u: "f x s = Inr u" "fold_r f xs u = Inr t"
    by (auto simp: bind_r_Inr_iff)
  with Cons.prems have "P u" by auto
  with u Cons show ?case by auto
qed simp

text \<open>
  \<open>u64\<close> addition traps on overflow (the release and test profiles of the workspace set
  \<open>overflow-checks\<close>), \<open>i64\<close> has the saturating operations of the standard library.
\<close>

definition u64_add :: "u64 \<Rightarrow> u64 \<Rightarrow> u64 option" where
  "u64_add a b = (if unat a + unat b < 2 ^ 64 then Some (a + b) else None)"

definition i64_clamp :: "int \<Rightarrow> i64" where
  "i64_clamp i = word_of_int (max (- (2 ^ 63)) (min (2 ^ 63 - 1) i))"

definition i64_sat_add :: "i64 \<Rightarrow> i64 \<Rightarrow> i64" where
  "i64_sat_add a b = i64_clamp (sint a + sint b)"

definition i64_sat_sub :: "i64 \<Rightarrow> i64 \<Rightarrow> i64" where
  "i64_sat_sub a b = i64_clamp (sint a - sint b)"

definition i64_ok :: "int \<Rightarrow> bool" where
  "i64_ok i \<longleftrightarrow> - (2 ^ 63) \<le> i \<and> i < 2 ^ 63"

lemma sint_i64_ok: "i64_ok (sint (x :: i64))"
  using sint_range_size [of x] by (simp add: i64_ok_def word_size)

lemma sint_i64_clamp: "sint (i64_clamp i) = max (- (2 ^ 63)) (min (2 ^ 63 - 1) i)"
proof -
  have "sint (word_of_int j :: 64 word) = j" if "- (2 ^ 63) \<le> j" "j < 2 ^ 63" for j :: int
    using that by (simp add: signed_of_int signed_take_bit_int_eq_self)
  then show ?thesis
    unfolding i64_clamp_def by (simp add: max_def min_def)
qed

lemma sint_i64_clamp_ok: "i64_ok i \<Longrightarrow> sint (i64_clamp i) = i"
  by (simp add: sint_i64_clamp i64_ok_def)

lemma unat_u64_add: "u64_add a b = Some c \<Longrightarrow> unat c = unat a + unat b"
  by (auto simp: u64_add_def unat_word_ariths split: if_splits)

section \<open>Fixed-width encodings\<close>

definition byte_of :: "nat \<Rightarrow> char" where
  "byte_of n = char_of n"

definition nat_of_byte :: "char \<Rightarrow> nat" where
  "nat_of_byte c = of_char c"

lemma nat_of_byte_byte_of [simp]: "nat_of_byte (byte_of n) = n mod 256"
  by (simp add: nat_of_byte_def byte_of_def)

lemma nat_of_byte_less [simp]: "nat_of_byte c < 256"
  by (simp add: nat_of_byte_def)

fun le_bytes :: "nat \<Rightarrow> nat \<Rightarrow> bytes" where
  "le_bytes 0 n = []"
| "le_bytes (Suc w) n = byte_of (n mod 256) # le_bytes w (n div 256)"

fun nat_of_le :: "bytes \<Rightarrow> nat" where
  "nat_of_le [] = 0"
| "nat_of_le (b # bs) = nat_of_byte b + 256 * nat_of_le bs"

definition be_bytes :: "nat \<Rightarrow> nat \<Rightarrow> bytes" where
  "be_bytes w n = rev (le_bytes w n)"

lemma length_le_bytes [simp]: "length (le_bytes w n) = w"
  by (induction w arbitrary: n) auto

lemma length_be_bytes [simp]: "length (be_bytes w n) = w"
  by (simp add: be_bytes_def)

lemma nat_of_le_bytes: "nat_of_le (le_bytes w n) = n mod 256 ^ w"
proof (induction w arbitrary: n)
  case (Suc w)
  have "n mod 256 + 256 * (n div 256 mod 256 ^ w) = n mod (256 * 256 ^ w)"
    by (simp add: mod_mult2_eq)
  with Suc show ?case by simp
qed simp

lemma le_bytes_inj: "m < 256 ^ w \<Longrightarrow> n < 256 ^ w \<Longrightarrow> le_bytes w m = le_bytes w n \<Longrightarrow> m = n"
  by (metis nat_of_le_bytes mod_less)

lemma be_bytes_inj: "m < 256 ^ w \<Longrightarrow> n < 256 ^ w \<Longrightarrow> be_bytes w m = be_bytes w n \<Longrightarrow> m = n"
  unfolding be_bytes_def by (rule le_bytes_inj) simp_all

text \<open>\<open>u64::to_le_bytes\<close>, \<open>u64::to_be_bytes\<close>, \<open>(n as u16).to_be_bytes\<close>.\<close>

definition u64_le :: "u64 \<Rightarrow> bytes" where "u64_le x = le_bytes 8 (unat x)"
definition u64_be :: "u64 \<Rightarrow> bytes" where "u64_be x = be_bytes 8 (unat x)"
definition usize_le :: "nat \<Rightarrow> bytes" where "usize_le n = le_bytes 8 n"
definition u16_be :: "nat \<Rightarrow> bytes" where "u16_be n = be_bytes 2 (n mod 2 ^ 16)"

lemma length_encodings [simp]:
  "length (u64_le x) = 8" "length (u64_be x) = 8" "length (usize_le n) = 8" "length (u16_be n) = 2"
  by (simp_all add: u64_le_def u64_be_def usize_le_def u16_be_def)

lemma unat_u64_less: "unat (x :: u64) < 256 ^ 8"
  using unsigned_less [of x, where 'a = nat] by simp

lemma u64_be_inj [simp]: "u64_be x = u64_be y \<longleftrightarrow> x = y"
  using be_bytes_inj [of "unat x" 8 "unat y"] unat_u64_less [of x] unat_u64_less [of y]
  by (auto simp: u64_be_def word_unat_eq_iff)

lemma u64_le_inj [simp]: "u64_le x = u64_le y \<longleftrightarrow> x = y"
  using le_bytes_inj [of "unat x" 8 "unat y"] unat_u64_less [of x] unat_u64_less [of y]
  by (auto simp: u64_le_def word_unat_eq_iff)

lemma usize_le_inj: "m < 2 ^ 64 \<Longrightarrow> n < 2 ^ 64 \<Longrightarrow> usize_le m = usize_le n \<longleftrightarrow> m = n"
  using le_bytes_inj [of m 8 n] by (auto simp: usize_le_def)

lemma u16_be_inj: "m < 2 ^ 16 \<Longrightarrow> n < 2 ^ 16 \<Longrightarrow> u16_be m = u16_be n \<longleftrightarrow> m = n"
  using be_bytes_inj [of m 2 n] by (auto simp: u16_be_def)

end
