(* ===== verification/LoomFloat.thy ===== *)
theory LoomFloat
  imports LoomPrelude
begin

text \<open>
  The \<open>f64\<close> operations the program uses, on IEEE-754 bit patterns: comparison, the derived
  \<open>PartialEq\<close> (a NaN differs from itself, the zeros are equal), \<open>clamp(0.0, 1.0)\<close>,
  \<open>min\<close>, the product with \<open>1_000_000.0\<close> truncated by \<open>as u64\<close>, and the product of a
  page size with the fill factor \<open>0.7\<close>.  Products are rounded to 53 significant bits, ties to
  even, as the hardware does.
\<close>

type_synonym f64 = "64 word"

definition f64_neg :: "f64 \<Rightarrow> bool" where
  "f64_neg x \<longleftrightarrow> 2 ^ 63 \<le> uint x"

definition f64_mag :: "f64 \<Rightarrow> int" where
  "f64_mag x = uint x mod 2 ^ 63"

definition f64_exp :: "f64 \<Rightarrow> int" where
  "f64_exp x = f64_mag x div 2 ^ 52"

definition f64_frac :: "f64 \<Rightarrow> int" where
  "f64_frac x = f64_mag x mod 2 ^ 52"

definition f64_nan :: "f64 \<Rightarrow> bool" where
  "f64_nan x \<longleftrightarrow> f64_exp x = 2047 \<and> f64_frac x \<noteq> 0"

text \<open>Magnitudes are ordered as their bit patterns are; both zeros have key 0.\<close>

definition f64_key :: "f64 \<Rightarrow> int" where
  "f64_key x = (if f64_neg x then - f64_mag x else f64_mag x)"

definition f64_lt :: "f64 \<Rightarrow> f64 \<Rightarrow> bool" where
  "f64_lt a b \<longleftrightarrow> \<not> f64_nan a \<and> \<not> f64_nan b \<and> f64_key a < f64_key b"

definition f64_eq :: "f64 \<Rightarrow> f64 \<Rightarrow> bool" where
  "f64_eq a b \<longleftrightarrow> \<not> f64_nan a \<and> \<not> f64_nan b \<and> f64_key a = f64_key b"

definition f64_zero :: f64 where "f64_zero = 0"
definition f64_one :: f64 where "f64_one = 0x3FF0000000000000"

text \<open>\<open>f64::clamp(0.0, 1.0)\<close>: two comparisons, so a NaN passes through.\<close>

definition f64_clamp01 :: "f64 \<Rightarrow> f64" where
  "f64_clamp01 x =
     (let y = (if f64_lt x f64_zero then f64_zero else x)
      in if f64_lt f64_one y then f64_one else y)"

text \<open>\<open>f64::min\<close>: a NaN operand is ignored.\<close>

definition f64_min :: "f64 \<Rightarrow> f64 \<Rightarrow> f64" where
  "f64_min a b = (if f64_nan a then b else if f64_nan b then a else if f64_lt b a then b else a)"

function bit_len :: "int \<Rightarrow> nat" where
  "bit_len n = (if n \<le> 0 then 0 else Suc (bit_len (n div 2)))"
  by pat_completeness auto
termination
  by (relation "measure nat") auto

declare bit_len.simps [simp del]

text \<open>Round a non-negative integer to 53 significant bits, ties to even.\<close>

definition round53 :: "int \<Rightarrow> int" where
  "round53 n =
     (let s = bit_len n - 53; q = n div 2 ^ s; r = n mod 2 ^ s
      in if s = 0 then n
         else if 2 ^ (s - 1) < r \<or> (r = 2 ^ (s - 1) \<and> odd q) then (q + 1) * 2 ^ s
         else q * 2 ^ s)"

text \<open>
  \<open>(x * 1_000_000.0) as u64\<close>.  The finite value of \<open>x\<close> is \<open>m * 2 ^ (e - 1075)\<close>; the cast
  truncates, saturates above, and sends negative values and NaN to 0.
\<close>

definition f64_micro :: "f64 \<Rightarrow> int" where
  "f64_micro x =
     (if f64_nan x \<or> f64_neg x then 0
      else if f64_exp x = 2047 then 2 ^ 64 - 1
      else let e = max 1 (f64_exp x);
               m = (if f64_exp x = 0 then f64_frac x else 2 ^ 52 + f64_frac x);
               r = round53 (m * 1000000)
           in min (2 ^ 64 - 1) (if e < 1075 then r div 2 ^ nat (1075 - e) else r * 2 ^ nat (e - 1075)))"

text \<open>\<open>(page_size as f64 * 0.7) as usize\<close>; the double nearest to 0.7 is
  \<open>6305039478318694 / 2 ^ 53\<close>.\<close>

definition fill_limit :: "nat \<Rightarrow> nat" where
  "fill_limit page_size = nat (round53 (round53 (int page_size) * 6305039478318694) div 2 ^ 53)"

lemma f64_eq_refl: "f64_eq x x \<longleftrightarrow> \<not> f64_nan x"
  by (simp add: f64_eq_def)

lemma f64_eq_sym: "f64_eq x y \<Longrightarrow> f64_eq y x"
  by (simp add: f64_eq_def)

lemma f64_eq_trans: "f64_eq x y \<Longrightarrow> f64_eq y z \<Longrightarrow> f64_eq x z"
  by (simp add: f64_eq_def)

lemma f64_lt_irrefl [simp]: "\<not> f64_lt x x"
  by (simp add: f64_lt_def)

lemma f64_clamp01_range:
  "\<not> f64_nan x \<Longrightarrow> \<not> f64_lt (f64_clamp01 x) f64_zero \<and> \<not> f64_lt f64_one (f64_clamp01 x)"
proof -
  have "\<not> f64_lt f64_one f64_zero" by code_simp
  then show ?thesis
    by (auto simp: f64_clamp01_def Let_def)
qed

lemma f64_clamp01_nan: "f64_nan x \<Longrightarrow> f64_clamp01 x = x"
  by (simp add: f64_clamp01_def f64_lt_def)

lemma f64_min_le: "\<not> f64_nan a \<Longrightarrow> \<not> f64_nan b \<Longrightarrow> \<not> f64_lt a (f64_min a b) \<and> \<not> f64_lt b (f64_min a b)"
  by (auto simp: f64_min_def f64_lt_def)

lemma fill_limit_4096: "fill_limit 4096 = 2867"
proof -
  have "round53 (round53 4096 * 6305039478318694) div 2 ^ 53 = 2867" by code_simp
  then show ?thesis by (simp add: fill_limit_def)
qed

end
