(* ===== verification/LoomCore.thy ===== *)
theory LoomCore
  imports LoomFloat
begin

text \<open>
  The vocabulary of \<open>crates/loom-core\<close>: bitemporal time (\<open>time.rs\<close>), trust labels, values,
  claims and records (\<open>value.rs\<close>), the error type (\<open>error.rs\<close>, the variants the modelled
  code raises).  Text a \<open>format!\<close> call produces is a term of a message type that holds the
  arguments of the call, one constructor per format string.
\<close>

section \<open>Time (\<open>time.rs\<close>)\<close>

type_synonym timestamp = u64

record interval =
  i_start :: "timestamp option"
  i_end :: "timestamp option"

definition interval_from :: "timestamp \<Rightarrow> interval" where
  "interval_from s = \<lparr>i_start = Some s, i_end = None\<rparr>"

definition interval_between :: "timestamp \<Rightarrow> timestamp \<Rightarrow> interval" where
  "interval_between s e = \<lparr>i_start = Some s, i_end = Some e\<rparr>"

definition interval_unknown :: interval where
  "interval_unknown = \<lparr>i_start = None, i_end = None\<rparr>"

definition contains :: "interval \<Rightarrow> timestamp \<Rightarrow> bool" where
  "contains i t =
     ((case i_start i of None \<Rightarrow> True | Some s \<Rightarrow> s \<le> t)
      \<and> (case i_end i of None \<Rightarrow> True | Some e \<Rightarrow> t < e))"

definition overlaps :: "interval \<Rightarrow> interval \<Rightarrow> bool" where
  "overlaps i j =
     ((case (i_start i, i_end j) of (Some s, Some e) \<Rightarrow> s < e | _ \<Rightarrow> True)
      \<and> (case (i_start j, i_end i) of (Some s, Some e) \<Rightarrow> s < e | _ \<Rightarrow> True))"

definition closed_at :: "interval \<Rightarrow> timestamp \<Rightarrow> interval" where
  "closed_at i e = \<lparr>i_start = i_start i, i_end = Some e\<rparr>"

lemma overlaps_sym: "overlaps i j \<longleftrightarrow> overlaps j i"
  by (auto simp: overlaps_def split: option.splits)

lemma contains_overlaps: "contains i t \<Longrightarrow> contains j t \<Longrightarrow> overlaps i j"
  by (auto simp: contains_def overlaps_def split: option.splits)

text \<open>An interval is proper when its known bounds enclose at least one instant.\<close>

definition proper :: "interval \<Rightarrow> bool" where
  "proper i = (case (i_start i, i_end i) of (Some s, Some e) \<Rightarrow> s < e | _ \<Rightarrow> True)"

lemma contains_closed_at: "contains (closed_at i e) t \<longleftrightarrow>
    (case i_start i of None \<Rightarrow> True | Some s \<Rightarrow> s \<le> t) \<and> t < e"
  by (simp add: contains_def closed_at_def)

section \<open>Trust labels (\<open>value.rs\<close>)\<close>

datatype trust_class = VerifiedSystem | HumanTrust | ThirdParty | Untrusted

fun trust_rank :: "trust_class \<Rightarrow> nat" where
  "trust_rank VerifiedSystem = 0"
| "trust_rank HumanTrust = 1"
| "trust_rank ThirdParty = 2"
| "trust_rank Untrusted = 3"

lemma trust_rank_inj: "trust_rank a = trust_rank b \<Longrightarrow> a = b"
  by (cases a; cases b) auto

text \<open>The derived \<open>Ord\<close>: declaration order.\<close>

instantiation trust_class :: linorder
begin

definition less_eq_trust_class :: "trust_class \<Rightarrow> trust_class \<Rightarrow> bool" where
  "less_eq_trust_class a b = (trust_rank a \<le> trust_rank b)"

definition less_trust_class :: "trust_class \<Rightarrow> trust_class \<Rightarrow> bool" where
  "less_trust_class a b = (trust_rank a < trust_rank b)"

instance
  by standard (auto simp: less_eq_trust_class_def less_trust_class_def intro: trust_rank_inj)

end

definition most_restrictive :: "trust_class \<Rightarrow> trust_class \<Rightarrow> trust_class" where
  "most_restrictive a b = max a b"

definition least_restrictive :: trust_class where
  "least_restrictive = VerifiedSystem"

lemma least_restrictive_le [simp]: "least_restrictive \<le> a"
  by (simp add: least_restrictive_def less_eq_trust_class_def)

lemma most_restrictive_ge [simp]: "a \<le> most_restrictive a b" "b \<le> most_restrictive a b"
  by (simp_all add: most_restrictive_def)

lemma most_restrictive_least: "a \<le> c \<Longrightarrow> b \<le> c \<Longrightarrow> most_restrictive a b \<le> c"
  by (simp add: most_restrictive_def)

lemma most_restrictive_id [simp]:
  "most_restrictive least_restrictive a = a" "most_restrictive a least_restrictive = a"
  by (simp_all add: most_restrictive_def max_def order_antisym)

section \<open>Records (\<open>value.rs\<close>)\<close>

record source_ref =
  sr_system :: bytes
  sr_record_id :: bytes

text \<open>\<open>SourceRef::to_string\<close>: the system, a colon, the record id.\<close>

definition source_string :: "source_ref \<Rightarrow> bytes" where
  "source_string s = sr_system s @ '':'' @ sr_record_id s"

record observation =
  o_id :: bytes
  o_source :: source_ref
  o_trust :: trust_class
  o_observed_at :: "timestamp option"
  o_ingested_at :: timestamp
  o_payload :: bytes

datatype claim_method = Direct | Rule | Statistical | LanguageModel | Human | Imported

fun method_rank :: "claim_method \<Rightarrow> int" where
  "method_rank Direct = 5"
| "method_rank Human = 4"
| "method_rank Rule = 3"
| "method_rank Statistical = 2"
| "method_rank Imported = 1"
| "method_rank LanguageModel = 0"

record confidence =
  cf_value :: f64
  cf_method :: claim_method
  cf_calibration :: bytes

definition confidence_new :: "f64 \<Rightarrow> claim_method \<Rightarrow> bytes \<Rightarrow> confidence" where
  "confidence_new v m c = \<lparr>cf_value = f64_clamp01 v, cf_method = m, cf_calibration = c\<rparr>"

definition comparable_with :: "confidence \<Rightarrow> confidence \<Rightarrow> bool" where
  "comparable_with a b \<longleftrightarrow> cf_method a = cf_method b \<and> cf_calibration a = cf_calibration b"

definition combine :: "confidence \<Rightarrow> confidence \<Rightarrow> confidence option" where
  "combine a b =
     (if \<not> comparable_with a b then None
      else Some (confidence_new (f64_min (cf_value a) (cf_value b)) (cf_method a) (cf_calibration a)))"

datatype claim_status = Asserted | Superseded | Contradicted | Stale | Invalidated | Expired

datatype val = Blob bytes | Counter i64 | SetV "bytes set" | BoolV bool | Text bytes | Number f64

record claim =
  c_id :: bytes
  c_predicate :: bytes
  c_subject :: bytes
  c_object :: val
  c_valid :: interval
  c_known :: interval
  c_confidence :: confidence
  c_evidence :: "source_ref list"
  c_status :: claim_status
  c_policy :: "bytes option"
  c_actor :: bytes

definition is_action_eligible :: "claim \<Rightarrow> bool" where
  "is_action_eligible c \<longleftrightarrow> c_evidence c \<noteq> [] \<and> c_status c = Asserted"

datatype ineligibility = Unsupported bytes | IsStale bytes | WrongStatus bytes claim_status

definition ineligibility_reason :: "claim \<Rightarrow> ineligibility option" where
  "ineligibility_reason c =
     (if c_evidence c = [] then Some (Unsupported (c_id c))
      else case c_status c of
             Asserted \<Rightarrow> None
           | Stale \<Rightarrow> Some (IsStale (c_id c))
           | s \<Rightarrow> Some (WrongStatus (c_id c) s))"

definition provenance_rank :: "claim \<Rightarrow> int \<times> int" where
  "provenance_rank c = (method_rank (cf_method (c_confidence c)), f64_micro (cf_value (c_confidence c)))"

text \<open>The order of the derived \<open>Ord\<close> on pairs.\<close>

definition rank_gt :: "int \<times> int \<Rightarrow> int \<times> int \<Rightarrow> bool" where
  "rank_gt p q \<longleftrightarrow> fst q < fst p \<or> (fst p = fst q \<and> snd q < snd p)"

definition is_additive :: "val \<Rightarrow> bool" where
  "is_additive v = (case v of Counter _ \<Rightarrow> True | SetV _ \<Rightarrow> True | _ \<Rightarrow> False)"

datatype record_t = RObservation observation | RClaim claim | RValue val

subsection \<open>Derived \<open>PartialEq\<close>\<close>

definition confidence_eq :: "confidence \<Rightarrow> confidence \<Rightarrow> bool" where
  "confidence_eq a b \<longleftrightarrow> f64_eq (cf_value a) (cf_value b) \<and> cf_method a = cf_method b
     \<and> cf_calibration a = cf_calibration b"

fun value_eq :: "val \<Rightarrow> val \<Rightarrow> bool" where
  "value_eq (Number x) (Number y) = f64_eq x y"
| "value_eq v w = (v = w)"

definition claim_eq :: "claim \<Rightarrow> claim \<Rightarrow> bool" where
  "claim_eq a b \<longleftrightarrow> c_id a = c_id b \<and> c_predicate a = c_predicate b \<and> c_subject a = c_subject b
     \<and> value_eq (c_object a) (c_object b) \<and> c_valid a = c_valid b \<and> c_known a = c_known b
     \<and> confidence_eq (c_confidence a) (c_confidence b) \<and> c_evidence a = c_evidence b
     \<and> c_status a = c_status b \<and> c_policy a = c_policy b \<and> c_actor a = c_actor b"

fun record_eq :: "record_t \<Rightarrow> record_t \<Rightarrow> bool" where
  "record_eq (RObservation a) (RObservation b) = (a = b)"
| "record_eq (RClaim a) (RClaim b) = claim_eq a b"
| "record_eq (RValue a) (RValue b) = value_eq a b"
| "record_eq _ _ = False"

text \<open>\<open>Option<&Record>\<close> equality.\<close>

fun opt_eq :: "record_t option \<Rightarrow> record_t option \<Rightarrow> bool" where
  "opt_eq None None = True"
| "opt_eq (Some a) (Some b) = record_eq a b"
| "opt_eq _ _ = False"

text \<open>A record that holds no NaN: equality is an equivalence exactly on these.\<close>

fun value_ok :: "val \<Rightarrow> bool" where
  "value_ok (Number x) = (\<not> f64_nan x)"
| "value_ok _ = True"

fun record_ok :: "record_t \<Rightarrow> bool" where
  "record_ok (RClaim c) = (value_ok (c_object c) \<and> \<not> f64_nan (cf_value (c_confidence c)))"
| "record_ok (RValue v) = value_ok v"
| "record_ok (RObservation _) = True"

definition opt_ok :: "record_t option \<Rightarrow> bool" where
  "opt_ok r = (case r of None \<Rightarrow> True | Some x \<Rightarrow> record_ok x)"

lemma value_eq_refl: "value_eq v v \<longleftrightarrow> value_ok v"
  by (cases v) (auto simp: f64_eq_refl)

lemma record_eq_refl: "record_eq r r \<longleftrightarrow> record_ok r"
  by (cases r) (auto simp: claim_eq_def confidence_eq_def value_eq_refl f64_eq_refl)

lemma opt_eq_refl: "opt_eq r r \<longleftrightarrow> opt_ok r"
  by (cases r) (auto simp: opt_ok_def record_eq_refl)

lemma value_eq_sym: "value_eq v w \<Longrightarrow> value_eq w v"
  by (cases v; cases w) (auto intro: f64_eq_sym)

lemma record_eq_sym: "record_eq r s \<Longrightarrow> record_eq s r"
  by (cases r; cases s) (auto simp: claim_eq_def confidence_eq_def intro: value_eq_sym f64_eq_sym)

lemma opt_eq_sym: "opt_eq r s \<longleftrightarrow> opt_eq s r"
  by (cases r; cases s) (auto intro: record_eq_sym)

lemma opt_eq_None [simp]: "opt_eq None r \<longleftrightarrow> r = None" "opt_eq r None \<longleftrightarrow> r = None"
  by (cases r; simp)+

subsection \<open>Descriptions\<close>

text \<open>
  \<open>Value::describe\<close> slices a long text with \<open>&t[..60]\<close>, which panics when byte 60 is in
  the middle of a UTF-8 sequence.
\<close>

datatype description =
    DBytes nat | DCounter i64 | DSet nat | DBool bool | DText bytes | DTextCut bytes nat | DNumber f64
  | DObservation source_ref trust_class
  | DClaim bytes bytes description claim_method f64 nat claim_status

definition is_char_boundary :: "bytes \<Rightarrow> nat \<Rightarrow> bool" where
  "is_char_boundary t i \<longleftrightarrow>
     i = 0 \<or> i = length t \<or> (i < length t \<and> \<not> (128 \<le> nat_of_byte (t ! i) \<and> nat_of_byte (t ! i) < 192))"

text \<open>\<open>None\<close> is the panic of the slice.\<close>

definition describe_value :: "val \<Rightarrow> description option" where
  "describe_value v =
     (case v of
        Blob b \<Rightarrow> Some (DBytes (length b))
      | Counter n \<Rightarrow> Some (DCounter n)
      | SetV s \<Rightarrow> Some (DSet (card s))
      | BoolV b \<Rightarrow> Some (DBool b)
      | Text t \<Rightarrow>
          (if length t \<le> 60 then Some (DText t)
           else if is_char_boundary t 60 then Some (DTextCut (take 60 t) (length t))
           else None)
      | Number n \<Rightarrow> Some (DNumber n))"

definition describe_record :: "record_t \<Rightarrow> description option" where
  "describe_record r =
     (case r of
        RObservation ob \<Rightarrow> Some (DObservation (o_source ob) (o_trust ob))
      | RClaim c \<Rightarrow>
          map_option (\<lambda>d. DClaim (c_predicate c) (c_subject c) d (cf_method (c_confidence c))
                            (cf_value (c_confidence c)) (length (c_evidence c)) (c_status c))
            (describe_value (c_object c))
      | RValue v \<Rightarrow> describe_value v)"

fun record_value :: "record_t \<Rightarrow> val option" where
  "record_value (RClaim c) = Some (c_object c)"
| "record_value (RValue v) = Some v"
| "record_value (RObservation _) = None"

section \<open>Errors (\<open>error.rs\<close>)\<close>

text \<open>
  The variants of \<open>LoomError\<close> the modelled code raises, with the data their messages carry,
  and \<open>Panic\<close> for an index, slice or arithmetic trap.  \<open>Diverges\<close> is an unbounded walk of
  the source; the theorems on well-formed stores show that it does not occur there.
\<close>

datatype loom_error =
    EnvelopeUnsigned bytes
  | EnvelopeSignatureInvalid bytes
  | UnknownActor bytes
  | OutOfScope bytes "bytes list"
  | NoSuchBranch bytes
  | TokenExpired bytes
  | TokenForged
  | MissingEnvelope
  | BranchExists bytes
  | DerivationCycle nat
  | CorruptNode nat bytes
  | Unauthorized
  | InvalidSecurityConfiguration bytes
  | Index bytes
  | Codec bytes bytes
  | PagerError bytes
  | StoreInUse bytes
  | Panic bytes
  | Diverges

end
