(* ===== verification/LoomTree.thy ===== *)
theory LoomTree
  imports LoomCore
begin

text \<open>
  The record store of \<open>crates/loom-branch/src/tree.rs\<close>: a B+tree whose nodes live at logical
  pages.  The pager, its pages and the serializer are outside the repository; they are the
  fields of a \<open>tree_env\<close>.  A transaction's working state is a \<open>tree\<close> record.  Every loop and
  recursion over pages takes fuel and yields \<open>Diverges\<close> without it (a corrupt store can hold a
  cycle of pages); the operations start with the number of allocated pages, and
  \<open>LoomTreeInv\<close> proves that this is enough on every well-formed tree.
\<close>

section \<open>State\<close>

datatype 'v node = Leaf "(key \<times> 'v) list" | Internal "key list" "nat list"

record meta =
  m_format_version :: nat
  m_root :: nat
  m_next_free :: nat
  m_count :: nat

definition META_PAGE :: nat where "META_PAGE = 0"
definition FORMAT_VERSION :: nat where "FORMAT_VERSION = 1"
definition SLACK :: nat where "SLACK = 24"

definition meta_empty :: meta where
  "meta_empty = \<lparr>m_format_version = FORMAT_VERSION, m_root = 1, m_next_free = 2, m_count = 0\<rparr>"

datatype page_read = PageBytes bytes | PageNotFound | PageFailed bytes

text \<open>
  What the tree uses of the pager and of the serializer: \<open>read_head\<close>, \<open>page_size\<close>, the
  refusal of a staged write, \<open>serialize\<close> and \<open>deserialize\<close> of nodes and of the metadata, and
  \<open>serialized_size\<close> of a record.
\<close>

record 'v tree_env =
  te_read_head :: "nat \<Rightarrow> page_read"
  te_page_size :: nat
  te_write_error :: "nat \<Rightarrow> bytes \<Rightarrow> bytes option"
  te_encode :: "'v node \<Rightarrow> bytes option"
  te_decode :: "bytes \<Rightarrow> bytes + 'v node"
  te_size :: "'v \<Rightarrow> nat option"
  te_encode_meta :: "meta \<Rightarrow> bytes option"
  te_decode_meta :: "bytes \<Rightarrow> bytes + meta"

record 'v tree =
  t_dirty :: "nat \<Rightarrow> 'v node option"
  t_sizes :: "nat \<Rightarrow> nat option"
  t_meta :: meta
  t_meta_dirty :: bool

section \<open>Page access\<close>

definition tree_open :: "'v tree_env \<Rightarrow> loom_error + 'v tree" where
  "tree_open E =
     (let mk = (\<lambda>m. \<lparr>t_dirty = Map.empty, t_sizes = Map.empty, t_meta = m, t_meta_dirty = False\<rparr>)
      in case te_read_head E META_PAGE of
           PageBytes b \<Rightarrow> (case te_decode_meta E b of Inl d \<Rightarrow> Inl (CorruptNode META_PAGE d)
                                                   | Inr m \<Rightarrow> Inr (mk m))
         | PageNotFound \<Rightarrow> Inr (mk meta_empty)
         | PageFailed e \<Rightarrow> Inl (PagerError e))"

definition tree_len :: "'v tree \<Rightarrow> nat" where
  "tree_len t = m_count (t_meta t)"

definition node_encode :: "'v tree_env \<Rightarrow> 'v node \<Rightarrow> loom_error + bytes" where
  "node_encode E n = (case te_encode E n of None \<Rightarrow> Inl (Codec ''encode'' ''tree node'') | Some b \<Rightarrow> Inr b)"

definition node :: "'v tree_env \<Rightarrow> 'v tree \<Rightarrow> nat \<Rightarrow> loom_error + ('v tree \<times> 'v node)" where
  "node E t p =
     (case t_dirty t p of
        Some n \<Rightarrow> Inr (t, n)
      | None \<Rightarrow>
          (case te_read_head E p of
             PageBytes b \<Rightarrow>
               (case te_decode E b of
                  Inl d \<Rightarrow> Inl (CorruptNode p d)
                | Inr n \<Rightarrow> Inr (t\<lparr>t_sizes := (t_sizes t)(p \<mapsto> length b)\<rparr>, n))
           | PageNotFound \<Rightarrow> Inr (t, Leaf [])
           | PageFailed e \<Rightarrow> Inl (PagerError e)))"

definition take_node :: "'v tree_env \<Rightarrow> 'v tree \<Rightarrow> nat \<Rightarrow> loom_error + ('v tree \<times> 'v node)" where
  "take_node E t p =
     (case t_dirty t p of
        Some n \<Rightarrow> Inr (t\<lparr>t_dirty := (t_dirty t)(p := None)\<rparr>, n)
      | None \<Rightarrow> node E t p)"

definition set_node :: "'v tree \<Rightarrow> nat \<Rightarrow> 'v node \<Rightarrow> 'v tree" where
  "set_node t p n = t\<lparr>t_sizes := (t_sizes t)(p := None), t_dirty := (t_dirty t)(p \<mapsto> n)\<rparr>"

definition set_sized :: "'v tree \<Rightarrow> nat \<Rightarrow> 'v node \<Rightarrow> nat \<Rightarrow> 'v tree" where
  "set_sized t p n s = t\<lparr>t_sizes := (t_sizes t)(p \<mapsto> s), t_dirty := (t_dirty t)(p \<mapsto> n)\<rparr>"

definition size_of :: "'v tree_env \<Rightarrow> 'v tree \<Rightarrow> nat \<Rightarrow> 'v node \<Rightarrow> loom_error + ('v tree \<times> nat)" where
  "size_of E t p n =
     (case t_sizes t p of
        Some s \<Rightarrow> Inr (t, s)
      | None \<Rightarrow> bind_r (node_encode E n) (\<lambda>b.
                 Inr (t\<lparr>t_sizes := (t_sizes t)(p \<mapsto> length b)\<rparr>, length b)))"

text \<open>The running estimate is corrected by a real encode only when it exceeds the limit; the
  result is the estimate after the check and the verdict.\<close>

definition overflowed :: "'v tree_env \<Rightarrow> 'v node \<Rightarrow> nat \<Rightarrow> loom_error + (nat \<times> bool)" where
  "overflowed E n est =
     (let limit = fill_limit (te_page_size E)
      in if est \<le> limit then Inr (est, False)
         else bind_r (node_encode E n) (\<lambda>b. Inr (length b, limit < length b)))"

definition alloc :: "'v tree \<Rightarrow> 'v tree \<times> nat" where
  "alloc t =
     (t\<lparr>t_meta := (t_meta t)\<lparr>m_next_free := m_next_free (t_meta t) + 1\<rparr>, t_meta_dirty := True\<rparr>,
      m_next_free (t_meta t))"

definition entry_cost :: "'v tree_env \<Rightarrow> key \<Rightarrow> 'v \<Rightarrow> loom_error + nat" where
  "entry_cost E k v =
     (case te_size E v of None \<Rightarrow> Inl (Codec ''size'' ''record'') | Some n \<Rightarrow> Inr (length k + n + SLACK))"

text \<open>\<open>partition_point\<close> and \<open>binary_search_by\<close> on sorted vectors.\<close>

definition child_index :: "key list \<Rightarrow> key \<Rightarrow> nat" where
  "child_index ks k = length (takeWhile (\<lambda>s. s \<le> k) ks)"

definition lower_bound :: "(key \<times> 'v) list \<Rightarrow> key \<Rightarrow> nat" where
  "lower_bound es k = length (takeWhile (\<lambda>e. fst e < k) es)"

definition found_at :: "(key \<times> 'v) list \<Rightarrow> key \<Rightarrow> nat option" where
  "found_at es k =
     (let i = lower_bound es k in if i < length es \<and> fst (es ! i) = k then Some i else None)"

definition insert_at :: "nat \<Rightarrow> 'a \<Rightarrow> 'a list \<Rightarrow> 'a list" where
  "insert_at i x xs = take i xs @ x # drop i xs"

definition remove_at :: "nat \<Rightarrow> 'a list \<Rightarrow> 'a list" where
  "remove_at i xs = take i xs @ drop (Suc i) xs"

section \<open>Operations\<close>

definition tree_fuel :: "'v tree \<Rightarrow> nat" where
  "tree_fuel t = m_next_free (t_meta t)"

primrec get_loop :: "nat \<Rightarrow> 'v tree_env \<Rightarrow> 'v tree \<Rightarrow> nat \<Rightarrow> key \<Rightarrow> loom_error + ('v tree \<times> 'v option)" where
  "get_loop 0 E t p k = Inl Diverges"
| "get_loop (Suc f) E t p k =
     bind_r (node E t p) (\<lambda>(t, n).
       case n of
         Leaf es \<Rightarrow> Inr (t, map_option (\<lambda>i. snd (es ! i)) (found_at es k))
       | Internal ks cs \<Rightarrow>
           (let i = child_index ks k
            in if length cs \<le> i then Inl (Panic ''index out of bounds'')
               else get_loop f E t (cs ! i) k))"

definition tree_get :: "'v tree_env \<Rightarrow> 'v tree \<Rightarrow> key \<Rightarrow> loom_error + ('v tree \<times> 'v option)" where
  "tree_get E t k = get_loop (tree_fuel t) E t (m_root (t_meta t)) k"

text \<open>The update of a leaf's entries and of the estimate, before the fullness check.\<close>

definition leaf_put :: "'v tree_env \<Rightarrow> 'v tree \<Rightarrow> (key \<times> 'v) list \<Rightarrow> nat \<Rightarrow> key \<Rightarrow> 'v
    \<Rightarrow> loom_error + ('v tree \<times> (key \<times> 'v) list \<times> nat)" where
  "leaf_put E t es est k v =
     (case found_at es k of
        Some i \<Rightarrow>
          bind_r (entry_cost E (fst (es ! i)) (snd (es ! i))) (\<lambda>old.
          bind_r (entry_cost E k v) (\<lambda>new.
            Inr (t, es[i := (fst (es ! i), v)], est - old + new)))
      | None \<Rightarrow>
          bind_r (entry_cost E k v) (\<lambda>new.
            Inr (t\<lparr>t_meta := (t_meta t)\<lparr>m_count := m_count (t_meta t) + 1\<rparr>, t_meta_dirty := True\<rparr>,
                 insert_at (lower_bound es k) (k, v) es, est + new)))"

definition leaf_split :: "'v tree_env \<Rightarrow> 'v tree \<Rightarrow> nat \<Rightarrow> (key \<times> 'v) list
    \<Rightarrow> loom_error + ('v tree \<times> (key \<times> nat) option)" where
  "leaf_split E t p es =
     (let mid = length es div 2; left = take mid es; right = drop mid es
      in case right of
           [] \<Rightarrow> Inl (CorruptNode p ''a single record does not fit in a page'')
         | e # _ \<Rightarrow>
             (let (t, r) = alloc t
              in bind_r (node_encode E (Leaf left)) (\<lambda>lb.
                 bind_r (node_encode E (Leaf right)) (\<lambda>rb.
                   Inr (set_sized (set_sized t p (Leaf left) (length lb)) r (Leaf right) (length rb),
                        Some (fst e, r))))))"

definition leaf_insert :: "'v tree_env \<Rightarrow> 'v tree \<Rightarrow> nat \<Rightarrow> (key \<times> 'v) list \<Rightarrow> key \<Rightarrow> 'v
    \<Rightarrow> loom_error + ('v tree \<times> (key \<times> nat) option)" where
  "leaf_insert E t p es k v =
     bind_r (size_of E t p (Leaf es)) (\<lambda>(t, est).
     bind_r (leaf_put E t es est k v) (\<lambda>(t, es, est).
     bind_r (overflowed E (Leaf es) est) (\<lambda>(est, full).
       if \<not> full then Inr (set_sized t p (Leaf es) est, None) else leaf_split E t p es)))"

text \<open>A node whose child has split: one more separator and child, and a split of its own when
  it no longer fits; the middle separator moves up.\<close>

definition internal_insert :: "'v tree_env \<Rightarrow> 'v tree \<Rightarrow> nat \<Rightarrow> key list \<Rightarrow> nat list
    \<Rightarrow> loom_error + ('v tree \<times> (key \<times> nat) option)" where
  "internal_insert E t p ks cs =
     bind_r (node_encode E (Internal ks cs)) (\<lambda>b.
     bind_r (overflowed E (Internal ks cs) (length b)) (\<lambda>(est, full).
       if \<not> full then Inr (set_sized t p (Internal ks cs) est, None)
       else
         (let mid = length ks div 2
          in if length ks \<le> mid then Inl (Panic ''index out of bounds'')
             else
               (let sep = ks ! mid; (t, r) = alloc t;
                    t = set_node t p (Internal (take mid ks) (take (Suc mid) cs));
                    t = set_node t r (Internal (drop (Suc mid) ks) (drop (Suc mid) cs))
                in Inr (t, Some (sep, r))))))"

primrec insert_into :: "nat \<Rightarrow> 'v tree_env \<Rightarrow> 'v tree \<Rightarrow> nat \<Rightarrow> key \<Rightarrow> 'v
    \<Rightarrow> loom_error + ('v tree \<times> (key \<times> nat) option)" where
  "insert_into 0 E t p k v = Inl Diverges"
| "insert_into (Suc f) E t p k v =
     bind_r (take_node E t p) (\<lambda>(t, n).
       case n of
         Leaf es \<Rightarrow> leaf_insert E t p es k v
       | Internal ks cs \<Rightarrow>
           (let i = child_index ks k
            in if length cs \<le> i then Inl (Panic ''index out of bounds'')
               else bind_r (insert_into f E t (cs ! i) k v) (\<lambda>(t, split).
                 case split of
                   None \<Rightarrow> Inr (t\<lparr>t_dirty := (t_dirty t)(p \<mapsto> Internal ks cs)\<rparr>, None)
                 | Some (sep, r) \<Rightarrow> internal_insert E t p (insert_at i sep ks) (insert_at (Suc i) r cs))))"

definition tree_insert :: "'v tree_env \<Rightarrow> 'v tree \<Rightarrow> key \<Rightarrow> 'v \<Rightarrow> loom_error + 'v tree" where
  "tree_insert E t k v =
     (let root = m_root (t_meta t)
      in bind_r (insert_into (tree_fuel t) E t root k v) (\<lambda>(t, split).
           case split of
             None \<Rightarrow> Inr t
           | Some (sep, r) \<Rightarrow>
               (let (t, nr) = alloc t; t = set_node t nr (Internal [sep] [root, r])
                in Inr (t\<lparr>t_meta := (t_meta t)\<lparr>m_root := nr\<rparr>, t_meta_dirty := True\<rparr>))))"

primrec remove_loop :: "nat \<Rightarrow> 'v tree_env \<Rightarrow> 'v tree \<Rightarrow> nat \<Rightarrow> key \<Rightarrow> loom_error + ('v tree \<times> bool)" where
  "remove_loop 0 E t p k = Inl Diverges"
| "remove_loop (Suc f) E t p k =
     bind_r (node E t p) (\<lambda>(t, n).
       case n of
         Leaf es \<Rightarrow>
           (case found_at es k of
              None \<Rightarrow> Inr (t, False)
            | Some i \<Rightarrow>
                (let t = set_node t p (Leaf (remove_at i es))
                 in Inr (t\<lparr>t_meta := (t_meta t)\<lparr>m_count := m_count (t_meta t) - 1\<rparr>,
                           t_meta_dirty := True\<rparr>, True)))
       | Internal ks cs \<Rightarrow>
           (let i = child_index ks k
            in if length cs \<le> i then Inl (Panic ''index out of bounds'')
               else remove_loop f E t (cs ! i) k))"

definition tree_remove :: "'v tree_env \<Rightarrow> 'v tree \<Rightarrow> key \<Rightarrow> loom_error + ('v tree \<times> bool)" where
  "tree_remove E t k = remove_loop (tree_fuel t) E t (m_root (t_meta t)) k"

text \<open>The loop over a node's children, shared by the two traversals.\<close>

fun each_child :: "('v tree \<Rightarrow> 'c \<Rightarrow> loom_error + ('v tree \<times> 'a list)) \<Rightarrow> 'v tree \<Rightarrow> 'c list
    \<Rightarrow> loom_error + ('v tree \<times> 'a list)" where
  "each_child g t [] = Inr (t, [])"
| "each_child g t (c # cs) =
     bind_r (g t c) (\<lambda>(t, xs). bind_r (each_child g t cs) (\<lambda>(t, ys). Inr (t, xs @ ys)))"

primrec collect :: "nat \<Rightarrow> 'v tree_env \<Rightarrow> 'v tree \<Rightarrow> nat \<Rightarrow> loom_error + ('v tree \<times> (key \<times> 'v) list)" where
  "collect 0 E t p = Inl Diverges"
| "collect (Suc f) E t p =
     bind_r (node E t p) (\<lambda>(t, n).
       case n of Leaf es \<Rightarrow> Inr (t, es) | Internal ks cs \<Rightarrow> each_child (collect f E) t cs)"

definition tree_scan :: "'v tree_env \<Rightarrow> 'v tree \<Rightarrow> loom_error + ('v tree \<times> (key \<times> 'v) list)" where
  "tree_scan E t = collect (tree_fuel t) E t (m_root (t_meta t))"

definition prefix_upper :: "bytes \<Rightarrow> bytes option" where
  "prefix_upper p =
     (case dropWhile (\<lambda>c. nat_of_byte c = 255) (rev p) of
        [] \<Rightarrow> None
      | c # cs \<Rightarrow> Some (rev (byte_of (nat_of_byte c + 1) # cs)))"

definition in_range :: "key \<Rightarrow> key option \<Rightarrow> key \<Rightarrow> bool" where
  "in_range lo hi k \<longleftrightarrow> lo \<le> k \<and> (case hi of None \<Rightarrow> True | Some h \<Rightarrow> k < h)"

text \<open>The children of a node whose key range meets \<open>[lo, hi)\<close>.\<close>

fun range_children :: "key \<Rightarrow> key option \<Rightarrow> key option \<Rightarrow> key list \<Rightarrow> nat list \<Rightarrow> nat list" where
  "range_children lo hi lower ks [] = []"
| "range_children lo hi lower ks (c # cs) =
     (let upper = (case ks of [] \<Rightarrow> None | u # _ \<Rightarrow> Some u);
          below_hi = (case (lower, hi) of (Some l, Some h) \<Rightarrow> l < h | _ \<Rightarrow> True);
          above_lo = (case upper of None \<Rightarrow> True | Some u \<Rightarrow> lo < u);
          rest = range_children lo hi (case ks of [] \<Rightarrow> None | u # _ \<Rightarrow> Some u) (tl ks) cs
      in if below_hi \<and> above_lo then c # rest else rest)"

primrec collect_range :: "nat \<Rightarrow> 'v tree_env \<Rightarrow> key \<Rightarrow> key option \<Rightarrow> 'v tree \<Rightarrow> nat
    \<Rightarrow> loom_error + ('v tree \<times> (key \<times> 'v) list)" where
  "collect_range 0 E lo hi t p = Inl Diverges"
| "collect_range (Suc f) E lo hi t p =
     bind_r (node E t p) (\<lambda>(t, n).
       case n of
         Leaf es \<Rightarrow> Inr (t, filter (\<lambda>e. in_range lo hi (fst e)) es)
       | Internal ks cs \<Rightarrow> each_child (collect_range f E lo hi) t (range_children lo hi None ks cs))"

definition tree_scan_prefix :: "'v tree_env \<Rightarrow> 'v tree \<Rightarrow> bytes \<Rightarrow> loom_error + ('v tree \<times> (key \<times> 'v) list)" where
  "tree_scan_prefix E t pre = collect_range (tree_fuel t) E pre (prefix_upper pre) t (m_root (t_meta t))"

text \<open>The merge prefilter: a page that does not read or decode contributes nothing.\<close>

fun page_keys :: "'v tree_env \<Rightarrow> 'v tree \<Rightarrow> nat list \<Rightarrow> 'v tree \<times> key list" where
  "page_keys E t [] = (t, [])"
| "page_keys E t (p # ps) =
     (if p = META_PAGE then page_keys E t ps
      else case node E t p of
             Inl _ \<Rightarrow> page_keys E t ps
           | Inr (t, n) \<Rightarrow>
               (let (t, ks) = page_keys E t ps
                in (t, (case n of Leaf es \<Rightarrow> map fst es | Internal _ _ \<Rightarrow> []) @ ks)))"

definition keys_in_pages :: "'v tree_env \<Rightarrow> 'v tree \<Rightarrow> nat list \<Rightarrow> 'v tree \<times> key list" where
  "keys_in_pages E t ps = (let (t, ks) = page_keys E t ps in (t, remdups_adj (sort ks)))"

text \<open>The writes a flush stages, in page order, the metadata last.\<close>

fun stage :: "'v tree_env \<Rightarrow> 'v tree \<Rightarrow> nat list \<Rightarrow> loom_error + (nat \<times> bytes) list" where
  "stage E t [] =
     (if t_meta_dirty t then
        (case te_encode_meta E (t_meta t) of
           None \<Rightarrow> Inl (Codec ''encode'' ''tree metadata'')
         | Some b \<Rightarrow> (case te_write_error E META_PAGE b of Some e \<Rightarrow> Inl (PagerError e)
                                                        | None \<Rightarrow> Inr [(META_PAGE, b)]))
      else Inr [])"
| "stage E t (p # ps) =
     (case t_dirty t p of
        None \<Rightarrow> stage E t ps
      | Some n \<Rightarrow>
          bind_r (node_encode E n) (\<lambda>b.
            case te_write_error E p b of
              Some e \<Rightarrow> Inl (PagerError e)
            | None \<Rightarrow> bind_r (stage E t ps) (\<lambda>ws. Inr ((p, b) # ws))))"

definition tree_flush :: "'v tree_env \<Rightarrow> 'v tree \<Rightarrow> loom_error + (nat \<times> bytes) list" where
  "tree_flush E t = stage E t (sorted_list_of_set (dom (t_dirty t)))"

end
