(* ===== verification/LoomSorted.thy ===== *)
theory LoomSorted
  imports LoomTree
begin

text \<open>
  The reference specification of an ordered key-value list and the facts on sorted lists that
  the tree proofs share: \<open>put\<close>, \<open>del\<close> and \<open>map_of\<close> on strictly sorted association lists, and
  the meaning of the positions \<open>lower_bound\<close>, \<open>found_at\<close> and \<open>child_index\<close> compute.
\<close>

abbreviation skeys :: "(key \<times> 'v) list \<Rightarrow> bool" where
  "skeys es \<equiv> sorted_wrt (<) (map fst es)"

fun put :: "key \<Rightarrow> 'v \<Rightarrow> (key \<times> 'v) list \<Rightarrow> (key \<times> 'v) list" where
  "put k v [] = [(k, v)]"
| "put k v (e # es) =
     (if k < fst e then (k, v) # e # es else if k = fst e then (k, v) # es else e # put k v es)"

definition del :: "key \<Rightarrow> (key \<times> 'v) list \<Rightarrow> (key \<times> 'v) list" where
  "del k es = filter (\<lambda>e. fst e \<noteq> k) es"

lemma keys_put: "fst ` set (put k v es) = insert k (fst ` set es)"
  by (induction es) auto

lemma skeys_put: "skeys es \<Longrightarrow> skeys (put k v es)"
proof (induction es)
  case (Cons e es)
  show ?case
  proof (cases "k < fst e \<or> k = fst e")
    case True
    with Cons.prems show ?thesis by auto
  next
    case False
    then have "fst e < k" by auto
    moreover have "x \<in> set (map fst (put k v es)) \<Longrightarrow> fst e < x" for x
      using Cons.prems \<open>fst e < k\<close> keys_put [of k v es] by fastforce
    ultimately show ?thesis using False Cons by auto
  qed
qed simp

lemma map_of_put: "skeys es \<Longrightarrow> map_of (put k v es) = (map_of es)(k \<mapsto> v)"
proof (induction es)
  case (Cons e es)
  then show ?case by (cases e) (auto simp: fun_upd_twist)
qed simp

lemma map_of_skeys_Some: "skeys es \<Longrightarrow> map_of es k = Some v \<longleftrightarrow> (k, v) \<in> set es"
  by (rule map_of_eq_Some_iff) (simp add: strict_sorted_iff)

lemma map_of_del: "map_of (del k es) = (map_of es)(k := None)"
  unfolding del_def by (induction es) auto

lemma skeys_del: "skeys es \<Longrightarrow> skeys (del k es)"
  unfolding del_def by (induction es) auto

lemma put_append_right:
  assumes "\<forall>x\<in>fst ` set xs. x < k"
  shows "put k v (xs @ ys) = xs @ put k v ys"
  using assms by (induction xs) auto

lemma put_append_left:
  assumes "\<forall>x\<in>fst ` set zs. k < x"
  shows "put k v (ys @ zs) = put k v ys @ zs"
proof (induction ys)
  case Nil
  show ?case using assms by (cases zs) auto
qed auto

lemma put_middle:
  assumes "\<forall>x\<in>fst ` set xs. x < k" and "\<forall>x\<in>fst ` set zs. k < x"
  shows "put k v (xs @ ys @ zs) = xs @ put k v ys @ zs"
  using assms by (simp add: put_append_right put_append_left)

lemma del_middle:
  assumes "\<forall>x\<in>fst ` set xs. x < k" and "\<forall>x\<in>fst ` set zs. k < x"
  shows "del k (xs @ ys @ zs) = xs @ del k ys @ zs"
proof -
  have "del k xs = xs" "del k zs = zs"
    using assms unfolding del_def by (auto intro!: filter_True)
  then show ?thesis by (simp add: del_def)
qed

section \<open>Positions\<close>

lemma takeWhile_split:
  obtains ys zs where "xs = ys @ zs" "length (takeWhile P xs) = length ys" "\<forall>y\<in>set ys. P y"
    "zs \<noteq> [] \<Longrightarrow> \<not> P (hd zs)"
  by (metis hd_dropWhile set_takeWhileD takeWhile_dropWhile_id)

text \<open>A sorted leaf splits at a key into the entries below, the entry at it, and those above.\<close>

lemma leaf_at:
  assumes "skeys es"
  obtains xs zs where
    "found_at es k = None" "lower_bound es k = length xs" "es = xs @ zs"
    "\<forall>x\<in>fst ` set xs. x < k" "\<forall>x\<in>fst ` set zs. k < x"
  | xs e zs where
    "found_at es k = Some (length xs)" "fst e = k" "es = xs @ e # zs"
    "\<forall>x\<in>fst ` set xs. x < k" "\<forall>x\<in>fst ` set zs. k < x"
proof -
  obtain xs zs where es: "es = xs @ zs" and len: "lower_bound es k = length xs"
    and low: "\<forall>y\<in>set xs. fst y < k" and hd: "zs \<noteq> [] \<Longrightarrow> \<not> fst (hd zs) < k"
    using takeWhile_split [of es "\<lambda>e. fst e < k"] unfolding lower_bound_def by metis
  show thesis
  proof (cases "zs \<noteq> [] \<and> fst (hd zs) = k")
    case True
    then obtain e zs' where zs: "zs = e # zs'" "fst e = k" by (cases zs) auto
    then have "found_at es k = Some (length xs)"
      using es len by (simp add: found_at_def)
    moreover have "\<forall>x\<in>fst ` set zs'. k < x"
      using assms es zs by (auto simp: sorted_wrt_append)
    ultimately show thesis using that(2) es zs low by auto
  next
    case False
    have "\<forall>x\<in>fst ` set zs. k < x"
    proof (cases zs)
      case (Cons e zs')
      with False hd have "k < fst e" by auto
      then show ?thesis using assms es Cons by (auto simp: sorted_wrt_append)
    qed simp
    moreover have "found_at es k = None"
      using es len False by (cases zs) (auto simp: found_at_def)
    ultimately show thesis using that(1) es len low by auto
  qed
qed

lemma map_of_append_above: "\<forall>x\<in>fst ` set zs. (k :: key) < x \<Longrightarrow> map_of zs k = None"
  unfolding map_of_eq_None_iff by (metis less_irrefl)

lemma map_of_append_below: "\<forall>x\<in>fst ` set xs. x < (k :: key) \<Longrightarrow> map_of xs k = None"
  unfolding map_of_eq_None_iff by (metis less_irrefl)

lemma leaf_lookup:
  assumes "skeys es"
  shows "map_option (\<lambda>i. snd (es ! i)) (found_at es k) = map_of es k"
  by (rule leaf_at [OF assms, of k])
    (auto simp: map_add_def map_of_append_above map_of_append_below prod_eq_iff split: option.splits)

lemma leaf_update:
  assumes "skeys es"
  shows "put k v es = (case found_at es k of
            Some i \<Rightarrow> es[i := (fst (es ! i), v)] | None \<Rightarrow> insert_at (lower_bound es k) (k, v) es)"
proof (rule leaf_at [OF assms, of k])
  fix xs zs
  assume *: "found_at es k = None" "lower_bound es k = length xs" "es = xs @ zs"
    "\<forall>x\<in>fst ` set xs. x < k" "\<forall>x\<in>fst ` set zs. k < x"
  then have "put k v (xs @ [] @ zs) = xs @ [(k, v)] @ zs"
    using put_middle [of xs k zs v "[]"] by simp
  with * show ?thesis by (simp add: insert_at_def)
next
  fix xs e zs
  assume *: "found_at es k = Some (length xs)" "fst e = k" "es = xs @ e # zs"
    "\<forall>x\<in>fst ` set xs. x < k" "\<forall>x\<in>fst ` set zs. k < x"
  then show ?thesis
    using put_middle [of xs k zs v "[e]"] by simp
qed

lemma leaf_remove:
  assumes "skeys es" and "found_at es k = Some i"
  shows "remove_at i es = del k es"
proof (rule leaf_at [OF assms(1), of k])
  fix xs e zs
  assume *: "found_at es k = Some (length xs)" "fst e = k" "es = xs @ e # zs"
    "\<forall>x\<in>fst ` set xs. x < k" "\<forall>x\<in>fst ` set zs. k < x"
  then show ?thesis
    using assms(2) del_middle [of xs k zs "[e]"] by (simp add: remove_at_def del_def)
qed (use assms in auto)

lemma found_at_iff: "skeys es \<Longrightarrow> found_at es k = None \<longleftrightarrow> k \<notin> fst ` set es"
  by (erule leaf_at [of es k]) auto

text \<open>The separators below and above a key, and the child between them.\<close>

lemma child_split:
  assumes "sorted ks" and "length cs = Suc (length ks)"
  obtains ks1 ks2 cs1 c cs2 where
    "ks = ks1 @ ks2" "cs = cs1 @ c # cs2" "child_index ks k = length cs1"
    "length cs1 = length ks1" "length cs2 = length ks2"
    "\<forall>s\<in>set ks1. s \<le> k" "\<forall>s\<in>set ks2. k < s"
proof -
  obtain ks1 ks2 where ks: "ks = ks1 @ ks2" and len: "child_index ks k = length ks1"
    and low: "\<forall>y\<in>set ks1. y \<le> k" and hd: "ks2 \<noteq> [] \<Longrightarrow> \<not> hd ks2 \<le> k"
    using takeWhile_split [of ks "\<lambda>s. s \<le> k"] unfolding child_index_def by metis
  have high: "\<forall>s\<in>set ks2. k < s"
    using assms(1) ks hd by (cases ks2) (auto simp: sorted_append)
  have "length ks1 < length cs" using assms(2) ks by simp
  then have cs: "cs = take (length ks1) cs @ cs ! length ks1 # drop (Suc (length ks1)) cs"
    by (rule id_take_nth_drop)
  show thesis
    by (rule that [OF ks cs]) (use assms(2) ks len low high in auto)
qed

end
