(* ===== verification/LoomTreeInv.thy ===== *)
theory LoomTreeInv
  imports LoomSorted
begin

text \<open>
  The invariant of the B+tree, its abstraction to a sorted list of entries, and the correctness of
  every operation of \<open>LoomTree\<close> against \<open>put\<close>, \<open>del\<close> and \<open>map_of\<close>: what each returns,
  that it keeps the invariant, and that it never runs out of fuel on a well-formed tree.
\<close>

section \<open>What a transaction sees\<close>

definition base_view :: "'v tree_env \<Rightarrow> nat \<Rightarrow> 'v node option" where
  "base_view E p =
     (case te_read_head E p of
        PageBytes b \<Rightarrow> (case te_decode E b of Inl _ \<Rightarrow> None | Inr n \<Rightarrow> Some n)
      | PageNotFound \<Rightarrow> Some (Leaf [])
      | PageFailed _ \<Rightarrow> None)"

definition view :: "'v tree_env \<Rightarrow> 'v tree \<Rightarrow> nat \<Rightarrow> 'v node option" where
  "view E t p = (case t_dirty t p of Some n \<Rightarrow> Some n | None \<Rightarrow> base_view E p)"

lemma view_sizes [simp]: "view E (t\<lparr>t_sizes := s\<rparr>) = view E t"
  and view_meta [simp]: "view E (t\<lparr>t_meta := m\<rparr>) = view E t"
  and view_meta_dirty [simp]: "view E (t\<lparr>t_meta_dirty := d\<rparr>) = view E t"
  by (simp_all add: view_def fun_eq_iff)

lemma view_dirty [simp]:
  "view E (t\<lparr>t_dirty := (t_dirty t)(p \<mapsto> n)\<rparr>) = (view E t)(p \<mapsto> n)"
  by (simp add: view_def fun_eq_iff)

lemma view_set_sized [simp]: "view E (set_sized t p n s) = (view E t)(p \<mapsto> n)"
  and view_set_node [simp]: "view E (set_node t p n) = (view E t)(p \<mapsto> n)"
  by (simp_all add: set_sized_def set_node_def view_def fun_eq_iff)

lemma meta_set [simp]:
  "t_meta (set_sized t p n s) = t_meta t" "t_meta (set_node t p n) = t_meta t"
  "t_meta_dirty (set_sized t p n s) = t_meta_dirty t" "t_meta_dirty (set_node t p n) = t_meta_dirty t"
  by (simp_all add: set_sized_def set_node_def)

text \<open>Reading a node changes the size cache only.\<close>

definition cached :: "'v tree \<Rightarrow> 'v tree \<Rightarrow> bool" where
  "cached t t' \<longleftrightarrow> t_dirty t' = t_dirty t \<and> t_meta t' = t_meta t \<and> t_meta_dirty t' = t_meta_dirty t"

lemma cached_refl [simp]: "cached t t"
  by (simp add: cached_def)

lemma cached_trans [trans]: "cached t t' \<Longrightarrow> cached t' t'' \<Longrightarrow> cached t t''"
  by (simp add: cached_def)

lemma cached_view: "cached t t' \<Longrightarrow> view E t' = view E t"
  and cached_meta: "cached t t' \<Longrightarrow> t_meta t' = t_meta t"
  by (simp_all add: cached_def view_def fun_eq_iff)

lemma node_view: "node E t p = Inr (t', n) \<Longrightarrow> view E t p = Some n \<and> cached t t'"
  by (auto simp: node_def view_def base_view_def cached_def split: option.splits page_read.splits sum.splits)

lemma view_node: "view E t p = Some n \<Longrightarrow> \<exists>t'. node E t p = Inr (t', n) \<and> cached t t'"
  by (auto simp: node_def view_def base_view_def cached_def split: option.splits page_read.splits sum.splits)

section \<open>Well-formed trees\<close>

fun in_lo :: "key option \<Rightarrow> key \<Rightarrow> bool" where
  "in_lo None k = True" | "in_lo (Some l) k = (l \<le> k)"

fun in_hi :: "key option \<Rightarrow> key \<Rightarrow> bool" where
  "in_hi None k = True" | "in_hi (Some h) k = (k < h)"

definition within :: "key option \<Rightarrow> key option \<Rightarrow> key \<Rightarrow> bool" where
  "within lo hi k \<longleftrightarrow> in_lo lo k \<and> in_hi hi k"

text \<open>A separator may equal the bounds of its node: a leaf of one oversize record splits into an
  empty left half and a right half that starts at the same key as before.\<close>

fun below_hi :: "key option \<Rightarrow> key \<Rightarrow> bool" where
  "below_hi None k = True" | "below_hi (Some h) k = (k \<le> h)"

definition sep_ok :: "key option \<Rightarrow> key option \<Rightarrow> key \<Rightarrow> bool" where
  "sep_ok lo hi s \<longleftrightarrow> in_lo lo s \<and> below_hi hi s"

text \<open>The children between two bounds, one range per child.\<close>

fun wf_children :: "(key option \<Rightarrow> key option \<Rightarrow> nat \<Rightarrow> bool) \<Rightarrow> key option \<Rightarrow> key option
    \<Rightarrow> key list \<Rightarrow> nat list \<Rightarrow> bool" where
  "wf_children P lo hi [] [c] = P lo hi c"
| "wf_children P lo hi (k # ks) (c # cs) = (P lo (Some k) c \<and> wf_children P (Some k) hi ks cs)"
| "wf_children P lo hi _ _ = False"

primrec wf_tree :: "(nat \<Rightarrow> 'v node option) \<Rightarrow> nat \<Rightarrow> key option \<Rightarrow> key option \<Rightarrow> nat \<Rightarrow> bool" where
  "wf_tree N 0 lo hi p =
     (case N p of Some (Leaf es) \<Rightarrow> skeys es \<and> (\<forall>k\<in>fst ` set es. within lo hi k) | _ \<Rightarrow> False)"
| "wf_tree N (Suc h) lo hi p =
     (case N p of
        Some (Internal ks cs) \<Rightarrow> sorted ks \<and> (\<forall>s\<in>set ks. sep_ok lo hi s) \<and> wf_children (wf_tree N h) lo hi ks cs
      | _ \<Rightarrow> False)"

definition children :: "(nat \<Rightarrow> 'v node option) \<Rightarrow> nat \<Rightarrow> nat list" where
  "children N p = (case N p of Some (Internal ks cs) \<Rightarrow> cs | _ \<Rightarrow> [])"

primrec pages :: "(nat \<Rightarrow> 'v node option) \<Rightarrow> nat \<Rightarrow> nat \<Rightarrow> nat list" where
  "pages N 0 p = [p]"
| "pages N (Suc h) p = p # concat (map (pages N h) (children N p))"

primrec ents :: "(nat \<Rightarrow> 'v node option) \<Rightarrow> nat \<Rightarrow> nat \<Rightarrow> (key \<times> 'v) list" where
  "ents N 0 p = (case N p of Some (Leaf es) \<Rightarrow> es | _ \<Rightarrow> [])"
| "ents N (Suc h) p = concat (map (ents N h) (children N p))"

lemma wf_children_length: "wf_children P lo hi ks cs \<Longrightarrow> length cs = Suc (length ks)"
  by (induction P lo hi ks cs rule: wf_children.induct) auto

lemma wf_children_mono:
  "(\<And>lo hi c. c \<in> set cs \<Longrightarrow> P lo hi c \<Longrightarrow> Q lo hi c) \<Longrightarrow> wf_children P lo hi ks cs
   \<Longrightarrow> wf_children Q lo hi ks cs"
  by (induction P lo hi ks cs rule: wf_children.induct) auto

text \<open>The children left and right of a position.\<close>

fun wf_left :: "(key option \<Rightarrow> key option \<Rightarrow> nat \<Rightarrow> bool) \<Rightarrow> key option \<Rightarrow> key list \<Rightarrow> nat list \<Rightarrow> bool" where
  "wf_left P lo [] [] = True"
| "wf_left P lo (k # ks) (c # cs) = (P lo (Some k) c \<and> wf_left P (Some k) ks cs)"
| "wf_left P lo _ _ = False"

definition lo_of :: "key option \<Rightarrow> key list \<Rightarrow> key option" where
  "lo_of lo ks = (if ks = [] then lo else Some (last ks))"

definition hi_of :: "key option \<Rightarrow> key list \<Rightarrow> key option" where
  "hi_of hi ks = (case ks of [] \<Rightarrow> hi | k # _ \<Rightarrow> Some k)"

fun wf_right :: "(key option \<Rightarrow> key option \<Rightarrow> nat \<Rightarrow> bool) \<Rightarrow> key option \<Rightarrow> key list \<Rightarrow> nat list \<Rightarrow> bool" where
  "wf_right P hi [] [] = True"
| "wf_right P hi (k # ks) (c # cs) = (P (Some k) (hi_of hi ks) c \<and> wf_right P hi ks cs)"
| "wf_right P hi _ _ = False"

lemma lo_of_simps [simp]: "lo_of lo [] = lo" "lo_of (Some k) ks = lo_of lo (k # ks)"
  by (auto simp: lo_of_def)

lemma hi_of_simps [simp]: "hi_of hi [] = hi" "hi_of hi (k # ks) = Some k"
  by (auto simp: hi_of_def)

lemma wf_children_right:
  "wf_children P lo hi ks (c # cs) \<longleftrightarrow> P lo (hi_of hi ks) c \<and> wf_right P hi ks cs"
proof (induction ks arbitrary: lo c cs)
  case Nil
  show ?case by (cases cs) auto
next
  case (Cons k ks)
  show ?case by (cases cs) (auto simp: Cons)
qed

lemma wf_children_append_right:
  assumes "length cs = Suc (length ks)"
  shows "wf_children P lo hi (ks @ ks2) (cs @ cs2) \<longleftrightarrow>
     wf_children P lo (hi_of hi ks2) ks cs \<and> wf_right P hi ks2 cs2"
  using assms
proof (induction ks arbitrary: lo cs)
  case Nil
  then obtain c where "cs = [c]" by (cases cs) auto
  then show ?case by (simp add: wf_children_right)
next
  case (Cons k ks)
  then obtain c cs' where "cs = c # cs'" "length cs' = Suc (length ks)" by (cases cs) auto
  with Cons show ?case by simp
qed

lemma wf_children_segment:
  assumes "length cs1 = length ks1" and "length cs = Suc (length ks)"
  shows "wf_children P lo hi (ks1 @ ks @ ks2) (cs1 @ cs @ cs2) \<longleftrightarrow>
     wf_left P lo ks1 cs1 \<and> wf_children P (lo_of lo ks1) (hi_of hi ks2) ks cs \<and> wf_right P hi ks2 cs2"
  using assms
proof (induction cs1 ks1 arbitrary: lo rule: list_induct2)
  case Nil
  then show ?case by (simp add: wf_children_append_right)
next
  case (Cons c' cs1 k' ks1)
  then show ?case by (auto simp: lo_of_def)
qed

lemma wf_children_at:
  assumes "length cs1 = length ks1"
  shows "wf_children P lo hi (ks1 @ ks2) (cs1 @ c # cs2) \<longleftrightarrow>
     wf_left P lo ks1 cs1 \<and> P (lo_of lo ks1) (hi_of hi ks2) c \<and> wf_right P hi ks2 cs2"
  using wf_children_segment [OF assms, of "[c]" "[]"] by simp

lemma wf_children_split:
  assumes "length cl = Suc (length kl)"
  shows "wf_children P lo hi (kl @ s # kr) (cl @ cr) \<longleftrightarrow>
     wf_children P lo (Some s) kl cl \<and> wf_children P (Some s) hi kr cr"
  using assms
proof (induction kl arbitrary: lo cl)
  case Nil
  then obtain c where "cl = [c]" by (cases cl) auto
  then show ?case by simp
next
  case (Cons k kl)
  then obtain c cl' where "cl = c # cl'" "length cl' = Suc (length kl)" by (cases cl) auto
  with Cons show ?case by simp
qed

subsection \<open>Frame\<close>

lemma pages_self [simp]: "p \<in> set (pages N h p)"
  by (cases h) auto

lemma pages_child: "c \<in> set (children N p) \<Longrightarrow> set (pages N h c) \<subseteq> set (pages N (Suc h) p)"
  by auto

lemma frame:
  assumes "\<And>q. q \<in> set (pages N h p) \<Longrightarrow> N' q = N q"
  shows "wf_tree N' h lo hi p \<longleftrightarrow> wf_tree N h lo hi p" and "pages N' h p = pages N h p"
    and "ents N' h p = ents N h p"
proof -
  have "pages N' h p = pages N h p \<and> ents N' h p = ents N h p \<and> (\<forall>lo hi. wf_tree N' h lo hi p = wf_tree N h lo hi p)"
    using assms
  proof (induction h arbitrary: p)
    case (Suc h)
    have Np: "N' p = N p" using Suc.prems by simp
    then have ch: "children N' p = children N p" by (simp add: children_def)
    have IH: "pages N' h c = pages N h c \<and> ents N' h c = ents N h c \<and> (\<forall>lo hi. wf_tree N' h lo hi c = wf_tree N h lo hi c)"
      if "c \<in> set (children N p)" for c
      using Suc that pages_child [OF that, of h] by blast
    have wfc: "wf_children (wf_tree N' h) lo hi ks cs \<longleftrightarrow> wf_children (wf_tree N h) lo hi ks cs"
      if "N p = Some (Internal ks cs)" for lo hi ks cs
      using IH that wf_children_mono [of cs "wf_tree N' h" "wf_tree N h" lo hi ks]
        wf_children_mono [of cs "wf_tree N h" "wf_tree N' h" lo hi ks] by (auto simp: children_def)
    have "wf_tree N' (Suc h) lo hi p = wf_tree N (Suc h) lo hi p" for lo hi
      using wfc by (auto simp: Np split: option.splits node.splits)
    moreover have "map (pages N' h) (children N p) = map (pages N h) (children N p)"
      "map (ents N' h) (children N p) = map (ents N h) (children N p)"
      using IH by auto
    ultimately show ?case by (simp only: pages.simps ents.simps ch) simp
  qed simp
  then show "wf_tree N' h lo hi p \<longleftrightarrow> wf_tree N h lo hi p" "pages N' h p = pages N h p"
    "ents N' h p = ents N h p"
    by blast+
qed

section \<open>The entries of a well-formed tree\<close>

lemma below_hi_trans: "below_hi hi s \<Longrightarrow> k < s \<Longrightarrow> in_hi hi k"
  by (cases hi) auto

lemma in_lo_trans: "in_lo lo s \<Longrightarrow> s \<le> k \<Longrightarrow> in_lo lo k"
  by (cases lo) auto

lemma wf_children_ents:
  assumes "\<And>lo hi c. P lo hi c \<Longrightarrow> skeys (F c) \<and> (\<forall>k\<in>fst ` set (F c). within lo hi k)"
    and "wf_children P lo hi ks cs" and "sorted ks" and "\<forall>s\<in>set ks. sep_ok lo hi s"
  shows "skeys (concat (map F cs)) \<and> (\<forall>k\<in>fst ` set (concat (map F cs)). within lo hi k)"
  using assms(2-)
proof (induction ks arbitrary: lo cs)
  case Nil
  then obtain c where "cs = [c]"
    using wf_children_length [OF Nil(1)] by (metis length_0_conv length_Suc_conv list.size(3))
  with Nil show ?case using assms(1) by auto
next
  case (Cons k ks)
  then obtain c cs' where cs: "cs = c # cs'" and c: "P lo (Some k) c"
    and rest: "wf_children P (Some k) hi ks cs'"
    by (cases cs) auto
  have k: "in_lo lo k" "below_hi hi k" using Cons.prems by (auto simp: sep_ok_def)
  have "\<forall>s\<in>set ks. sep_ok (Some k) hi s"
    using Cons.prems by (auto simp: sep_ok_def)
  then have IH: "skeys (concat (map F cs'))" "\<forall>x\<in>fst ` set (concat (map F cs')). within (Some k) hi x"
    using Cons.IH [OF rest] Cons.prems(2) by auto
  have hd: "skeys (F c)" "\<forall>x\<in>fst ` set (F c). within lo (Some k) x" using assms(1) [OF c] by auto
  have "x < y" if "x \<in> set (map fst (F c))" "y \<in> set (map fst (concat (map F cs')))" for x y
  proof -
    have "x < k" "k \<le> y" using that hd(2) IH(2) by (auto simp: within_def)
    then show ?thesis by simp
  qed
  then have "skeys (F c @ concat (map F cs'))"
    using hd(1) IH(1) by (auto simp: sorted_wrt_append)
  moreover have "within lo hi x" if "x \<in> fst ` set (F c)" for x
    using hd(2) that k below_hi_trans by (auto simp: within_def)
  moreover have "within lo hi x" if "x \<in> fst ` set (concat (map F cs'))" for x
  proof -
    have "within (Some k) hi x" using IH(2) that by blast
    then show ?thesis using k in_lo_trans [of lo k x] by (simp add: within_def)
  qed
  ultimately show ?case unfolding cs list.map concat.simps map_append set_append image_Un by blast
qed

lemma wf_ents:
  "wf_tree N h lo hi p \<Longrightarrow> skeys (ents N h p) \<and> (\<forall>k\<in>fst ` set (ents N h p). within lo hi k)"
proof (induction h arbitrary: lo hi p)
  case 0
  then show ?case by (auto split: option.splits node.splits)
next
  case (Suc h)
  then obtain ks cs where Np: "N p = Some (Internal ks cs)" "sorted ks" "\<forall>s\<in>set ks. sep_ok lo hi s"
    "wf_children (wf_tree N h) lo hi ks cs"
    by (auto split: option.splits node.splits)
  then have "ents N (Suc h) p = concat (map (ents N h) cs)" by (simp add: children_def)
  then show ?case
    using wf_children_ents [of "wf_tree N h" "ents N h" lo hi ks cs] Suc.IH Np by metis
qed

lemmas wf_skeys = wf_ents [THEN conjunct1]
lemmas wf_within = wf_ents [THEN conjunct2]

text \<open>The entries left of a position lie below the key that is routed there, those right of it above.\<close>

lemma wf_left_keys:
  "wf_left (wf_tree N h) lo ks cs \<Longrightarrow> \<forall>s\<in>set ks. s \<le> k
   \<Longrightarrow> \<forall>x\<in>fst ` set (concat (map (ents N h) cs)). x < k"
proof (induction "wf_tree N h" lo ks cs rule: wf_left.induct)
  case (2 lo s ks c cs)
  have "\<forall>x\<in>fst ` set (ents N h c). x < s"
    using wf_within [of N h lo "Some s" c] "2.prems"(1) by (auto simp: within_def)
  with 2 show ?case by fastforce
qed auto

lemma wf_right_keys:
  "wf_right (wf_tree N h) hi ks cs \<Longrightarrow> \<forall>s\<in>set ks. k < s
   \<Longrightarrow> \<forall>x\<in>fst ` set (concat (map (ents N h) cs)). k < x"
proof (induction "wf_tree N h" hi ks cs rule: wf_right.induct)
  case (2 hi s ks c cs)
  have "\<forall>x\<in>fst ` set (ents N h c). s \<le> x"
    using wf_within [of N h "Some s" "hi_of hi ks" c] "2.prems"(1) by (auto simp: within_def)
  with 2 show ?case by fastforce
qed auto

lemma route:
  assumes "wf_tree N (Suc h) lo hi p"
  obtains ks1 ks2 cs1 c cs2 where
    "N p = Some (Internal (ks1 @ ks2) (cs1 @ c # cs2))" "children N p = cs1 @ c # cs2"
    "child_index (ks1 @ ks2) k = length cs1" "length cs1 = length ks1" "length cs2 = length ks2"
    "wf_left (wf_tree N h) lo ks1 cs1" "wf_tree N h (lo_of lo ks1) (hi_of hi ks2) c"
    "wf_right (wf_tree N h) hi ks2 cs2"
    "\<forall>x\<in>fst ` set (concat (map (ents N h) cs1)). x < k"
    "\<forall>x\<in>fst ` set (concat (map (ents N h) cs2)). k < x"
    "within lo hi k \<Longrightarrow> within (lo_of lo ks1) (hi_of hi ks2) k"
    "sorted (ks1 @ ks2)" "\<forall>s\<in>set (ks1 @ ks2). sep_ok lo hi s"
proof -
  obtain ks cs where Np: "N p = Some (Internal ks cs)" "sorted ks" "\<forall>s\<in>set ks. sep_ok lo hi s"
    "wf_children (wf_tree N h) lo hi ks cs"
    using assms by (auto split: option.splits node.splits)
  obtain ks1 ks2 cs1 c cs2 where sp: "ks = ks1 @ ks2" "cs = cs1 @ c # cs2" "child_index ks k = length cs1"
    "length cs1 = length ks1" "length cs2 = length ks2" "\<forall>s\<in>set ks1. s \<le> k" "\<forall>s\<in>set ks2. k < s"
    using child_split [OF Np(2) wf_children_length [OF Np(4)], of k] by metis
  have parts: "wf_left (wf_tree N h) lo ks1 cs1" "wf_tree N h (lo_of lo ks1) (hi_of hi ks2) c"
    "wf_right (wf_tree N h) hi ks2 cs2"
    using Np(4) sp wf_children_at [of cs1 ks1 "wf_tree N h" lo hi ks2 c cs2] by auto
  have "within (lo_of lo ks1) (hi_of hi ks2) k" if "within lo hi k"
    using that sp(6,7) by (auto simp: within_def lo_of_def hi_of_def split: list.splits)
  then show thesis
    using that [of ks1 ks2 cs1 c cs2] Np sp parts wf_left_keys [OF parts(1) sp(6)] wf_right_keys [OF parts(3) sp(7)]
    by (simp add: children_def)
qed

end
