(* ===== verification/LoomTreeWrite.thy ===== *)
theory LoomTreeWrite
  imports LoomTreeRead
begin

text \<open>
  Insertion and removal in the B+tree on well-formed trees: the result is \<open>put\<close> resp. \<open>del\<close> on the
  entries, the invariant is kept through leaf splits, internal splits and a new root, and both
  always succeed when the serializer does.
\<close>

section \<open>Sequences of sibling subtrees\<close>

definition forest :: "(nat \<Rightarrow> 'v node option) \<Rightarrow> nat \<Rightarrow> key option \<Rightarrow> key option \<Rightarrow> key list \<Rightarrow> nat list
    \<Rightarrow> (key \<times> 'v) list \<Rightarrow> nat set \<Rightarrow> bool" where
  "forest N h lo hi ks cs ES PS \<longleftrightarrow>
     sorted ks \<and> (\<forall>s\<in>set ks. sep_ok lo hi s) \<and> wf_children (wf_tree N h) lo hi ks cs \<and>
     concat (map (ents N h) cs) = ES \<and> distinct (concat (map (pages N h) cs)) \<and>
     set (concat (map (pages N h) cs)) = PS"

lemma forest_one:
  "forest N h lo hi [] [p] ES PS \<longleftrightarrow>
     wf_tree N h lo hi p \<and> ents N h p = ES \<and> distinct (pages N h p) \<and> set (pages N h p) = PS"
  by (simp add: forest_def)

lemma forest_two:
  "forest N h lo hi [s] [p, r] ES PS \<longleftrightarrow>
     sep_ok lo hi s \<and> wf_tree N h lo (Some s) p \<and> wf_tree N h (Some s) hi r \<and>
     ents N h p @ ents N h r = ES \<and> distinct (pages N h p) \<and> distinct (pages N h r) \<and>
     set (pages N h p) \<inter> set (pages N h r) = {} \<and> set (pages N h p) \<union> set (pages N h r) = PS"
  by (auto simp: forest_def)

lemma forest_node:
  assumes "N p = Some (Internal ks cs)" and "forest N h lo hi ks cs ES PS" and "p \<notin> PS"
  shows "forest N (Suc h) lo hi [] [p] ES (insert p PS)"
proof -
  have "children N p = cs" using assms(1) by (simp add: children_def)
  with assms show ?thesis by (auto simp: forest_def)
qed

lemma node_forest:
  assumes "N p = Some (Internal ks cs)" and "forest N (Suc h) lo hi [] [p] ES PS"
  shows "forest N h lo hi ks cs ES (PS - {p})" and "p \<in> PS"
proof -
  have "children N p = cs" using assms(1) by (simp add: children_def)
  with assms show "forest N h lo hi ks cs ES (PS - {p})" by (auto simp: forest_def)
  show "p \<in> PS" using assms(2) by (auto simp: forest_one)
qed

lemma forest_frame:
  assumes "\<And>q. q \<in> PS \<Longrightarrow> N' q = N q" and "forest N h lo hi ks cs ES PS"
  shows "forest N' h lo hi ks cs ES PS"
proof -
  have fr: "wf_tree N' h l u c = wf_tree N h l u c" "pages N' h c = pages N h c" "ents N' h c = ents N h c"
    if "c \<in> set cs" for c l u
    using frame [of N h c N'] assms that by (auto simp: forest_def)
  then have "map (pages N' h) cs = map (pages N h) cs" "map (ents N' h) cs = map (ents N h) cs" by auto
  moreover have "wf_children (wf_tree N' h) lo hi ks cs"
    by (rule wf_children_mono [of cs "wf_tree N h"]) (use fr assms(2) in \<open>auto simp: forest_def\<close>)
  ultimately show ?thesis using assms(2) unfolding forest_def by metis
qed

text \<open>Cutting a sequence at a separator, as an internal split does.\<close>

lemma sep_ok_sorted:
  assumes "sorted (kl @ s # kr)" and "\<forall>x\<in>set (kl @ s # kr). sep_ok lo hi x"
  shows "\<forall>x\<in>set kl. sep_ok lo (Some s) x" and "\<forall>x\<in>set kr. sep_ok (Some s) hi x" and "sep_ok lo hi s"
  using assms by (auto simp: sep_ok_def sorted_append)

lemma forest_cut:
  assumes "length cl = Suc (length kl)" and "forest N h lo hi (kl @ s # kr) (cl @ cr) ES PS"
  obtains EL ER PL PR where "forest N h lo (Some s) kl cl EL PL" "forest N h (Some s) hi kr cr ER PR"
    "EL @ ER = ES" "PL \<inter> PR = {}" "PL \<union> PR = PS" "sep_ok lo hi s"
proof (rule that [of "concat (map (ents N h) cl)" "set (concat (map (pages N h) cl))"
      "concat (map (ents N h) cr)" "set (concat (map (pages N h) cr))"])
  have sorted: "sorted (kl @ s # kr)" "\<forall>x\<in>set (kl @ s # kr). sep_ok lo hi x"
    and ch: "wf_children (wf_tree N h) lo (Some s) kl cl" "wf_children (wf_tree N h) (Some s) hi kr cr"
    and d: "distinct (concat (map (pages N h) cl) @ concat (map (pages N h) cr))"
    using assms wf_children_split [OF assms(1), of "wf_tree N h" lo hi s kr cr]
    unfolding forest_def map_append concat_append by blast+
  show "forest N h lo (Some s) kl cl (concat (map (ents N h) cl)) (set (concat (map (pages N h) cl)))"
    "forest N h (Some s) hi kr cr (concat (map (ents N h) cr)) (set (concat (map (pages N h) cr)))"
    using sorted ch d sep_ok_sorted [OF sorted] unfolding forest_def by (simp_all add: sorted_append)
  show "set (concat (map (pages N h) cl)) \<inter> set (concat (map (pages N h) cr)) = {}" using d by simp
qed (use assms sep_ok_sorted in \<open>auto simp: forest_def\<close>)

text \<open>Replacing one subtree by a sequence with the same bounds.\<close>

lemma sep_ok_between:
  assumes "sorted (ks1 @ ks2)" and "\<forall>s\<in>set (ks1 @ ks2). sep_ok lo hi s"
    and "sorted ks" and "\<forall>s\<in>set ks. sep_ok (lo_of lo ks1) (hi_of hi ks2) s"
  shows "sorted (ks1 @ ks @ ks2) \<and> (\<forall>s\<in>set (ks1 @ ks @ ks2). sep_ok lo hi s)"
proof -
  have low: "x \<le> s" if "x \<in> set ks1" "s \<in> set ks" for x s
  proof -
    have "ks1 = butlast ks1 @ [last ks1]" using that(1) by (cases ks1 rule: rev_cases) auto
    then have "sorted (butlast ks1 @ [last ks1])" "x \<in> set (butlast ks1 @ [last ks1])"
      using that(1) assms(1) sorted_append [of ks1 ks2] by simp_all
    then have "x \<le> last ks1" by (auto simp: sorted_append)
    moreover have "last ks1 \<le> s" using that assms(4) by (auto simp: sep_ok_def lo_of_def split: if_splits)
    ultimately show ?thesis by simp
  qed
  have high: "s \<le> x" if "x \<in> set ks2" "s \<in> set ks" for x s
    using that assms(1,4) by (cases ks2) (fastforce simp: sep_ok_def sorted_append)+
  have "sep_ok lo hi s" if "s \<in> set ks" for s
  proof -
    have "in_lo lo s"
      using that assms(2,4) in_lo_trans [of lo "last ks1" s]
      by (cases "ks1 = []") (auto simp: sep_ok_def lo_of_def)
    moreover have "below_hi hi s"
      using that assms(2,4) by (cases ks2; cases hi) (fastforce simp: sep_ok_def)+
    ultimately show ?thesis by (simp add: sep_ok_def)
  qed
  then show ?thesis using assms low high by (auto simp: sorted_append)
qed

lemma forest_replace:
  assumes F: "forest N h lo hi (ks1 @ ks2) (cs1 @ c # cs2) ES PS" and len: "length cs1 = length ks1"
    and F': "forest N' h (lo_of lo ks1) (hi_of hi ks2) ks cs ES' PS'"
    and L: "concat (map (ents N h) cs1) = L" and R: "concat (map (ents N h) cs2) = R"
    and same: "\<And>q. q \<in> PS - set (pages N h c) \<Longrightarrow> N' q = N q"
    and disj: "PS' \<inter> (PS - set (pages N h c)) = {}"
  shows "forest N' h lo hi (ks1 @ ks @ ks2) (cs1 @ cs @ cs2) (L @ ES' @ R)
           ((PS - set (pages N h c)) \<union> PS')"
proof -
  let ?P1 = "concat (map (pages N h) cs1)" and ?P2 = "concat (map (pages N h) cs2)"
  have dist: "distinct (?P1 @ pages N h c @ ?P2)" and PS: "PS = set (?P1 @ pages N h c @ ?P2)"
    using F by (auto simp: forest_def)
  then have others: "PS - set (pages N h c) = set ?P1 \<union> set ?P2" by auto
  have sib: "wf_tree N' h l u x = wf_tree N h l u x" "pages N' h x = pages N h x" "ents N' h x = ents N h x"
    if "x \<in> set cs1 \<union> set cs2" for x l u
  proof -
    have "N' q = N q" if "q \<in> set (pages N h x)" for q
      using same [of q] that \<open>x \<in> set cs1 \<union> set cs2\<close> unfolding others by auto
    from frame [of N h x N', OF this] show "wf_tree N' h l u x = wf_tree N h l u x"
      "pages N' h x = pages N h x" "ents N' h x = ents N h x" by auto
  qed
  then have maps: "map (pages N' h) cs1 = map (pages N h) cs1" "map (pages N' h) cs2 = map (pages N h) cs2"
    "map (ents N' h) cs1 = map (ents N h) cs1" "map (ents N' h) cs2 = map (ents N h) cs2"
    by auto
  have left: "wf_left (wf_tree N' h) lo ks1 cs1" and right: "wf_right (wf_tree N' h) hi ks2 cs2"
  proof -
    have w: "wf_left (wf_tree N h) lo ks1 cs1" "wf_right (wf_tree N h) hi ks2 cs2"
      using F wf_children_at [OF len, of "wf_tree N h" lo hi ks2 c cs2] by (auto simp: forest_def)
    have "wf_left P lo ks cs \<Longrightarrow> (\<And>l u x. x \<in> set cs \<Longrightarrow> Q l u x = P l u x) \<Longrightarrow> wf_left Q lo ks cs"
      for P Q lo ks cs by (induction P lo ks cs rule: wf_left.induct) auto
    from this [OF w(1), of "wf_tree N' h"] sib show "wf_left (wf_tree N' h) lo ks1 cs1" by auto
    have "wf_right P hi ks cs \<Longrightarrow> (\<And>l u x. x \<in> set cs \<Longrightarrow> Q l u x = P l u x) \<Longrightarrow> wf_right Q hi ks cs"
      for P Q hi ks cs by (induction P hi ks cs rule: wf_right.induct) auto
    from this [OF w(2), of "wf_tree N' h"] sib show "wf_right (wf_tree N' h) hi ks2 cs2" by auto
  qed
  have seg: "wf_children (wf_tree N' h) lo hi (ks1 @ ks @ ks2) (cs1 @ cs @ cs2)"
    using wf_children_segment [OF len, of cs ks "wf_tree N' h" lo hi ks2 cs2] left right F'
      wf_children_length by (auto simp: forest_def)
  have seps: "sorted (ks1 @ ks @ ks2) \<and> (\<forall>s\<in>set (ks1 @ ks @ ks2). sep_ok lo hi s)"
    by (rule sep_ok_between) (use F F' in \<open>simp_all add: forest_def\<close>)
  have "distinct (?P1 @ concat (map (pages N' h) cs) @ ?P2)"
    using dist disj F' unfolding others by (auto simp: forest_def)
  then show ?thesis
    using seg seps L R F' unfolding others by (simp add: forest_def maps) blast
qed

section \<open>Insertion\<close>

abbreviation next_free :: "'v tree \<Rightarrow> nat" where
  "next_free t \<equiv> m_next_free (t_meta t)"

definition split_seps :: "(key \<times> nat) option \<Rightarrow> key list" where
  "split_seps s = (case s of None \<Rightarrow> [] | Some (sep, r) \<Rightarrow> [sep])"

definition split_pages :: "nat \<Rightarrow> (key \<times> nat) option \<Rightarrow> nat list" where
  "split_pages p s = (case s of None \<Rightarrow> [p] | Some (sep, r) \<Rightarrow> [p, r])"

lemma split_simps [simp]:
  "split_seps None = []" "split_seps (Some (sep, r)) = [sep]"
  "split_pages p None = [p]" "split_pages p (Some (sep, r)) = [p, r]"
  by (simp_all add: split_seps_def split_pages_def)

lemma split_length [simp]: "length (split_pages p s) = Suc (length (split_seps s))"
  by (cases s) auto

text \<open>What a step may change: the pages \<open>PS\<close> it owns and the pages it allocates.\<close>

definition grows :: "'v tree_env \<Rightarrow> nat set \<Rightarrow> 'v tree \<Rightarrow> 'v tree \<Rightarrow> bool" where
  "grows E PS t t' \<longleftrightarrow>
     next_free t \<le> next_free t' \<and> m_root (t_meta t') = m_root (t_meta t) \<and>
     (\<forall>q. q \<notin> PS \<union> {next_free t..<next_free t'} \<longrightarrow> view E t' q = view E t q) \<and>
     dom (t_dirty t') \<subseteq> dom (t_dirty t) \<union> PS \<union> {next_free t..<next_free t'}"

lemma grows_trans:
  "grows E PS t t' \<Longrightarrow> grows E QS t' t'' \<Longrightarrow> QS \<subseteq> PS \<union> {next_free t..<next_free t'} \<Longrightarrow> grows E PS t t''"
  unfolding grows_def by (intro conjI) (auto 4 4 simp: subset_iff)

lemma grows_cached: "cached t t' \<Longrightarrow> grows E PS t t'"
  by (simp add: grows_def cached_def view_def)

lemma take_view:
  "take_node E t p = Inr (t', n) \<Longrightarrow> view E t p = Some n \<and> t_meta t' = t_meta t \<and> grows E {p} t t'"
  by (cases "t_dirty t p")
    (auto simp: take_node_def grows_def cached_def view_def dest!: node_view [of E t p])

lemma view_take: "view E t p = Some n \<Longrightarrow> \<exists>t'. take_node E t p = Inr (t', n)"
  using view_node [of E t p n] by (cases "t_dirty t p") (auto simp: take_node_def view_def)

subsection \<open>Leaves\<close>

lemma size_of_cached: "size_of E t p n = Inr (t', s) \<Longrightarrow> cached t t'"
  by (auto simp: size_of_def cached_def bind_r_Inr_iff split: option.splits)

lemma leaf_put_result:
  assumes "leaf_put E t es est k v = Inr (t', es', est')" and "skeys es"
  shows "es' = put k v es" and "t_dirty t' = t_dirty t"
    and "next_free t' = next_free t" "m_root (t_meta t') = m_root (t_meta t)"
    and "m_count (t_meta t') = m_count (t_meta t) + (if k \<in> fst ` set es then 0 else 1)"
  using assms leaf_update [OF assms(2), of k v] found_at_iff [OF assms(2), of k]
  by (auto simp: leaf_put_def bind_r_Inr_iff split: option.splits)

lemma leaf_split_result:
  assumes "leaf_split E t p es = Inr (t', s)" and "skeys es" and "\<forall>x\<in>fst ` set es. within lo hi x"
    and "p < next_free t"
  shows "forest (view E t') 0 lo hi (split_seps s) (split_pages p s) es ({p} \<union> {next_free t..<next_free t'})"
    and "grows E {p} t t'" and "m_count (t_meta t') = m_count (t_meta t)"
proof -
  let ?m = "length es div 2" and ?r = "next_free t"
  obtain e rest where right: "drop ?m es = e # rest"
    using assms(1) by (cases "drop ?m es") (auto simp: leaf_split_def)
  have s: "s = Some (fst e, ?r)" and m: "t_meta t' = (t_meta t)\<lparr>m_next_free := ?r + 1\<rparr>"
    and d: "t_dirty t' = (t_dirty t)(p \<mapsto> Leaf (take ?m es), ?r \<mapsto> Leaf (e # rest))"
    using assms(1) right by (auto simp: leaf_split_def alloc_def bind_r_Inr_iff set_sized_def Let_def)
  have v: "view E t' = (view E t)(p \<mapsto> Leaf (take ?m es), ?r \<mapsto> Leaf (e # rest))"
    by (simp add: view_def d fun_eq_iff)
  have es: "es = take ?m es @ e # rest" using right append_take_drop_id [of ?m es] by simp
  have "skeys (take ?m es @ e # rest)" "\<forall>x\<in>fst ` set (take ?m es @ e # rest). within lo hi x"
    using assms(2,3) es by simp_all
  then have cut: "skeys (take ?m es)" "skeys (e # rest)" "\<forall>x\<in>fst ` set (take ?m es). x < fst e \<and> within lo hi x"
    "\<forall>x\<in>fst ` set (e # rest). fst e \<le> x \<and> within lo hi x"
    by (auto simp: sorted_wrt_append)
  then have "sep_ok lo hi (fst e)" by (cases hi) (auto simp: sep_ok_def within_def)
  then show "forest (view E t') 0 lo hi (split_seps s) (split_pages p s) es ({p} \<union> {?r..<next_free t'})"
    using cut es assms(4) by (auto simp: s forest_two v m within_def)
  show "grows E {p} t t'" by (auto simp: grows_def v m d)
  show "m_count (t_meta t') = m_count (t_meta t)" by (simp add: m)
qed

lemma leaf_insert_result:
  assumes "leaf_insert E t p es k v = Inr (t', s)" and "skeys es" and "\<forall>x\<in>fst ` set es. within lo hi x"
    and "within lo hi k" and "p < next_free t"
  shows "forest (view E t') 0 lo hi (split_seps s) (split_pages p s) (put k v es)
           ({p} \<union> {next_free t..<next_free t'})"
    and "grows E {p} t t'"
    and "m_count (t_meta t') = m_count (t_meta t) + (if k \<in> fst ` set es then 0 else 1)"
proof -
  obtain t1 est t2 es' est' est2 full where
    size: "size_of E t p (Leaf es) = Inr (t1, est)"
    and put: "leaf_put E t1 es est k v = Inr (t2, es', est')"
    and fin: "(if \<not> full then Inr (set_sized t2 p (Leaf es') est2, None) else leaf_split E t2 p es') = Inr (t', s)"
    using assms(1) by (auto simp: leaf_insert_def bind_r_Inr_iff split: prod.splits)
  note pr = leaf_put_result [OF put assms(2)]
  have t1: "cached t t1" using size_of_cached [OF size] .
  have t2: "grows E {p} t t2" "next_free t2 = next_free t"
    "m_count (t_meta t2) = m_count (t_meta t) + (if k \<in> fst ` set es then 0 else 1)"
    using t1 pr by (auto simp: grows_def cached_def view_def)
  have es': "skeys es'" "\<forall>x\<in>fst ` set es'. within lo hi x"
    using pr(1) skeys_put [OF assms(2)] assms(3,4) by (simp_all add: keys_put)
  have "forest (view E t') 0 lo hi (split_seps s) (split_pages p s) es' ({p} \<union> {next_free t2..<next_free t'})
      \<and> grows E {p} t2 t' \<and> m_count (t_meta t') = m_count (t_meta t2)"
  proof (cases full)
    case True
    then have ls: "leaf_split E t2 p es' = Inr (t', s)" using fin by simp
    from leaf_split_result [OF this es'] assms(5) t2(2) show ?thesis by simp
  next
    case False
    then have "t' = set_sized t2 p (Leaf es') est2" "s = None" using fin by auto
    then show ?thesis using es' by (auto simp: forest_one grows_def set_sized_def view_def)
  qed
  then show "forest (view E t') 0 lo hi (split_seps s) (split_pages p s) (put k v es)
      ({p} \<union> {next_free t..<next_free t'})" "grows E {p} t t'"
    "m_count (t_meta t') = m_count (t_meta t) + (if k \<in> fst ` set es then 0 else 1)"
    using t2 pr(1) grows_trans [OF t2(1)] by auto
qed

subsection \<open>Internal nodes\<close>

lemma internal_insert_result:
  assumes "internal_insert E t p ks cs = Inr (t', s)" and F: "forest (view E t) h lo hi ks cs ES PS"
    and p: "p \<notin> PS" "p < next_free t" and PS: "\<forall>q\<in>PS. q < next_free t"
  shows "forest (view E t') (Suc h) lo hi (split_seps s) (split_pages p s) ES
           (insert p PS \<union> {next_free t..<next_free t'})"
    and "grows E {p} t t'" and "m_count (t_meta t') = m_count (t_meta t)"
proof -
  let ?m = "length ks div 2" and ?r = "next_free t"
  obtain est full where
    fin: "(if \<not> full then Inr (set_sized t p (Internal ks cs) est, None)
       else if length ks \<le> ?m then Inl (Panic ''index out of bounds'')
       else Inr (set_node (set_node (fst (alloc t)) p (Internal (take ?m ks) (take (Suc ?m) cs))) ?r
                  (Internal (drop (Suc ?m) ks) (drop (Suc ?m) cs)), Some (ks ! ?m, ?r))) = Inr (t', s)"
    using assms(1) by (auto simp: internal_insert_def bind_r_Inr_iff Let_def alloc_def cong: if_cong)
  have "forest (view E t') (Suc h) lo hi (split_seps s) (split_pages p s) ES
          (insert p PS \<union> {?r..<next_free t'}) \<and> grows E {p} t t' \<and> m_count (t_meta t') = m_count (t_meta t)"
  proof (cases full)
    case False
    then have t': "t' = set_sized t p (Internal ks cs) est" and s: "s = None" using fin by auto
    have "forest (view E t') h lo hi ks cs ES PS"
      by (rule forest_frame [OF _ F]) (use p t' in auto)
    from forest_node [OF _ this p(1)] show ?thesis
      by (auto simp: s t' grows_def set_sized_def view_def)
  next
    case True
    then have m: "?m < length ks" and s: "s = Some (ks ! ?m, ?r)"
      and t': "t' = set_node (set_node (fst (alloc t)) p (Internal (take ?m ks) (take (Suc ?m) cs))) ?r
                  (Internal (drop (Suc ?m) ks) (drop (Suc ?m) cs))"
      using fin by (auto split: if_splits)
    have v: "view E t' = (view E t)(p \<mapsto> Internal (take ?m ks) (take (Suc ?m) cs),
                            ?r \<mapsto> Internal (drop (Suc ?m) ks) (drop (Suc ?m) cs))"
      by (simp add: t' alloc_def)
    have ks: "ks = take ?m ks @ ks ! ?m # drop (Suc ?m) ks" using m by (rule id_take_nth_drop)
    have cs: "cs = take (Suc ?m) cs @ drop (Suc ?m) cs" by simp
    have len: "length (take (Suc ?m) cs) = Suc (length (take ?m ks))"
      using F wf_children_length m by (fastforce simp: forest_def)
    have frm: "forest (view E t') h lo hi ks cs ES PS"
      by (rule forest_frame [OF _ F]) (use p PS in \<open>auto simp: v\<close>)
    then have "forest (view E t') h lo hi (take ?m ks @ ks ! ?m # drop (Suc ?m) ks)
        (take (Suc ?m) cs @ drop (Suc ?m) cs) ES PS" using ks cs by simp
    from forest_cut [OF len this] obtain EL ER PL PR where
      cut: "forest (view E t') h lo (Some (ks ! ?m)) (take ?m ks) (take (Suc ?m) cs) EL PL"
      "forest (view E t') h (Some (ks ! ?m)) hi (drop (Suc ?m) ks) (drop (Suc ?m) cs) ER PR"
      "EL @ ER = ES" "PL \<inter> PR = {}" "PL \<union> PR = PS" "sep_ok lo hi (ks ! ?m)" by metis
    have "p \<notin> PL" "?r \<notin> PR" "p \<noteq> ?r" using p PS cut(5) by auto
    from forest_node [OF _ cut(1) this(1)] forest_node [OF _ cut(2) this(2)]
    have "forest (view E t') (Suc h) lo (Some (ks ! ?m)) [] [p] EL (insert p PL)"
      "forest (view E t') (Suc h) (Some (ks ! ?m)) hi [] [?r] ER (insert ?r PR)"
      using \<open>p \<noteq> ?r\<close> by (auto simp: v)
    then have "forest (view E t') (Suc h) lo hi [ks ! ?m] [p, ?r] ES (insert p PL \<union> insert ?r PR)"
      unfolding forest_one forest_two using cut(3-6) p PS by auto
    moreover have "insert p PL \<union> insert ?r PR = insert p PS \<union> {?r..<next_free t'}"
      using cut(5) by (auto simp: t' alloc_def)
    moreover have "grows E {p} t t'"
      by (auto simp: grows_def v) (auto simp: t' alloc_def set_node_def)
    ultimately show ?thesis by (simp add: s) (simp add: t' alloc_def)
  qed
  then show "forest (view E t') (Suc h) lo hi (split_seps s) (split_pages p s) ES
           (insert p PS \<union> {?r..<next_free t'})"
    "grows E {p} t t'" "m_count (t_meta t') = m_count (t_meta t)" by blast+
qed

lemma ents_middle_put:
  assumes "\<forall>x\<in>fst ` set L. x < k" and "\<forall>x\<in>fst ` set R. k < x"
  shows "put k v (L @ M @ R) = L @ put k v M @ R" and "k \<in> fst ` set (L @ M @ R) \<longleftrightarrow> k \<in> fst ` set M"
  using put_middle [OF assms] assms by (auto simp: image_Un)

lemma insert_into_result:
  "insert_into f E t p k v = Inr (t', s) \<Longrightarrow> forest (view E t) h lo hi [] [p] ES PS
   \<Longrightarrow> within lo hi k \<Longrightarrow> \<forall>q\<in>PS. q < next_free t
   \<Longrightarrow> forest (view E t') h lo hi (split_seps s) (split_pages p s) (put k v ES)
         (PS \<union> {next_free t..<next_free t'})
     \<and> grows E PS t t'
     \<and> m_count (t_meta t') = m_count (t_meta t) + (if k \<in> fst ` set ES then 0 else 1)"
proof (induction h arbitrary: f t p t' s lo hi ES PS)
  case 0
  obtain f' where f: "f = Suc f'" using "0.prems"(1) by (cases f) auto
  have w: "wf_tree (view E t) 0 lo hi p" "PS = {p}" "ES = ents (view E t) 0 p"
    using "0.prems"(2) by (simp_all add: forest_one)
  then obtain es where es: "view E t p = Some (Leaf es)" "skeys es" "\<forall>x\<in>fst ` set es. within lo hi x" "ES = es"
    by (auto split: option.splits node.splits)
  obtain t1 where t1: "take_node E t p = Inr (t1, Leaf es)" using view_take [OF es(1)] by blast
  note tv = take_view [OF t1]
  have "leaf_insert E t1 p es k v = Inr (t', s)" using "0.prems"(1) by (simp add: f t1)
  from leaf_insert_result [OF this es(2,3) "0.prems"(3)] "0.prems"(4) tv w(2) es(4)
  show ?case using grows_trans [of E "{p}" t t1 "{p}" t'] by simp
next
  case (Suc h)
  obtain f' where f: "f = Suc f'" using Suc.prems(1) by (cases f) auto
  have wf: "wf_tree (view E t) (Suc h) lo hi p" using Suc.prems(2) by (simp add: forest_one)
  obtain ks1 ks2 cs1 c cs2 where r: "view E t p = Some (Internal (ks1 @ ks2) (cs1 @ c # cs2))"
    "child_index (ks1 @ ks2) k = length cs1" "length cs1 = length ks1"
    "\<forall>x\<in>fst ` set (concat (map (ents (view E t) h) cs1)). x < k"
    "\<forall>x\<in>fst ` set (concat (map (ents (view E t) h) cs2)). k < x"
    "within (lo_of lo ks1) (hi_of hi ks2) k"
    using route [OF wf, of k] Suc.prems(3) by metis
  note F = node_forest [OF r(1) Suc.prems(2)]
  obtain t1 where t1: "take_node E t p = Inr (t1, Internal (ks1 @ ks2) (cs1 @ c # cs2))"
    using view_take [OF r(1)] by blast
  note tv = take_view [OF t1]
  have F1: "forest (view E t1) h lo hi (ks1 @ ks2) (cs1 @ c # cs2) ES (PS - {p})"
    by (rule forest_frame [OF _ F(1)]) (use tv in \<open>auto simp: grows_def\<close>)
  let ?L = "concat (map (ents (view E t1) h) cs1)" and ?R = "concat (map (ents (view E t1) h) cs2)"
    and ?C = "ents (view E t1) h c" and ?pc = "set (pages (view E t1) h c)"
  have ES: "ES = ?L @ ?C @ ?R" and pc: "?pc \<subseteq> PS - {p}" and "distinct (pages (view E t1) h c)"
    "wf_tree (view E t1) h (lo_of lo ks1) (hi_of hi ks2) c"
    using F1 wf_children_at [OF r(3), of "wf_tree (view E t1) h" lo hi ks2 c cs2] by (auto simp: forest_def)
  then have Fc: "forest (view E t1) h (lo_of lo ks1) (hi_of hi ks2) [] [c] ?C ?pc" by (simp add: forest_one)
  have sides: "\<forall>x\<in>fst ` set ?L. x < k" "\<forall>x\<in>fst ` set ?R. k < x"
  proof -
    have "?L = concat (map (ents (view E t) h) cs1)" "?R = concat (map (ents (view E t) h) cs2)"
    proof -
      have "ents (view E t1) h x = ents (view E t) h x" if "x \<in> set cs1 \<union> set cs2" for x
      proof (rule frame(3))
        fix q assume "q \<in> set (pages (view E t) h x)"
        then have "q \<in> PS - {p}" using F(1) that by (auto simp: forest_def)
        then show "view E t1 q = view E t q" using tv by (auto simp: grows_def)
      qed
      then have "map (ents (view E t1) h) cs1 = map (ents (view E t) h) cs1"
        "map (ents (view E t1) h) cs2 = map (ents (view E t) h) cs2" by auto
      then show "?L = concat (map (ents (view E t) h) cs1)" "?R = concat (map (ents (view E t) h) cs2)"
        by (simp_all only:)
    qed
    then show "\<forall>x\<in>fst ` set ?L. x < k" "\<forall>x\<in>fst ` set ?R. k < x" using r(4,5) by simp_all
  qed
  obtain t2 s2 where rec: "insert_into f' E t1 c k v = Inr (t2, s2)"
    and fin: "(case s2 of None \<Rightarrow> Inr (t2\<lparr>t_dirty := (t_dirty t2)(p \<mapsto> Internal (ks1 @ ks2) (cs1 @ c # cs2))\<rparr>, None)
       | Some (sep, r) \<Rightarrow> internal_insert E t2 p (insert_at (length cs1) sep (ks1 @ ks2))
            (insert_at (Suc (length cs1)) r (cs1 @ c # cs2))) = Inr (t', s)"
    using Suc.prems(1) r(2) by (auto simp: f t1 bind_r_Inr_iff Let_def)
  have lim: "\<forall>q\<in>PS. q < next_free t1" using Suc.prems(4) tv by simp
  then have limc: "\<forall>q\<in>?pc. q < next_free t1" using pc by blast
  note IH = Suc.IH [OF rec Fc r(6) limc]
  let ?new = "?pc \<union> {next_free t1..<next_free t2}"
  have g: "next_free t1 \<le> next_free t2" "\<forall>q. q \<notin> ?new \<longrightarrow> view E t2 q = view E t1 q"
    using IH by (auto simp: grows_def)
  have away: "q \<notin> ?new" if "q \<in> PS - {p} - ?pc" for q
    using that lim by auto
  have F2: "forest (view E t2) h lo hi (ks1 @ split_seps s2 @ ks2) (cs1 @ split_pages c s2 @ cs2)
      (?L @ put k v ?C @ ?R) ((PS - {p} - ?pc) \<union> ?new)"
    by (rule forest_replace [OF F1 r(3) IH [THEN conjunct1] refl refl]) (use g(2) away in blast)+
  have F2': "forest (view E t2) h lo hi (ks1 @ split_seps s2 @ ks2) (cs1 @ split_pages c s2 @ cs2)
      (put k v ES) ((PS - {p}) \<union> {next_free t1..<next_free t2})"
  proof -
    have "PS - {p} - ?pc \<union> ?new = (PS - {p}) \<union> {next_free t1..<next_free t2}" using pc by auto
    then show ?thesis using F2 ents_middle_put(1) [OF sides, of v ?C] ES by simp
  qed
  have count: "m_count (t_meta t2) = m_count (t_meta t) + (if k \<in> fst ` set ES then 0 else 1)"
    using IH tv ents_middle_put(2) [OF sides, of ?C] ES by simp
  have grow: "grows E PS t t2"
    by (rule grows_trans [of E PS t t1 ?pc])
      (use tv IH pc F(2) in \<open>auto simp: grows_def\<close>)
  have p: "p \<in> PS" "p < next_free t2" using F(2) lim g(1) by force+
  show ?case
  proof (cases s2)
    case None
    then have t': "t' = t2\<lparr>t_dirty := (t_dirty t2)(p \<mapsto> Internal (ks1 @ ks2) (cs1 @ c # cs2))\<rparr>" and s: "s = None"
      using fin by auto
    have "forest (view E t') h lo hi (ks1 @ ks2) (cs1 @ c # cs2) (put k v ES)
        ((PS - {p}) \<union> {next_free t1..<next_free t2})"
      by (rule forest_frame [of _ _ "view E t2"]) (use F2' None p lim g(1) F(2) in \<open>auto simp: t'\<close>)
    from forest_node [OF _ this]
    have "forest (view E t') (Suc h) lo hi [] [p] (put k v ES) (insert p ((PS - {p}) \<union> {next_free t1..<next_free t2}))"
      using p lim by (fastforce simp: t')
    moreover have "insert p ((PS - {p}) \<union> {next_free t1..<next_free t2}) = PS \<union> {next_free t..<next_free t'}"
      using p tv by (auto simp: t')
    moreover have "grows E PS t t'"
      using grow p(1) by (auto simp: grows_def t' view_def)
    ultimately show ?thesis using count by (simp add: s) (simp add: t')
  next
    case (Some sr)
    then obtain sep rr where s2: "s2 = Some (sep, rr)" by (cases sr) auto
    then have ii: "internal_insert E t2 p (ks1 @ sep # ks2) (cs1 @ c # rr # cs2) = Inr (t', s)"
      using fin r(3) by (simp add: insert_at_def)
    have lim2: "\<forall>q\<in>PS - {p} \<union> {next_free t1..<next_free t2}. q < next_free t2" using lim g(1) by fastforce
    have np: "p \<notin> PS - {p} \<union> {next_free t1..<next_free t2}" using p lim by fastforce
    have F3: "forest (view E t2) h lo hi (ks1 @ sep # ks2) (cs1 @ c # rr # cs2) (put k v ES)
        ((PS - {p}) \<union> {next_free t1..<next_free t2})" using F2' by (simp add: s2)
    note res = internal_insert_result [OF ii F3 np p(2) lim2]
    have "insert p (PS - {p} \<union> {next_free t1..<next_free t2}) \<union> {next_free t2..<next_free t'}
       = PS \<union> {next_free t..<next_free t'}"
      using p(1) tv g(1) res(2) by (auto simp: grows_def)
    moreover have "grows E PS t t'"
      by (rule grows_trans [OF grow res(2)]) (use p in auto)
    ultimately show ?thesis using res count by simp
  qed
qed

subsection \<open>The whole tree\<close>

lemma tree_wf_forest:
  "tree_wf E t h \<longleftrightarrow>
     forest (view E t) h None None [] [m_root (t_meta t)] (ents (view E t) h (m_root (t_meta t))) {1..<next_free t}
     \<and> m_count (t_meta t) = length (ents (view E t) h (m_root (t_meta t)))
     \<and> dom (t_dirty t) \<subseteq> {1..<next_free t}"
  by (auto simp: tree_wf_def forest_one)

lemma tree_wfI:
  assumes "forest (view E t) h None None [] [m_root (t_meta t)] ES {1..<next_free t}"
    and "m_count (t_meta t) = length ES" and "dom (t_dirty t) \<subseteq> {1..<next_free t}"
  shows "tree_inv E t" and "tree_entries E t = ES"
proof -
  have h: "tree_wf E t h" and e: "ents (view E t) h (m_root (t_meta t)) = ES"
    using assms by (auto simp: tree_wf_def forest_one)
  show "tree_inv E t" using h by (auto simp: tree_inv_def)
  show "tree_entries E t = ES" using tree_wf_entries [OF h] e by simp
qed

lemma length_put: "skeys es \<Longrightarrow> length (put k v es) = length es + (if k \<in> fst ` set es then 0 else 1)"
  by (induction es) auto

lemma tree_insert_result:
  assumes inv: "tree_inv E t" and res: "tree_insert E t k v = Inr t'"
  shows "tree_inv E t'" and "tree_entries E t' = put k v (tree_entries E t)"
proof -
  obtain h where h: "tree_wf E t h" using inv by (auto simp: tree_inv_def)
  let ?root = "m_root (t_meta t)" and ?ES = "tree_entries E t" and ?PS = "{1..<next_free t}"
  obtain t1 s where ins: "insert_into (tree_fuel t) E t ?root k v = Inr (t1, s)"
    using res by (cases "insert_into (tree_fuel t) E t ?root k v") (auto simp: tree_insert_def Let_def)
  have F: "forest (view E t) h None None [] [?root] ?ES ?PS" and cnt: "m_count (t_meta t) = length ?ES"
    and dom: "dom (t_dirty t) \<subseteq> ?PS"
    using h tree_wf_entries [OF h] by (simp_all add: tree_wf_forest)
  have "within None None k" by (simp add: within_def)
  note I = insert_into_result [OF ins F this]
  have root: "?root \<in> ?PS" using F by (auto simp: forest_one)
  then have PS: "?PS \<union> {next_free t..<next_free t1} = {1..<next_free t1}" using I by (auto simp: grows_def)
  have F1: "forest (view E t1) h None None (split_seps s) (split_pages ?root s) (put k v ?ES) {1..<next_free t1}"
    and cnt1: "m_count (t_meta t1) = length (put k v ?ES)"
    and root1: "m_root (t_meta t1) = ?root"
    using I PS cnt length_put [OF tree_inv_entries(1) [OF inv], of k v] by (simp_all add: grows_def)
  have "dom (t_dirty t1) \<subseteq> dom (t_dirty t) \<union> ?PS \<union> {next_free t..<next_free t1}"
    using I by (simp add: grows_def)
  then have dom1: "dom (t_dirty t1) \<subseteq> {1..<next_free t1}" using dom PS by blast
  have "tree_inv E t' \<and> tree_entries E t' = put k v ?ES"
  proof (cases s)
    case None
    then have "t' = t1" using res by (simp add: tree_insert_def ins)
    then show ?thesis using tree_wfI [of E t1 h] F1 cnt1 dom1 root1 None by simp
  next
    case (Some sr)
    then obtain sep r where s: "s = Some (sep, r)" by (cases sr) auto
    let ?nr = "next_free t1"
    have t': "t' = (set_node (fst (alloc t1)) ?nr (Internal [sep] [?root, r]))
        \<lparr>t_meta := (t_meta (fst (alloc t1)))\<lparr>m_root := ?nr\<rparr>, t_meta_dirty := True\<rparr>"
      using res by (simp add: tree_insert_def ins s alloc_def Let_def)
    have v: "view E t' = (view E t1)(?nr \<mapsto> Internal [sep] [?root, r])" by (simp add: t' alloc_def)
    have "forest (view E t') h None None [sep] [?root, r] (put k v ?ES) {1..<?nr}"
      by (rule forest_frame [of _ _ "view E t1"]) (use F1 in \<open>auto simp: v s\<close>)
    from forest_node [OF _ this, of ?nr]
    have "forest (view E t') (Suc h) None None [] [?nr] (put k v ?ES) (insert ?nr {1..<?nr})"
      by (simp add: v)
    moreover have "insert ?nr {1..<?nr} = {1..<next_free t'}" "m_root (t_meta t') = ?nr"
      "m_count (t_meta t') = m_count (t_meta t1)"
      using I root by (auto simp: t' alloc_def grows_def)
    moreover have "dom (t_dirty t') \<subseteq> {1..<next_free t'}"
      using dom1 I root by (auto simp: t' alloc_def set_node_def grows_def)
    ultimately show ?thesis using tree_wfI [of E t' "Suc h"] cnt1 by simp
  qed
  then show "tree_inv E t'" "tree_entries E t' = put k v ?ES" by blast+
qed

subsection \<open>Insertion succeeds\<close>

text \<open>The serializer encodes every node and sizes every record (\<open>bincode\<close> fails on neither).\<close>

definition codec_total :: "'v tree_env \<Rightarrow> bool" where
  "codec_total E \<longleftrightarrow> (\<forall>n. te_encode E n \<noteq> None) \<and> (\<forall>v. te_size E v \<noteq> None)"

lemma codec_total_encode: "codec_total E \<Longrightarrow> \<exists>b. node_encode E n = Inr b"
  by (auto simp: codec_total_def node_encode_def split: option.splits)

lemma codec_total_cost: "codec_total E \<Longrightarrow> \<exists>c. entry_cost E k v = Inr c"
  by (auto simp: codec_total_def entry_cost_def split: option.splits)

lemma codec_total_overflowed: "codec_total E \<Longrightarrow> \<exists>r. overflowed E n est = Inr r"
  using codec_total_encode [of E n] by (auto simp: overflowed_def Let_def)

lemma leaf_insert_total:
  assumes "codec_total E" and "skeys es"
  shows "\<exists>r. leaf_insert E t p es k v = Inr r"
proof -
  obtain b where b: "node_encode E (Leaf es) = Inr b" using codec_total_encode [OF assms(1)] by blast
  obtain t1 est where size: "size_of E t p (Leaf es) = Inr (t1, est)"
    by (cases "t_sizes t p") (auto simp: size_of_def b)
  obtain new where new: "entry_cost E k v = Inr new" using codec_total_cost [OF assms(1)] by blast
  have "\<exists>r. leaf_put E t1 es est k v = Inr r"
  proof (cases "found_at es k")
    case (Some i)
    obtain old where "entry_cost E (fst (es ! i)) (snd (es ! i)) = Inr old"
      using codec_total_cost [OF assms(1)] by blast
    with Some new show ?thesis by (simp add: leaf_put_def)
  qed (simp add: leaf_put_def new)
  then obtain t2 es' est' where put: "leaf_put E t1 es est k v = Inr (t2, es', est')"
    by (metis surj_pair)
  obtain est2 full where ov: "overflowed E (Leaf es') est' = Inr (est2, full)"
    using codec_total_overflowed [OF assms(1)] by (metis surj_pair)
  have "es' \<noteq> []" using leaf_put_result(1) [OF put assms(2)] keys_put [of k v es] by auto
  then have "drop (length es' div 2) es' \<noteq> []" by (cases es') auto
  then obtain e rest where "drop (length es' div 2) es' = e # rest" by (cases "drop (length es' div 2) es'") auto
  moreover obtain lb rb where "node_encode E (Leaf (take (length es' div 2) es')) = Inr lb"
    "node_encode E (Leaf (drop (length es' div 2) es')) = Inr rb"
    using codec_total_encode [OF assms(1)] by metis
  ultimately have "\<exists>r. leaf_split E t2 p es' = Inr r" by (simp add: leaf_split_def Let_def alloc_def)
  then show ?thesis by (auto simp: leaf_insert_def size put ov)
qed

lemma internal_insert_total:
  assumes "codec_total E" and "ks \<noteq> []"
  shows "\<exists>r. internal_insert E t p ks cs = Inr r"
proof -
  obtain b where b: "node_encode E (Internal ks cs) = Inr b" using codec_total_encode [OF assms(1)] by blast
  obtain est full where ov: "overflowed E (Internal ks cs) (length b) = Inr (est, full)"
    using codec_total_overflowed [OF assms(1)] by (metis surj_pair)
  have "length ks div 2 < length ks" using assms(2) by (cases ks) auto
  then show ?thesis by (auto simp: internal_insert_def b ov Let_def alloc_def)
qed

lemma insert_into_total:
  "codec_total E \<Longrightarrow> wf_tree (view E t) h lo hi p \<Longrightarrow> distinct (pages (view E t) h p) \<Longrightarrow> h < f
   \<Longrightarrow> \<exists>r. insert_into f E t p k v = Inr r"
proof (induction h arbitrary: f t p lo hi)
  case 0
  obtain f' where f: "f = Suc f'" using "0.prems"(4) by (cases f) auto
  obtain es where es: "view E t p = Some (Leaf es)" "skeys es"
    using "0.prems"(2) by (auto split: option.splits node.splits)
  then show ?case using view_take [OF es(1)] leaf_insert_total [OF "0.prems"(1) es(2)] by (fastforce simp: f)
next
  case (Suc h)
  obtain f' where f: "f = Suc f'" "h < f'" using Suc.prems(4) by (cases f) auto
  obtain ks1 ks2 cs1 c cs2 where r: "view E t p = Some (Internal (ks1 @ ks2) (cs1 @ c # cs2))"
    "children (view E t) p = cs1 @ c # cs2" "child_index (ks1 @ ks2) k = length cs1"
    "wf_tree (view E t) h (lo_of lo ks1) (hi_of hi ks2) c"
    using route [OF Suc.prems(2), of k] by metis
  obtain t1 where t1: "take_node E t p = Inr (t1, Internal (ks1 @ ks2) (cs1 @ c # cs2))"
    using view_take [OF r(1)] by blast
  have p: "p \<notin> set (pages (view E t) h c)" "distinct (pages (view E t) h c)"
    using Suc.prems(3) r(2) by auto
  have same: "view E t1 q = view E t q" if "q \<in> set (pages (view E t) h c)" for q
    using take_view [OF t1] p that by (auto simp: grows_def)
  obtain t2 s where rec: "insert_into f' E t1 c k v = Inr (t2, s)"
    using Suc.IH [OF Suc.prems(1), of t1 _ _ c f'] frame [of "view E t" h c "view E t1", OF same] r(4) p(2) f(2)
    by (metis surj_pair)
  have "insert_at i sep ks \<noteq> []" for i sep and ks :: "key list" by (simp add: insert_at_def)
  from internal_insert_total [OF Suc.prems(1) this]
  show ?case by (auto simp: f t1 r(3) rec Let_def split: option.split)
qed

lemma tree_insert_total:
  assumes "codec_total E" and "tree_inv E t"
  shows "\<exists>t'. tree_insert E t k v = Inr t'"
proof -
  obtain h where h: "tree_wf E t h" using assms(2) by (auto simp: tree_inv_def)
  then obtain t1 s where "insert_into (tree_fuel t) E t (m_root (t_meta t)) k v = Inr (t1, s)"
    using insert_into_total [OF assms(1) _ _ tree_wf_fuel [OF h]] by (metis tree_wf_def surj_pair)
  then show ?thesis by (auto simp: tree_insert_def Let_def alloc_def split: option.split)
qed

end
