(* ===== verification/LoomTreeStore.thy ===== *)
theory LoomTreeStore
  imports LoomTreeWrite
begin

text \<open>
  Removal, the prefix scan, the merge prefilter and the flush of the B+tree, and the interface of
  an ordered key-value store that the tree provides to the rest of the system.
\<close>

section \<open>Removal\<close>

lemma remove_loop_wf:
  "forest (view E t) h lo hi [] [p] ES PS \<Longrightarrow> h < f
   \<Longrightarrow> \<exists>t'. remove_loop f E t p k = Inr (t', k \<in> fst ` set ES)
        \<and> forest (view E t') h lo hi [] [p] (del k ES) PS \<and> grows E PS t t' \<and> next_free t' = next_free t
        \<and> m_count (t_meta t') = m_count (t_meta t) - (if k \<in> fst ` set ES then 1 else 0)"
proof (induction h arbitrary: f t p lo hi ES PS)
  case 0
  obtain f' where f: "f = Suc f'" using "0.prems"(2) by (cases f) auto
  have PS: "PS = {p}" using "0.prems"(1) by (simp add: forest_one)
  obtain es where es: "view E t p = Some (Leaf es)" "skeys es" "\<forall>x\<in>fst ` set es. within lo hi x" "ES = es"
    using "0.prems"(1) by (auto simp: forest_one split: option.splits node.splits)
  obtain t1 where t1: "node E t p = Inr (t1, Leaf es)" "cached t t1" using view_node [OF es(1)] by blast
  have v1: "view E t1 = view E t" by (rule cached_view [OF t1(2)])
  show ?case
  proof (cases "found_at es k")
    case None
    then have "k \<notin> fst ` set es" using found_at_iff [OF es(2)] by simp
    moreover from this have "del k es = es" unfolding del_def by (auto intro!: filter_True)
    ultimately show ?thesis
      using "0.prems"(1) None t1 es(4) grows_cached [OF t1(2)] v1 cached_meta [OF t1(2)]
      by (auto simp: f)
  next
    case (Some i)
    then have k: "k \<in> fst ` set es" using found_at_iff [OF es(2), of k] by auto
    have "skeys (del k es)" "\<forall>x\<in>fst ` set (del k es). within lo hi x"
      using skeys_del [OF es(2)] es(3) by (auto simp: del_def)
    then show ?thesis
      using Some t1 es(4) k leaf_remove [OF es(2) Some] grows_cached [OF t1(2)] cached_meta [OF t1(2)] v1
      by (auto simp: f PS forest_one grows_def set_node_def view_def Let_def cached_def)
  qed
next
  case (Suc h)
  obtain f' where f: "f = Suc f'" "h < f'" using Suc.prems(2) by (cases f) auto
  have wf: "wf_tree (view E t) (Suc h) lo hi p" using Suc.prems(1) by (simp add: forest_one)
  obtain ks1 ks2 cs1 c cs2 where r: "view E t p = Some (Internal (ks1 @ ks2) (cs1 @ c # cs2))"
    "child_index (ks1 @ ks2) k = length cs1" "length cs1 = length ks1"
    "\<forall>x\<in>fst ` set (concat (map (ents (view E t) h) cs1)). x < k"
    "\<forall>x\<in>fst ` set (concat (map (ents (view E t) h) cs2)). k < x"
    using route [OF wf, of k] by metis
  note F = node_forest [OF r(1) Suc.prems(1)]
  obtain t1 where t1: "node E t p = Inr (t1, Internal (ks1 @ ks2) (cs1 @ c # cs2))" "cached t t1"
    using view_node [OF r(1)] by blast
  have v1: "view E t1 = view E t" by (rule cached_view [OF t1(2)])
  let ?L = "concat (map (ents (view E t) h) cs1)" and ?R = "concat (map (ents (view E t) h) cs2)"
    and ?C = "ents (view E t) h c" and ?pc = "set (pages (view E t) h c)"
  have ES: "ES = ?L @ ?C @ ?R" and pc: "?pc \<subseteq> PS - {p}" and "distinct (pages (view E t) h c)"
    "wf_tree (view E t) h (lo_of lo ks1) (hi_of hi ks2) c"
    using F(1) wf_children_at [OF r(3), of "wf_tree (view E t) h" lo hi ks2 c cs2] by (auto simp: forest_def)
  then have Fc: "forest (view E t1) h (lo_of lo ks1) (hi_of hi ks2) [] [c] ?C ?pc" by (simp add: forest_one v1)
  have mem: "k \<in> fst ` set ES \<longleftrightarrow> k \<in> fst ` set ?C" using ents_middle_put(2) [OF r(4,5)] ES by simp
  have dl: "del k ES = ?L @ del k ?C @ ?R" using del_middle [OF r(4,5)] ES by simp
  obtain t2 where t2: "remove_loop f' E t1 c k = Inr (t2, k \<in> fst ` set ?C)"
    "forest (view E t2) h (lo_of lo ks1) (hi_of hi ks2) [] [c] (del k ?C) ?pc" "grows E ?pc t1 t2"
    "next_free t2 = next_free t1"
    "m_count (t_meta t2) = m_count (t_meta t1) - (if k \<in> fst ` set ?C then 1 else 0)"
    using Suc.IH [OF Fc f(2)] by blast
  have same: "view E t2 q = view E t q" if "q \<notin> ?pc" for q
    using t2(3,4) that v1 by (auto simp: grows_def)
  have "forest (view E t2) h lo hi (ks1 @ [] @ ks2) (cs1 @ [c] @ cs2) (?L @ del k ?C @ ?R) ((PS - {p} - ?pc) \<union> ?pc)"
    by (rule forest_replace [OF F(1) r(3) t2(2) refl refl]) (use same in auto)
  moreover have "PS - {p} - ?pc \<union> ?pc = PS - {p}" using pc by auto
  ultimately have "forest (view E t2) h lo hi (ks1 @ ks2) (cs1 @ c # cs2) (del k ES) (PS - {p})"
    using dl by simp
  from forest_node [OF _ this, of p]
  have "forest (view E t2) (Suc h) lo hi [] [p] (del k ES) PS"
    using same [of p] r(1) pc F(2) by (auto simp: insert_absorb)
  moreover have "grows E PS t t2"
    by (rule grows_trans [OF grows_cached [OF t1(2)] t2(3)]) (use pc in auto)
  ultimately show ?case
    using t2 t1 r(2) mem cached_meta [OF t1(2)] by (auto simp: f Let_def)
qed

lemma length_del: "skeys es \<Longrightarrow> length (del k es) = length es - (if k \<in> fst ` set es then 1 else 0)"
proof (induction es)
  case (Cons e es)
  show ?case
  proof (cases "fst e = k")
    case True
    then have "k \<notin> fst ` set es" using Cons.prems by auto
    with True Cons show ?thesis by (simp add: del_def)
  next
    case False
    moreover have "es \<noteq> []" if "k \<in> fst ` set es" using that by auto
    ultimately show ?thesis using Cons by (cases es) (auto simp: del_def)
  qed
qed (simp add: del_def)

lemma tree_remove_inv:
  assumes inv: "tree_inv E t"
  shows "\<exists>t'. tree_remove E t k = Inr (t', k \<in> fst ` set (tree_entries E t)) \<and> tree_inv E t'
     \<and> tree_entries E t' = del k (tree_entries E t)"
proof -
  obtain h where h: "tree_wf E t h" using inv by (auto simp: tree_inv_def)
  have F: "forest (view E t) h None None [] [m_root (t_meta t)] (tree_entries E t) {1..<next_free t}"
    and cnt: "m_count (t_meta t) = length (tree_entries E t)" and dom: "dom (t_dirty t) \<subseteq> {1..<next_free t}"
    using h tree_wf_entries [OF h] by (simp_all add: tree_wf_forest)
  obtain t' where t': "tree_remove E t k = Inr (t', k \<in> fst ` set (tree_entries E t))"
    "forest (view E t') h None None [] [m_root (t_meta t)] (del k (tree_entries E t)) {1..<next_free t}"
    "grows E {1..<next_free t} t t'" "next_free t' = next_free t"
    "m_count (t_meta t') = m_count (t_meta t) - (if k \<in> fst ` set (tree_entries E t) then 1 else 0)"
    using remove_loop_wf [OF F tree_wf_fuel [OF h], of k] by (auto simp: tree_remove_def)
  have "dom (t_dirty t') \<subseteq> dom (t_dirty t) \<union> {1..<next_free t} \<union> {next_free t..<next_free t'}"
    using t'(3) by (simp add: grows_def)
  then have "dom (t_dirty t') \<subseteq> {1..<next_free t}" using t'(4) dom by auto
  then show ?thesis
    using tree_wfI [of E t' h] t' cnt length_del [OF tree_inv_entries(1) [OF inv], of k]
    by (simp add: grows_def)
qed

section \<open>The prefix scan\<close>

lemma prefix_upper_Cons:
  "prefix_upper (x # p) =
     (case prefix_upper p of
        Some q \<Rightarrow> Some (x # q)
      | None \<Rightarrow> if nat_of_byte x = 255 then None else Some [byte_of (nat_of_byte x + 1)])"
proof (cases "dropWhile (\<lambda>c. nat_of_byte c = 255) (rev p)")
  case Nil
  then have "\<forall>c\<in>set (rev p). nat_of_byte c = 255" by (simp add: dropWhile_eq_Nil_conv)
  then have "dropWhile (\<lambda>c. nat_of_byte c = 255) (rev p @ [x]) = dropWhile (\<lambda>c. nat_of_byte c = 255) [x]"
    by (intro dropWhile_append2) auto
  then have "prefix_upper (x # p) = (if nat_of_byte x = 255 then None else Some [byte_of (nat_of_byte x + 1)])"
    by (simp add: prefix_upper_def)
  moreover have "prefix_upper p = None" using Nil by (simp only: prefix_upper_def list.case)
  ultimately show ?thesis by simp
next
  case (Cons c cs)
  moreover have "\<exists>y\<in>set (rev p). nat_of_byte y \<noteq> 255"
  proof (rule ccontr)
    assume "\<not> ?thesis"
    then have "dropWhile (\<lambda>c. nat_of_byte c = 255) (rev p) = []" by simp
    with Cons show False by simp
  qed
  ultimately have "dropWhile (\<lambda>c. nat_of_byte c = 255) (rev p @ [x]) = c # cs @ [x]"
    using dropWhile_append1 [of _ "rev p" "\<lambda>c. nat_of_byte c = 255" "[x]"] by auto
  with Cons show ?thesis by (simp add: prefix_upper_def)
qed

lemma byte_less: "x < y \<longleftrightarrow> nat_of_byte x < nat_of_byte y"
  by (simp add: less_char_def nat_of_byte_def)

lemma byte_succ: "nat_of_byte x \<noteq> 255 \<Longrightarrow> y < byte_of (nat_of_byte x + 1) \<longleftrightarrow> \<not> x < y"
proof -
  assume "nat_of_byte x \<noteq> 255"
  then have "Suc (nat_of_byte x) mod 256 = Suc (nat_of_byte x)"
    using nat_of_byte_less [of x] by (intro mod_less) linarith
  then show ?thesis by (simp add: byte_less not_less less_Suc_eq_le)
qed

lemma prefix_range: "in_range p (prefix_upper p) k \<longleftrightarrow> prefix p k"
proof (induction p arbitrary: k)
  case Nil
  show ?case by (simp add: in_range_def prefix_upper_def)
next
  case (Cons x p)
  show ?case
  proof (cases k)
    case (Cons y k')
    have IH: "in_range p (prefix_upper p) k' \<longleftrightarrow> prefix p k'" by (rule Cons.IH)
    show ?thesis
    proof (cases "prefix_upper p")
      case None
      then have p: "p \<le> k' \<longleftrightarrow> prefix p k'" using IH by (simp add: in_range_def)
      show ?thesis
      proof (cases "nat_of_byte x = 255")
        case True
        then have "\<not> x < y" using nat_of_byte_less [of y] by (simp add: byte_less del: nat_of_byte_less)
        then show ?thesis using p Cons None True by (auto simp: in_range_def prefix_upper_Cons)
      next
        case False
        have "y # k' < [byte_of (nat_of_byte x + 1)] \<longleftrightarrow> \<not> x < y"
          using byte_succ [OF False, of y] by (auto simp: Cons_less_Cons)
        then show ?thesis using p Cons None False by (auto simp: in_range_def prefix_upper_Cons)
      qed
    next
      case (Some q)
      then show ?thesis using IH Cons by (auto simp: in_range_def prefix_upper_Cons)
    qed
  qed (simp add: in_range_def)
qed

text \<open>The children that are skipped hold no key of the range.\<close>

lemma range_children_ents:
  assumes "\<And>l u c. P l u c \<Longrightarrow> \<forall>k\<in>fst ` set (F c). within l u k"
    and "wf_children P wlo whi ks cs" and "lower = None \<or> lower = wlo"
  shows "concat (map (\<lambda>c. filter (\<lambda>e. in_range lo hi (fst e)) (F c)) (range_children lo hi lower ks cs))
       = filter (\<lambda>e. in_range lo hi (fst e)) (concat (map F cs))"
  using assms(2,3)
proof (induction ks arbitrary: cs lower wlo)
  case Nil
  then obtain c where cs: "cs = [c]" "P wlo whi c"
    using wf_children_length [OF Nil(1)] by (cases cs) auto
  have "filter (\<lambda>e. in_range lo hi (fst e)) (F c) = []"
    if "lower = Some l" "hi = Some u" "\<not> l < u" for l u
    using assms(1) [OF cs(2)] that Nil(2) by (fastforce simp: filter_empty_conv in_range_def within_def)
  then show ?case by (auto simp: cs split: option.split)
next
  case (Cons u ks)
  then obtain c cs' where cs: "cs = c # cs'" "P wlo (Some u) c" "wf_children P (Some u) whi ks cs'"
    by (cases cs) auto
  have IH: "concat (map (\<lambda>c. filter (\<lambda>e. in_range lo hi (fst e)) (F c)) (range_children lo hi (Some u) ks cs'))
       = filter (\<lambda>e. in_range lo hi (fst e)) (concat (map F cs'))"
    by (rule Cons.IH [OF cs(3)]) simp
  have w: "\<forall>k\<in>fst ` set (F c). within wlo (Some u) k" by (rule assms(1) [OF cs(2)])
  have "filter (\<lambda>e. in_range lo hi (fst e)) (F c) = []"
    if "lower = Some l" "hi = Some h" "\<not> l < h" for l h
    using w that Cons.prems(2) by (fastforce simp: filter_empty_conv in_range_def within_def)
  moreover have "filter (\<lambda>e. in_range lo hi (fst e)) (F c) = []" if "\<not> lo < u"
    using w that by (fastforce simp: filter_empty_conv in_range_def within_def)
  ultimately show ?case using IH by (auto simp: cs(1) Let_def split: option.split)
qed

lemma collect_range_wf:
  "wf_tree (view E t) h wlo whi p \<Longrightarrow> h < f
   \<Longrightarrow> \<exists>t'. collect_range f E lo hi t p
         = Inr (t', filter (\<lambda>e. in_range lo hi (fst e)) (ents (view E t) h p)) \<and> cached t t'"
proof (induction h arbitrary: t f wlo whi p)
  case 0
  then obtain f' es where f: "f = Suc f'" and es: "view E t p = Some (Leaf es)"
    by (cases f) (auto split: option.splits node.splits)
  show ?case using view_node [OF es(1)] es by (auto simp: f)
next
  case (Suc h)
  let ?in = "filter (\<lambda>e. in_range lo hi (fst e))"
  obtain f' where f: "f = Suc f'" "h < f'" using Suc.prems(2) by (cases f) auto
  obtain ks cs where Np: "view E t p = Some (Internal ks cs)" "children (view E t) p = cs"
    "wf_children (wf_tree (view E t) h) wlo whi ks cs"
    and each: "\<And>c. c \<in> set cs \<Longrightarrow> \<exists>lo hi. wf_tree (view E t) h lo hi c"
    using wf_internal [OF Suc.prems(1)] by metis
  obtain t' where t': "node E t p = Inr (t', Internal ks cs)" "cached t t'"
    using view_node [OF Np(1)] by blast
  have sub: "set (range_children lo hi lower ks cs) \<subseteq> set cs" for lower and ks :: "key list" and cs
    by (induction cs arbitrary: lower ks) (auto simp: Let_def split: option.splits)
  have "\<exists>t''. collect_range f' E lo hi t1 c = Inr (t'', ?in (ents (view E t) h c)) \<and> cached t1 t''"
    if c: "c \<in> set (range_children lo hi None ks cs)" and t1c: "cached t' t1" for c t1
  proof -
    have t1: "view E t1 = view E t" by (rule cached_view [OF cached_trans [OF t'(2) t1c]])
    obtain l u where "wf_tree (view E t1) h l u c" using each c sub t1 by (metis subsetD)
    from Suc.IH [OF this f(2)] show ?thesis by (simp add: t1)
  qed
  from each_child_ok [of _ t' "collect_range f' E lo hi" "\<lambda>c. ?in (ents (view E t) h c)", OF this]
  obtain t'' where "each_child (collect_range f' E lo hi) t' (range_children lo hi None ks cs)
      = Inr (t'', concat (map (\<lambda>c. ?in (ents (view E t) h c)) (range_children lo hi None ks cs)))"
    "cached t' t''" by blast
  moreover have "concat (map (\<lambda>c. ?in (ents (view E t) h c)) (range_children lo hi None ks cs))
      = ?in (concat (map (ents (view E t) h) cs))"
    by (rule range_children_ents [OF wf_within Np(3)]) auto
  ultimately show ?case using t' cached_trans [OF t'(2)] by (simp add: f Np)
qed

lemma tree_scan_prefix_inv:
  assumes "tree_inv E t"
  shows "\<exists>t'. tree_scan_prefix E t p = Inr (t', filter (\<lambda>e. prefix p (fst e)) (tree_entries E t)) \<and> cached t t'"
proof -
  obtain h where h: "tree_wf E t h" using assms by (auto simp: tree_inv_def)
  then have "wf_tree (view E t) h None None (m_root (t_meta t))" by (simp add: tree_wf_def)
  from collect_range_wf [OF this tree_wf_fuel [OF h], of p "prefix_upper p"]
  show ?thesis by (simp add: tree_scan_prefix_def tree_wf_entries [OF h] prefix_range)
qed

end
