(* ===== verification/LoomTreeCommit.thy ===== *)
theory LoomTreeCommit
  imports LoomTreeStore
begin

text \<open>
  The merge prefilter (\<open>keys_in_pages\<close>) and the flush of a transaction: every key on which two
  trees differ lies in a leaf of a page on which their stores differ, and a tree that is flushed,
  committed and reopened holds the same entries.  Then the interface of an ordered key-value store
  that the session and the merge engine use, interpreted on the tree.
\<close>

section \<open>The merge prefilter\<close>

lemma leaf_page_ents:
  "wf_tree N h lo hi p \<Longrightarrow> q \<in> set (pages N h p) \<Longrightarrow> N q = Some (Leaf es) \<Longrightarrow> set es \<subseteq> set (ents N h p)"
proof (induction h arbitrary: lo hi p)
  case (Suc h)
  obtain ks cs where i: "N p = Some (Internal ks cs)" "children N p = cs"
    "\<And>c. c \<in> set cs \<Longrightarrow> \<exists>lo hi. wf_tree N h lo hi c"
    using wf_internal [OF Suc.prems(1)] by metis
  then obtain c where "c \<in> set cs" "q \<in> set (pages N h c)" using Suc.prems(2,3) by auto
  moreover obtain l u where "wf_tree N h l u c" using i(3) calculation(1) by blast
  ultimately have "set es \<subseteq> set (ents N h c)" using Suc.IH Suc.prems(3) by blast
  then show ?case using i(2) \<open>c \<in> set cs\<close> by auto
qed auto

lemma ents_leaf_page:
  "wf_tree N h lo hi p \<Longrightarrow> e \<in> set (ents N h p)
   \<Longrightarrow> \<exists>q es. q \<in> set (pages N h p) \<and> N q = Some (Leaf es) \<and> e \<in> set es"
proof (induction h arbitrary: lo hi p)
  case 0
  then show ?case by (auto split: option.splits node.splits)
next
  case (Suc h)
  obtain ks cs where i: "children N p = cs" "\<And>c. c \<in> set cs \<Longrightarrow> \<exists>lo hi. wf_tree N h lo hi c"
    using wf_internal [OF Suc.prems(1)] by metis
  then obtain c where c: "c \<in> set cs" "e \<in> set (ents N h c)" using Suc.prems(2) by auto
  then obtain q es where "q \<in> set (pages N h c)" "N q = Some (Leaf es)" "e \<in> set es"
    using Suc.IH i(2) by meson
  then show ?case using c(1) i(1) by auto
qed

definition leaf_keys :: "'v node option \<Rightarrow> key set" where
  "leaf_keys n = (case n of Some (Leaf es) \<Rightarrow> fst ` set es | _ \<Rightarrow> {})"

lemma page_keys_cached:
  "\<exists>t' ks. page_keys E t ps = (t', ks) \<and> cached t t'
     \<and> set ks = (\<Union>p\<in>set ps - {META_PAGE}. leaf_keys (view E t p))"
proof (induction ps arbitrary: t)
  case (Cons p ps)
  show ?case
  proof (cases "p = META_PAGE")
    case False
    show ?thesis
    proof (cases "node E t p")
      case (Inl e)
      then have "view E t p = None" using view_node [of E t p] by (cases "view E t p") auto
      then show ?thesis using Cons [of t] Inl False by (auto simp: leaf_keys_def)
    next
      case (Inr r)
      then obtain t1 n where r: "node E t p = Inr (t1, n)" by (cases r) auto
      note nv = node_view [OF r]
      obtain t' ks where "page_keys E t1 ps = (t', ks)" "cached t1 t'"
        "set ks = (\<Union>p\<in>set ps - {META_PAGE}. leaf_keys (view E t p))"
        using Cons [of t1] cached_view [OF conjunct2 [OF nv]] by metis
      moreover have lk: "leaf_keys (view E t p) = set (case n of Leaf es \<Rightarrow> map fst es | Internal _ _ \<Rightarrow> [])"
        using nv by (cases n) (auto simp: leaf_keys_def)
      moreover have "cached t t'" using nv calculation(2) cached_trans by blast
      ultimately show ?thesis using False r by (simp add: insert_Diff_if)
    qed
  qed (use Cons [of t] in auto)
qed auto

lemma distinct_dedup: "sorted xs \<Longrightarrow> distinct (remdups_adj xs)"
proof (induction xs rule: remdups_adj.induct)
  case (3 x y xs)
  then show ?case by (cases "x = y") (force simp: le_less)+
qed auto

lemma keys_in_pages_result:
  obtains t' ks where "keys_in_pages E t ps = (t', ks)" "cached t t'"
    "set ks = (\<Union>p\<in>set ps - {META_PAGE}. leaf_keys (view E t p))" "sorted_wrt (<) ks"
proof -
  obtain t' ks where k: "page_keys E t ps = (t', ks)" "cached t t'"
    "set ks = (\<Union>p\<in>set ps - {META_PAGE}. leaf_keys (view E t p))"
    using page_keys_cached [of E t ps] by blast
  have "sorted_wrt (<) (remdups_adj (sort ks))"
    by (simp add: strict_sorted_iff sorted_remdups_adj distinct_dedup)
  then show thesis using that [of t' "remdups_adj (sort ks)"] k by (simp add: keys_in_pages_def)
qed

text \<open>Pages that were never allocated were never written.\<close>

definition tree_fresh :: "'v tree_env \<Rightarrow> 'v tree \<Rightarrow> bool" where
  "tree_fresh E t \<longleftrightarrow> (\<forall>p. next_free t \<le> p \<longrightarrow> view E t p = Some (Leaf []))"

lemma entry_on_changed_page:
  assumes 1: "tree_inv E1 t1" and 2: "tree_inv E2 t2" and fresh: "tree_fresh E2 t2"
    and k: "map_of (tree_entries E1 t1) k = Some v" "map_of (tree_entries E2 t2) k \<noteq> Some v"
  shows "\<exists>p. p \<noteq> META_PAGE \<and> view E1 t1 p \<noteq> view E2 t2 p \<and> k \<in> leaf_keys (view E1 t1 p)"
proof -
  obtain h1 h2 where h1: "tree_wf E1 t1 h1" and h2: "tree_wf E2 t2 h2" using 1 2 by (auto simp: tree_inv_def)
  have "(k, v) \<in> set (ents (view E1 t1) h1 (m_root (t_meta t1)))"
    using map_of_SomeD [OF k(1)] tree_wf_entries [OF h1] by simp
  then obtain q es where q: "q \<in> set (pages (view E1 t1) h1 (m_root (t_meta t1)))"
    "view E1 t1 q = Some (Leaf es)" "(k, v) \<in> set es"
    using ents_leaf_page h1 by (metis tree_wf_def)
  have "view E1 t1 q \<noteq> view E2 t2 q"
  proof
    assume same: "view E1 t1 q = view E2 t2 q"
    show False
    proof (cases "q < next_free t2")
      case True
      then have "q \<in> set (pages (view E2 t2) h2 (m_root (t_meta t2)))"
        using h1 h2 q(1) by (auto simp: tree_wf_def)
      then have "(k, v) \<in> set (tree_entries E2 t2)"
        using leaf_page_ents [of "view E2 t2" h2] h2 q same tree_wf_entries [OF h2] by (fastforce simp: tree_wf_def)
      then show False using map_of_skeys_Some [OF tree_inv_entries(1) [OF 2]] k(2) by blast
    next
      case False
      then show False using fresh q(2,3) same by (auto simp: tree_fresh_def)
    qed
  qed
  moreover have "k \<in> leaf_keys (view E1 t1 q)" using q by (force simp: leaf_keys_def)
  moreover have "q \<noteq> META_PAGE" using q(1) h1 by (auto simp: tree_wf_def META_PAGE_def)
  ultimately show ?thesis by blast
qed

lemma differing_key_on_changed_page:
  assumes "tree_inv E1 t1" and "tree_inv E2 t2" and "tree_fresh E1 t1" and "tree_fresh E2 t2"
    and "map_of (tree_entries E1 t1) k \<noteq> map_of (tree_entries E2 t2) k"
  obtains p where "p \<noteq> META_PAGE" "view E1 t1 p \<noteq> view E2 t2 p"
    "k \<in> leaf_keys (view E1 t1 p) \<union> leaf_keys (view E2 t2 p)"
proof (cases "map_of (tree_entries E1 t1) k")
  case (Some v)
  then show thesis using entry_on_changed_page [OF assms(1,2,4) Some] assms(5) that by auto
next
  case None
  then obtain v where "map_of (tree_entries E2 t2) k = Some v" using assms(5) by (cases "map_of (tree_entries E2 t2) k") auto
  then show thesis using entry_on_changed_page [OF assms(2,1,3), of k v] None that by fastforce
qed

section \<open>Flush, commit, reopen\<close>

text \<open>The store after the staged writes are committed.\<close>

definition commit_writes :: "'v tree_env \<Rightarrow> (nat \<times> bytes) list \<Rightarrow> 'v tree_env" where
  "commit_writes E ws =
     E\<lparr>te_read_head := (\<lambda>p. case map_of ws p of Some b \<Rightarrow> PageBytes b | None \<Rightarrow> te_read_head E p)\<rparr>"

text \<open>What was encoded decodes to what was encoded.\<close>

definition codec_roundtrip :: "'v tree_env \<Rightarrow> bool" where
  "codec_roundtrip E \<longleftrightarrow>
     (\<forall>n b. te_encode E n = Some b \<longrightarrow> te_decode E b = Inr n) \<and>
     (\<forall>m b. te_encode_meta E m = Some b \<longrightarrow> te_decode_meta E b = Inr m)"

text \<open>A tree whose metadata is not dirty has the metadata of the store.\<close>

definition meta_known :: "'v tree_env \<Rightarrow> 'v tree \<Rightarrow> bool" where
  "meta_known E t \<longleftrightarrow> t_meta_dirty t \<or> (\<exists>t0. tree_open E = Inr t0 \<and> t_meta t0 = t_meta t)"

lemma tree_open_known: "tree_open E = Inr t \<Longrightarrow> meta_known E t \<and> t_dirty t = Map.empty"
  by (auto simp: meta_known_def tree_open_def split: page_read.splits sum.splits)

definition staged :: "'v tree_env \<Rightarrow> 'v tree \<Rightarrow> (nat \<times> bytes) list \<Rightarrow> nat \<Rightarrow> bool" where
  "staged E t ws p \<longleftrightarrow>
     (case t_dirty t p of None \<Rightarrow> map_of ws p = None
                        | Some n \<Rightarrow> \<exists>b. te_encode E n = Some b \<and> map_of ws p = Some b)"

definition staged_meta :: "'v tree_env \<Rightarrow> 'v tree \<Rightarrow> (nat \<times> bytes) list \<Rightarrow> bool" where
  "staged_meta E t ws \<longleftrightarrow>
     (if t_meta_dirty t then \<exists>b. te_encode_meta E (t_meta t) = Some b \<and> map_of ws META_PAGE = Some b
      else map_of ws META_PAGE = None)"

lemma stage_writes:
  "stage E t ps = Inr ws \<Longrightarrow> META_PAGE \<notin> set ps \<Longrightarrow> distinct ps \<Longrightarrow>
     (\<forall>p. p \<noteq> META_PAGE \<longrightarrow> (if p \<in> set ps then staged E t ws p else map_of ws p = None)) \<and> staged_meta E t ws"
proof (induction ps arbitrary: ws)
  case Nil
  then show ?case by (auto simp: staged_meta_def split: if_splits option.splits)
next
  case (Cons p ps)
  show ?case
  proof (cases "t_dirty t p")
    case None
    then have "stage E t ps = Inr ws" using Cons.prems(1) by simp
    from Cons.IH [OF this] Cons.prems(2,3) None show ?thesis by (auto simp: staged_def)
  next
    case (Some n)
    then obtain b ws' where b: "te_encode E n = Some b" "stage E t ps = Inr ws'" "ws = (p, b) # ws'"
      using Cons.prems(1) by (auto simp: bind_r_Inr_iff node_encode_def split: option.splits)
    have "staged E t ws' q \<Longrightarrow> q \<noteq> p \<Longrightarrow> staged E t ws q" for q
      by (simp add: staged_def b(3) split: option.splits)
    moreover have "staged E t ws p" using b Some by (simp add: staged_def)
    ultimately show ?thesis using Cons.IH [OF b(2)] Cons.prems(2,3) b(3) by (auto simp: staged_meta_def split: if_splits)
  qed
qed

lemma flush_writes:
  assumes "tree_flush E t = Inr ws" and "finite (dom (t_dirty t))" and "META_PAGE \<notin> dom (t_dirty t)"
  shows "p \<noteq> META_PAGE \<Longrightarrow> staged E t ws p" and "staged_meta E t ws"
proof -
  have st: "(\<forall>p. p \<noteq> META_PAGE \<longrightarrow> (if p \<in> dom (t_dirty t) then staged E t ws p else map_of ws p = None))
      \<and> staged_meta E t ws"
    using stage_writes [OF assms(1) [unfolded tree_flush_def]] assms(2,3) by simp
  then show "staged_meta E t ws" by blast
  assume "p \<noteq> META_PAGE"
  with st show "staged E t ws p" by (cases "t_dirty t p") (auto simp: staged_def domIff)
qed

lemma commit_read:
  "te_read_head (commit_writes E ws) p = (case map_of ws p of Some b \<Rightarrow> PageBytes b | None \<Rightarrow> te_read_head E p)"
  "te_decode (commit_writes E ws) = te_decode E" "te_decode_meta (commit_writes E ws) = te_decode_meta E"
  by (simp_all add: commit_writes_def)

lemma flush_view:
  assumes "staged E t ws p" and "codec_roundtrip E"
  shows "base_view (commit_writes E ws) p = view E t p"
proof (cases "t_dirty t p")
  case None
  then show ?thesis using assms(1) by (simp add: staged_def base_view_def commit_read view_def split: page_read.split)
next
  case (Some n)
  then obtain b where "te_encode E n = Some b" "map_of ws p = Some b" using assms(1) by (auto simp: staged_def)
  with Some show ?thesis using assms(2) by (simp add: base_view_def commit_read view_def codec_roundtrip_def)
qed

lemma flush_open:
  assumes "staged_meta E t ws" and "codec_roundtrip E" and "meta_known E t"
  obtains t' where "tree_open (commit_writes E ws) = Inr t'" "t_meta t' = t_meta t" "t_dirty t' = Map.empty"
proof (cases "t_meta_dirty t")
  case True
  then obtain b where "map_of ws META_PAGE = Some b" "te_encode_meta E (t_meta t) = Some b"
    using assms(1) by (auto simp: staged_meta_def)
  then show thesis using assms(2) that by (simp add: tree_open_def commit_read codec_roundtrip_def)
next
  case False
  then have "map_of ws META_PAGE = None" using assms(1) by (simp add: staged_meta_def)
  then have same: "tree_open (commit_writes E ws) = tree_open E" by (simp add: tree_open_def commit_read split: page_read.split)
  obtain t0 where "tree_open E = Inr t0" "t_meta t0 = t_meta t" using assms(3) False by (auto simp: meta_known_def)
  moreover from this(1) have "t_dirty t0 = Map.empty" using tree_open_known by blast
  ultimately show thesis using that same by simp
qed

lemma flush_reopen:
  assumes inv: "tree_inv E t" and fl: "tree_flush E t = Inr ws" and rt: "codec_roundtrip E" and mk: "meta_known E t"
  obtains t' where "tree_open (commit_writes E ws) = Inr t'" "tree_inv (commit_writes E ws) t'"
    "tree_entries (commit_writes E ws) t' = tree_entries E t"
proof -
  let ?E = "commit_writes E ws"
  obtain h where h: "tree_wf E t h" using inv by (auto simp: tree_inv_def)
  have dom: "finite (dom (t_dirty t))" "META_PAGE \<notin> dom (t_dirty t)"
    using h finite_subset [of "dom (t_dirty t)" "{1..<next_free t}"] by (auto simp: tree_wf_def META_PAGE_def)
  obtain t' where t': "tree_open ?E = Inr t'" "t_meta t' = t_meta t" "t_dirty t' = Map.empty"
    using flush_open [OF flush_writes(2) [OF fl dom] rt mk] by blast
  have "view ?E t' q = view E t q" if "q \<noteq> META_PAGE" for q
    using flush_view [OF flush_writes(1) [OF fl dom that] rt] t'(3) by (simp add: view_def [of ?E])
  moreover have "forest (view E t) h None None [] [m_root (t_meta t)] (tree_entries E t) {1..<next_free t}"
    using h tree_wf_entries [OF h] by (simp add: tree_wf_forest)
  ultimately have "forest (view ?E t') h None None [] [m_root (t_meta t)] (tree_entries E t) {1..<next_free t}"
    by (intro forest_frame [of "{1..<next_free t}" "view ?E t'" "view E t"]) (auto simp: META_PAGE_def)
  moreover have "m_count (t_meta t) = length (tree_entries E t)"
    using tree_inv_entries(2) [OF inv] by (simp add: tree_len_def)
  ultimately show thesis
    using that [OF t'(1)] tree_wfI [of ?E t' h "tree_entries E t"] t'(2,3) by simp
qed

section \<open>The interface of an ordered key-value store\<close>

text \<open>What the session, the merge engine and the ANN index rely on.  A store's \<open>get\<close> and its scans
  may move its cache, never its content; an insert may fail, and then has no result.\<close>

locale kv_store =
  fixes inv :: "'s \<Rightarrow> bool"
    and abs :: "'s \<Rightarrow> (key \<times> 'v) list"
    and get :: "'s \<Rightarrow> key \<Rightarrow> loom_error + ('s \<times> 'v option)"
    and insert :: "'s \<Rightarrow> key \<Rightarrow> 'v \<Rightarrow> loom_error + 's"
    and remove :: "'s \<Rightarrow> key \<Rightarrow> loom_error + ('s \<times> bool)"
    and scan_prefix :: "'s \<Rightarrow> bytes \<Rightarrow> loom_error + ('s \<times> (key \<times> 'v) list)"
  assumes sorted: "inv s \<Longrightarrow> skeys (abs s)"
    and get: "inv s \<Longrightarrow> \<exists>s'. get s k = Inr (s', map_of (abs s) k) \<and> inv s' \<and> abs s' = abs s"
    and insert: "inv s \<Longrightarrow> insert s k v = Inr s' \<Longrightarrow> inv s' \<and> abs s' = put k v (abs s)"
    and remove: "inv s \<Longrightarrow> \<exists>s'. remove s k = Inr (s', k \<in> fst ` set (abs s)) \<and> inv s' \<and> abs s' = del k (abs s)"
    and scan_prefix: "inv s \<Longrightarrow>
      \<exists>s'. scan_prefix s p = Inr (s', filter (\<lambda>e. prefix p (fst e)) (abs s)) \<and> inv s' \<and> abs s' = abs s"
begin

text \<open>A batch of inserts, in order: the last write of a key wins.\<close>

definition insert_all :: "'s \<Rightarrow> (key \<times> 'v) list \<Rightarrow> loom_error + 's" where
  "insert_all s ws = fold_r (\<lambda>(k, v) s. insert s k v) ws s"

lemma insert_all_abs:
  "inv s \<Longrightarrow> insert_all s ws = Inr s' \<Longrightarrow> inv s' \<and> abs s' = fold (\<lambda>(k, v). put k v) ws (abs s)"
proof (induction ws arbitrary: s)
  case (Cons w ws)
  obtain k v where w: "w = (k, v)" by (cases w)
  then obtain s1 where s1: "insert s k v = Inr s1" "insert_all s1 ws = Inr s'"
    using Cons.prems(2) by (auto simp: insert_all_def bind_r_Inr_iff)
  then show ?case using Cons.IH [of s1] insert [OF Cons.prems(1) s1(1)] by (simp add: w)
qed (simp add: insert_all_def)

lemma map_of_fold_put:
  "skeys es \<Longrightarrow> map_of (fold (\<lambda>(k, v). put k v) ws es) = map_of es ++ map_of (rev ws)"
  by (induction ws arbitrary: es) (auto simp: map_of_put skeys_put map_add_upd)

lemma insert_all_lookup:
  assumes "inv s" and "insert_all s ws = Inr s'"
  shows "\<exists>s''. get s' k = Inr (s'', case map_of (rev ws) k of Some v \<Rightarrow> Some v | None \<Rightarrow> map_of (abs s) k)"
proof -
  note r = insert_all_abs [OF assms]
  have "map_of (abs s') k = (map_of (abs s) ++ map_of (rev ws)) k"
    using r map_of_fold_put [OF sorted [OF assms(1)], of ws] by simp
  then show ?thesis using get [of s' k] r by (auto simp: map_add_def)
qed

lemma get_after_insert:
  assumes "inv s" and "insert s k v = Inr s'"
  shows "\<exists>s''. get s' j = Inr (s'', if j = k then Some v else map_of (abs s) j)"
proof -
  have "inv s'" "abs s' = put k v (abs s)" using insert [OF assms] by auto
  then show ?thesis using get [of s' j] map_of_put [OF sorted [OF assms(1)], of k v] by auto
qed

lemma get_after_remove:
  assumes "inv s" and "remove s k = Inr (s', b)"
  shows "\<exists>s''. get s' j = Inr (s'', if j = k then None else map_of (abs s) j)"
proof -
  have "inv s'" "abs s' = del k (abs s)" using remove [OF assms(1), of k] assms(2) by auto
  then show ?thesis using get [of s' j] map_of_del [of k "abs s"] by auto
qed

end

text \<open>A store whose inserts cannot fail.\<close>

locale kv_store_total = kv_store +
  assumes insert_total: "inv s \<Longrightarrow> \<exists>s'. insert s k v = Inr s'"
begin

lemma insert_all_total: "inv s \<Longrightarrow> \<exists>s'. insert_all s ws = Inr s'"
proof (induction ws arbitrary: s)
  case (Cons w ws)
  obtain k v where w: "w = (k, v)" by (cases w)
  obtain s1 where s1: "insert s k v = Inr s1" using insert_total [OF Cons.prems] by blast
  with Cons.IH [of s1] insert [OF Cons.prems s1] show ?case by (simp add: insert_all_def w)
qed (simp add: insert_all_def)

end

lemma tree_kv_laws:
  "kv_store (tree_inv E) (tree_entries E) (tree_get E) (tree_insert E) (tree_remove E) (tree_scan_prefix E)"
proof
  fix t :: "'a tree" and k p v t'
  assume inv: "tree_inv E t"
  show "skeys (tree_entries E t)" by (rule tree_inv_entries(1) [OF inv])
  show "\<exists>t'. tree_get E t k = Inr (t', map_of (tree_entries E t) k) \<and> tree_inv E t' \<and> tree_entries E t' = tree_entries E t"
    using tree_get_inv [OF inv, of k] inv cached_tree_inv by metis
  show "\<exists>t'. tree_remove E t k = Inr (t', k \<in> fst ` set (tree_entries E t)) \<and> tree_inv E t' \<and>
      tree_entries E t' = del k (tree_entries E t)"
    by (rule tree_remove_inv [OF inv])
  show "\<exists>t'. tree_scan_prefix E t p = Inr (t', filter (\<lambda>e. prefix p (fst e)) (tree_entries E t)) \<and>
      tree_inv E t' \<and> tree_entries E t' = tree_entries E t"
    using tree_scan_prefix_inv [OF inv, of p] inv cached_tree_inv by metis
  assume "tree_insert E t k v = Inr t'"
  then show "tree_inv E t' \<and> tree_entries E t' = put k v (tree_entries E t)"
    using tree_insert_result [OF inv] by blast
qed

interpretation tree_store: kv_store "tree_inv E" "tree_entries E" "tree_get E" "tree_insert E" "tree_remove E"
  "tree_scan_prefix E"
  for E :: "'v tree_env"
  by (rule tree_kv_laws)

interpretation tree_total: kv_store_total "\<lambda>t. codec_total E \<and> tree_inv E t" "tree_entries E" "tree_get E"
  "tree_insert E" "tree_remove E" "tree_scan_prefix E"
  for E :: "'v tree_env"
  by unfold_locales
    (metis tree_store.sorted tree_store.get tree_store.insert tree_store.remove tree_store.scan_prefix
      tree_insert_total)+

end
