(* ===== verification/LoomMerge.thy ===== *)
theory LoomMerge
  imports LoomTreeCommit
begin

text \<open>
  The merge engine of \<open>crates/loom-branch/src/merge.rs\<close>: the reserved keys, the typed rules, the
  decision on one record, and the planning of a three-way merge over the candidate keys of the
  changed pages.  The page store (\<open>diff3\<close> and \<open>fork\<close>) is a parameter.
\<close>

section \<open>Reserved keys\<close>

definition RESERVED_PREFIX :: bytes where
  "RESERVED_PREFIX = CHR 0x00 # ''loom/''"

definition merged_from_prefix :: key where
  "merged_from_prefix = RESERVED_PREFIX @ ''merged-from/''"

definition merged_from_key :: "bytes \<Rightarrow> key" where
  "merged_from_key source = merged_from_prefix @ source"

definition is_reserved :: "key \<Rightarrow> bool" where
  "is_reserved k = prefix RESERVED_PREFIX k"

section \<open>Conflicts\<close>

text \<open>\<open>std::str::from_utf8\<close>: well-formed UTF-8 as in RFC 3629.\<close>

definition tail_byte :: "char \<Rightarrow> bool" where
  "tail_byte c \<longleftrightarrow> 128 \<le> nat_of_byte c \<and> nat_of_byte c < 192"

definition byte_in :: "nat \<Rightarrow> nat \<Rightarrow> char \<Rightarrow> bool" where
  "byte_in lo hi c \<longleftrightarrow> lo \<le> nat_of_byte c \<and> nat_of_byte c \<le> hi"

fun utf8_valid :: "bytes \<Rightarrow> bool" where
  "utf8_valid [] = True"
| "utf8_valid (a # r) =
     (if nat_of_byte a < 128 then utf8_valid r
      else case r of
        [] \<Rightarrow> False
      | b # r1 \<Rightarrow>
          if byte_in 194 223 a then tail_byte b \<and> utf8_valid r1
          else case r1 of
            [] \<Rightarrow> False
          | c # r2 \<Rightarrow>
              if byte_in 224 239 a then
                tail_byte b \<and> tail_byte c \<and> (nat_of_byte a = 224 \<longrightarrow> 160 \<le> nat_of_byte b)
                \<and> (nat_of_byte a = 237 \<longrightarrow> nat_of_byte b < 160) \<and> utf8_valid r2
              else case r2 of
                [] \<Rightarrow> False
              | d # r3 \<Rightarrow>
                  byte_in 240 244 a \<and> tail_byte b \<and> tail_byte c \<and> tail_byte d
                  \<and> (nat_of_byte a = 240 \<longrightarrow> 144 \<le> nat_of_byte b)
                  \<and> (nat_of_byte a = 244 \<longrightarrow> nat_of_byte b < 144) \<and> utf8_valid r3)"

datatype key_text = KeyText bytes | BinaryKey nat

definition describe_key :: "key \<Rightarrow> key_text" where
  "describe_key k = (if utf8_valid k then KeyText k else BinaryKey (length k))"

datatype reason =
    SourceDeleted | TargetDeleted | BothDeleted | OpaqueValues
  | EqualClaims bytes claim_method f64 f64

definition reason_for :: "record_t option \<Rightarrow> record_t option \<Rightarrow> reason" where
  "reason_for source target =
     (case (source, target) of
        (None, Some _) \<Rightarrow> SourceDeleted
      | (Some _, None) \<Rightarrow> TargetDeleted
      | (Some (RClaim s), Some (RClaim t)) \<Rightarrow>
          EqualClaims (c_subject s) (cf_method (c_confidence s)) (cf_value (c_confidence s)) (cf_value (c_confidence t))
      | (Some _, Some _) \<Rightarrow> OpaqueValues
      | (None, None) \<Rightarrow> BothDeleted)"

record merge_conflict =
  mc_key :: key_text
  mc_base :: "description option"
  mc_source :: "description option"
  mc_target :: "description option"
  mc_reason :: reason
  mc_records :: "record_t option \<times> record_t option \<times> record_t option"

datatype resolution = ResSource | ResTarget | ResReplace record_t | ResUnresolved

datatype merge_policy = TakeSource | TakeTarget | ReportConflict | Custom "merge_conflict \<Rightarrow> resolution"

datatype decision = Nothing | Write record_t | Resolved record_t | Conflicted merge_conflict

datatype merge_outcome = Merged "(key \<times> record_t) list" nat | Conflicts "merge_conflict list"

section \<open>The typed rules\<close>

definition merge_claims :: "claim \<Rightarrow> claim \<Rightarrow> record_t option" where
  "merge_claims source target =
     (if \<not> overlaps (c_valid source) (c_valid target) then
        (case (i_start (c_valid source), i_start (c_valid target)) of
           (Some s, Some t) \<Rightarrow> Some (RClaim (if t \<le> s then source else target))
         | _ \<Rightarrow> None)
      else if provenance_rank source = provenance_rank target then None
      else Some (RClaim (if rank_gt (provenance_rank source) (provenance_rank target) then source else target)))"

definition counter_base :: "record_t option \<Rightarrow> i64" where
  "counter_base b = (case b of Some (RValue (Counter n)) \<Rightarrow> n | _ \<Rightarrow> 0)"

definition merge_counters :: "i64 \<Rightarrow> i64 \<Rightarrow> i64 \<Rightarrow> i64" where
  "merge_counters b s t = i64_sat_add (i64_sat_add b (i64_sat_sub s b)) (i64_sat_sub t b)"

definition merge_typed :: "record_t option \<Rightarrow> record_t \<Rightarrow> record_t \<Rightarrow> record_t option" where
  "merge_typed base source target =
     (case (source, target) of
        (RValue (Counter s), RValue (Counter t)) \<Rightarrow>
          Some (RValue (Counter (merge_counters (counter_base base) s t)))
      | (RValue (SetV s), RValue (SetV t)) \<Rightarrow> Some (RValue (SetV (s \<union> t)))
      | (RClaim s, RClaim t) \<Rightarrow> merge_claims s t
      | _ \<Rightarrow> None)"

section \<open>The decision on one record\<close>

text \<open>Describing a long text can panic, before any policy is asked.\<close>

definition describe_opt :: "record_t option \<Rightarrow> loom_error + description option" where
  "describe_opt r =
     (case r of
        None \<Rightarrow> Inr None
      | Some x \<Rightarrow> (case describe_record x of None \<Rightarrow> Inl (Panic ''byte index 60 is not a char boundary'')
                                           | Some d \<Rightarrow> Inr (Some d)))"

definition conflict_of :: "key \<Rightarrow> record_t option \<Rightarrow> record_t option \<Rightarrow> record_t option
    \<Rightarrow> loom_error + merge_conflict" where
  "conflict_of key base source target =
     bind_r (describe_opt base) (\<lambda>b.
     bind_r (describe_opt source) (\<lambda>s.
     bind_r (describe_opt target) (\<lambda>t.
       Inr \<lparr>mc_key = describe_key key, mc_base = b, mc_source = s, mc_target = t,
            mc_reason = reason_for source target, mc_records = (base, source, target)\<rparr>)))"

definition resolve :: "merge_policy \<Rightarrow> merge_conflict \<Rightarrow> resolution" where
  "resolve p c = (case p of TakeSource \<Rightarrow> ResSource | TakeTarget \<Rightarrow> ResTarget
                          | ReportConflict \<Rightarrow> ResUnresolved | Custom f \<Rightarrow> f c)"

definition decide :: "key \<Rightarrow> record_t option \<Rightarrow> record_t option \<Rightarrow> record_t option \<Rightarrow> merge_policy
    \<Rightarrow> loom_error + decision" where
  "decide key base source target policy =
     (if opt_eq source target then Inr Nothing
      else if opt_eq source base then Inr Nothing
      else if opt_eq target base then
        (case source of Some r \<Rightarrow> Inr (Write r) | None \<Rightarrow> Inr Nothing)
      else
        (case (case (source, target) of (Some s, Some t) \<Rightarrow> merge_typed base s t | _ \<Rightarrow> None) of
           Some merged \<Rightarrow> Inr (Write merged)
         | None \<Rightarrow>
             bind_r (conflict_of key base source target) (\<lambda>c.
               case resolve policy c of
                 ResSource \<Rightarrow> (case source of Some r \<Rightarrow> Inr (Resolved r) | None \<Rightarrow> Inr (Conflicted c))
               | ResTarget \<Rightarrow> Inr Nothing
               | ResReplace r \<Rightarrow> Inr (Resolved r)
               | ResUnresolved \<Rightarrow> Inr (Conflicted c))))"

section \<open>Planning a merge\<close>

text \<open>The accumulators of the loop: the writes, how many were automatic, the conflicts.\<close>

record plan_acc =
  pa_writes :: "(key \<times> record_t) list"
  pa_automatic :: nat
  pa_conflicts :: "merge_conflict list"

definition plan_step :: "key \<Rightarrow> decision \<Rightarrow> plan_acc \<Rightarrow> plan_acc" where
  "plan_step key d a =
     (case d of
        Nothing \<Rightarrow> a
      | Write r \<Rightarrow> a\<lparr>pa_writes := pa_writes a @ [(key, r)], pa_automatic := pa_automatic a + 1\<rparr>
      | Resolved r \<Rightarrow> a\<lparr>pa_writes := pa_writes a @ [(key, r)]\<rparr>
      | Conflicted c \<Rightarrow> a\<lparr>pa_conflicts := pa_conflicts a @ [c]\<rparr>)"

definition plan_finish :: "plan_acc \<Rightarrow> merge_outcome" where
  "plan_finish a = (if pa_conflicts a \<noteq> [] then Conflicts (pa_conflicts a)
                    else Merged (pa_writes a) (pa_automatic a))"

definition plan_start :: plan_acc where
  "plan_start = \<lparr>pa_writes = [], pa_automatic = 0, pa_conflicts = []\<rparr>"

text \<open>One working tree: the environment of its fork and its state.\<close>

type_synonym work = "record_t tree_env \<times> record_t tree"

fun plan_loop :: "work \<Rightarrow> work \<Rightarrow> work \<Rightarrow> merge_policy \<Rightarrow> key list \<Rightarrow> plan_acc \<Rightarrow> loom_error + plan_acc" where
  "plan_loop B S T policy [] a = Inr a"
| "plan_loop (EB, b) (ES, s) (ET, t) policy (k # ks) a =
     bind_r (tree_get EB b k) (\<lambda>(b, rb).
     bind_r (tree_get ES s k) (\<lambda>(s, rs).
     bind_r (tree_get ET t k) (\<lambda>(t, rt).
     bind_r (decide k rb rs rt policy) (\<lambda>d.
       plan_loop (EB, b) (ES, s) (ET, t) policy ks (plan_step k d a)))))"

text \<open>The page store: the pages on which either head differs from the base, and the fork of a head.\<close>

record 'm page_store =
  ps_diff3 :: "'m \<Rightarrow> 'm \<Rightarrow> 'm \<Rightarrow> loom_error + nat list"
  ps_fork :: "'m \<Rightarrow> loom_error + record_t tree_env"

definition candidate_keys :: "key list \<Rightarrow> key list \<Rightarrow> key list \<Rightarrow> key list" where
  "candidate_keys ss ts bs = filter (\<lambda>k. \<not> is_reserved k) (remdups_adj (sort (ss @ ts @ bs)))"

definition plan_merge :: "'m page_store \<Rightarrow> 'm \<Rightarrow> 'm \<Rightarrow> 'm \<Rightarrow> merge_policy \<Rightarrow> loom_error + merge_outcome" where
  "plan_merge st base source target policy =
     bind_r (ps_diff3 st base source target) (\<lambda>changed.
     bind_r (ps_fork st base) (\<lambda>EB.
     bind_r (ps_fork st source) (\<lambda>ES.
     bind_r (ps_fork st target) (\<lambda>ET.
     bind_r (tree_open EB) (\<lambda>b.
     bind_r (tree_open ES) (\<lambda>s.
     bind_r (tree_open ET) (\<lambda>t.
       let (s, ss) = keys_in_pages ES s changed;
           (t, ts) = keys_in_pages ET t changed;
           (b, bs) = keys_in_pages EB b changed
       in bind_r (plan_loop (EB, b) (ES, s) (ET, t) policy (candidate_keys ss ts bs) plan_start)
            (\<lambda>a. Inr (plan_finish a)))))))))"

end
