(* ===== verification/LoomMergeRef.thy ===== *)
theory LoomMergeRef
  imports LoomMerge
begin

text \<open>
  The reference merge over every key, the equivalence of the prefiltered engine with it, and the
  meaning of its outcome for the target branch.
\<close>

section \<open>The reference: every key is decided\<close>

type_synonym branch_map = "key \<Rightarrow> record_t option"

fun merge_keys :: "branch_map \<Rightarrow> branch_map \<Rightarrow> branch_map \<Rightarrow> merge_policy \<Rightarrow> key list \<Rightarrow> plan_acc
    \<Rightarrow> loom_error + plan_acc" where
  "merge_keys b s t policy [] a = Inr a"
| "merge_keys b s t policy (k # ks) a =
     bind_r (decide k (b k) (s k) (t k) policy) (\<lambda>d. merge_keys b s t policy ks (plan_step k d a))"

definition caller_keys :: "branch_map \<Rightarrow> branch_map \<Rightarrow> branch_map \<Rightarrow> key set" where
  "caller_keys b s t = {k \<in> dom b \<union> dom s \<union> dom t. \<not> is_reserved k}"

definition full_merge :: "branch_map \<Rightarrow> branch_map \<Rightarrow> branch_map \<Rightarrow> merge_policy \<Rightarrow> loom_error + merge_outcome" where
  "full_merge b s t policy =
     bind_r (merge_keys b s t policy (sorted_list_of_set (caller_keys b s t)) plan_start) (\<lambda>a. Inr (plan_finish a))"

text \<open>The documented behaviour of the store: a head opens as a well-formed tree, and a page that
  \<open>diff3\<close> does not list reads the same on all three heads.\<close>

definition head_tree :: "'m page_store \<Rightarrow> 'm \<Rightarrow> record_t tree_env \<Rightarrow> record_t tree \<Rightarrow> bool" where
  "head_tree st m E t \<longleftrightarrow> ps_fork st m = Inr E \<and> tree_open E = Inr t \<and> tree_inv E t \<and> tree_fresh E t"

definition head_map :: "record_t tree_env \<Rightarrow> record_t tree \<Rightarrow> branch_map" where
  "head_map E t = map_of (tree_entries E t)"

definition diff3_covers :: "'m page_store \<Rightarrow> 'm \<Rightarrow> 'm \<Rightarrow> 'm \<Rightarrow> bool" where
  "diff3_covers st base source target \<longleftrightarrow>
     (\<exists>changed EB ES ET. ps_diff3 st base source target = Inr changed \<and> ps_fork st base = Inr EB \<and>
        ps_fork st source = Inr ES \<and> ps_fork st target = Inr ET \<and>
        te_decode ES = te_decode EB \<and> te_decode ET = te_decode EB \<and>
        (\<forall>p. p \<notin> set changed \<longrightarrow> te_read_head ES p = te_read_head EB p \<and> te_read_head ET p = te_read_head EB p))"

section \<open>The engine decides as the reference does\<close>

lemma plan_loop_ref:
  "tree_inv EB b \<Longrightarrow> tree_inv ES s \<Longrightarrow> tree_inv ET t \<Longrightarrow>
   plan_loop (EB, b) (ES, s) (ET, t) policy ks a
     = merge_keys (head_map EB b) (head_map ES s) (head_map ET t) policy ks a"
proof (induction ks arbitrary: b s t a)
  case (Cons k ks)
  obtain b' where b: "tree_get EB b k = Inr (b', head_map EB b k)" "tree_inv EB b'" "head_map EB b' = head_map EB b"
    using tree_store.get [OF Cons.prems(1), of k] by (auto simp: head_map_def)
  obtain s' where s: "tree_get ES s k = Inr (s', head_map ES s k)" "tree_inv ES s'" "head_map ES s' = head_map ES s"
    using tree_store.get [OF Cons.prems(2), of k] by (auto simp: head_map_def)
  obtain t' where t: "tree_get ET t k = Inr (t', head_map ET t k)" "tree_inv ET t'" "head_map ET t' = head_map ET t"
    using tree_store.get [OF Cons.prems(3), of k] by (auto simp: head_map_def)
  show ?case using b s t Cons.IH by simp
qed simp

lemma merge_keys_skip:
  assumes "\<And>k. k \<in> set ks \<Longrightarrow> \<not> C k \<Longrightarrow> decide k (b k) (s k) (t k) policy = Inr Nothing"
  shows "merge_keys b s t policy (filter C ks) a = merge_keys b s t policy ks a"
  using assms
proof (induction ks arbitrary: a)
  case (Cons k ks)
  then show ?case by (cases "C k") (auto simp: plan_step_def)
qed simp

lemma decide_equal:
  "s = t \<Longrightarrow> opt_ok s \<Longrightarrow> decide k b s t policy = Inr Nothing"
  by (simp add: decide_def opt_eq_refl)

lemma leaf_keys_dom:
  assumes "tree_inv E t" and "tree_fresh E t" and "p \<noteq> META_PAGE" and "k \<in> leaf_keys (view E t p)"
  shows "k \<in> dom (map_of (tree_entries E t))"
proof -
  obtain h where h: "tree_wf E t h" using assms(1) by (auto simp: tree_inv_def)
  obtain es where es: "view E t p = Some (Leaf es)" "k \<in> fst ` set es"
    using assms(4) by (auto simp: leaf_keys_def split: option.splits node.splits)
  have "p < next_free t"
  proof (rule ccontr)
    assume "\<not> p < next_free t"
    then have "view E t p = Some (Leaf [])" using assms(2) by (simp add: tree_fresh_def)
    then show False using es by simp
  qed
  then have "p \<in> set (pages (view E t) h (m_root (t_meta t)))"
    using h assms(3) by (auto simp: tree_wf_def META_PAGE_def)
  then have "set es \<subseteq> set (tree_entries E t)"
    using leaf_page_ents [of "view E t" h] h es(1) tree_wf_entries [OF h] by (fastforce simp: tree_wf_def)
  then show ?thesis using es(2) by (auto simp: dom_map_of_conv_image_fst)
qed

lemma open_view: "tree_open E = Inr t \<Longrightarrow> view E t = base_view E"
  using tree_open_known [of E t] by (simp add: view_def fun_eq_iff)

lemma finite_caller_keys: "finite (caller_keys (head_map E1 t1) (head_map E2 t2) (head_map E3 t3))"
  unfolding caller_keys_def head_map_def by (simp add: finite_dom_map_of)

lemma unchanged_key:
  assumes 1: "head_tree st m1 E1 t1" and 2: "head_tree st m2 E2 t2"
    and pages: "\<And>p. p \<noteq> META_PAGE \<Longrightarrow> view E1 t1 p \<noteq> view E2 t2 p \<Longrightarrow> p \<in> PS"
    and "k \<notin> (\<Union>p\<in>PS - {META_PAGE}. leaf_keys (view E1 t1 p))"
    and "k \<notin> (\<Union>p\<in>PS - {META_PAGE}. leaf_keys (view E2 t2 p))"
  shows "head_map E1 t1 k = head_map E2 t2 k"
proof (rule ccontr)
  assume "head_map E1 t1 k \<noteq> head_map E2 t2 k"
  then obtain p where "p \<noteq> META_PAGE" "view E1 t1 p \<noteq> view E2 t2 p"
    "k \<in> leaf_keys (view E1 t1 p) \<union> leaf_keys (view E2 t2 p)"
    using differing_key_on_changed_page [of E1 t1 E2 t2 k] 1 2 by (metis head_map_def head_tree_def)
  then show False using pages assms(4,5) by blast
qed

lemma plan_merge_reference:
  assumes B: "head_tree st base EB b" and S: "head_tree st source ES s" and T: "head_tree st target ET t"
    and cov: "diff3_covers st base source target"
    and ok: "\<And>k. opt_ok (head_map ES s k)"
  shows "plan_merge st base source target policy
       = full_merge (head_map EB b) (head_map ES s) (head_map ET t) policy"
proof -
  obtain changed where ch: "ps_diff3 st base source target = Inr changed"
    and dec: "te_decode ES = te_decode EB" "te_decode ET = te_decode EB"
    and same: "\<And>p. p \<notin> set changed \<Longrightarrow> te_read_head ES p = te_read_head EB p \<and> te_read_head ET p = te_read_head EB p"
    using cov B S T by (auto simp: diff3_covers_def head_tree_def)
  have vB: "view EB b = base_view EB" and vS: "view ES s = base_view ES" and vT: "view ET t = base_view ET"
    using B S T by (auto simp: head_tree_def intro: open_view)
  have eqv: "view ES s p = view EB b p \<and> view ET t p = view EB b p" if "p \<notin> set changed" for p
    using same [OF that] dec by (simp add: vB vS vT base_view_def split: page_read.split)
  obtain s' ss where ss: "keys_in_pages ES s changed = (s', ss)" "cached s s'"
    "set ss = (\<Union>p\<in>set changed - {META_PAGE}. leaf_keys (view ES s p))" by (rule keys_in_pages_result)
  obtain t' ts where ts: "keys_in_pages ET t changed = (t', ts)" "cached t t'"
    "set ts = (\<Union>p\<in>set changed - {META_PAGE}. leaf_keys (view ET t p))" by (rule keys_in_pages_result)
  obtain b' bs where bs: "keys_in_pages EB b changed = (b', bs)" "cached b b'"
    "set bs = (\<Union>p\<in>set changed - {META_PAGE}. leaf_keys (view EB b p))" by (rule keys_in_pages_result)
  let ?b = "head_map EB b" and ?s = "head_map ES s" and ?t = "head_map ET t"
  let ?K = "caller_keys ?b ?s ?t" and ?C = "candidate_keys ss ts bs"
  have setC: "set ?C = {k \<in> set ss \<union> set ts \<union> set bs. \<not> is_reserved k}"
    by (auto simp: candidate_keys_def)
  have "k \<in> dom ?s" if "k \<in> set ss" for k
    using that S leaf_keys_dom [of ES s] unfolding ss(3) head_tree_def head_map_def by blast
  moreover have "k \<in> dom ?t" if "k \<in> set ts" for k
    using that T leaf_keys_dom [of ET t] unfolding ts(3) head_tree_def head_map_def by blast
  moreover have "k \<in> dom ?b" if "k \<in> set bs" for k
    using that B leaf_keys_dom [of EB b] unfolding bs(3) head_tree_def head_map_def by blast
  ultimately have CK: "set ?C \<subseteq> ?K" unfolding setC caller_keys_def by blast
  have fin: "finite ?K" by (rule finite_caller_keys)
  have filt: "?C = filter (\<lambda>k. k \<in> set ?C) (sorted_list_of_set ?K)"
  proof (rule sorted_distinct_set_unique)
    show "sorted ?C" "distinct ?C"
      unfolding candidate_keys_def
      by (simp_all add: sorted_wrt_filter sorted_remdups_adj distinct_dedup)
    show "sorted (filter (\<lambda>k. k \<in> set ?C) (sorted_list_of_set ?K))" by (simp add: sorted_wrt_filter)
    show "set ?C = set (filter (\<lambda>k. k \<in> set ?C) (sorted_list_of_set ?K))" using CK fin by auto
  qed simp
  have skip: "decide k (?b k) (?s k) (?t k) policy = Inr Nothing"
    if "k \<in> set (sorted_list_of_set ?K)" "k \<notin> set ?C" for k
  proof -
    have out: "k \<notin> set ss" "k \<notin> set ts" using that fin unfolding setC caller_keys_def by auto
    have "?s k = ?t k"
    proof (rule unchanged_key [OF S T, of "set changed"])
      fix p assume "view ES s p \<noteq> view ET t p"
      then show "p \<in> set changed" using eqv [of p] by metis
    qed (use out ss(3) ts(3) in auto)
    then show ?thesis by (rule decide_equal) (rule ok)
  qed
  have inv: "tree_inv EB b'" "tree_inv ES s'" "tree_inv ET t'"
    and hm: "head_map EB b' = ?b" "head_map ES s' = ?s" "head_map ET t' = ?t"
    using B S T cached_tree_inv [OF bs(2)] cached_tree_inv [OF ss(2)] cached_tree_inv [OF ts(2)]
    by (simp_all add: head_tree_def head_map_def)
  have "plan_loop (EB, b') (ES, s') (ET, t') policy ?C plan_start
      = merge_keys ?b ?s ?t policy ?C plan_start"
    using plan_loop_ref [OF inv] hm by simp
  also have "\<dots> = merge_keys ?b ?s ?t policy (sorted_list_of_set ?K) plan_start"
    by (subst filt) (rule merge_keys_skip [OF skip])
  finally show ?thesis
    using B S T ch ss(1) ts(1) bs(1) by (simp add: plan_merge_def full_merge_def head_tree_def)
qed

section \<open>What the outcome says\<close>

definition written :: "decision \<Rightarrow> record_t option" where
  "written d = (case d of Write r \<Rightarrow> Some r | Resolved r \<Rightarrow> Some r | _ \<Rightarrow> None)"

definition conflicting :: "decision \<Rightarrow> bool" where
  "conflicting d = (case d of Conflicted _ \<Rightarrow> True | _ \<Rightarrow> False)"

definition decision_writes :: "key \<Rightarrow> decision \<Rightarrow> (key \<times> record_t) list" where
  "decision_writes k d = (case written d of None \<Rightarrow> [] | Some r \<Rightarrow> [(k, r)])"

definition decision_conflicts :: "decision \<Rightarrow> merge_conflict list" where
  "decision_conflicts d = (case d of Conflicted c \<Rightarrow> [c] | _ \<Rightarrow> [])"

text \<open>The decision on a key, where it does not panic.\<close>

abbreviation decided :: "branch_map \<Rightarrow> branch_map \<Rightarrow> branch_map \<Rightarrow> merge_policy \<Rightarrow> key \<Rightarrow> decision" where
  "decided b s t policy k \<equiv> projr (decide k (b k) (s k) (t k) policy)"

lemma plan_step_fields:
  "pa_writes (plan_step k d a) = pa_writes a @ decision_writes k d"
  "pa_conflicts (plan_step k d a) = pa_conflicts a @ decision_conflicts d"
  by (cases d; simp add: plan_step_def decision_writes_def decision_conflicts_def written_def)+

lemma merge_keys_result:
  "merge_keys b s t policy ks a = Inr a' \<Longrightarrow>
     (\<forall>k\<in>set ks. decide k (b k) (s k) (t k) policy = Inr (decided b s t policy k)) \<and>
     pa_writes a' = pa_writes a @ concat (map (\<lambda>k. decision_writes k (decided b s t policy k)) ks) \<and>
     pa_conflicts a' = pa_conflicts a @ concat (map (\<lambda>k. decision_conflicts (decided b s t policy k)) ks)"
proof (induction ks arbitrary: a)
  case (Cons k ks)
  then obtain d where d: "decide k (b k) (s k) (t k) policy = Inr d"
    and r: "merge_keys b s t policy ks (plan_step k d a) = Inr a'"
    by (auto simp: bind_r_Inr_iff)
  from Cons.IH [OF r] show ?case by (simp add: d plan_step_fields)
qed simp

lemma merge_keys_total:
  "(\<And>k. k \<in> set ks \<Longrightarrow> \<exists>d. decide k (b k) (s k) (t k) policy = Inr d) \<Longrightarrow> \<exists>a'. merge_keys b s t policy ks a = Inr a'"
proof (induction ks arbitrary: a)
  case (Cons k ks)
  then show ?case by (metis bind_r_simps(2) list.set_intros merge_keys.simps(2))
qed simp

lemma decision_writes_lookup:
  "distinct ks \<Longrightarrow> map_of (concat (map (\<lambda>k. decision_writes k (f k)) ks)) k
     = (if k \<in> set ks then written (f k) else None)"
proof (induction ks)
  case (Cons j ks)
  then show ?case by (cases "written (f j)") (auto simp: decision_writes_def)
qed simp

lemma full_merge_merged:
  assumes "full_merge b s t policy = Inr (Merged ws n)" and fin: "finite (caller_keys b s t)"
  shows "map_of ws k = (if k \<in> caller_keys b s t then written (decided b s t policy k) else None)"
    and "k \<in> caller_keys b s t \<Longrightarrow> decide k (b k) (s k) (t k) policy = Inr (decided b s t policy k)
           \<and> \<not> conflicting (decided b s t policy k)"
proof -
  let ?ks = "sorted_list_of_set (caller_keys b s t)"
  obtain a where a: "merge_keys b s t policy ?ks plan_start = Inr a" "plan_finish a = Merged ws n"
    using assms(1) by (auto simp: full_merge_def bind_r_Inr_iff)
  note r = merge_keys_result [OF a(1)]
  have ws: "ws = pa_writes a" "pa_conflicts a = []" using a(2) by (auto simp: plan_finish_def split: if_splits)
  show "map_of ws k = (if k \<in> caller_keys b s t then written (decided b s t policy k) else None)"
    using r ws decision_writes_lookup [of ?ks "decided b s t policy" k] fin by (simp add: plan_start_def)
  assume "k \<in> caller_keys b s t"
  then show "decide k (b k) (s k) (t k) policy = Inr (decided b s t policy k)
      \<and> \<not> conflicting (decided b s t policy k)"
    using r ws(2) fin by (auto simp: plan_start_def conflicting_def decision_conflicts_def split: decision.splits)
qed

lemma full_merge_conflicts:
  assumes "full_merge b s t policy = Inr (Conflicts cs)" and fin: "finite (caller_keys b s t)"
  shows "\<exists>k\<in>caller_keys b s t. \<exists>c. decide k (b k) (s k) (t k) policy = Inr (Conflicted c) \<and> c \<in> set cs"
proof -
  let ?ks = "sorted_list_of_set (caller_keys b s t)"
  obtain a where a: "merge_keys b s t policy ?ks plan_start = Inr a" "plan_finish a = Conflicts cs"
    using assms(1) by (auto simp: full_merge_def bind_r_Inr_iff)
  note r = merge_keys_result [OF a(1)]
  have cs: "cs = pa_conflicts a" "cs \<noteq> []" using a(2) by (auto simp: plan_finish_def split: if_splits)
  then obtain k where k: "k \<in> caller_keys b s t" "decision_conflicts (decided b s t policy k) \<noteq> []"
    "set (decision_conflicts (decided b s t policy k)) \<subseteq> set cs"
    using r fin by (auto simp: plan_start_def)
  then obtain c where "decided b s t policy k = Conflicted c" "c \<in> set cs"
    by (auto simp: decision_conflicts_def split: decision.splits)
  moreover have "decide k (b k) (s k) (t k) policy = Inr (decided b s t policy k)"
    using r k(1) fin by simp
  ultimately show ?thesis using k(1) by metis
qed

text \<open>The keys the engine never decides keep the target's record.\<close>

lemma written_equal:
  assumes "decide k b s t policy = Inr d" and "written d = None" and "\<not> conflicting d"
  shows "d = Nothing"
  using assms by (cases d) (auto simp: written_def conflicting_def)

section \<open>The typed rules\<close>

lemma sint_sat_add: "i64_ok (sint a + sint b) \<Longrightarrow> sint (i64_sat_add a b) = sint a + sint b"
  by (simp add: i64_sat_add_def sint_i64_clamp_ok)

lemma sint_sat_sub: "i64_ok (sint a - sint b) \<Longrightarrow> sint (i64_sat_sub a b) = sint a - sint b"
  by (simp add: i64_sat_sub_def sint_i64_clamp_ok)

lemma counters_exact:
  assumes "i64_ok (sint s - sint b)" and "i64_ok (sint t - sint b)" and "i64_ok (sint s + sint t - sint b)"
  shows "sint (merge_counters b s t) = sint s + sint t - sint b"
proof -
  have ds: "sint (i64_sat_sub s b) = sint s - sint b" and dt: "sint (i64_sat_sub t b) = sint t - sint b"
    using assms by (simp_all add: sint_sat_sub)
  have "sint (i64_sat_add b (i64_sat_sub s b)) = sint s"
    using ds sint_i64_ok [of s] by (simp add: sint_sat_add)
  moreover have "i64_ok (sint s + (sint t - sint b))" using assms(3) by (simp add: algebra_simps)
  ultimately show ?thesis using dt by (simp add: merge_counters_def sint_sat_add)
qed

lemma counters_comm:
  assumes "i64_ok (sint s - sint b)" and "i64_ok (sint t - sint b)" and "i64_ok (sint s + sint t - sint b)"
  shows "merge_counters b s t = merge_counters b t s"
proof -
  have "sint (merge_counters b s t) = sint (merge_counters b t s)"
    using counters_exact [OF assms] counters_exact [of t b s] assms by (simp add: add.commute)
  then show ?thesis by (rule signed_word_eqI)
qed

lemma overlap_claims_comm:
  assumes "overlaps (c_valid a) (c_valid b)"
  shows "merge_claims a b = merge_claims b a"
  using assms overlaps_sym [of "c_valid a" "c_valid b"]
  by (auto simp: merge_claims_def rank_gt_def prod_eq_iff)

end
