(* ===== verification/LoomDemo.thy ===== *)
theory LoomDemo
  imports LoomMergeRef
begin

text \<open>
  Concrete instances of the parameters (a serializer, an empty store, a store with three heads), on
  which the hypotheses of the properties hold; the witnesses apply the properties here.
\<close>

section \<open>A serializer\<close>

definition d_str :: "bytes \<Rightarrow> bytes" where
  "d_str bs = concat (map (\<lambda>c. [CHR ''+'', c]) bs) @ ''-''"

fun r_str :: "bytes \<Rightarrow> bytes \<times> bytes" where
  "r_str (a # c # r) = (if a = CHR ''+'' then (let (b, r') = r_str r in (c # b, r')) else ([], c # r))"
| "r_str r = ([], [])"

lemma r_str [simp]: "r_str (d_str bs @ r) = (bs, r)"
proof (induction bs)
  case Nil
  show ?case by (cases r) (auto simp: d_str_def)
qed (simp add: d_str_def)

definition d_nat :: "nat \<Rightarrow> bytes" where
  "d_nat n = d_str (replicate n CHR ''x'')"

definition r_nat :: "bytes \<Rightarrow> nat \<times> bytes" where
  "r_nat b = (let (s, r) = r_str b in (length s, r))"

lemma r_nat [simp]: "r_nat (d_nat n @ r) = (n, r)"
  by (simp add: d_nat_def r_nat_def)

primrec r_items :: "(bytes \<Rightarrow> 'a \<times> bytes) \<Rightarrow> nat \<Rightarrow> bytes \<Rightarrow> 'a list \<times> bytes" where
  "r_items g 0 b = ([], b)"
| "r_items g (Suc n) b = (let (x, r) = g b; (xs, r') = r_items g n r in (x # xs, r'))"

definition d_list :: "('a \<Rightarrow> bytes) \<Rightarrow> 'a list \<Rightarrow> bytes" where
  "d_list d xs = d_nat (length xs) @ concat (map d xs)"

definition r_list :: "(bytes \<Rightarrow> 'a \<times> bytes) \<Rightarrow> bytes \<Rightarrow> 'a list \<times> bytes" where
  "r_list g b = (let (n, r) = r_nat b in r_items g n r)"

lemma r_list [simp]:
  assumes "\<And>x r. g (d x @ r) = (x, r)"
  shows "r_list g (d_list d xs @ r) = (xs, r)"
proof -
  have "r_items g (length xs) (concat (map d xs) @ r) = (xs, r)"
    by (induction xs) (simp_all add: assms)
  then show ?thesis by (simp add: r_list_def d_list_def)
qed

definition d_entry :: "key \<times> bytes \<Rightarrow> bytes" where
  "d_entry e = d_str (fst e) @ d_str (snd e)"

definition r_entry :: "bytes \<Rightarrow> (key \<times> bytes) \<times> bytes" where
  "r_entry b = (let (k, r) = r_str b; (v, r') = r_str r in ((k, v), r'))"

lemma r_entry [simp]: "r_entry (d_entry e @ r) = (e, r)"
  by (simp add: r_entry_def d_entry_def)

fun d_node :: "bytes node \<Rightarrow> bytes" where
  "d_node (Leaf es) = CHR ''L'' # d_list d_entry es @ []"
| "d_node (Internal ks cs) = CHR ''I'' # d_list d_str ks @ d_list d_nat cs @ []"

definition r_node :: "bytes \<Rightarrow> bytes + bytes node" where
  "r_node b =
     (case b of
        [] \<Rightarrow> Inl ''empty''
      | c # r \<Rightarrow> if c = CHR ''L'' then Inr (Leaf (fst (r_list r_entry r)))
                 else (let (ks, r') = r_list r_str r in Inr (Internal ks (fst (r_list r_nat r')))))"

lemma r_node [simp]: "r_node (d_node n) = Inr n"
proof (cases n)
  case (Leaf es)
  then show ?thesis using r_list [of r_entry d_entry es "[]"] by (simp add: r_node_def)
next
  case (Internal ks cs)
  then show ?thesis
    using r_list [of r_str d_str ks "d_list d_nat cs @ []"] r_list [of r_nat d_nat cs "[]"] by (simp add: r_node_def)
qed

definition d_meta :: "meta \<Rightarrow> bytes" where
  "d_meta m = d_list d_nat [m_format_version m, m_root m, m_next_free m, m_count m] @ []"

definition r_meta :: "bytes \<Rightarrow> bytes + meta" where
  "r_meta b =
     (case fst (r_list r_nat b) of
        [v, r, f, c] \<Rightarrow> Inr \<lparr>m_format_version = v, m_root = r, m_next_free = f, m_count = c\<rparr>
      | _ \<Rightarrow> Inl ''metadata'')"

lemma r_meta [simp]: "r_meta (d_meta m) = Inr m"
  using r_list [of r_nat d_nat "[m_format_version m, m_root m, m_next_free m, m_count m]" "[]"]
  by (simp add: r_meta_def d_meta_def)

section \<open>An empty store\<close>

definition demo_env :: "bytes tree_env" where
  "demo_env = \<lparr>te_read_head = (\<lambda>_. PageNotFound), te_page_size = 4096, te_write_error = (\<lambda>_ _. None),
     te_encode = (\<lambda>n. Some (d_node n)), te_decode = r_node, te_size = (\<lambda>v. Some (length v)),
     te_encode_meta = (\<lambda>m. Some (d_meta m)), te_decode_meta = r_meta\<rparr>"

lemma demo_codec: "codec_total demo_env" "codec_roundtrip demo_env"
  by (simp_all add: demo_env_def codec_total_def codec_roundtrip_def)

definition empty_tree :: "'v tree" where
  "empty_tree = \<lparr>t_dirty = Map.empty, t_sizes = Map.empty, t_meta = meta_empty, t_meta_dirty = False\<rparr>"

lemma empty_store:
  assumes "\<And>p. te_read_head E p = PageNotFound"
  shows "tree_open E = Inr empty_tree" and "tree_inv E empty_tree" and "tree_entries E empty_tree = []"
    and "tree_fresh E empty_tree"
proof -
  show "tree_open E = Inr empty_tree" by (simp add: tree_open_def assms empty_tree_def)
  have v: "view E empty_tree p = Some (Leaf [])" for p
    by (simp add: view_def base_view_def assms empty_tree_def)
  have set: "{Suc 0} = {Suc 0..<2}" by auto
  have "tree_wf E empty_tree 0"
    unfolding tree_wf_def by (auto simp: v) (auto simp: empty_tree_def meta_empty_def)
  then show "tree_inv E empty_tree" "tree_entries E empty_tree = []"
    using tree_wf_entries [of E empty_tree 0] by (auto simp: tree_inv_def v)
  show "tree_fresh E empty_tree" by (simp add: tree_fresh_def v)
qed

lemma demo_open: "tree_open demo_env = Inr empty_tree" "tree_inv demo_env empty_tree"
  "tree_entries demo_env empty_tree = []"
  using empty_store [of demo_env] by (simp_all add: demo_env_def)

section \<open>A store with three heads\<close>

text \<open>Each head is one leaf; the first byte of its pages names the head.\<close>

datatype demo_head = HeadBase | HeadSource | HeadTarget

fun demo_tag :: "demo_head \<Rightarrow> bytes" where
  "demo_tag HeadBase = ''b''" | "demo_tag HeadSource = ''s''" | "demo_tag HeadTarget = ''t''"

definition demo_fork :: "(bytes \<Rightarrow> (key \<times> record_t) list) \<Rightarrow> demo_head \<Rightarrow> record_t tree_env" where
  "demo_fork f m = \<lparr>te_read_head = (\<lambda>p. if p \<le> 1 then PageBytes (demo_tag m) else PageNotFound),
     te_page_size = 4096, te_write_error = (\<lambda>_ _. None), te_encode = (\<lambda>_. Some []),
     te_decode = (\<lambda>b. Inr (Leaf (f b))), te_size = (\<lambda>_. Some 0),
     te_encode_meta = (\<lambda>_. Some []),
     te_decode_meta = (\<lambda>b. Inr \<lparr>m_format_version = 1, m_root = 1, m_next_free = 2, m_count = length (f b)\<rparr>)\<rparr>"

definition demo_store :: "(bytes \<Rightarrow> (key \<times> record_t) list) \<Rightarrow> demo_head page_store" where
  "demo_store f = \<lparr>ps_diff3 = (\<lambda>_ _ _. Inr [0, 1]), ps_fork = (\<lambda>m. Inr (demo_fork f m))\<rparr>"

definition demo_tree :: "(bytes \<Rightarrow> (key \<times> record_t) list) \<Rightarrow> demo_head \<Rightarrow> record_t tree" where
  "demo_tree f m = \<lparr>t_dirty = Map.empty, t_sizes = Map.empty,
     t_meta = \<lparr>m_format_version = 1, m_root = 1, m_next_free = 2, m_count = length (f (demo_tag m))\<rparr>,
     t_meta_dirty = False\<rparr>"

lemma demo_view: "view (demo_fork f m) (demo_tree f m) p
    = (if p \<le> 1 then Some (Leaf (f (demo_tag m))) else Some (Leaf []))"
  by (simp add: view_def base_view_def demo_fork_def demo_tree_def)

lemma demo_head_tree:
  assumes "skeys (f (demo_tag m))"
  shows "head_tree (demo_store f) m (demo_fork f m) (demo_tree f m)"
    and "head_map (demo_fork f m) (demo_tree f m) = map_of (f (demo_tag m))"
proof -
  have "forest (view (demo_fork f m) (demo_tree f m)) 0 None None [] [m_root (t_meta (demo_tree f m))]
      (f (demo_tag m)) {1..<next_free (demo_tree f m)}"
    unfolding forest_one by (auto simp: demo_view within_def assms) (auto simp: demo_tree_def)
  from tree_wfI [OF this]
  have i: "tree_inv (demo_fork f m) (demo_tree f m)" "tree_entries (demo_fork f m) (demo_tree f m) = f (demo_tag m)"
    by (simp_all add: demo_tree_def)
  then show "head_map (demo_fork f m) (demo_tree f m) = map_of (f (demo_tag m))" by (simp add: head_map_def)
  have "tree_fresh (demo_fork f m) (demo_tree f m)"
    by (auto simp: tree_fresh_def demo_view) (simp add: demo_tree_def)
  moreover have "tree_open (demo_fork f m) = Inr (demo_tree f m)"
    by (simp add: tree_open_def demo_fork_def demo_tree_def META_PAGE_def)
  ultimately show "head_tree (demo_store f) m (demo_fork f m) (demo_tree f m)"
    using i(1) by (simp add: head_tree_def demo_store_def)
qed

lemma demo_covers: "diff3_covers (demo_store f) HeadBase HeadSource HeadTarget"
proof -
  have "te_read_head (demo_fork f m) p = PageNotFound" if "p \<notin> set [0, 1]" for m and p :: nat
    using that by (simp add: demo_fork_def)
  moreover have "te_decode (demo_fork f m) = te_decode (demo_fork f HeadBase)" for m
    by (simp add: demo_fork_def)
  ultimately show ?thesis by (simp add: diff3_covers_def demo_store_def)
qed

end
