(* ===== verification/LoomTreeProps.thy ===== *)
theory LoomTreeProps
  imports LoomDemo
begin

text \<open>
  The properties of the record store (\<open>tree.rs\<close>), with witnesses on the empty store of
  \<open>LoomDemo\<close>.
\<close>

section \<open>Point reads and writes\<close>

text \<open>On a well-formed tree a lookup terminates without an error and returns exactly the record
  the tree's ordered content holds under the key; it changes nothing but the size cache.\<close>

theorem tree_get_correct:
  assumes "tree_inv E t"
  shows "\<exists>t'. tree_get E t k = Inr (t', map_of (tree_entries E t) k) \<and> tree_inv E t'
            \<and> tree_entries E t' = tree_entries E t \<and> t_meta t' = t_meta t"
proof -
  obtain t' where "tree_get E t k = Inr (t', map_of (tree_entries E t) k)" "cached t t'"
    using tree_get_inv [OF assms] by blast
  then show ?thesis using cached_tree_inv [of t t' E] assms by (auto simp: cached_meta)
qed

theorem tree_get_correct_witness:
  "\<exists>t'. tree_get demo_env empty_tree ''k'' = Inr (t', None)"
  using tree_get_correct [OF demo_open(2), of "''k''"] by (auto simp: demo_open)

text \<open>C1: When the serializer encodes every node, an insert into a well-formed tree always succeeds:
  it refines the insertion into an ordered list, through replacement, leaf splits, internal splits
  and a new root, and it keeps the invariant (so the count and the page set stay right).  No record
  is refused, an oversize one neither: the code has an error for "a single record does not fit in a
  page", but its split puts half of the entries, rounded down, to the left, so the right half of a leaf
  of one entry is never empty and the error is never raised (\<open>leaf_split_refuses\<close>,
  \<open>oversize_record_accepted\<close> below); the record is left in a leaf over the fill limit.\<close>

theorem tree_insert_refines:
  assumes "tree_inv E t" and "codec_total E"
  shows "\<exists>t'. tree_insert E t k v = Inr t' \<and> tree_inv E t' \<and> tree_entries E t' = put k v (tree_entries E t)
            \<and> tree_len t' = tree_len t + (if k \<in> fst ` set (tree_entries E t) then 0 else 1)"
proof -
  obtain t' where t': "tree_insert E t k v = Inr t'" using tree_insert_total [OF assms(2,1)] by blast
  note r = tree_insert_result [OF assms(1) t']
  have "tree_len t' = length (put k v (tree_entries E t))" using tree_inv_entries(2) [OF r(1)] r(2) by simp
  then show ?thesis
    using t' r length_put [OF tree_inv_entries(1) [OF assms(1)], of k v] tree_inv_entries(2) [OF assms(1)] by simp
qed

theorem tree_insert_refines_witness:
  "\<exists>t'. tree_insert demo_env empty_tree ''k'' ''v'' = Inr t' \<and> tree_entries demo_env t' = [(''k'', ''v'')]"
  using tree_insert_refines [OF demo_open(2) demo_codec(1), of "''k''" "''v''"] by (auto simp: demo_open)

text \<open>The refusal of an oversize record is dead code: the split of a leaf can raise it only for a leaf without
  entries, and the leaf that is split has just taken one.\<close>

lemma leaf_split_refuses: "leaf_split E t p es = Inl (CorruptNode q d) \<Longrightarrow> es = []"
proof (rule ccontr)
  assume r: "leaf_split E t p es = Inl (CorruptNode q d)" and "es \<noteq> []"
  then have "length es div 2 < length es" by simp
  then have "drop (length es div 2) es \<noteq> []" by simp
  then obtain e rest where "drop (length es div 2) es = e # rest" by (cases "drop (length es div 2) es") auto
  then show False using r by (auto simp: leaf_split_def alloc_def Let_def node_encode_def split: option.splits)
qed

text \<open>So a record over the limit goes into the empty store: the old root is left without entries, the record
  stands alone in a page of more bytes than the limit, and no error says so.\<close>

lemma oversize_record_accepted:
  assumes empty: "\<And>p. te_read_head E p = PageNotFound" and "codec_total E"
    and big: "te_encode E (Leaf [(k, v)]) = Some b" "fill_limit (te_page_size E) < length b"
    and cost: "entry_cost E k v = Inr n" "fill_limit (te_page_size E) < n"
  shows "\<exists>t. tree_insert E empty_tree k v = Inr t \<and> t_dirty t 1 = Some (Leaf []) \<and> t_dirty t 2 = Some (Leaf [(k, v)])
    \<and> t_sizes t 2 = Some (length b)"
proof -
  obtain b0 where b0: "te_encode E (Leaf []) = Some b0" using assms(2) by (auto simp: codec_total_def)
  have "leaf_insert E empty_tree 1 [] k v
      = leaf_split E (empty_tree\<lparr>t_sizes := [1 \<mapsto> length b0], t_meta := meta_empty\<lparr>m_count := 1\<rparr>, t_meta_dirty := True\<rparr>) 1 [(k, v)]"
    using b0 big cost by (simp add: leaf_insert_def size_of_def empty_tree_def node_encode_def leaf_put_def found_at_def lower_bound_def
        insert_at_def overflowed_def Let_def meta_empty_def)
  then show ?thesis
    using b0 big by (simp add: tree_insert_def tree_fuel_def empty_tree_def meta_empty_def numeral_2_eq_2 take_node_def node_def empty
        leaf_split_def alloc_def node_encode_def set_sized_def set_node_def Let_def)
qed

lemma oversize_record_accepted_demo:
  "\<exists>t. tree_insert (demo_env\<lparr>te_page_size := 8\<rparr>) empty_tree ''k'' ''v'' = Inr t \<and> t_dirty t 2 = Some (Leaf [(''k'', ''v'')])"
proof -
  have l: "fill_limit 8 = 5" by code_simp
  have "\<exists>t. tree_insert (demo_env\<lparr>te_page_size := 8\<rparr>) empty_tree ''k'' ''v'' = Inr t \<and> t_dirty t 1 = Some (Leaf [])
      \<and> t_dirty t 2 = Some (Leaf [(''k'', ''v'')]) \<and> t_sizes t 2 = Some (length (d_node (Leaf [(''k'', ''v'')])))"
    by (rule oversize_record_accepted [of _ _ _ _ "26"])
      (use demo_codec(1) in \<open>simp_all add: l demo_env_def codec_total_def entry_cost_def SLACK_def d_list_def d_nat_def d_str_def d_entry_def\<close>)
  then show ?thesis by blast
qed

text \<open>A batch of writes into a freshly opened empty store succeeds, and afterwards every lookup
  returns the last record the batch wrote under the key, and nothing for a key it did not write.\<close>

theorem tree_batch_from_empty:
  assumes empty: "\<And>p. te_read_head E p = PageNotFound" and "codec_total E"
  shows "\<exists>t0 t. tree_open E = Inr t0 \<and> fold_r (\<lambda>(k, v) t. tree_insert E t k v) ws t0 = Inr t
            \<and> (\<forall>k. \<exists>t'. tree_get E t k = Inr (t', map_of (rev ws) k))"
proof -
  note o = empty_store [of E, OF empty]
  obtain t where t: "fold_r (\<lambda>(k, v) t. tree_insert E t k v) ws empty_tree = Inr t"
    using tree_total.insert_all_total [of E empty_tree ws] o(2) assms(2)
    unfolding tree_total.insert_all_def by blast
  have "\<exists>t'. tree_get E t k = Inr (t', map_of (rev ws) k)" for k
    using tree_store.insert_all_lookup [of E empty_tree ws t k] o(2,3) t
    unfolding tree_store.insert_all_def by (cases "map_of (rev ws) k") auto
  then show ?thesis using o(1) t by blast
qed

theorem tree_batch_from_empty_witness:
  "\<exists>t0 t. tree_open demo_env = Inr t0
     \<and> fold_r (\<lambda>(k, v) t. tree_insert demo_env t k v) [(''b'', ''1''), (''a'', ''2''), (''b'', ''3'')] t0 = Inr t
     \<and> (\<exists>t'. tree_get demo_env t ''b'' = Inr (t', Some ''3''))"
proof -
  have "te_read_head demo_env p = PageNotFound" for p by (simp add: demo_env_def)
  from tree_batch_from_empty [of demo_env "[(''b'', ''1''), (''a'', ''2''), (''b'', ''3'')]", OF this demo_codec(1)]
  obtain t0 t where t: "tree_open demo_env = Inr t0"
    "fold_r (\<lambda>(k, v) t. tree_insert demo_env t k v) [(''b'', ''1''), (''a'', ''2''), (''b'', ''3'')] t0 = Inr t"
    and g: "\<forall>k. \<exists>t'. tree_get demo_env t k = Inr (t', map_of (rev [(''b'', ''1''), (''a'', ''2''), (''b'', ''3'')]) k)"
    by blast
  have "\<exists>t'. tree_get demo_env t ''b'' = Inr (t', Some ''3'')" using spec [OF g, of "''b''"] by simp
  with t show ?thesis by blast
qed

text \<open>A removal from a well-formed tree terminates without an error, reports whether the key was
  there, leaves exactly the other entries, and keeps the invariant (no rebalancing is needed).\<close>

theorem tree_remove_correct:
  assumes "tree_inv E t"
  shows "\<exists>t'. tree_remove E t k = Inr (t', k \<in> fst ` set (tree_entries E t)) \<and> tree_inv E t'
            \<and> tree_entries E t' = filter (\<lambda>e. fst e \<noteq> k) (tree_entries E t)"
  using tree_remove_inv [OF assms, of k] by (simp add: del_def)

theorem tree_remove_correct_witness:
  "\<exists>t'. tree_remove demo_env empty_tree ''k'' = Inr (t', False) \<and> tree_entries demo_env t' = []"
  using tree_remove_correct [OF demo_open(2), of "''k''"] by (auto simp: demo_open)

section \<open>Scans\<close>

text \<open>The prefix scan returns exactly the entries whose key starts with the prefix, in strictly
  ascending key order: the carry in \<open>prefix_upper\<close> and the pruning of subtrees lose nothing.\<close>

theorem tree_scan_prefix_exact:
  assumes "tree_inv E t"
  shows "\<exists>t'. tree_scan_prefix E t p = Inr (t', filter (\<lambda>e. prefix p (fst e)) (tree_entries E t))
            \<and> (\<exists>t''. tree_scan E t' = Inr (t'', tree_entries E t)) \<and> skeys (tree_entries E t)"
proof -
  obtain t' where t': "tree_scan_prefix E t p = Inr (t', filter (\<lambda>e. prefix p (fst e)) (tree_entries E t))"
    "tree_inv E t'" "tree_entries E t' = tree_entries E t"
    using tree_store.scan_prefix [OF assms, of p] by blast
  then obtain t'' where "tree_scan E t' = Inr (t'', tree_entries E t)"
    using tree_scan_inv [OF t'(2)] by auto
  then show ?thesis using t' tree_store.sorted [OF assms] by blast
qed

theorem tree_scan_prefix_exact_witness:
  "\<exists>t t'. tree_insert demo_env empty_tree ''ab'' ''v'' = Inr t \<and> tree_scan_prefix demo_env t ''a'' = Inr (t', [(''ab'', ''v'')])"
proof -
  obtain t where t: "tree_insert demo_env empty_tree ''ab'' ''v'' = Inr t"
    using tree_insert_total [OF demo_codec(1) demo_open(2)] by blast
  note r = tree_insert_result [OF demo_open(2) t]
  show ?thesis using t tree_scan_prefix_exact [OF r(1), of "''a''"] r(2) by (auto simp: demo_open)
qed

section \<open>Commit and reopen\<close>

text \<open>C34: What a transaction flushes is what the next one reads: when the serializer decodes what it
  encoded, opening the store after the staged pages are committed gives a well-formed tree with
  exactly the entries of the flushed one.\<close>

theorem tree_flush_reopen:
  assumes "tree_inv E t" and "meta_known E t" and "codec_roundtrip E" and "tree_flush E t = Inr ws"
  shows "\<exists>t'. tree_open (commit_writes E ws) = Inr t' \<and> tree_inv (commit_writes E ws) t'
            \<and> tree_entries (commit_writes E ws) t' = tree_entries E t"
  using flush_reopen [OF assms(1,4,3,2)] by metis

text \<open>With a serializer that encodes everything and a pager that takes every page, a flush succeeds.\<close>

lemma flush_total:
  assumes "codec_total E" and "\<And>m. te_encode_meta E m \<noteq> None" and "\<And>p b. te_write_error E p b = None"
  shows "\<exists>ws. tree_flush E t = Inr ws"
proof -
  obtain b where b: "te_encode_meta E (t_meta t) = Some b" using assms(2) by blast
  have "\<exists>b. te_encode E n = Some b" for n using assms(1) by (simp add: codec_total_def)
  then have n: "\<exists>b. node_encode E n = Inr b" for n by (metis node_encode_def option.simps(5))
  have "\<exists>ws. stage E t ps = Inr ws" for ps
  proof (induction ps)
    case (Cons p ps)
    then show ?case
    proof (cases "t_dirty t p")
      case (Some m)
      then show ?thesis using n [of m] Cons assms(3) by auto
    qed simp
  qed (simp add: b assms(3))
  then show ?thesis by (simp add: tree_flush_def)
qed

lemma flush_dirty: "tree_flush E t = Inr ws \<Longrightarrow> t_meta_dirty t \<Longrightarrow> ws \<noteq> []"
proof -
  have "stage E t ps = Inr ws \<Longrightarrow> t_meta_dirty t \<Longrightarrow> ws \<noteq> []" for ps
    by (induction ps arbitrary: ws) (auto simp: bind_r_Inr_iff split: option.splits)
  then show "tree_flush E t = Inr ws \<Longrightarrow> t_meta_dirty t \<Longrightarrow> ws \<noteq> []" by (simp add: tree_flush_def)
qed

text \<open>The tree after one insert: its leaf and its metadata are staged, committed, and decoded again.\<close>

theorem tree_flush_reopen_witness:
  "\<exists>t ws t'. tree_insert demo_env empty_tree ''k'' ''v'' = Inr t \<and> tree_flush demo_env t = Inr ws \<and> ws \<noteq> []
     \<and> tree_open (commit_writes demo_env ws) = Inr t' \<and> tree_entries (commit_writes demo_env ws) t' = [(''k'', ''v'')]"
proof -
  obtain t where t: "tree_insert demo_env empty_tree ''k'' ''v'' = Inr t"
    using tree_insert_total [OF demo_codec(1) demo_open(2)] by blast
  note r = tree_insert_result [OF demo_open(2) t]
  obtain ws where ws: "tree_flush demo_env t = Inr ws" using flush_total [OF demo_codec(1), of t] by (auto simp: demo_env_def)
  have d: "t_meta_dirty t" using t by (auto simp: tree_insert_def tree_fuel_def empty_tree_def meta_empty_def numeral_2_eq_2 take_node_def
      node_def demo_env_def leaf_insert_def size_of_def node_encode_def leaf_put_def found_at_def lower_bound_def entry_cost_def SLACK_def
      insert_at_def overflowed_def fill_limit_4096 Let_def set_sized_def d_list_def d_nat_def d_str_def)
  have "meta_known demo_env t" using d by (simp add: meta_known_def)
  from tree_flush_reopen [OF r(1) this demo_codec(2) ws] t ws flush_dirty [OF ws d] r(2) show ?thesis by (auto simp: demo_open)
qed

end
