(* ===== verification/LoomMergeProps.thy ===== *)
theory LoomMergeProps
  imports LoomDemo
begin

text \<open>
  The properties of the merge engine (\<open>merge.rs\<close>), with witnesses on the three-headed store of
  \<open>LoomDemo\<close>, and the counterexamples of its corner cases.
\<close>

section \<open>The prefilter\<close>

text \<open>C4: The page-level prefilter never drops a record: on a store whose heads are well-formed trees
  and whose \<open>diff3\<close> lists every page that differs, the planned merge is the outcome of deciding
  every caller key of the three heads, for any policy (with no NaN in the source, where Rust's
  derived equality is not reflexive).\<close>

theorem plan_merge_decides_every_key:
  assumes "head_tree st base EB b" and "head_tree st source ES s" and "head_tree st target ET t"
    and "diff3_covers st base source target" and "\<And>k. opt_ok (head_map ES s k)"
  shows "plan_merge st base source target policy
       = full_merge (head_map EB b) (head_map ES s) (head_map ET t) policy"
  by (rule plan_merge_reference [OF assms])

definition demo_heads :: "bytes \<Rightarrow> (key \<times> record_t) list" where
  "demo_heads tag =
     (if tag = ''s'' then [(''n'', RValue (Counter 13)), (''x'', RValue (BoolV True))]
      else if tag = ''t'' then [(''n'', RValue (Counter 14)), (''y'', RValue (BoolV False))]
      else [(''n'', RValue (Counter 10))])"

lemma demo_heads_trees:
  "head_tree (demo_store demo_heads) m (demo_fork demo_heads m) (demo_tree demo_heads m)"
  "head_map (demo_fork demo_heads m) (demo_tree demo_heads m) = map_of (demo_heads (demo_tag m))"
  by (rule demo_head_tree, cases m; simp add: demo_heads_def)+

lemma demo_heads_ok: "opt_ok (map_of (demo_heads tag) k)"
  by (auto simp: demo_heads_def opt_ok_def)

theorem plan_merge_decides_every_key_witness:
  "plan_merge (demo_store demo_heads) HeadBase HeadSource HeadTarget ReportConflict
   = full_merge (map_of (demo_heads ''b'')) (map_of (demo_heads ''s'')) (map_of (demo_heads ''t'')) ReportConflict"
  using plan_merge_decides_every_key [OF demo_heads_trees(1) demo_heads_trees(1) demo_heads_trees(1) demo_covers]
  by (simp add: demo_heads_trees(2) demo_heads_ok)

section \<open>What a merge does to the target\<close>

text \<open>A merge that goes through loses no edit.  In the target after the planned writes: a key that
  only the source changed holds the source's record (a deletion by the source is not applied), a key
  that only the target changed or neither changed keeps the target's record, and every reserved key
  keeps the target's record.\<close>

theorem merge_keeps_one_sided_edits:
  assumes "full_merge b s t policy = Inr (Merged ws n)" and "finite (dom b \<union> dom s \<union> dom t)"
  shows "(\<not> is_reserved k \<and> s k \<noteq> None \<and> opt_eq (t k) (b k) \<and> \<not> opt_eq (s k) (t k) \<and> \<not> opt_eq (s k) (b k)
            \<longrightarrow> (t ++ map_of ws) k = s k)
       \<and> (opt_eq (s k) (b k) \<or> opt_eq (s k) (t k) \<longrightarrow> (t ++ map_of ws) k = t k)
       \<and> (is_reserved k \<longrightarrow> (t ++ map_of ws) k = t k)"
proof (intro conjI impI)
  have "finite (caller_keys b s t)"
    by (rule finite_subset [OF _ assms(2)]) (auto simp: caller_keys_def)
  note m = full_merge_merged [OF assms(1) this, of k]
  show "(t ++ map_of ws) k = s k"
    if h: "\<not> is_reserved k \<and> s k \<noteq> None \<and> opt_eq (t k) (b k) \<and> \<not> opt_eq (s k) (t k) \<and> \<not> opt_eq (s k) (b k)"
  proof -
    have "k \<in> caller_keys b s t" using h by (auto simp: caller_keys_def)
    then show ?thesis using m(1) h by (cases "s k") (simp_all add: decide_def written_def map_add_def)
  qed
  show "(t ++ map_of ws) k = t k" if "opt_eq (s k) (b k) \<or> opt_eq (s k) (t k)"
    using m(1) that by (auto simp: decide_def written_def map_add_def split: if_splits)
  show "(t ++ map_of ws) k = t k" if "is_reserved k"
    using m(1) that by (simp add: caller_keys_def map_add_def)
qed

lemma demo_merge:
  "full_merge (map_of (demo_heads ''b'')) (map_of (demo_heads ''s'')) (map_of (demo_heads ''t'')) ReportConflict
   = Inr (Merged [(''n'', RValue (Counter 17)), (''x'', RValue (BoolV True))] 2)"
proof -
  have K: "caller_keys (map_of (demo_heads ''b'')) (map_of (demo_heads ''s'')) (map_of (demo_heads ''t''))
      = set [''n'', ''x'', ''y'']"
    by (auto simp: caller_keys_def demo_heads_def is_reserved_def RESERVED_PREFIX_def split: if_splits)
  have "sorted_list_of_set (set [''n'', ''x'', ''y'']) = [''n'', ''x'', ''y'']"
    by (rule sorted_list_of_set.idem_if_sorted_distinct) (simp_all add: less_eq_char_def)
  moreover have "merge_counters 10 13 14 = (17 :: i64)" by code_simp
  ultimately show ?thesis
    unfolding full_merge_def K
    by (simp add: demo_heads_def decide_def merge_typed_def counter_base_def plan_step_def plan_start_def plan_finish_def)
qed

theorem merge_keeps_one_sided_edits_witness:
  "(map_of (demo_heads ''t'') ++ map_of [(''n'', RValue (Counter 17)), (''x'', RValue (BoolV True))]) ''x''
     = Some (RValue (BoolV True))"
proof -
  have "finite (dom (map_of (demo_heads ''b'')) \<union> dom (map_of (demo_heads ''s'')) \<union> dom (map_of (demo_heads ''t'')))"
    by (simp add: finite_dom_map_of)
  from merge_keeps_one_sided_edits [OF demo_merge this, of "''x''"] show ?thesis
    by (simp add: demo_heads_def is_reserved_def RESERVED_PREFIX_def)
qed

text \<open>A merge is all or nothing: it is planned as writes exactly when no caller key of the three
  heads is in conflict, and otherwise the outcome is the report of the conflicts and no write.\<close>

theorem merge_all_or_nothing:
  assumes "full_merge b s t policy = Inr r" and "finite (dom b \<union> dom s \<union> dom t)"
  shows "(\<exists>ws n. r = Merged ws n) \<longleftrightarrow>
     (\<forall>k c. k \<in> caller_keys b s t \<longrightarrow> decide k (b k) (s k) (t k) policy \<noteq> Inr (Conflicted c))"
proof -
  have fin: "finite (caller_keys b s t)"
    by (rule finite_subset [OF _ assms(2)]) (auto simp: caller_keys_def)
  show ?thesis
  proof (cases r)
    case (Merged ws n)
    then show ?thesis using full_merge_merged(2) [of b s t policy ws n] assms(1) fin by (force simp: conflicting_def)
  next
    case (Conflicts cs)
    then show ?thesis using full_merge_conflicts [of b s t policy cs] assms(1) fin by auto
  qed
qed

theorem merge_all_or_nothing_witness:
  "\<not> (\<exists>c. decide ''n'' (map_of (demo_heads ''b'') ''n'') (map_of (demo_heads ''s'') ''n'')
         (map_of (demo_heads ''t'') ''n'') ReportConflict = Inr (Conflicted c))"
proof -
  have "finite (dom (map_of (demo_heads ''b'')) \<union> dom (map_of (demo_heads ''s'')) \<union> dom (map_of (demo_heads ''t'')))"
    by (simp add: finite_dom_map_of)
  moreover have "''n'' \<in> caller_keys (map_of (demo_heads ''b'')) (map_of (demo_heads ''s'')) (map_of (demo_heads ''t''))"
    by (simp add: caller_keys_def demo_heads_def is_reserved_def RESERVED_PREFIX_def)
  ultimately show ?thesis using merge_all_or_nothing [OF demo_merge] by blast
qed

section \<open>The typed rules\<close>

text \<open>Concurrent increments add up: while the deltas and the result fit the 64-bit counter, merging
  two counters gives the base plus both deltas, whichever branch is the source.\<close>

theorem counter_merge_adds_deltas:
  assumes "i64_ok (sint s - sint b)" and "i64_ok (sint t - sint b)" and "i64_ok (sint s + sint t - sint b)"
  shows "\<exists>n. merge_typed (Some (RValue (Counter b))) (RValue (Counter s)) (RValue (Counter t)) = Some (RValue (Counter n))
           \<and> merge_typed (Some (RValue (Counter b))) (RValue (Counter t)) (RValue (Counter s)) = Some (RValue (Counter n))
           \<and> sint n = sint b + (sint s - sint b) + (sint t - sint b)"
  using counters_exact [OF assms] counters_comm [OF assms] by (simp add: merge_typed_def counter_base_def)

theorem counter_merge_adds_deltas_witness:
  "\<exists>n. merge_typed (Some (RValue (Counter 10))) (RValue (Counter 13)) (RValue (Counter 13)) = Some (RValue (Counter n))
     \<and> sint n = 16"
  using counter_merge_adds_deltas [of 13 10 13] by (auto simp: i64_ok_def)

end
