(* ===== verification/LoomEnvelope.thy ===== *)
theory LoomEnvelope
  imports LoomCore
begin

text \<open>
  The write envelope (\<open>crates/loom-core/src/envelope.rs\<close>): what a signature covers, signing,
  verification, and the structural check every write passes.  BLAKE3 and Ed25519 are outside the
  repository: the fields of a \<open>crypto\<close> record.
\<close>

section \<open>The cryptographic library\<close>

record crypto =
  cr_hash :: "bytes \<Rightarrow> bytes"
  cr_public :: "bytes \<Rightarrow> bytes"
  cr_sign :: "bytes \<Rightarrow> bytes \<Rightarrow> bytes"
  cr_verify :: "bytes \<Rightarrow> bytes \<Rightarrow> bytes \<Rightarrow> bytes option"

text \<open>\<open>cr_verify C key message signature\<close> is the error text of a refused signature.  Documented:
  hashes have 32 bytes, signatures 64, and a signature verifies under the signer's public key.\<close>

definition crypto_ok :: "crypto \<Rightarrow> bool" where
  "crypto_ok C \<longleftrightarrow> (\<forall>m. length (cr_hash C m) = 32) \<and> (\<forall>sk m. length (cr_sign C sk m) = 64)
     \<and> (\<forall>sk m. cr_verify C (cr_public C sk) m (cr_sign C sk m) = None)"

section \<open>The envelope\<close>

record envelope =
  e_actor :: bytes
  e_session :: bytes
  e_branch :: bytes
  e_context :: bytes
  e_delegation :: "bytes list"
  e_derived_from :: "source_ref list"
  e_intent :: bytes
  e_policy :: "bytes option"
  e_signature :: bytes

definition envelope_new :: "bytes \<Rightarrow> bytes \<Rightarrow> bytes \<Rightarrow> bytes \<Rightarrow> envelope" where
  "envelope_new actor session branch intent =
     \<lparr>e_actor = actor, e_session = session, e_branch = branch, e_context = replicate 32 (CHR 0x00),
      e_delegation = [], e_derived_from = [], e_intent = intent, e_policy = None, e_signature = []\<rparr>"

definition derived_from :: "envelope \<Rightarrow> source_ref list \<Rightarrow> envelope" where
  "derived_from e ss = e\<lparr>e_derived_from := e_derived_from e @ ss\<rparr>"

definition delegated_through :: "envelope \<Rightarrow> bytes list \<Rightarrow> envelope" where
  "delegated_through e chain = e\<lparr>e_delegation := e_delegation e @ chain\<rparr>"

definition with_context :: "crypto \<Rightarrow> envelope \<Rightarrow> bytes \<Rightarrow> envelope" where
  "with_context C e context = e\<lparr>e_context := cr_hash C context\<rparr>"

definition field :: "bytes \<Rightarrow> bytes" where
  "field bs = usize_le (length bs) @ bs"

definition signing_bytes :: "envelope \<Rightarrow> bytes" where
  "signing_bytes e =
     field ''loom-envelope-v1'' @ field (e_actor e) @ field (e_session e) @ field (e_branch e)
     @ field (e_context e) @ field (e_intent e)
     @ usize_le (length (e_delegation e)) @ concat (map field (e_delegation e))
     @ usize_le (length (e_derived_from e)) @ concat (map (\<lambda>s. field (source_string s)) (e_derived_from e))"

definition signed_by :: "crypto \<Rightarrow> envelope \<Rightarrow> bytes \<Rightarrow> envelope" where
  "signed_by C e sk = e\<lparr>e_signature := cr_sign C sk (signing_bytes e)\<rparr>"

definition envelope_verify :: "crypto \<Rightarrow> envelope \<Rightarrow> bytes \<Rightarrow> loom_error + unit" where
  "envelope_verify C e vk =
     (if e_signature e = [] then Inl (EnvelopeUnsigned (e_actor e))
      else if length (e_signature e) \<noteq> 64 then Inl (EnvelopeSignatureInvalid (e_actor e))
      else case cr_verify C vk (signing_bytes e) (e_signature e) of
             None \<Rightarrow> Inr ()
           | Some _ \<Rightarrow> Inl (EnvelopeSignatureInvalid (e_actor e)))"

text \<open>\<open>str::trim\<close> leaves nothing: every character is Unicode white space (as its UTF-8 bytes).\<close>

fun blank :: "bytes \<Rightarrow> bool" where
  "blank [] = True"
| "blank (a # r) =
     (if (9 \<le> nat_of_byte a \<and> nat_of_byte a \<le> 13) \<or> nat_of_byte a = 32 then blank r
      else case r of
        [] \<Rightarrow> False
      | b # r1 \<Rightarrow>
          if nat_of_byte a = 194 then (nat_of_byte b = 133 \<or> nat_of_byte b = 160) \<and> blank r1
          else case r1 of
            [] \<Rightarrow> False
          | c # r2 \<Rightarrow>
              (let t = (nat_of_byte a, nat_of_byte b, nat_of_byte c) in
                t = (225, 154, 128)
                \<or> (nat_of_byte a = 226 \<and> nat_of_byte b = 128 \<and>
                     ((128 \<le> nat_of_byte c \<and> nat_of_byte c \<le> 138) \<or> nat_of_byte c \<in> {168, 169, 175}))
                \<or> t = (226, 129, 159) \<or> t = (227, 128, 128))
              \<and> blank r2)"

definition envelope_is_valid :: "envelope \<Rightarrow> bool" where
  "envelope_is_valid e \<longleftrightarrow>
     e_actor e \<noteq> [] \<and> e_session e \<noteq> [] \<and> e_branch e \<noteq> [] \<and> \<not> blank (e_intent e)"

section \<open>What a signature pins\<close>

text \<open>Rust's lengths fit \<open>u64\<close>.\<close>

definition fits :: "bytes \<Rightarrow> bool" where
  "fits bs \<longleftrightarrow> length bs < 2 ^ 64"

definition envelope_fits :: "envelope \<Rightarrow> bool" where
  "envelope_fits e \<longleftrightarrow>
     fits (e_actor e) \<and> fits (e_session e) \<and> fits (e_branch e) \<and> fits (e_context e) \<and> fits (e_intent e)
     \<and> length (e_delegation e) < 2 ^ 64 \<and> list_all fits (e_delegation e)
     \<and> length (e_derived_from e) < 2 ^ 64 \<and> list_all (\<lambda>s. fits (source_string s)) (e_derived_from e)"

lemma field_append:
  assumes "fits a" and "fits b"
  shows "field a @ r = field b @ r' \<longleftrightarrow> a = b \<and> r = r'"
proof
  assume eq: "field a @ r = field b @ r'"
  then have "usize_le (length a) = usize_le (length b)" "a @ r = b @ r'"
    by (simp_all add: field_def append_eq_append_conv)
  moreover from this(1) have "length a = length b"
    using assms usize_le_inj by (simp add: fits_def)
  ultimately show "a = b \<and> r = r'" by simp
qed simp

lemma fields_append:
  "list_all fits as \<Longrightarrow> list_all fits bs \<Longrightarrow> length as = length bs \<Longrightarrow>
     concat (map field as) @ r = concat (map field bs) @ r' \<longleftrightarrow> as = bs \<and> r = r'"
proof (induction as arbitrary: bs)
  case (Cons a as)
  then obtain b bs' where "bs = b # bs'" by (cases bs) auto
  with Cons show ?case by (auto simp: field_append)
qed simp

definition counted :: "bytes list \<Rightarrow> bytes" where
  "counted xs = usize_le (length xs) @ concat (map field xs)"

lemma counted_append:
  assumes "list_all fits as" and "list_all fits bs" and "length as < 2 ^ 64" and "length bs < 2 ^ 64"
  shows "counted as @ r = counted bs @ r' \<longleftrightarrow> as = bs \<and> r = r'"
proof
  assume "counted as @ r = counted bs @ r'"
  then have "usize_le (length as) = usize_le (length bs)"
    "concat (map field as) @ r = concat (map field bs) @ r'"
    by (simp_all add: counted_def append_eq_append_conv)
  moreover from this(1) have "length as = length bs" using assms(3,4) usize_le_inj by simp
  ultimately show "as = bs \<and> r = r'" using fields_append [OF assms(1,2)] by simp
qed simp

lemma signing_bytes_fields:
  "signing_bytes e =
     field ''loom-envelope-v1'' @ field (e_actor e) @ field (e_session e) @ field (e_branch e)
     @ field (e_context e) @ field (e_intent e)
     @ counted (e_delegation e) @ counted (map source_string (e_derived_from e)) @ []"
  by (simp add: signing_bytes_def counted_def comp_def)

lemma signing_bytes_eq:
  assumes "envelope_fits e" and "envelope_fits e'"
  shows "signing_bytes e = signing_bytes e' \<longleftrightarrow>
     e_actor e = e_actor e' \<and> e_session e = e_session e' \<and> e_branch e = e_branch e'
     \<and> e_context e = e_context e' \<and> e_intent e = e_intent e' \<and> e_delegation e = e_delegation e'
     \<and> map source_string (e_derived_from e) = map source_string (e_derived_from e')"
proof -
  have s: "counted (map source_string (e_derived_from e)) @ [] = counted (map source_string (e_derived_from e')) @ []
      \<longleftrightarrow> map source_string (e_derived_from e) = map source_string (e_derived_from e')"
    using assms counted_append [of "map source_string (e_derived_from e)" "map source_string (e_derived_from e')" "[]" "[]"]
    by (simp add: envelope_fits_def list.pred_map comp_def)
  have d: "counted (e_delegation e) @ r = counted (e_delegation e') @ r' \<longleftrightarrow> e_delegation e = e_delegation e' \<and> r = r'" for r r'
    using assms counted_append [of "e_delegation e" "e_delegation e'"] by (simp add: envelope_fits_def)
  have f: "field (g e) @ r = field (g e') @ r' \<longleftrightarrow> g e = g e' \<and> r = r'"
    if "g \<in> {e_actor, e_session, e_branch, e_context, e_intent}" for g r r'
    using assms that by (intro field_append) (auto simp: envelope_fits_def)
  show ?thesis unfolding signing_bytes_fields same_append_eq by (simp only: f insert_iff simp_thms d s)
qed

text \<open>The two ways the signed bytes do not determine the envelope.\<close>

lemma source_split_ambiguous:
  "signing_bytes (derived_from e [\<lparr>sr_system = ''a:b'', sr_record_id = ''c''\<rparr>])
     = signing_bytes (derived_from e [\<lparr>sr_system = ''a'', sr_record_id = ''b:c''\<rparr>])"
  by (simp add: signing_bytes_def derived_from_def source_string_def)

lemma policy_not_signed: "signing_bytes (e\<lparr>e_policy := p\<rparr>) = signing_bytes e"
  by (simp add: signing_bytes_def)

section \<open>Verification\<close>

lemma envelope_verify_ok:
  "envelope_verify C e vk = Inr u \<longleftrightarrow>
     length (e_signature e) = 64 \<and> cr_verify C vk (signing_bytes e) (e_signature e) = None"
  by (auto simp: envelope_verify_def split: option.splits)

lemma signing_bytes_signature: "signing_bytes (e\<lparr>e_signature := s\<rparr>) = signing_bytes e"
  by (simp add: signing_bytes_def)

lemma sign_verify:
  assumes "crypto_ok C"
  shows "envelope_verify C (signed_by C e sk) (cr_public C sk) = Inr ()"
  using assms by (simp add: envelope_verify_ok signed_by_def signing_bytes_signature crypto_ok_def)

end
