(* ===== verification/LoomProvKeys.thy ===== *)
theory LoomProvKeys
  imports LoomEnvelope LoomMerge "HOL-Library.Product_Lexorder"
begin

text \<open>
  Derivation nodes and the key layout of everything the engine stores beside the caller's records:
  \<open>loom-core/src/provenance.rs\<close>, \<open>history.rs\<close>, \<open>index.rs\<close>.
\<close>

section \<open>Key spaces\<close>

definition PROV_PREFIX :: bytes where "PROV_PREFIX = CHR 0x01 # ''prov/''"
definition SRC_PREFIX :: bytes where "SRC_PREFIX = CHR 0x01 # ''src/''"
definition PROV_SEQ_PREFIX :: bytes where "PROV_SEQ_PREFIX = CHR 0x00 # ''loom/provseq/''"
definition LATEST_PREFIX :: bytes where "LATEST_PREFIX = CHR 0x00 # ''loom/latest/''"
definition HISTORY_PREFIX :: bytes where "HISTORY_PREFIX = CHR 0x00 # ''loom/clmhist/''"
definition INDEX_PREFIX :: bytes where "INDEX_PREFIX = CHR 0x00 # ''loom/idx/''"

definition is_provenance :: "key \<Rightarrow> bool" where
  "is_provenance k \<longleftrightarrow> prefix PROV_PREFIX k \<or> prefix SRC_PREFIX k"

text \<open>\<open>(branch.len() as u16)\<close> keeps the low 16 bits.\<close>

definition branch_seq :: "bytes \<Rightarrow> u64 \<Rightarrow> bytes" where
  "branch_seq branch seq = u16_be (length branch) @ branch @ u64_be seq"

definition source_index_key :: "source_ref \<Rightarrow> bytes \<Rightarrow> u64 \<Rightarrow> key" where
  "source_index_key source branch seq = SRC_PREFIX @ source_string source @ ''/'' @ branch_seq branch seq"

definition node_storage_key :: "bytes \<Rightarrow> u64 \<Rightarrow> key" where
  "node_storage_key branch seq = PROV_PREFIX @ branch_seq branch seq"

definition prov_seq_key :: "bytes \<Rightarrow> key" where
  "prov_seq_key branch = PROV_SEQ_PREFIX @ branch"

definition source_index_prefix :: "source_ref \<Rightarrow> key" where
  "source_index_prefix source = SRC_PREFIX @ source_string source @ ''/''"

definition latest_node_key :: "key \<Rightarrow> key" where
  "latest_node_key k = LATEST_PREFIX @ k"

definition history_prefix :: "bytes \<Rightarrow> bytes \<Rightarrow> key" where
  "history_prefix subject predicate = HISTORY_PREFIX @ subject @ [CHR 0x00] @ predicate @ [CHR 0x00]"

definition history_key :: "bytes \<Rightarrow> bytes \<Rightarrow> u64 \<Rightarrow> key" where
  "history_key subject predicate seq =
     HISTORY_PREFIX @ subject @ [CHR 0x00] @ predicate @ [CHR 0x00] @ u64_be seq"

definition index_key :: "key \<Rightarrow> key" where
  "index_key k = INDEX_PREFIX @ k"

text \<open>A vector of \<open>f32\<close>, as bit patterns.\<close>

type_synonym embedding = "32 word list"

record index_entry =
  ix_key :: key
  ix_text :: bytes
  ix_embedding :: "embedding option"
  ix_citations :: "source_ref list"
  ix_stale :: bool
  ix_label :: trust_class

definition index_entry_new :: "key \<Rightarrow> bytes \<Rightarrow> embedding option \<Rightarrow> source_ref list \<Rightarrow> bool \<Rightarrow> trust_class
    \<Rightarrow> index_entry option" where
  "index_entry_new k text emb citations stale label =
     (if citations = [] then None
      else Some \<lparr>ix_key = k, ix_text = text, ix_embedding = emb, ix_citations = citations,
                 ix_stale = stale, ix_label = label\<rparr>)"

text \<open>The caller's half of an index entry.\<close>

record index_hint =
  hi_text :: bytes
  hi_embedding :: "embedding option"

definition hint_text :: "bytes \<Rightarrow> index_hint" where
  "hint_text t = \<lparr>hi_text = t, hi_embedding = None\<rparr>"

definition hint_with_embedding :: "index_hint \<Rightarrow> embedding \<Rightarrow> index_hint" where
  "hint_with_embedding h e = h\<lparr>hi_embedding := Some e\<rparr>"

record claim_version =
  cv_claim :: claim
  cv_seq :: u64

definition ANNBUF_PREFIX :: bytes where "ANNBUF_PREFIX = CHR 0x00 # ''loom/annbuf/''"

definition ann_buffer_key :: "key \<Rightarrow> key" where
  "ann_buffer_key k = ANNBUF_PREFIX @ k"

definition ann_buffer_record_id :: "key \<Rightarrow> key option" where
  "ann_buffer_record_id k = (if prefix ANNBUF_PREFIX k then Some (drop (length ANNBUF_PREFIX) k) else None)"

section \<open>Derivation nodes\<close>

record der_node =
  dn_id :: bytes
  dn_branch :: bytes
  dn_commit :: bytes
  dn_key :: key
  dn_actor :: bytes
  dn_delegation :: "bytes list"
  dn_intent :: bytes
  dn_derived_from :: "bytes list"
  dn_sources :: "source_ref list"

text \<open>Sorting and deduplicating vectors of ids and of sources (\<open>SourceRef\<close> orders by system, then
  record id).\<close>

definition sort_dedup :: "('a::linorder) list \<Rightarrow> 'a list" where
  "sort_dedup xs = remdups_adj (sort xs)"

definition sort_sources :: "source_ref list \<Rightarrow> source_ref list" where
  "sort_sources ss =
     map (\<lambda>(s, r). \<lparr>sr_system = s, sr_record_id = r\<rparr>) (sort_dedup (map (\<lambda>s. (sr_system s, sr_record_id s)) ss))"

definition node_hash_input :: "bytes \<Rightarrow> bytes \<Rightarrow> key \<Rightarrow> bytes \<Rightarrow> bytes list \<Rightarrow> source_ref list \<Rightarrow> bytes" where
  "node_hash_input branch commit k actor parents sources =
     branch @ commit @ k @ actor @ concat parents @ concat (map source_string sources)"

definition der_node_new :: "crypto \<Rightarrow> bytes \<Rightarrow> bytes \<Rightarrow> key \<Rightarrow> bytes \<Rightarrow> bytes list \<Rightarrow> bytes \<Rightarrow> bytes list
    \<Rightarrow> source_ref list \<Rightarrow> der_node" where
  "der_node_new C branch commit k actor delegation intent parents sources =
     (let ps = sort_dedup parents; ss = sort_sources sources
      in \<lparr>dn_id = cr_hash C (node_hash_input branch commit k actor ps ss), dn_branch = branch,
          dn_commit = commit, dn_key = k, dn_actor = actor, dn_delegation = delegation,
          dn_intent = intent, dn_derived_from = ps, dn_sources = ss\<rparr>)"

definition node_from_index_value :: "bytes \<Rightarrow> bytes option" where
  "node_from_index_value v = (if length v = 32 then Some v else None)"

text \<open>The line of a report: \<open>&self.intent[..60]\<close> panics inside a character.\<close>

datatype node_line = NodeLine bytes bytes bytes | NodeLineCut bytes bytes bytes

definition describe_node :: "der_node \<Rightarrow> node_line option" where
  "describe_node n =
     (if length (dn_intent n) \<le> 60 then Some (NodeLine (dn_actor n) (dn_key n) (dn_intent n))
      else if is_char_boundary (dn_intent n) 60
        then Some (NodeLineCut (dn_actor n) (dn_key n) (take 60 (dn_intent n)))
      else None)"

section \<open>Laws of the layout\<close>

lemma set_sort_sources [simp]: "set (sort_sources ss) = set ss"
proof -
  have "set (sort_dedup xs) = set xs" for xs :: "(bytes \<times> bytes) list" by (simp add: sort_dedup_def)
  then have "set (sort_sources ss) = (\<lambda>x. \<lparr>sr_system = sr_system x, sr_record_id = sr_record_id x\<rparr>) ` set ss"
    by (simp add: sort_sources_def image_image)
  also have "\<dots> = id ` set ss" by (rule image_cong) simp_all
  finally show ?thesis by simp
qed

lemma set_sort_dedup [simp]: "set (sort_dedup xs) = set xs"
  by (simp add: sort_dedup_def)

lemma branch_seq_inj: "branch_seq b q = branch_seq b' q' \<longleftrightarrow> b = b' \<and> q = q'"
proof
  assume eq: "branch_seq b q = branch_seq b' q'"
  then have "length (branch_seq b q) = length (branch_seq b' q')" by simp
  then have "length b = length b'" by (simp add: branch_seq_def)
  then show "b = b' \<and> q = q'" using eq by (simp add: branch_seq_def)
qed simp

lemma be_bytes_less: "m < 256 ^ w \<Longrightarrow> n < 256 ^ w \<Longrightarrow> be_bytes w m < be_bytes w n \<longleftrightarrow> m < n"
proof (induction w arbitrary: m n)
  case (Suc w)
  have snoc: "be_bytes (Suc w) x = be_bytes w (x div 256) @ [byte_of (x mod 256)]" for x
    by (simp add: be_bytes_def)
  have lex: "xs @ [x] < ys @ [y] \<longleftrightarrow> xs < ys \<or> (xs = ys \<and> x < y)"
    if "length xs = length ys" for xs ys :: bytes and x y
    using that by (induction xs ys rule: list_induct2) auto
  have bound: "x div 256 < 256 ^ w" if "x < 256 ^ Suc w" for x :: nat
    using that by (simp add: less_mult_imp_div_less mult.commute)
  have eq: "be_bytes w (m div 256) = be_bytes w (n div 256) \<longleftrightarrow> m div 256 = n div 256"
    using be_bytes_inj [of "m div 256" w "n div 256"] bound Suc.prems by auto
  have "byte_of (m mod 256) < byte_of (n mod 256) \<longleftrightarrow> m mod 256 < n mod 256"
    by (simp add: less_char_def byte_of_def)
  then have "be_bytes (Suc w) m < be_bytes (Suc w) n \<longleftrightarrow>
      m div 256 < n div 256 \<or> (m div 256 = n div 256 \<and> m mod 256 < n mod 256)"
    unfolding snoc using lex Suc.IH [OF bound bound] Suc.prems eq by simp
  also have "\<dots> \<longleftrightarrow> m < n"
  proof -
    have "m = 256 * (m div 256) + m mod 256" "n = 256 * (n div 256) + n mod 256"
      "m mod 256 < 256" "n mod 256 < 256" by simp_all
    then show ?thesis by (cases "m div 256" "n div 256" rule: linorder_cases) linarith+
  qed
  finally show ?case .
qed (simp add: be_bytes_def)

lemma u64_be_less: "u64_be x < u64_be y \<longleftrightarrow> x < y"
  using be_bytes_less [OF unat_u64_less unat_u64_less] by (simp add: u64_be_def word_less_nat_alt)

lemma append_less: "xs @ ys < xs @ zs \<longleftrightarrow> ys < (zs :: bytes)"
  by (induction xs) auto

lemma node_storage_key_order: "node_storage_key b q < node_storage_key b q' \<longleftrightarrow> q < q'"
  by (simp add: node_storage_key_def branch_seq_def append_less u64_be_less)

lemma history_key_order: "history_key s p q < history_key s p q' \<longleftrightarrow> q < q'"
  by (simp add: history_key_def append_less u64_be_less)

lemmas key_space_defs = RESERVED_PREFIX_def PROV_PREFIX_def SRC_PREFIX_def PROV_SEQ_PREFIX_def
  LATEST_PREFIX_def HISTORY_PREFIX_def INDEX_PREFIX_def ANNBUF_PREFIX_def merged_from_prefix_def

lemma reserved_keys [loom_keys]:
  "is_reserved (prov_seq_key b)" "is_reserved (latest_node_key k)" "is_reserved (history_key s p q)"
  "is_reserved (index_key k)" "is_reserved (merged_from_key b)" "is_reserved (ann_buffer_key k)"
  by (simp_all add: ann_buffer_key_def is_reserved_def prov_seq_key_def latest_node_key_def history_key_def index_key_def
      merged_from_key_def key_space_defs)

lemma provenance_keys [loom_keys]:
  "is_provenance (node_storage_key b q)" "is_provenance (source_index_key s b q)"
  by (simp_all add: is_provenance_def node_storage_key_def source_index_key_def key_space_defs)

lemma spaces_disjoint [loom_keys]: "\<not> (is_reserved k \<and> is_provenance k)"
  by (cases k) (auto simp: is_reserved_def is_provenance_def key_space_defs)

lemma reserved_spaces_distinct [loom_keys]:
  "prov_seq_key b \<noteq> latest_node_key k" "prov_seq_key b \<noteq> history_key s p q" "prov_seq_key b \<noteq> index_key k"
  "latest_node_key k \<noteq> history_key s p q" "latest_node_key k \<noteq> index_key k'" "history_key s p q \<noteq> index_key k"
  "node_storage_key b q \<noteq> source_index_key sr b' q'"
  by (simp_all add: prov_seq_key_def latest_node_key_def history_key_def index_key_def node_storage_key_def
      source_index_key_def key_space_defs)

lemma source_index_complete: "prefix (source_index_prefix s) (source_index_key s b q)"
  by (simp add: source_index_prefix_def source_index_key_def)

text \<open>The prefix of one source also matches the entries of a source whose record id extends it past a
  slash, and a NUL in a subject makes two histories share their keys.\<close>

lemma source_index_overlap:
  "prefix (source_index_prefix \<lparr>sr_system = s, sr_record_id = r\<rparr>)
     (source_index_key \<lparr>sr_system = s, sr_record_id = r @ ''/'' @ r'\<rparr> b q)"
  by (simp add: source_index_prefix_def source_index_key_def source_string_def)

lemma history_collision:
  "history_key (a @ [CHR 0x00] @ b) c q = history_key a (b @ [CHR 0x00] @ c) q"
  by (simp add: history_key_def)

lemma history_key_inj:
  assumes "CHR 0x00 \<notin> set s \<union> set p" and "CHR 0x00 \<notin> set s' \<union> set p'"
  shows "history_key s p q = history_key s' p' q' \<longleftrightarrow> s = s' \<and> p = p' \<and> q = q'"
proof
  assume eq: "history_key s p q = history_key s' p' q'"
  have cut: "xs = ys \<and> r = r'" if "xs @ CHR 0x00 # r = ys @ CHR 0x00 # r'" "CHR 0x00 \<notin> set xs" "CHR 0x00 \<notin> set ys"
    for xs ys r r' :: bytes
  proof -
    have tw: "takeWhile (\<lambda>c. c \<noteq> CHR 0x00) (zs @ CHR 0x00 # r) = zs" if "CHR 0x00 \<notin> set zs" for zs r
      using that by (induction zs) auto
    show ?thesis using that(1) tw [OF that(2), of r] tw [OF that(3), of r'] by simp
  qed
  have "s @ CHR 0x00 # (p @ CHR 0x00 # u64_be q) = s' @ CHR 0x00 # (p' @ CHR 0x00 # u64_be q')"
    using eq by (simp add: history_key_def)
  from cut [OF this] have sp: "s = s'" "p @ CHR 0x00 # u64_be q = p' @ CHR 0x00 # u64_be q'"
    using assms by blast+
  from cut [OF sp(2)] have "p = p'" "u64_be q = u64_be q'" using assms by blast+
  then show "s = s' \<and> p = p' \<and> q = q'" using sp(1) by simp
qed simp

section \<open>Node identity\<close>

lemma sort_dedup_set: "set xs = set ys \<Longrightarrow> sort_dedup xs = sort_dedup ys"
proof (rule sorted_distinct_set_unique)
  show "sorted (sort_dedup xs)" "distinct (sort_dedup xs)" "sorted (sort_dedup ys)" "distinct (sort_dedup ys)"
    unfolding sort_dedup_def by (simp_all add: sorted_remdups_adj distinct_dedup)
qed (simp add: sort_dedup_def)

end
