(* ===== verification/LoomRefs.thy ===== *)
theory LoomRefs
  imports LoomProvKeys
begin

text \<open>
  Durable refs (\<open>crates/loom-branch/src/refs.rs\<close>): the branch, tag and commit maps, the edits, the
  framed log, and the two stores.  A \<open>BTreeMap\<close> is a strictly sorted association list.  \<open>bincode\<close>,
  BLAKE3 and the file system (\<open>substrate_pager::Vfs\<close>) are parameters.
\<close>

section \<open>Refs and edits\<close>

type_synonym commit_id = bytes

record refs =
  rf_version :: nat
  rf_branches :: "(bytes \<times> commit_id) list"
  rf_tags :: "(bytes \<times> commit_id) list"
  rf_commits :: "(commit_id \<times> commit_id list) list"

definition REFS_FORMAT_VERSION :: nat where "REFS_FORMAT_VERSION = 1"

definition refs_default :: refs where
  "refs_default = \<lparr>rf_version = 0, rf_branches = [], rf_tags = [], rf_commits = []\<rparr>"

definition refs_rooted :: "bytes \<Rightarrow> commit_id \<Rightarrow> refs" where
  "refs_rooted branch at = refs_default\<lparr>rf_version := REFS_FORMAT_VERSION, rf_branches := put branch at []\<rparr>"

definition refs_roots :: "refs \<Rightarrow> commit_id list" where
  "refs_roots r = sort_dedup (map snd (rf_branches r) @ map snd (rf_tags r))"

datatype ref_edit =
    SetHead bytes commit_id
  | CreateBranch bytes commit_id
  | RemoveBranch bytes
  | SetTag bytes commit_id
  | RemoveTag bytes
  | RecordCommit commit_id "commit_id list"
  | AddParent commit_id commit_id

definition add_parent :: "commit_id \<Rightarrow> commit_id list option \<Rightarrow> commit_id list" where
  "add_parent p ps = (let ps = (case ps of None \<Rightarrow> [] | Some x \<Rightarrow> x) in if p \<in> set ps then ps else ps @ [p])"

fun apply_edit :: "ref_edit \<Rightarrow> refs \<Rightarrow> refs" where
  "apply_edit (SetHead b c) r = r\<lparr>rf_branches := put b c (rf_branches r)\<rparr>"
| "apply_edit (CreateBranch b c) r = r\<lparr>rf_branches := put b c (rf_branches r)\<rparr>"
| "apply_edit (RemoveBranch b) r = r\<lparr>rf_branches := del b (rf_branches r)\<rparr>"
| "apply_edit (SetTag t c) r = r\<lparr>rf_tags := put t c (rf_tags r)\<rparr>"
| "apply_edit (RemoveTag t) r = r\<lparr>rf_tags := del t (rf_tags r)\<rparr>"
| "apply_edit (RecordCommit c ps) r = r\<lparr>rf_commits := put c ps (rf_commits r)\<rparr>"
| "apply_edit (AddParent c p) r =
     r\<lparr>rf_commits := put c (add_parent p (map_of (rf_commits r) c)) (rf_commits r)\<rparr>"

abbreviation apply_edits :: "ref_edit list \<Rightarrow> refs \<Rightarrow> refs" where
  "apply_edits \<equiv> fold apply_edit"

section \<open>Encodings\<close>

text \<open>What the code uses of \<open>bincode\<close> on refs and on edits, and of BLAKE3.\<close>

record refs_codec =
  rc_refs_encode :: "refs \<Rightarrow> bytes option"
  rc_refs_decode :: "bytes \<Rightarrow> refs option"
  rc_edit_encode :: "ref_edit \<Rightarrow> bytes option"
  rc_edit_decode :: "bytes \<Rightarrow> ref_edit option"
  rc_hash :: "bytes \<Rightarrow> bytes"

definition FRAME_CHECKSUM_LEN :: nat where "FRAME_CHECKSUM_LEN = 8"

definition refs_encode :: "refs_codec \<Rightarrow> refs \<Rightarrow> loom_error + bytes" where
  "refs_encode K r = (case rc_refs_encode K r of None \<Rightarrow> Inl (Codec ''encode'' ''refs'') | Some b \<Rightarrow> Inr b)"

definition refs_decode :: "refs_codec \<Rightarrow> bytes \<Rightarrow> loom_error + refs" where
  "refs_decode K b =
     (case rc_refs_decode K b of
        None \<Rightarrow> Inl (Codec ''decode'' ''refs'')
      | Some r \<Rightarrow> if REFS_FORMAT_VERSION < rf_version r then Inl (CorruptNode 0 ''refs file is from a newer format version'')
                  else Inr r)"

definition u32_le :: "nat \<Rightarrow> bytes" where
  "u32_le n = le_bytes 4 (n mod 2 ^ 32)"

definition checksum :: "refs_codec \<Rightarrow> bytes \<Rightarrow> bytes" where
  "checksum K payload = take FRAME_CHECKSUM_LEN (rc_hash K payload)"

definition frame :: "refs_codec \<Rightarrow> bytes \<Rightarrow> bytes" where
  "frame K payload = u32_le (length payload) @ payload @ checksum K payload"

definition frame_encode :: "refs_codec \<Rightarrow> ref_edit \<Rightarrow> loom_error + bytes" where
  "frame_encode K e =
     (case rc_edit_encode K e of
        None \<Rightarrow> Inl (Codec ''encode'' ''ref edit'')
      | Some payload \<Rightarrow> Inr (frame K payload))"

text \<open>The loop stops at the first frame that is short, fails its checksum or does not decode.\<close>

function frames_decode :: "refs_codec \<Rightarrow> bytes \<Rightarrow> ref_edit list" where
  "frames_decode K buf =
     (if length buf < 4 then []
      else
        (let len = nat_of_le (take 4 buf); body = drop 4 buf
         in if length body < len + FRAME_CHECKSUM_LEN then []
            else
              (let payload = take len body; sum = take FRAME_CHECKSUM_LEN (drop len body)
               in if checksum K payload \<noteq> sum then []
                  else case rc_edit_decode K payload of
                         None \<Rightarrow> []
                       | Some e \<Rightarrow> e # frames_decode K (drop (len + FRAME_CHECKSUM_LEN) body))))"
  by pat_completeness auto
termination
  by (relation "measure (\<lambda>(K, buf). length buf)") (auto simp: FRAME_CHECKSUM_LEN_def)

declare frames_decode.simps [simp del]

section \<open>The file system\<close>

datatype ref_file = SnapshotFile | LogFile | LegacyFile

text \<open>What the store uses of the file system: each mutation returns the new disk and an error text
  when it failed.\<close>

record 'd vfs =
  fs_exists :: "'d \<Rightarrow> ref_file \<Rightarrow> bool"
  fs_read :: "'d \<Rightarrow> ref_file \<Rightarrow> bytes + bytes"
  fs_atomic_write :: "'d \<Rightarrow> ref_file \<Rightarrow> bytes \<Rightarrow> 'd \<times> bytes option"
  fs_append :: "'d \<Rightarrow> ref_file \<Rightarrow> bytes \<Rightarrow> 'd \<times> bytes option"
  fs_truncate :: "'d \<Rightarrow> ref_file \<Rightarrow> nat \<Rightarrow> 'd \<times> bytes option"

definition COMPACT_FLOOR_BYTES :: nat where "COMPACT_FLOOR_BYTES = 256 * 1024"

section \<open>The file store\<close>

record 'd file_store =
  st_disk :: 'd
  st_floor :: nat
  st_snapshot_bytes :: nat
  st_log_bytes :: nat

definition file_len :: "'d vfs \<Rightarrow> 'd \<Rightarrow> ref_file \<Rightarrow> nat" where
  "file_len V d f =
     (if \<not> fs_exists V d f then 0 else case fs_read V d f of Inl _ \<Rightarrow> 0 | Inr b \<Rightarrow> length b)"

definition open_inner :: "'d vfs \<Rightarrow> 'd \<Rightarrow> 'd file_store" where
  "open_inner V d =
     \<lparr>st_disk = d, st_floor = COMPACT_FLOOR_BYTES, st_snapshot_bytes = file_len V d SnapshotFile,
      st_log_bytes = file_len V d LogFile\<rparr>"

definition with_compact_floor :: "nat \<Rightarrow> 'd file_store \<Rightarrow> 'd file_store" where
  "with_compact_floor n s = s\<lparr>st_floor := n\<rparr>"

definition read_file :: "'d vfs \<Rightarrow> 'd \<Rightarrow> ref_file \<Rightarrow> loom_error + bytes" where
  "read_file V d f = (case fs_read V d f of Inl e \<Rightarrow> Inl (CorruptNode 0 e) | Inr b \<Rightarrow> Inr b)"

definition read_snapshot :: "refs_codec \<Rightarrow> 'd vfs \<Rightarrow> 'd \<Rightarrow> loom_error + refs option" where
  "read_snapshot K V d =
     (if fs_exists V d SnapshotFile then
        bind_r (read_file V d SnapshotFile) (\<lambda>b. bind_r (refs_decode K b) (\<lambda>r. Inr (Some r)))
      else if fs_exists V d LegacyFile then
        bind_r (read_file V d LegacyFile) (\<lambda>b. bind_r (refs_decode K b) (\<lambda>r. Inr (Some r)))
      else Inr None)"

definition reconstruct :: "refs_codec \<Rightarrow> 'd vfs \<Rightarrow> 'd \<Rightarrow> loom_error + refs option" where
  "reconstruct K V d =
     bind_r (read_snapshot K V d) (\<lambda>snapshot.
     bind_r (if fs_exists V d LogFile then bind_r (read_file V d LogFile) (\<lambda>b. Inr (frames_decode K b)) else Inr [])
       (\<lambda>log.
         if snapshot = None \<and> log = [] then Inr None
         else Inr (Some (apply_edits log (case snapshot of None \<Rightarrow> refs_default | Some r \<Rightarrow> r)))))"

text \<open>The store's state on an error is what the failed step left.\<close>

definition write_snapshot_and_reset_log :: "refs_codec \<Rightarrow> 'd vfs \<Rightarrow> refs \<Rightarrow> 'd file_store
    \<Rightarrow> 'd file_store \<times> (loom_error + unit)" where
  "write_snapshot_and_reset_log K V r s =
     (case refs_encode K r of
        Inl e \<Rightarrow> (s, Inl e)
      | Inr bytes \<Rightarrow>
          (case fs_atomic_write V (st_disk s) SnapshotFile bytes of
             (d, Some e) \<Rightarrow> (s\<lparr>st_disk := d\<rparr>, Inl (CorruptNode 0 e))
           | (d, None) \<Rightarrow>
               (if fs_exists V d LogFile then
                  (case fs_truncate V d LogFile 0 of
                     (d, Some e) \<Rightarrow> (s\<lparr>st_disk := d\<rparr>, Inl (CorruptNode 0 e))
                   | (d, None) \<Rightarrow>
                       (s\<lparr>st_disk := d, st_snapshot_bytes := length bytes, st_log_bytes := 0\<rparr>, Inr ()))
                else (s\<lparr>st_disk := d, st_snapshot_bytes := length bytes, st_log_bytes := 0\<rparr>, Inr ()))))"

definition file_load :: "refs_codec \<Rightarrow> 'd vfs \<Rightarrow> 'd file_store \<Rightarrow> loom_error + refs option" where
  "file_load K V s = reconstruct K V (st_disk s)"

definition file_save :: "refs_codec \<Rightarrow> 'd vfs \<Rightarrow> 'd file_store \<Rightarrow> refs \<Rightarrow> 'd file_store \<times> (loom_error + unit)" where
  "file_save K V s r = write_snapshot_and_reset_log K V r s"

definition frames_encode :: "refs_codec \<Rightarrow> ref_edit list \<Rightarrow> loom_error + bytes" where
  "frames_encode K es = bind_r (map_r (frame_encode K) es) (\<lambda>fs. Inr (concat fs))"

definition file_apply :: "refs_codec \<Rightarrow> 'd vfs \<Rightarrow> 'd file_store \<Rightarrow> ref_edit list
    \<Rightarrow> 'd file_store \<times> (loom_error + unit)" where
  "file_apply K V s es =
     (if es = [] then (s, Inr ())
      else case frames_encode K es of
        Inl e \<Rightarrow> (s, Inl e)
      | Inr b \<Rightarrow>
          (case fs_append V (st_disk s) LogFile b of
             (d, Some e) \<Rightarrow> (s\<lparr>st_disk := d\<rparr>, Inl (CorruptNode 0 e))
           | (d, None) \<Rightarrow>
               (let s = s\<lparr>st_disk := d, st_log_bytes := st_log_bytes s + length b\<rparr>
                in if max (st_snapshot_bytes s) (st_floor s) < st_log_bytes s then
                     (case reconstruct K V d of
                        Inl e \<Rightarrow> (s, Inl e)
                      | Inr r \<Rightarrow> write_snapshot_and_reset_log K V
                                   (case r of None \<Rightarrow> refs_default | Some x \<Rightarrow> x) s)
                   else (s, Inr ()))))"

section \<open>The in-memory store\<close>

definition mem_load :: "refs option \<Rightarrow> loom_error + refs option" where
  "mem_load s = Inr s"

definition mem_save :: "refs option \<Rightarrow> refs \<Rightarrow> refs option \<times> (loom_error + unit)" where
  "mem_save s r = (Some r, Inr ())"

definition mem_apply :: "refs option \<Rightarrow> ref_edit list \<Rightarrow> refs option \<times> (loom_error + unit)" where
  "mem_apply s es = (Some (apply_edits es (case s of None \<Rightarrow> refs_default | Some r \<Rightarrow> r)), Inr ())"

end
