(* ===== verification/LoomRefStore.thy ===== *)
theory LoomRefStore
  imports LoomRefsLaws
begin

text \<open>
  The interface of a ref store, its interpretation on the file store and on the in-memory store, and
  what a crash in an append or in a compaction leaves behind.
\<close>

section \<open>The file system's documented behaviour\<close>

text \<open>\<open>file d f\<close> is the content of a file.  A successful mutation does what it says; a failed one
  leaves the old content or part of the new: an append may leave a prefix of its bytes, an atomic
  write is all or nothing, a truncate may stop at any length in between.\<close>

definition vfs_ok :: "'d vfs \<Rightarrow> ('d \<Rightarrow> ref_file \<Rightarrow> bytes option) \<Rightarrow> bool" where
  "vfs_ok V file \<longleftrightarrow>
     (\<forall>d f. fs_exists V d f \<longleftrightarrow> file d f \<noteq> None) \<and>
     (\<forall>d f b. file d f = Some b \<longrightarrow> fs_read V d f = Inr b) \<and>
     (\<forall>d f b d'. fs_atomic_write V d f b = (d', None) \<longrightarrow> file d' = (file d)(f \<mapsto> b)) \<and>
     (\<forall>d f b d'. fs_append V d f b = (d', None) \<longrightarrow>
        file d' = (file d)(f \<mapsto> (case file d f of None \<Rightarrow> b | Some a \<Rightarrow> a @ b))) \<and>
     (\<forall>d f n d'. fs_truncate V d f n = (d', None) \<longrightarrow> file d' = (file d)(f := map_option (take n) (file d f))) \<and>
     (\<forall>d f b d' e. fs_atomic_write V d f b = (d', Some e) \<longrightarrow> file d' = file d \<or> file d' = (file d)(f \<mapsto> b)) \<and>
     (\<forall>d f b d' e. fs_append V d f b = (d', Some e) \<longrightarrow>
        file d' = file d \<or> (\<exists>i. file d' = (file d)(f \<mapsto> (case file d f of None \<Rightarrow> take i b | Some a \<Rightarrow> a @ take i b)))) \<and>
     (\<forall>d f n d' e. fs_truncate V d f n = (d', Some e) \<longrightarrow> (\<exists>i. file d' = (file d)(f := map_option (take i) (file d f))))"

lemma vfs_write: "vfs_ok V file \<Longrightarrow> fs_atomic_write V d f b = (d', None) \<Longrightarrow> file d' = (file d)(f \<mapsto> b)"
  unfolding vfs_ok_def by (elim conjE) metis

lemma vfs_append: "vfs_ok V file \<Longrightarrow> fs_append V d f b = (d', None)
    \<Longrightarrow> file d' = (file d)(f \<mapsto> (case file d f of None \<Rightarrow> b | Some a \<Rightarrow> a @ b))"
  unfolding vfs_ok_def by (elim conjE) metis

lemma vfs_truncate: "vfs_ok V file \<Longrightarrow> fs_truncate V d f n = (d', None)
    \<Longrightarrow> file d' = (file d)(f := map_option (take n) (file d f))"
  unfolding vfs_ok_def by (elim conjE) metis

lemma vfs_write_fail: "vfs_ok V file \<Longrightarrow> fs_atomic_write V d f b = (d', Some e)
    \<Longrightarrow> file d' = file d \<or> file d' = (file d)(f \<mapsto> b)"
  unfolding vfs_ok_def by (elim conjE) metis

lemma vfs_append_fail: "vfs_ok V file \<Longrightarrow> fs_append V d f b = (d', Some e)
    \<Longrightarrow> file d' = file d
      \<or> (\<exists>i. file d' = (file d)(f \<mapsto> (case file d f of None \<Rightarrow> take i b | Some a \<Rightarrow> a @ take i b)))"
  unfolding vfs_ok_def by (elim conjE) metis

section \<open>The interface\<close>

definition edited :: "refs option \<Rightarrow> ref_edit list \<Rightarrow> refs" where
  "edited s es = apply_edits es (case s of None \<Rightarrow> refs_default | Some r \<Rightarrow> r)"

text \<open>A sequence of acknowledged batches.\<close>

fun acked :: "('s \<Rightarrow> ref_edit list \<Rightarrow> 's \<times> (loom_error + unit)) \<Rightarrow> 's \<Rightarrow> ref_edit list list \<Rightarrow> 's option" where
  "acked f s [] = Some s"
| "acked f s (es # rest) = (case f s es of (s', Inr _) \<Rightarrow> acked f s' rest | (s', Inl _) \<Rightarrow> None)"

locale ref_store =
  fixes inv :: "'s \<Rightarrow> bool"
    and abs :: "'s \<Rightarrow> refs option"
    and fits :: "ref_edit \<Rightarrow> bool"
    and load :: "'s \<Rightarrow> loom_error + refs option"
    and save :: "'s \<Rightarrow> refs \<Rightarrow> 's \<times> (loom_error + unit)"
    and append :: "'s \<Rightarrow> ref_edit list \<Rightarrow> 's \<times> (loom_error + unit)"
  assumes wf: "inv s \<Longrightarrow> abs s = Some r \<Longrightarrow> refs_wf r"
    and load: "inv s \<Longrightarrow> load s = Inr (abs s)"
    and save: "inv s \<Longrightarrow> refs_wf r \<Longrightarrow> save s r = (s', Inr ()) \<Longrightarrow> inv s' \<and> abs s' = Some r"
    and append: "inv s \<Longrightarrow> es \<noteq> [] \<or> abs s \<noteq> None \<Longrightarrow> list_all fits es \<Longrightarrow> append s es = (s', Inr ())
      \<Longrightarrow> inv s' \<and> abs s' = Some (edited (abs s) es)"
begin

lemma acked_abs:
  "inv s \<Longrightarrow> abs s = Some r \<Longrightarrow> list_all (list_all fits) ess \<Longrightarrow> acked append s ess = Some s'
   \<Longrightarrow> inv s' \<and> load s' = Inr (Some (apply_edits (concat ess) r))"
proof (induction ess arbitrary: s r)
  case Nil
  then show ?case using load by auto
next
  case (Cons es ess)
  obtain s1 u where s1: "append s es = (s1, Inr u)" "acked append s1 ess = Some s'"
    using Cons.prems(4) by (auto split: prod.splits sum.splits)
  have "inv s1" "abs s1 = Some (apply_edits es r)"
    using append [of s es s1] Cons.prems s1 by (auto simp: edited_def)
  then show ?case using Cons.IH [OF _ _ _ s1(2)] Cons.prems(3) by simp
qed

text \<open>Applying a batch again is a no-op, so a retried append is harmless.\<close>

lemma append_again:
  assumes "inv s" and "es \<noteq> []" and "list_all fits es"
    and "append s es = (s1, Inr ())" and "append s1 es = (s2, Inr ())"
  shows "load s2 = load s1"
proof -
  have 1: "inv s1" "abs s1 = Some (edited (abs s) es)" using append [OF assms(1) _ assms(3,4)] assms(2) by auto
  have 2: "inv s2" "abs s2 = Some (edited (abs s1) es)" using append [OF 1(1) _ assms(3,5)] assms(2) by auto
  have "refs_wf (case abs s of None \<Rightarrow> refs_default | Some r \<Rightarrow> r)" using wf [OF assms(1)] by (auto split: option.split)
  from replay_idem [OF this, of es] show ?thesis
    using load [OF 1(1)] load [OF 2(1)] 1(2) 2(2) by (simp add: edited_def)
qed

end

section \<open>The in-memory store\<close>

definition mem_inv :: "refs option \<Rightarrow> bool" where
  "mem_inv s = (case s of None \<Rightarrow> True | Some r \<Rightarrow> refs_wf r)"

interpretation mem_refs: ref_store mem_inv id "\<lambda>_. True" mem_load mem_save mem_apply
  by unfold_locales
    (auto simp: mem_inv_def mem_load_def mem_save_def mem_apply_def edited_def apply_edits_wf split: option.splits)

section \<open>The file store\<close>

text \<open>The disk holds a base (the snapshot, or the legacy file) and a log.\<close>

definition disk_base :: "refs_codec \<Rightarrow> (ref_file \<Rightarrow> bytes option) \<Rightarrow> refs option \<Rightarrow> bool" where
  "disk_base K fl base \<longleftrightarrow>
     (case fl SnapshotFile of
        Some b \<Rightarrow> (\<exists>r. refs_decode K b = Inr r \<and> base = Some r)
      | None \<Rightarrow> (case fl LegacyFile of
                  Some b \<Rightarrow> (\<exists>r. refs_decode K b = Inr r \<and> base = Some r)
                | None \<Rightarrow> base = None))
     \<and> (case base of None \<Rightarrow> True | Some r \<Rightarrow> refs_wf r)"

definition disk_log :: "(ref_file \<Rightarrow> bytes option) \<Rightarrow> bytes" where
  "disk_log fl = (case fl LogFile of None \<Rightarrow> [] | Some b \<Rightarrow> b)"

lemma disk_base_log [simp]: "disk_base K (fl(LogFile := x)) base \<longleftrightarrow> disk_base K fl base"
proof -
  have "(fl(LogFile := x)) SnapshotFile = fl SnapshotFile" "(fl(LogFile := x)) LegacyFile = fl LegacyFile" by simp_all
  then show ?thesis by (simp only: disk_base_def)
qed

definition disk_refs :: "refs option \<Rightarrow> ref_edit list \<Rightarrow> refs option" where
  "disk_refs base es = (if base = None \<and> es = [] then None else Some (edited base es))"

lemma reconstruct_disk:
  assumes "vfs_ok V file" and "disk_base K (file d) base" and "frames_decode K (disk_log (file d)) = es"
  shows "reconstruct K V d = Inr (disk_refs base es)"
proof -
  have ex: "fs_exists V d f \<longleftrightarrow> file d f \<noteq> None" for f using assms(1) by (simp add: vfs_ok_def)
  have rd: "file d f = Some b \<Longrightarrow> fs_read V d f = Inr b" for f b using assms(1) by (simp add: vfs_ok_def)
  have "read_snapshot K V d = Inr base"
    using assms(2) by (auto simp: read_snapshot_def disk_base_def ex read_file_def rd split: option.splits)
  moreover have "(if fs_exists V d LogFile then bind_r (read_file V d LogFile) (\<lambda>b. Inr (frames_decode K b)) else Inr [])
      = (Inr es :: loom_error + _)"
    using assms(3) by (cases "file d LogFile") (auto simp: disk_log_def ex read_file_def rd frames_decode.simps)
  ultimately show ?thesis
    by (simp add: reconstruct_def disk_refs_def edited_def)
qed

definition file_ok :: "refs_codec \<Rightarrow> 'd vfs \<Rightarrow> ('d \<Rightarrow> ref_file \<Rightarrow> bytes option) \<Rightarrow> 'd file_store \<Rightarrow> bool" where
  "file_ok K V file s \<longleftrightarrow> codec_ok K \<and> vfs_ok V file \<and>
     (\<exists>base es. disk_base K (file (st_disk s)) base \<and> clean_log K (disk_log (file (st_disk s))) es)"

definition file_abs :: "refs_codec \<Rightarrow> 'd vfs \<Rightarrow> 'd file_store \<Rightarrow> refs option" where
  "file_abs K V s = (case reconstruct K V (st_disk s) of Inl _ \<Rightarrow> None | Inr r \<Rightarrow> r)"

lemma disk_refs_wf: "disk_base K fl base \<Longrightarrow> disk_refs base es = Some r \<Longrightarrow> refs_wf r"
  by (auto simp: disk_base_def disk_refs_def edited_def apply_edits_wf split: option.splits if_splits)

lemma codec_refs:
  assumes "codec_ok K" and "refs_wf r"
  obtains b where "refs_encode K r = Inr b" "refs_decode K b = Inr r"
proof -
  obtain b where "rc_refs_encode K r = Some b" "rc_refs_decode K b = Some r" using assms by (auto simp: codec_ok_def)
  then show thesis using that [of b] assms(2) by (auto simp: refs_encode_def refs_decode_def refs_wf_def)
qed

text \<open>Writing a snapshot: what the disk holds after each outcome.\<close>

lemma snapshot_written:
  assumes K: "codec_ok K" and V: "vfs_ok V file" and r: "refs_wf r"
    and res: "write_snapshot_and_reset_log K V r s = (s', Inr ())"
  shows "disk_base K (file (st_disk s')) (Some r)" and "disk_log (file (st_disk s')) = []"
proof -
  obtain b where b: "refs_encode K r = Inr b" "refs_decode K b = Inr r" using codec_refs [OF K r] by blast
  obtain d1 where d1: "fs_atomic_write V (st_disk s) SnapshotFile b = (d1, None)"
    using res b by (auto simp: write_snapshot_and_reset_log_def split: prod.splits option.splits)
  have f1: "file d1 = (file (st_disk s))(SnapshotFile \<mapsto> b)" by (rule vfs_write [OF V d1])
  have ex: "fs_exists V d1 LogFile \<longleftrightarrow> file d1 LogFile \<noteq> None" using V by (simp add: vfs_ok_def)
  show "disk_base K (file (st_disk s')) (Some r)" "disk_log (file (st_disk s')) = []"
  proof -
    have "file (st_disk s') SnapshotFile = Some b \<and> disk_log (file (st_disk s')) = []"
    proof (cases "fs_exists V d1 LogFile")
      case True
      then obtain d2 where "fs_truncate V d1 LogFile 0 = (d2, None)" and s': "st_disk s' = d2"
        using res b d1 by (auto simp: write_snapshot_and_reset_log_def split: prod.splits option.splits)
      then have "file d2 = (file d1)(LogFile := map_option (take 0) (file d1 LogFile))"
        using vfs_truncate [OF V] by blast
      then show ?thesis using s' f1 by (auto simp: disk_log_def split: option.split)
    next
      case False
      then have "st_disk s' = d1" using res b d1 by (auto simp: write_snapshot_and_reset_log_def)
      then show ?thesis using f1 False ex by (simp add: disk_log_def)
    qed
    then show "disk_base K (file (st_disk s')) (Some r)" "disk_log (file (st_disk s')) = []"
      using b(2) r by (auto simp: disk_base_def)
  qed
qed

text \<open>A compaction that fails after its snapshot is durable, or that never gets there, is invisible as
  long as the log is whole.\<close>

lemma snapshot_crash:
  assumes K: "codec_ok K" and V: "vfs_ok V file" and base: "disk_base K (file (st_disk s)) base"
    and log: "clean_log K (disk_log (file (st_disk s))) es"
    and r: "disk_refs base es = Some r"
    and res: "fs_atomic_write V (st_disk s) SnapshotFile b = (d, err)" and b: "refs_encode K r = Inr b"
  shows "reconstruct K V d = Inr (Some r)"
proof -
  have wf: "refs_wf r" by (rule disk_refs_wf [OF base r])
  have dec: "refs_decode K b = Inr r" using codec_refs [OF K wf] b by (metis sum.sel(2))
  have cases: "file d = file (st_disk s) \<or> file d = (file (st_disk s))(SnapshotFile \<mapsto> b)"
    using vfs_write [OF V] vfs_write_fail [OF V] res by (cases err) blast+
  then have dl: "disk_log (file d) = disk_log (file (st_disk s))" by (auto simp: disk_log_def)
  have fd: "frames_decode K (disk_log (file d)) = es" using clean_decode [OF log] dl by simp
  from cases show ?thesis
  proof
    assume "file d = file (st_disk s)"
    then have "disk_base K (file d) base" using base by simp
    from reconstruct_disk [OF V this fd] show ?thesis using r by simp
  next
    assume "file d = (file (st_disk s))(SnapshotFile \<mapsto> b)"
    then have "disk_base K (file d) (Some r)" using dec wf by (simp add: disk_base_def)
    from reconstruct_disk [OF V this fd] have "reconstruct K V d = Inr (Some (apply_edits es r))"
      by (simp add: disk_refs_def edited_def)
    moreover have "apply_edits es r = r"
    proof -
      have "r = edited base es" using r by (auto simp: disk_refs_def split: if_splits)
      moreover have "refs_wf (case base of None \<Rightarrow> refs_default | Some x \<Rightarrow> x)"
        using base by (auto simp: disk_base_def split: option.splits)
      ultimately show ?thesis using replay_idem by (simp add: edited_def)
    qed
    ultimately show ?thesis by simp
  qed
qed

lemma file_apply_result:
  assumes ok: "file_ok K V file s" and es: "es \<noteq> []" "list_all (edit_ok K) es"
    and res: "file_apply K V s es = (s', Inr ())"
  shows "file_ok K V file s' \<and> file_abs K V s' = Some (edited (file_abs K V s) es)"
proof -
  have K: "codec_ok K" and V: "vfs_ok V file" using ok by (simp_all add: file_ok_def)
  obtain base old where base: "disk_base K (file (st_disk s)) base"
    and log: "clean_log K (disk_log (file (st_disk s))) old" using ok by (auto simp: file_ok_def)
  have abs: "file_abs K V s = disk_refs base old"
    using reconstruct_disk [OF V base clean_decode [OF log]] by (simp add: file_abs_def)
  obtain b where b: "frames_encode K es = Inr b" using frames_encode_total [OF es(2)] by blast
  obtain d where d: "fs_append V (st_disk s) LogFile b = (d, None)"
    using res b es(1) by (auto simp: file_apply_def split: prod.splits option.splits)
  have fd: "file d = (file (st_disk s))(LogFile \<mapsto> (case file (st_disk s) LogFile of None \<Rightarrow> b | Some a \<Rightarrow> a @ b))"
    by (rule vfs_append [OF V d])
  have log': "clean_log K (disk_log (file d)) (old @ es)"
    using clean_append [OF log frames_clean [OF K es(2) b]] fd by (simp add: disk_log_def split: option.splits)
  have base': "disk_base K (file d) base" using base by (simp add: fd)
  have rec: "reconstruct K V d = Inr (Some (edited base (old @ es)))"
    using reconstruct_disk [OF V base' clean_decode [OF log']] es(1) by (simp add: disk_refs_def)
  have goal: "edited (file_abs K V s) es = edited base (old @ es)"
    by (simp add: abs disk_refs_def edited_def)
  let ?s1 = "s\<lparr>st_disk := d, st_log_bytes := st_log_bytes s + length b\<rparr>"
  show ?thesis
  proof (cases "max (st_snapshot_bytes ?s1) (st_floor ?s1) < st_log_bytes ?s1")
    case False
    then have "s' = ?s1" using res b d es(1) by (auto simp: file_apply_def Let_def split: if_splits)
    then show ?thesis using base' log' rec K V goal by (auto simp: file_ok_def file_abs_def)
  next
    case True
    then have w: "write_snapshot_and_reset_log K V (edited base (old @ es)) ?s1 = (s', Inr ())"
      using res b d es(1) rec by (simp add: file_apply_def Let_def)
    have "refs_wf (edited base (old @ es))"
      by (rule disk_refs_wf [OF base', of "old @ es"]) (simp add: disk_refs_def es(1))
    note sw = snapshot_written [OF K V this w]
    then have "clean_log K (disk_log (file (st_disk s'))) []" using clean_empty by simp
    from reconstruct_disk [OF V sw(1) clean_decode [OF this]]
    have "file_abs K V s' = Some (edited base (old @ es))" by (simp add: file_abs_def disk_refs_def edited_def)
    then show ?thesis using sw K V clean_empty goal by (metis file_ok_def)
  qed
qed

interpretation file_refs: ref_store "file_ok K V content" "file_abs K V" "edit_ok K" "file_load K V" "file_save K V" "file_apply K V"
  for K :: refs_codec and V :: "'d vfs" and content :: "'d \<Rightarrow> ref_file \<Rightarrow> bytes option"
proof
  fix s s' :: "'d file_store" and r es
  assume ok: "file_ok K V content s"
  then obtain base es0 where base: "disk_base K (content (st_disk s)) base"
    and log: "clean_log K (disk_log (content (st_disk s))) es0" and K: "codec_ok K" and V: "vfs_ok V content"
    by (auto simp: file_ok_def)
  have rec: "reconstruct K V (st_disk s) = Inr (disk_refs base es0)"
    by (rule reconstruct_disk [OF V base clean_decode [OF log]])
  then show "file_load K V s = Inr (file_abs K V s)" by (simp add: file_load_def file_abs_def)
  show "refs_wf r" if "file_abs K V s = Some r"
    using that rec disk_refs_wf [OF base] by (simp add: file_abs_def)
  show "file_ok K V content s' \<and> file_abs K V s' = Some r" if "refs_wf r" "file_save K V s r = (s', Inr ())"
  proof -
    note sw = snapshot_written [OF K V that(1) that(2) [unfolded file_save_def]]
    have c: "clean_log K (disk_log (content (st_disk s'))) []" using sw(2) clean_empty by simp
    from reconstruct_disk [OF V sw(1) clean_decode [OF c]] show ?thesis
      using sw(1) c K V by (auto simp: file_ok_def file_abs_def disk_refs_def edited_def)
  qed
  show "file_ok K V content s' \<and> file_abs K V s' = Some (edited (file_abs K V s) es)"
    if "es \<noteq> [] \<or> file_abs K V s \<noteq> None" "list_all (edit_ok K) es" "file_apply K V s es = (s', Inr ())"
  proof (cases "es = []")
    case True
    then show ?thesis using that ok by (auto simp: file_apply_def edited_def)
  next
    case False
    then show ?thesis using file_apply_result [OF ok _ that(2,3)] by blast
  qed
qed

end
