(* ===== verification/LoomRefProps.thy ===== *)
theory LoomRefProps
  imports LoomRefStore LoomDemo
begin

text \<open>
  The properties of the ref store (\<open>refs.rs\<close>) and the counterexamples to its crash argument, with
  witnesses on a concrete codec and a concrete disk.
\<close>

section \<open>A codec and a disk\<close>

definition d_pair :: "bytes \<times> bytes \<Rightarrow> bytes" where
  "d_pair e = d_str (fst e) @ d_str (snd e)"

definition r_pair :: "bytes \<Rightarrow> (bytes \<times> bytes) \<times> bytes" where
  "r_pair b = (let (k, r) = r_str b; (v, r') = r_str r in ((k, v), r'))"

definition d_row :: "bytes \<times> bytes list \<Rightarrow> bytes" where
  "d_row e = d_str (fst e) @ d_list d_str (snd e)"

definition r_row :: "bytes \<Rightarrow> (bytes \<times> bytes list) \<times> bytes" where
  "r_row b = (let (k, r) = r_str b; (v, r') = r_list r_str r in ((k, v), r'))"

lemma r_pair [simp]: "r_pair (d_pair e @ r) = (e, r)" "r_row (d_row f @ r) = (f, r)"
  by (simp_all add: r_pair_def d_pair_def r_row_def d_row_def)

definition d_refs :: "refs \<Rightarrow> bytes" where
  "d_refs r = d_nat (rf_version r) @ d_list d_pair (rf_branches r) @ d_list d_pair (rf_tags r) @ d_list d_row (rf_commits r) @ []"

definition r_refs :: "bytes \<Rightarrow> refs" where
  "r_refs b = (let (v, b) = r_nat b; (bs, b) = r_list r_pair b; (ts, b) = r_list r_pair b; (cs, b) = r_list r_row b
     in \<lparr>rf_version = v, rf_branches = bs, rf_tags = ts, rf_commits = cs\<rparr>)"

lemma r_refs [simp]: "r_refs (d_refs r) = r"
  unfolding r_refs_def d_refs_def using r_list [of r_row d_row "rf_commits r" "[]"] by simp

fun d_edit :: "ref_edit \<Rightarrow> bytes" where
  "d_edit (SetHead b c) = CHR ''h'' # d_str b @ d_str c @ []"
| "d_edit (CreateBranch b c) = CHR ''c'' # d_str b @ d_str c @ []"
| "d_edit (RemoveBranch b) = CHR ''r'' # d_str b @ []"
| "d_edit (SetTag b c) = CHR ''t'' # d_str b @ d_str c @ []"
| "d_edit (RemoveTag b) = CHR ''u'' # d_str b @ []"
| "d_edit (RecordCommit c ps) = CHR ''m'' # d_str c @ d_list d_str ps @ []"
| "d_edit (AddParent c p) = CHR ''p'' # d_str c @ d_str p @ []"

definition r_edit :: "bytes \<Rightarrow> ref_edit option" where
  "r_edit b =
     (case b of
        [] \<Rightarrow> None
      | t # r \<Rightarrow>
          (let (a, r1) = r_str r; x = fst (r_str r1) in
           if t = CHR ''h'' then Some (SetHead a x) else if t = CHR ''c'' then Some (CreateBranch a x)
           else if t = CHR ''r'' then Some (RemoveBranch a) else if t = CHR ''t'' then Some (SetTag a x)
           else if t = CHR ''u'' then Some (RemoveTag a)
           else if t = CHR ''m'' then Some (RecordCommit a (fst (r_list r_str r1)))
           else if t = CHR ''p'' then Some (AddParent a x) else None))"

lemma r_edit [simp]: "r_edit (d_edit e) = Some e"
proof (cases e)
  case (RecordCommit c ps)
  then show ?thesis using r_list [of r_str d_str ps "[]"] by (simp add: r_edit_def)
qed (simp_all add: r_edit_def r_str [where r = "[]", simplified])

definition demo_codec_refs :: refs_codec where
  "demo_codec_refs = \<lparr>rc_refs_encode = (\<lambda>r. Some (d_refs r)), rc_refs_decode = (\<lambda>b. Some (r_refs b)),
     rc_edit_encode = (\<lambda>e. Some (d_edit e)), rc_edit_decode = r_edit,
     rc_hash = (\<lambda>b. take 32 (rev b @ replicate 32 CHR 0x00))\<rparr>"

lemma demo_codec_refs_ok: "codec_ok demo_codec_refs"
  by (auto simp: codec_ok_def demo_codec_refs_def min_def)

lemma demo_edit_ok: "length (d_edit e) < 2 ^ 32 \<Longrightarrow> edit_ok demo_codec_refs e"
  by (simp add: edit_ok_def demo_codec_refs_def)

type_synonym demo_disk = "ref_file \<Rightarrow> bytes option"

definition demo_files :: "demo_disk \<Rightarrow> demo_disk" where
  "demo_files d = d"

definition demo_vfs :: "demo_disk vfs" where
  "demo_vfs = \<lparr>fs_exists = (\<lambda>d f. d f \<noteq> None),
     fs_read = (\<lambda>d f. case d f of None \<Rightarrow> Inl ''not found'' | Some b \<Rightarrow> Inr b),
     fs_atomic_write = (\<lambda>d f b. (d(f \<mapsto> b), None)),
     fs_append = (\<lambda>d f b. (d(f \<mapsto> (case d f of None \<Rightarrow> b | Some a \<Rightarrow> a @ b)), None)),
     fs_truncate = (\<lambda>d f n. (d(f := map_option (take n) (d f)), None))\<rparr>"

lemma demo_vfs_ok: "vfs_ok demo_vfs demo_files"
  by (simp add: vfs_ok_def demo_vfs_def demo_files_def)

definition demo_store_empty :: "demo_disk file_store" where
  "demo_store_empty = open_inner demo_vfs Map.empty"

lemma demo_store_ok: "file_ok demo_codec_refs demo_vfs demo_files demo_store_empty"
  and demo_store_abs: "file_abs demo_codec_refs demo_vfs demo_store_empty = None"
proof -
  have b: "disk_base demo_codec_refs (demo_files (st_disk demo_store_empty)) None"
    and l: "disk_log (demo_files (st_disk demo_store_empty)) = []"
    by (simp_all add: disk_base_def disk_log_def demo_store_empty_def open_inner_def demo_files_def)
  then show "file_ok demo_codec_refs demo_vfs demo_files demo_store_empty"
    using demo_codec_refs_ok demo_vfs_ok clean_empty by (auto simp: file_ok_def)
  have "frames_decode demo_codec_refs (disk_log (demo_files (st_disk demo_store_empty))) = []"
    using clean_decode [OF clean_empty, of demo_codec_refs] l by simp
  from reconstruct_disk [of demo_vfs demo_files, OF demo_vfs_ok b this]
  show "file_abs demo_codec_refs demo_vfs demo_store_empty = None"
    by (simp add: file_abs_def disk_refs_def)
qed

section \<open>Properties\<close>

text \<open>C5: the durable ref store (snapshot plus append-only log, compacted at any time) refines the
  in-memory one: after any sequence of acknowledged batches on a store that holds refs,
  what \<open>load\<close> returns is those refs with every edit of every batch applied in order.\<close>

theorem file_store_refines_memory:
  assumes "file_ok K V content s" and "file_load K V s = Inr (Some r)"
    and "list_all (list_all (edit_ok K)) ess"
    and "acked (file_apply K V) s ess = Some s'"
  shows "file_load K V s' = Inr (Some (apply_edits (concat ess) r))
    \<and> acked mem_apply (Some r) ess = Some (Some (apply_edits (concat ess) r))"
proof -
  have abs: "file_abs K V s = Some r" using file_refs.load [OF assms(1)] assms(2) by simp
  have "acked mem_apply (Some r) ess = Some (Some (apply_edits (concat ess) r))" for ess r
    by (induction ess arbitrary: r) (simp_all add: mem_apply_def)
  then show ?thesis using file_refs.acked_abs [OF assms(1) abs assms(3,4)] by simp
qed

definition demo_batches :: "ref_edit list list" where
  "demo_batches = [[CreateBranch ''main'' ''c0'', RecordCommit ''c1'' [''c0'']], [SetHead ''main'' ''c1'']]"

lemma demo_batches_ok: "list_all (list_all (edit_ok demo_codec_refs)) demo_batches"
  by (simp add: demo_batches_def demo_edit_ok d_str_def d_nat_def d_list_def)

definition demo_seeded :: "demo_disk file_store" where
  "demo_seeded = fst (file_save demo_codec_refs demo_vfs demo_store_empty (refs_rooted ''main'' ''c0''))"

definition demo_after :: "demo_disk file_store" where
  "demo_after = the (acked (file_apply demo_codec_refs demo_vfs) demo_seeded demo_batches)"

lemma demo_seeded_ok: "file_ok demo_codec_refs demo_vfs demo_files demo_seeded"
  and demo_seeded_load: "file_load demo_codec_refs demo_vfs demo_seeded = Inr (Some (refs_rooted ''main'' ''c0''))"
proof -
  have "snd (file_save demo_codec_refs demo_vfs demo_store_empty (refs_rooted ''main'' ''c0'')) = Inr ()"
    by (simp add: file_save_def write_snapshot_and_reset_log_def refs_encode_def demo_codec_refs_def demo_vfs_def
        demo_store_empty_def open_inner_def)
  then have "file_save demo_codec_refs demo_vfs demo_store_empty (refs_rooted ''main'' ''c0'') = (demo_seeded, Inr ())"
    by (simp add: demo_seeded_def prod_eq_iff)
  from file_refs.save [OF demo_store_ok refs_wf_rooted this] file_refs.load
  show "file_ok demo_codec_refs demo_vfs demo_files demo_seeded"
    and "file_load demo_codec_refs demo_vfs demo_seeded = Inr (Some (refs_rooted ''main'' ''c0''))" by metis+
qed

lemma demo_acked: "acked (file_apply demo_codec_refs demo_vfs) demo_seeded demo_batches = Some demo_after"
proof -
  have "acked (file_apply demo_codec_refs demo_vfs) demo_seeded demo_batches \<noteq> None"
    by (simp add: demo_batches_def demo_seeded_def file_save_def write_snapshot_and_reset_log_def refs_encode_def demo_codec_refs_def demo_vfs_def
        demo_store_empty_def open_inner_def file_apply_def frames_encode_def frame_encode_def COMPACT_FLOOR_BYTES_def
        Let_def frame_def checksum_def u32_le_def FRAME_CHECKSUM_LEN_def d_refs_def d_str_def d_nat_def d_list_def)
  then show ?thesis by (simp add: demo_after_def)
qed

theorem file_store_refines_memory_witness:
  "file_load demo_codec_refs demo_vfs demo_after
     = Inr (Some (apply_edits (concat demo_batches) (refs_rooted ''main'' ''c0'')))"
proof -
  from file_store_refines_memory [OF demo_seeded_ok demo_seeded_load demo_batches_ok demo_acked] show ?thesis by (rule conjunct1)
qed

text \<open>C6: a crash while a batch is being appended loses at most a suffix of that batch: whatever part
  of the bytes reached the log, the next \<open>load\<close> returns the refs acknowledged so far with some prefix
  of the batch applied, and never an edit out of order or one that was not issued.\<close>

theorem torn_append_keeps_prefix:
  assumes "file_ok K V content s" and "file_load K V s = Inr (Some r)"
    and "es \<noteq> []" and "list_all (edit_ok K) es"
    and "fs_append V (st_disk s) LogFile (concat (map (frame K) (map (\<lambda>e. the (rc_edit_encode K e)) es))) = (d, Some err)"
  shows "\<exists>s' j. file_apply K V s es = (s', Inl (CorruptNode 0 err)) \<and> j \<le> length es
    \<and> file_load K V s' = Inr (Some (apply_edits (take j es) r))"
proof -
  have K: "codec_ok K" and V: "vfs_ok V content" using assms(1) by (simp_all add: file_ok_def)
  obtain base old where base: "disk_base K (content (st_disk s)) base"
    and log: "clean_log K (disk_log (content (st_disk s))) old" using assms(1) by (auto simp: file_ok_def)
  have r: "disk_refs base old = Some r"
    using reconstruct_disk [OF V base clean_decode [OF log]] assms(2) by (simp add: file_load_def)
  let ?b = "concat (map (frame K) (map (\<lambda>e. the (rc_edit_encode K e)) es))"
  have b: "frames_encode K es = Inr ?b" by (rule frames_encode_concat [OF assms(4)])
  let ?s = "s\<lparr>st_disk := d\<rparr>"
  have app: "file_apply K V s es = (?s, Inl (CorruptNode 0 err))"
    using assms(3,5) b by (simp add: file_apply_def)
  have torn: "\<exists>j\<le>length es. frames_decode K (take i ?b) = take j es" for i
    using frames_torn [OF K assms(4) b, of i] by blast
  have load: "reconstruct K V d = Inr (Some (apply_edits (take j es) r))"
    if "content d = (content (st_disk s))(LogFile \<mapsto> disk_log (content (st_disk s)) @ take i ?b)"
      and "frames_decode K (take i ?b) = take j es" for i j
  proof -
    have "disk_base K (content d) base" using base that(1) by simp
    moreover have "frames_decode K (disk_log (content d)) = old @ take j es"
      using log that by (simp add: disk_log_def clean_log_def)
    ultimately show ?thesis using reconstruct_disk [OF V] r by (auto simp: disk_refs_def edited_def split: if_splits)
  qed
  have "\<exists>j\<le>length es. reconstruct K V d = Inr (Some (apply_edits (take j es) r))"
  proof (cases "content d = content (st_disk s)")
    case True
    then have "disk_base K (content d) base" "frames_decode K (disk_log (content d)) = old"
      using base clean_decode [OF log] by simp_all
    from reconstruct_disk [OF V this] have "reconstruct K V d = Inr (Some r)" using r by simp
    then show ?thesis by (intro exI [of _ 0]) simp
  next
    case False
    then obtain i where "content d = (content (st_disk s))(LogFile \<mapsto> (case content (st_disk s) LogFile of None \<Rightarrow> take i ?b | Some a \<Rightarrow> a @ take i ?b))"
      using vfs_append_fail [OF V assms(5)] by blast
    then have "content d = (content (st_disk s))(LogFile \<mapsto> disk_log (content (st_disk s)) @ take i ?b)"
      by (simp add: disk_log_def split: option.splits)
    with torn [of i] load show ?thesis by blast
  qed
  then show ?thesis using app by (auto simp: file_load_def)
qed

definition torn_vfs :: "demo_disk vfs" where
  "torn_vfs = demo_vfs\<lparr>fs_append := (\<lambda>d f b. (d(f \<mapsto> (case d f of None \<Rightarrow> take 20 b | Some a \<Rightarrow> a @ take 20 b)), Some ''crash''))\<rparr>"

lemma torn_vfs_ok: "vfs_ok torn_vfs demo_files"
  by (auto simp: vfs_ok_def torn_vfs_def demo_vfs_def demo_files_def)

lemma demo_torn_ok: "file_ok demo_codec_refs torn_vfs demo_files demo_seeded"
  and demo_torn_load: "file_load demo_codec_refs torn_vfs demo_seeded = Inr (Some (refs_rooted ''main'' ''c0''))"
proof -
  show "file_ok demo_codec_refs torn_vfs demo_files demo_seeded"
    using demo_seeded_ok torn_vfs_ok by (auto simp: file_ok_def)
  show "file_load demo_codec_refs torn_vfs demo_seeded = Inr (Some (refs_rooted ''main'' ''c0''))"
  proof -
    have "file_load demo_codec_refs torn_vfs demo_seeded = file_load demo_codec_refs demo_vfs demo_seeded"
      by (simp add: file_load_def reconstruct_def read_snapshot_def read_file_def torn_vfs_def)
    then show ?thesis using demo_seeded_load by simp
  qed
qed

theorem torn_append_keeps_prefix_witness:
  "\<exists>s' j. file_apply demo_codec_refs torn_vfs demo_seeded [SetHead ''main'' ''c1'', SetTag ''t'' ''c1''] = (s', Inl (CorruptNode 0 ''crash''))
    \<and> j \<le> 2 \<and> file_load demo_codec_refs torn_vfs s'
        = Inr (Some (apply_edits (take j [SetHead ''main'' ''c1'', SetTag ''t'' ''c1'']) (refs_rooted ''main'' ''c0'')))"
proof -
  let ?es = "[SetHead ''main'' ''c1'', SetTag ''t'' ''c1'']"
  have ok: "list_all (edit_ok demo_codec_refs) ?es" by (simp add: demo_edit_ok d_str_def)
  show ?thesis
    using torn_append_keeps_prefix [OF demo_torn_ok demo_torn_load _ ok] by (simp add: torn_vfs_def eval_nat_numeral)
qed

text \<open>A compaction is invisible to a reader at every crash point up to and including its snapshot:
  whatever the atomic write of the snapshot answers, and although the log that the snapshot already
  contains is still there to be replayed over it, \<open>load\<close> returns the refs it returned before.\<close>

theorem compaction_crash_invisible:
  assumes "file_ok K V content s" and "file_load K V s = Inr (Some r)"
    and "refs_encode K r = Inr b" and "fs_atomic_write V (st_disk s) SnapshotFile b = (d, err)"
  shows "file_load K V (s\<lparr>st_disk := d\<rparr>) = Inr (Some r)"
proof -
  have K: "codec_ok K" and V: "vfs_ok V content" using assms(1) by (simp_all add: file_ok_def)
  obtain base old where base: "disk_base K (content (st_disk s)) base"
    and log: "clean_log K (disk_log (content (st_disk s))) old" using assms(1) by (auto simp: file_ok_def)
  have "disk_refs base old = Some r"
    using reconstruct_disk [OF V base clean_decode [OF log]] assms(2) by (simp add: file_load_def)
  from snapshot_crash [OF K V base log this assms(4,3)] show ?thesis by (simp add: file_load_def)
qed

theorem compaction_crash_invisible_witness:
  "file_load demo_codec_refs demo_vfs
     (demo_seeded\<lparr>st_disk := (st_disk demo_seeded)(SnapshotFile \<mapsto> d_refs (refs_rooted ''main'' ''c0''))\<rparr>)
   = Inr (Some (refs_rooted ''main'' ''c0''))"
  by (rule compaction_crash_invisible [OF demo_seeded_ok demo_seeded_load])
    (simp_all add: refs_encode_def demo_codec_refs_def demo_vfs_def)

section \<open>Where the crash argument fails\<close>

text \<open>A torn tail is never cut off: an edit acknowledged after the restart lands behind it, and no later
  \<open>load\<close> sees it.  Here the crash left only the length of a 100-byte edit.\<close>

definition torn_disk :: demo_disk where
  "torn_disk = (\<lambda>_. None)(SnapshotFile \<mapsto> d_refs (refs_rooted ''main'' ''c0''), LogFile \<mapsto> u32_le 100)"

lemma torn_disk_load:
  assumes "d SnapshotFile = Some (d_refs (refs_rooted ''main'' ''c0''))"
    and "d LogFile = Some (u32_le 100 @ b)" and "length b < 100"
  shows "reconstruct demo_codec_refs demo_vfs d = Inr (Some (refs_rooted ''main'' ''c0''))"
proof -
  have "frames_decode demo_codec_refs (u32_le 100 @ b) = []"
    using assms(3) u32_le_read [of 100] by (simp add: frames_decode.simps [of _ "u32_le 100 @ b"] FRAME_CHECKSUM_LEN_def)
  then show ?thesis
    using assms(1,2) by (simp add: reconstruct_def read_snapshot_def read_file_def demo_vfs_def refs_decode_def
        demo_codec_refs_def refs_rooted_def refs_default_def)
qed

theorem acknowledged_after_torn_tail_is_lost:
  "\<exists>s'. file_apply demo_codec_refs demo_vfs (open_inner demo_vfs torn_disk) [SetHead ''main'' ''c1''] = (s', Inr ())
     \<and> file_load demo_codec_refs demo_vfs s' = Inr (Some (refs_rooted ''main'' ''c0''))"
proof -
  let ?s = "open_inner demo_vfs torn_disk"
  let ?b = "frame demo_codec_refs (d_edit (SetHead ''main'' ''c1''))"
  have len: "length ?b < 100"
    by (simp add: frame_def u32_le_read demo_codec_refs_def checksum_def FRAME_CHECKSUM_LEN_def d_str_def)
  have enc: "frames_encode demo_codec_refs [SetHead ''main'' ''c1''] = Inr ?b"
    by (simp add: frames_encode_def frame_encode_def demo_codec_refs_def)
  have log: "length (the (torn_disk LogFile)) = 4" and logb: "torn_disk LogFile = Some (u32_le 100)"
    by (simp_all add: torn_disk_def u32_le_read)
  let ?s' = "?s\<lparr>st_disk := torn_disk(LogFile \<mapsto> u32_le 100 @ ?b), st_log_bytes := 4 + length ?b\<rparr>"
  have "file_apply demo_codec_refs demo_vfs ?s [SetHead ''main'' ''c1''] = (?s', Inr ())"
    using len log logb by (simp add: file_apply_def enc demo_vfs_def open_inner_def file_len_def COMPACT_FLOOR_BYTES_def del: d_edit.simps)
  moreover have "file_load demo_codec_refs demo_vfs ?s' = Inr (Some (refs_rooted ''main'' ''c0''))"
    unfolding file_load_def by (rule torn_disk_load [OF _ _ len]) (simp_all add: torn_disk_def del: d_edit.simps)
  ultimately show ?thesis by blast
qed

end
