(* ===== verification/LoomToken.thy ===== *)
theory LoomToken
  imports LoomEnvelope
begin

text \<open>
  Capability tokens (\<open>crates/loom-branch/src/token.rs\<close>): issuing, extending and the check every
  operation makes.  The canonical bytes are \<open>bincode\<close>'s, a parameter.
\<close>

record token_claims =
  tk_tenant :: bytes
  tk_session :: bytes
  tk_scope :: "bytes set"
  tk_expires :: u64

record token =
  tk_claims :: token_claims
  tk_signature :: bytes

text \<open>The issuer: its key and the encoder of the claims.\<close>

record issuer =
  is_crypto :: crypto
  is_key :: bytes
  is_canonical :: "token_claims \<Rightarrow> bytes option"

definition canonical :: "issuer \<Rightarrow> token_claims \<Rightarrow> loom_error + bytes" where
  "canonical I c = (case is_canonical I c of None \<Rightarrow> Inl (Codec ''encode'' ''capability token'') | Some b \<Rightarrow> Inr b)"

definition token_issue :: "issuer \<Rightarrow> bytes \<Rightarrow> bytes \<Rightarrow> bytes set \<Rightarrow> u64 \<Rightarrow> loom_error + token" where
  "token_issue I tenant session scope expires =
     (let c = \<lparr>tk_tenant = tenant, tk_session = session, tk_scope = scope, tk_expires = expires\<rparr>
      in bind_r (canonical I c) (\<lambda>b. Inr \<lparr>tk_claims = c, tk_signature = cr_sign (is_crypto I) (is_key I) b\<rparr>))"

definition token_extend :: "issuer \<Rightarrow> token \<Rightarrow> bytes \<Rightarrow> loom_error + token" where
  "token_extend I t branch =
     (let c = tk_claims t
      in token_issue I (tk_tenant c) (tk_session c) (insert branch (tk_scope c)) (tk_expires c))"

definition authorize :: "issuer \<Rightarrow> token \<Rightarrow> bytes \<Rightarrow> u64 \<Rightarrow> loom_error + unit" where
  "authorize I t branch now =
     (if length (tk_signature t) \<noteq> 64 then Inl TokenForged
      else bind_r (canonical I (tk_claims t)) (\<lambda>b.
        case cr_verify (is_crypto I) (cr_public (is_crypto I) (is_key I)) b (tk_signature t) of
          Some _ \<Rightarrow> Inl TokenForged
        | None \<Rightarrow>
            if tk_expires (tk_claims t) \<le> now then Inl (TokenExpired (tk_session (tk_claims t)))
            else if branch \<notin> tk_scope (tk_claims t)
              then Inl (OutOfScope branch (sorted_list_of_set (tk_scope (tk_claims t))))
            else Inr ()))"

text \<open>A token this issuer signed.\<close>

definition genuine :: "issuer \<Rightarrow> token \<Rightarrow> bool" where
  "genuine I t \<longleftrightarrow> length (tk_signature t) = 64 \<and>
     (\<exists>b. is_canonical I (tk_claims t) = Some b \<and>
        cr_verify (is_crypto I) (cr_public (is_crypto I) (is_key I)) b (tk_signature t) = None)"

lemma authorize_genuine:
  "genuine I t \<Longrightarrow> authorize I t branch now =
     (if tk_expires (tk_claims t) \<le> now then Inl (TokenExpired (tk_session (tk_claims t)))
      else if branch \<notin> tk_scope (tk_claims t) then Inl (OutOfScope branch (sorted_list_of_set (tk_scope (tk_claims t))))
      else Inr ())"
  by (auto simp: genuine_def authorize_def canonical_def)

lemma authorize_ok:
  "authorize I t branch now = Inr u \<longleftrightarrow> genuine I t \<and> now < tk_expires (tk_claims t) \<and> branch \<in> tk_scope (tk_claims t)"
  by (auto simp: genuine_def authorize_def canonical_def bind_r_Inr_iff not_le split: option.splits if_splits)

lemma authorize_forged:
  "\<not> genuine I t \<Longrightarrow> is_canonical I (tk_claims t) \<noteq> None \<Longrightarrow> authorize I t branch now = Inl TokenForged"
  by (auto simp: genuine_def authorize_def canonical_def split: option.splits)

lemma token_issue_genuine:
  assumes "crypto_ok (is_crypto I)" and "token_issue I tenant session scope expires = Inr t"
  shows "genuine I t" and "tk_claims t = \<lparr>tk_tenant = tenant, tk_session = session, tk_scope = scope, tk_expires = expires\<rparr>"
  using assms by (auto simp: token_issue_def genuine_def canonical_def crypto_ok_def Let_def bind_r_Inr_iff split: option.splits)

end
