(* ===== verification/LoomState.thy ===== *)
theory LoomState
  imports LoomRefStore LoomToken
begin

text \<open>
  The state of an open database (\<open>Loom\<close>, \<open>crates/loom-branch/src/session.rs\<close>) and the state-and-error
  monad its operations are written in.  The page store (\<open>substrate_pager\<close>), the ref store behind
  \<open>dyn RefStore\<close>, the cryptography and \<open>bincode\<close> are the fields of an environment.  A lock of the
  source serializes the operation that holds it, so an operation is one step here.
\<close>

section \<open>State and errors\<close>

type_synonym ('s, 'e, 'a) fallible = "'s \<Rightarrow> 's \<times> ('e + 'a)"

type_synonym ('s, 'a) act = "('s, loom_error, 'a) fallible"

definition ret :: "'a \<Rightarrow> ('s, 'e, 'a) fallible" where "ret a s = (s, Inr a)"

definition fail :: "'e \<Rightarrow> ('s, 'e, 'a) fallible" where "fail e s = (s, Inl e)"

definition lift_r :: "'e + 'a \<Rightarrow> ('s, 'e, 'a) fallible" where "lift_r r s = (s, r)"

text \<open>A fallible read of the state.\<close>

definition ask :: "('s \<Rightarrow> 'e + 'a) \<Rightarrow> ('s, 'e, 'a) fallible" where "ask f s = (s, f s)"

definition modify :: "('s \<Rightarrow> 's) \<Rightarrow> ('s, 'e, unit) fallible" where "modify f s = (f s, Inr ())"

text \<open>The operator \<open>?\<close>: an error ends the operation, and keeps the state it has reached.\<close>

definition bind_s :: "('s, 'e, 'a) fallible \<Rightarrow> ('a \<Rightarrow> ('s, 'e, 'b) fallible) \<Rightarrow> ('s, 'e, 'b) fallible" where
  "bind_s m f s = (case m s of (s', Inl e) \<Rightarrow> (s', Inl e) | (s', Inr a) \<Rightarrow> f a s')"

lemma act_simps [simp]:
  "ret a s = (s, Inr a)" "fail e s = (s, Inl e)" "lift_r r s = (s, r)" "ask f s = (s, f s)" "modify g s = (g s, Inr ())"
  by (simp_all add: ret_def fail_def lift_r_def ask_def modify_def)

lemma bind_s_simps:
  "m s = (s', Inl e) \<Longrightarrow> bind_s m f s = (s', Inl e)"
  "m s = (s', Inr a) \<Longrightarrow> bind_s m f s = f a s'"
  by (simp_all add: bind_s_def)

lemma bind_s_pure [simp]:
  "bind_s (lift_r (Inl e)) f s = (s, Inl e)" "bind_s (lift_r (Inr a)) f s = f a s"
  "bind_s (ret a) f s = f a s" "bind_s (modify g) h s = h () (g s)"
  "bind_s (fail e) f s = (s, Inl e)"
  by (simp_all add: bind_s_def)

lemma bind_s_Inr:
  assumes "bind_s m f s = (s'', Inr b)"
  obtains s' a where "m s = (s', Inr a)" "f a s' = (s'', Inr b)"
  using assms by (auto simp: bind_s_def split: prod.splits sum.splits)

lemma bind_s_Inl:
  assumes "bind_s m f s = (s'', Inl e)"
  obtains "m s = (s'', Inl e)" | s' a where "m s = (s', Inr a)" "f a s' = (s'', Inl e)"
  using assms by (auto simp: bind_s_def split: prod.splits sum.splits)

section \<open>Text\<close>

text \<open>Decimal numbers and lower-case hex, as \<open>format!\<close> prints them.\<close>

definition digit :: "nat \<Rightarrow> char" where "digit n = byte_of (48 + n)"

fun decimal :: "nat \<Rightarrow> bytes" where
  "decimal n = (if n < 10 then [digit n] else decimal (n div 10) @ [digit (n mod 10)])"

declare decimal.simps [simp del]

definition hex_digit :: "nat \<Rightarrow> char" where
  "hex_digit n = byte_of (if n < 10 then 48 + n else 87 + n)"

definition to_hex :: "bytes \<Rightarrow> bytes" where
  "to_hex bs = concat (map (\<lambda>b. [hex_digit (nat_of_byte b div 16), hex_digit (nat_of_byte b mod 16)]) bs)"

section \<open>The outside\<close>

text \<open>What the code uses of the page store: \<open>root_manifest\<close>, \<open>fork\<close>, \<open>begin\<close>, \<open>commit\<close>,
  \<open>manifest(\<dots>).parent\<close>, \<open>diff3\<close>, \<open>gc\<close> and \<open>scrub\<close>.\<close>

record 'p pager =
  pg_root :: "'p \<Rightarrow> loom_error + commit_id"
  pg_fork :: "'p \<Rightarrow> commit_id \<Rightarrow> loom_error + record_t tree_env"
  pg_begin :: "'p \<Rightarrow> commit_id \<Rightarrow> loom_error + unit"
  pg_commit :: "'p \<Rightarrow> commit_id \<Rightarrow> (nat \<times> bytes) list \<Rightarrow> 'p \<times> (loom_error + commit_id)"
  pg_parent :: "'p \<Rightarrow> commit_id \<Rightarrow> commit_id option"
  pg_diff3 :: "'p \<Rightarrow> commit_id \<Rightarrow> commit_id \<Rightarrow> commit_id \<Rightarrow> loom_error + nat list"
  pg_gc :: "'p \<Rightarrow> commit_id list \<Rightarrow> 'p \<times> (loom_error + nat)"
  pg_scrub :: "'p \<Rightarrow> commit_id list \<Rightarrow> loom_error + bytes"

record 's refs_io =
  io_load :: "'s \<Rightarrow> loom_error + refs option"
  io_save :: "'s \<Rightarrow> refs \<Rightarrow> 's \<times> (loom_error + unit)"
  io_apply :: "'s \<Rightarrow> ref_edit list \<Rightarrow> 's \<times> (loom_error + unit)"

record loom_codec =
  lc_node_encode :: "der_node \<Rightarrow> bytes option"
  lc_node_decode :: "bytes \<Rightarrow> der_node option"
  lc_index_encode :: "index_entry \<Rightarrow> bytes option"
  lc_index_decode :: "bytes \<Rightarrow> index_entry option"
  lc_version_encode :: "claim_version \<Rightarrow> bytes option"
  lc_version_decode :: "bytes \<Rightarrow> claim_version option"
  lc_embedding_encode :: "embedding \<Rightarrow> bytes option"

definition node_encode_blob :: "loom_codec \<Rightarrow> der_node \<Rightarrow> loom_error + bytes" where
  "node_encode_blob K n = (case lc_node_encode K n of None \<Rightarrow> Inl (Codec ''encode'' ''derivation node'') | Some b \<Rightarrow> Inr b)"

definition node_decode_blob :: "loom_codec \<Rightarrow> bytes \<Rightarrow> loom_error + der_node" where
  "node_decode_blob K b = (case lc_node_decode K b of None \<Rightarrow> Inl (Codec ''decode'' ''derivation node'') | Some n \<Rightarrow> Inr n)"

definition index_encode :: "loom_codec \<Rightarrow> index_entry \<Rightarrow> loom_error + bytes" where
  "index_encode K n = (case lc_index_encode K n of None \<Rightarrow> Inl (Codec ''encode'' ''index entry'') | Some b \<Rightarrow> Inr b)"

definition index_decode :: "loom_codec \<Rightarrow> bytes \<Rightarrow> loom_error + index_entry" where
  "index_decode K b = (case lc_index_decode K b of None \<Rightarrow> Inl (Codec ''decode'' ''index entry'') | Some n \<Rightarrow> Inr n)"

definition version_encode :: "loom_codec \<Rightarrow> claim_version \<Rightarrow> loom_error + bytes" where
  "version_encode K n = (case lc_version_encode K n of None \<Rightarrow> Inl (Codec ''encode'' ''claim version'') | Some b \<Rightarrow> Inr b)"

definition embedding_encode :: "loom_codec \<Rightarrow> embedding \<Rightarrow> loom_error + bytes" where
  "embedding_encode K n = (case lc_embedding_encode K n of None \<Rightarrow> Inl (Codec ''encode'' ''ANN buffer vector'') | Some b \<Rightarrow> Inr b)"

record ('p, 's) loom_env =
  en_pager :: "'p pager"
  en_store :: "'s refs_io"
  en_issuer :: issuer
  en_codec :: loom_codec
  en_tenant :: bytes

abbreviation en_crypto :: "('p, 's) loom_env \<Rightarrow> crypto" where
  "en_crypto E \<equiv> is_crypto (en_issuer E)"

section \<open>The read set of a session\<close>

text \<open>A \<open>BTreeSet\<close> is a sorted list without duplicates.\<close>

record read_set =
  rs_nodes :: "bytes list"
  rs_sources :: "source_ref list"
  rs_min_label :: trust_class

definition read_set_default :: read_set where
  "read_set_default = \<lparr>rs_nodes = [], rs_sources = [], rs_min_label = least_restrictive\<rparr>"

definition read_set_is_empty :: "read_set \<Rightarrow> bool" where
  "read_set_is_empty r \<longleftrightarrow> rs_nodes r = [] \<and> rs_sources r = []"

definition insert_node :: "bytes \<Rightarrow> bytes list \<Rightarrow> bytes list" where
  "insert_node n xs = sort_dedup (n # xs)"

definition insert_source :: "source_ref \<Rightarrow> source_ref list \<Rightarrow> source_ref list" where
  "insert_source s xs = sort_sources (s # xs)"

lemma set_insert_source [simp]: "set (insert_source s xs) = insert s (set xs)"
  by (simp add: insert_source_def)

section \<open>The database\<close>

record ('p, 's) loom =
  lm_pager :: 'p
  lm_store :: 's
  lm_keys :: "(bytes \<times> bytes) list option"
  lm_refs :: refs
  lm_edits :: "ref_edit list"
  lm_reads :: "bytes \<Rightarrow> read_set option"

end
