(* ===== verification/LoomSession.thy ===== *)
theory LoomSession
  imports LoomState
begin

text \<open>
  Opening a database, its actor registry, and the branch refs it writes through
  (\<open>crates/loom-branch/src/session.rs\<close>).
\<close>

section \<open>The commit clock\<close>

text \<open>\<open>fetch_add\<close> wraps at \<open>2^64\<close>.\<close>

definition clock_now :: "u64 \<Rightarrow> u64 \<times> u64" where
  "clock_now next = (next + 1, next)"

fun clock_instants :: "nat \<Rightarrow> u64 \<Rightarrow> u64 list" where
  "clock_instants 0 c = []"
| "clock_instants (Suc n) c = (let (c', i) = clock_now c in i # clock_instants n c')"

section \<open>The actor registry\<close>

text \<open>A registry is a \<open>BTreeMap\<close> of actors to verifying keys.\<close>

type_synonym registry = "(bytes \<times> bytes) list"

definition collect_keys :: "(bytes \<times> bytes) list \<Rightarrow> registry" where
  "collect_keys ks = fold (\<lambda>(a, k). put a k) ks []"

definition fingerprint_actor_key_map :: "crypto \<Rightarrow> registry \<Rightarrow> bytes" where
  "fingerprint_actor_key_map C ks =
     to_hex (cr_hash C (''loomdb-actor-key-registry-v1'' @ [CHR 0x00]
       @ concat (map (\<lambda>(a, k). usize_le (length a) @ a @ k) ks)))"

definition actor_key_fingerprint :: "crypto \<Rightarrow> (bytes \<times> bytes) list \<Rightarrow> bytes" where
  "actor_key_fingerprint C ks = fingerprint_actor_key_map C (collect_keys ks)"

definition production_actor_keys :: "(bytes \<times> bytes) list \<Rightarrow> loom_error + registry" where
  "production_actor_keys ks =
     (let m = collect_keys ks
      in if m = [] then Inl (InvalidSecurityConfiguration ''the actor key registry is empty'') else Inr m)"

section \<open>Registry attestations\<close>

record attestation =
  at_tenant :: bytes
  at_generation :: u64
  at_fingerprint :: bytes
  at_signature :: bytes

definition attestation_payload :: "bytes \<Rightarrow> u64 \<Rightarrow> bytes \<Rightarrow> bytes" where
  "attestation_payload tenant generation fingerprint =
     ''loomdb-actor-registry-attestation-v1'' @ [CHR 0x00] @ usize_le (length tenant) @ tenant
     @ u64_le generation @ usize_le (length fingerprint) @ fingerprint"

definition attestation_issue :: "crypto \<Rightarrow> bytes \<Rightarrow> u64 \<Rightarrow> (bytes \<times> bytes) list \<Rightarrow> bytes \<Rightarrow> attestation" where
  "attestation_issue C tenant generation ks governance =
     (let f = actor_key_fingerprint C ks
      in \<lparr>at_tenant = tenant, at_generation = generation, at_fingerprint = f,
          at_signature = cr_sign C governance (attestation_payload tenant generation f)\<rparr>)"

definition signed_bytes :: "attestation \<Rightarrow> bytes" where
  "signed_bytes a = attestation_payload (at_tenant a) (at_generation a) (at_fingerprint a)"

definition attestation_verify :: "crypto \<Rightarrow> attestation \<Rightarrow> bytes \<Rightarrow> bytes \<Rightarrow> bytes \<Rightarrow> u64 \<Rightarrow> loom_error + unit" where
  "attestation_verify C a expected_tenant actual_fingerprint governance minimum =
     (if length (at_signature a) \<noteq> 64
        then Inl (InvalidSecurityConfiguration ''actor registry governance signature has the wrong length'')
      else if cr_verify C governance (signed_bytes a) (at_signature a) \<noteq> None
        then Inl (InvalidSecurityConfiguration ''actor registry governance signature is invalid'')
      else if at_tenant a \<noteq> expected_tenant
        then Inl (InvalidSecurityConfiguration
               (''actor registry attestation tenant mismatch (expected '' @ expected_tenant
                @ '', actual '' @ at_tenant a @ '')''))
      else if at_generation a < minimum
        then Inl (InvalidSecurityConfiguration
               (''actor registry rollback refused (minimum generation '' @ decimal (unat minimum)
                @ '', attested generation '' @ decimal (unat (at_generation a)) @ '')''))
      else if at_fingerprint a \<noteq> actual_fingerprint
        then Inl (InvalidSecurityConfiguration
               (''actor key registry fingerprint mismatch (attested '' @ at_fingerprint a
                @ '', actual '' @ actual_fingerprint @ '')''))
      else Inr ())"

section \<open>Opening a database\<close>

definition MAIN :: bytes where "MAIN = ''main''"

definition DEFAULT_SESSION_TTL_MS :: u64 where "DEFAULT_SESSION_TTL_MS = 8 * 3600000"

definition fresh_loom :: "'p \<Rightarrow> 's \<Rightarrow> refs \<Rightarrow> ('p, 's) loom" where
  "fresh_loom p s r = \<lparr>lm_pager = p, lm_store = s, lm_keys = None, lm_refs = r, lm_edits = [], lm_reads = Map.empty\<rparr>"

text \<open>The pager and the ref store a database is opened on.\<close>

definition assemble :: "('p, 's) loom_env \<Rightarrow> 'p \<times> 's \<Rightarrow> loom_error + ('p, 's) loom" where
  "assemble E ps =
     bind_r (io_load (en_store E) (snd ps)) (\<lambda>loaded.
       case loaded of
         Some r \<Rightarrow> Inr (fresh_loom (fst ps) (snd ps) r)
       | None \<Rightarrow>
           bind_r (pg_root (en_pager E) (fst ps)) (\<lambda>root.
             case io_save (en_store E) (snd ps) (refs_rooted MAIN root) of
               (s, Inl e) \<Rightarrow> Inl e
             | (s, Inr _) \<Rightarrow> Inr (fresh_loom (fst ps) s (refs_rooted MAIN root))))"

definition with_keys :: "registry \<Rightarrow> ('p, 's) loom \<Rightarrow> ('p, 's) loom" where
  "with_keys ks l = l\<lparr>lm_keys := Some ks\<rparr>"

text \<open>\<open>opened\<close> is the outcome of opening the store's files, or the caller's storage.\<close>

definition loom_open :: "('p, 's) loom_env \<Rightarrow> loom_error + 'p \<times> 's \<Rightarrow> loom_error + ('p, 's) loom" where
  "loom_open E opened = bind_r opened (assemble E)"

definition open_production :: "('p, 's) loom_env \<Rightarrow> loom_error + 'p \<times> 's \<Rightarrow> (bytes \<times> bytes) list
    \<Rightarrow> loom_error + ('p, 's) loom" where
  "open_production E opened keys =
     bind_r (production_actor_keys keys) (\<lambda>ks. bind_r (loom_open E opened) (\<lambda>l. Inr (with_keys ks l)))"

definition open_production_pinned :: "('p, 's) loom_env \<Rightarrow> loom_error + 'p \<times> 's \<Rightarrow> (bytes \<times> bytes) list \<Rightarrow> bytes
    \<Rightarrow> loom_error + ('p, 's) loom" where
  "open_production_pinned E opened keys expected =
     bind_r (production_actor_keys keys) (\<lambda>ks.
       let actual = fingerprint_actor_key_map (en_crypto E) ks
       in if expected \<noteq> actual
          then Inl (InvalidSecurityConfiguration
                 (''actor key registry fingerprint mismatch (expected '' @ expected @ '', actual '' @ actual @ '')''))
          else bind_r (loom_open E opened) (\<lambda>l. Inr (with_keys ks l)))"

definition open_production_attested :: "('p, 's) loom_env \<Rightarrow> loom_error + 'p \<times> 's \<Rightarrow> (bytes \<times> bytes) list
    \<Rightarrow> attestation \<Rightarrow> bytes \<Rightarrow> u64 \<Rightarrow> loom_error + ('p, 's) loom" where
  "open_production_attested E opened keys a governance minimum =
     bind_r (production_actor_keys keys) (\<lambda>ks.
     bind_r (attestation_verify (en_crypto E) a (en_tenant E) (fingerprint_actor_key_map (en_crypto E) ks) governance minimum)
       (\<lambda>_. bind_r (loom_open E opened) (\<lambda>l. Inr (with_keys ks l))))"

text \<open>The same over the caller's own storage: nothing is left to open.\<close>

definition loom_on :: "('p, 's) loom_env \<Rightarrow> 'p \<Rightarrow> 's \<Rightarrow> loom_error + ('p, 's) loom" where
  "loom_on E p s = assemble E (p, s)"

definition on_production :: "('p, 's) loom_env \<Rightarrow> 'p \<Rightarrow> 's \<Rightarrow> (bytes \<times> bytes) list \<Rightarrow> loom_error + ('p, 's) loom" where
  "on_production E p s keys =
     bind_r (production_actor_keys keys) (\<lambda>ks. bind_r (loom_on E p s) (\<lambda>l. Inr (with_keys ks l)))"

definition on_production_pinned :: "('p, 's) loom_env \<Rightarrow> 'p \<Rightarrow> 's \<Rightarrow> (bytes \<times> bytes) list \<Rightarrow> bytes
    \<Rightarrow> loom_error + ('p, 's) loom" where
  "on_production_pinned E p s keys expected =
     bind_r (production_actor_keys keys) (\<lambda>ks.
       let actual = fingerprint_actor_key_map (en_crypto E) ks
       in if expected \<noteq> actual
          then Inl (InvalidSecurityConfiguration
                 (''actor key registry fingerprint mismatch (expected '' @ expected @ '', actual '' @ actual @ '')''))
          else bind_r (loom_on E p s) (\<lambda>l. Inr (with_keys ks l)))"

definition on_production_attested :: "('p, 's) loom_env \<Rightarrow> 'p \<Rightarrow> 's \<Rightarrow> (bytes \<times> bytes) list
    \<Rightarrow> attestation \<Rightarrow> bytes \<Rightarrow> u64 \<Rightarrow> loom_error + ('p, 's) loom" where
  "on_production_attested E p s keys a governance minimum =
     bind_r (production_actor_keys keys) (\<lambda>ks.
     bind_r (attestation_verify (en_crypto E) a (en_tenant E) (fingerprint_actor_key_map (en_crypto E) ks) governance minimum)
       (\<lambda>_. bind_r (loom_on E p s) (\<lambda>l. Inr (with_keys ks l))))"

section \<open>Changing the registry\<close>

definition with_actor_keys :: "(bytes \<times> bytes) list \<Rightarrow> ('p, 's) loom \<Rightarrow> ('p, 's) loom" where
  "with_actor_keys keys l = with_keys (collect_keys keys) l"

definition replace_actor_keys :: "(bytes \<times> bytes) list \<Rightarrow> (('p, 's) loom, unit) act" where
  "replace_actor_keys keys = bind_s (lift_r (production_actor_keys keys)) (\<lambda>ks. modify (with_keys ks))"

definition rotate_actor_key :: "bytes \<Rightarrow> bytes \<Rightarrow> (('p, 's) loom, unit) act" where
  "rotate_actor_key actor k l =
     (case lm_keys l of
        None \<Rightarrow> (l, Inl (InvalidSecurityConfiguration ''actor authentication is not enabled''))
      | Some ks \<Rightarrow> (with_keys (put actor k ks) l, Inr ()))"

definition revoke_actor_key :: "bytes \<Rightarrow> (('p, 's) loom, bool) act" where
  "revoke_actor_key actor l =
     (case lm_keys l of
        None \<Rightarrow> (l, Inl (InvalidSecurityConfiguration ''actor authentication is not enabled''))
      | Some ks \<Rightarrow> (with_keys (del actor ks) l, Inr (map_of ks actor \<noteq> None)))"

definition authenticate :: "('p, 's) loom_env \<Rightarrow> ('p, 's) loom \<Rightarrow> envelope \<Rightarrow> loom_error + unit" where
  "authenticate E l e =
     (case lm_keys l of
        None \<Rightarrow> Inr ()
      | Some ks \<Rightarrow>
          (case map_of ks (e_actor e) of
             None \<Rightarrow> Inl (UnknownActor (e_actor e))
           | Some k \<Rightarrow> envelope_verify (en_crypto E) e k))"

section \<open>Refs: the in-memory change and its durable edit\<close>

definition push_edit :: "ref_edit \<Rightarrow> (('p, 's) loom, unit) act" where
  "push_edit e = modify (\<lambda>l. l\<lparr>lm_edits := lm_edits l @ [e]\<rparr>)"

definition persist :: "('p, 's) loom_env \<Rightarrow> (('p, 's) loom, unit) act" where
  "persist E l =
     (case io_apply (en_store E) (lm_store l) (lm_edits l) of
        (s, r) \<Rightarrow> (l\<lparr>lm_edits := [], lm_store := s\<rparr>, r))"

definition with_commits :: "(commit_id \<times> commit_id list) list \<Rightarrow> ('p, 's) loom \<Rightarrow> ('p, 's) loom" where
  "with_commits cs l = l\<lparr>lm_refs := (lm_refs l)\<lparr>rf_commits := cs\<rparr>\<rparr>"

definition with_branches :: "(bytes \<times> commit_id) list \<Rightarrow> ('p, 's) loom \<Rightarrow> ('p, 's) loom" where
  "with_branches bs l = l\<lparr>lm_refs := (lm_refs l)\<lparr>rf_branches := bs\<rparr>\<rparr>"

definition record_commit :: "commit_id \<Rightarrow> commit_id list \<Rightarrow> (('p, 's) loom, unit) act" where
  "record_commit commit parents l =
     (let ps = filter (\<lambda>p. p \<noteq> commit) parents
      in if ps = [] then (l, Inr ())
         else case map_of (rf_commits (lm_refs l)) commit of
                Some _ \<Rightarrow> (l, Inr ())
              | None \<Rightarrow> push_edit (RecordCommit commit ps)
                          (with_commits (put commit ps (rf_commits (lm_refs l))) l))"

definition head :: "bytes \<Rightarrow> ('p, 's) loom \<Rightarrow> loom_error + commit_id" where
  "head branch l =
     (case map_of (rf_branches (lm_refs l)) branch of None \<Rightarrow> Inl (NoSuchBranch branch) | Some c \<Rightarrow> Inr c)"

definition create_branch :: "('p, 's) loom_env \<Rightarrow> bytes \<Rightarrow> commit_id \<Rightarrow> (('p, 's) loom, unit) act" where
  "create_branch E name at l =
     (case map_of (rf_branches (lm_refs l)) name of
        Some _ \<Rightarrow> (l, Inl (BranchExists name))
      | None \<Rightarrow>
          bind_s (push_edit (CreateBranch name at)) (\<lambda>_. persist E)
            (with_branches (put name at (rf_branches (lm_refs l))) l))"

definition set_head :: "('p, 's) loom_env \<Rightarrow> bytes \<Rightarrow> commit_id \<Rightarrow> (('p, 's) loom, unit) act" where
  "set_head E branch target l =
     (case map_of (rf_branches (lm_refs l)) branch of
        None \<Rightarrow> (l, Inl (NoSuchBranch branch))
      | Some _ \<Rightarrow>
          bind_s (push_edit (SetHead branch target)) (\<lambda>_. persist E)
            (with_branches (put branch target (rf_branches (lm_refs l))) l))"

definition branch_names :: "('p, 's) loom \<Rightarrow> bytes list" where
  "branch_names l = map fst (rf_branches (lm_refs l))"

section \<open>Sessions and branches\<close>

text \<open>Every operation takes the readings of the clock it makes.\<close>

record session_handle =
  sh_id :: bytes
  sh_branch :: bytes
  sh_base :: commit_id

definition issue_until :: "('p, 's) loom_env \<Rightarrow> bytes \<Rightarrow> bytes set \<Rightarrow> u64 \<Rightarrow> u64 \<Rightarrow> loom_error + token" where
  "issue_until E session scope now ttl =
     (case u64_add now ttl of
        None \<Rightarrow> Inl (Panic ''attempt to add with overflow'')
      | Some expires \<Rightarrow> token_issue (en_issuer E) (en_tenant E) session scope expires)"

definition open_session_named :: "('p, 's) loom_env \<Rightarrow> bytes \<Rightarrow> u64 \<Rightarrow> (('p, 's) loom, session_handle \<times> token) act" where
  "open_session_named E session now =
     bind_s (ask (head MAIN)) (\<lambda>base.
     bind_s (create_branch E session base) (\<lambda>_.
     bind_s (lift_r (issue_until E session {session} now DEFAULT_SESSION_TTL_MS)) (\<lambda>t.
       ret (\<lparr>sh_id = session, sh_branch = session, sh_base = base\<rparr>, t))))"

definition open_session :: "('p, 's) loom_env \<Rightarrow> u64 \<Rightarrow> u64 \<Rightarrow> (('p, 's) loom, session_handle \<times> token) act" where
  "open_session E now now' = open_session_named E (''s-'' @ decimal (unat now)) now'"

definition issue_capability :: "('p, 's) loom_env \<Rightarrow> bytes \<Rightarrow> bytes list \<Rightarrow> u64 \<Rightarrow> u64 \<Rightarrow> ('p, 's) loom \<Rightarrow> loom_error + token" where
  "issue_capability E session branches ttl now l =
     bind_r (map_r (\<lambda>b. head b l) branches) (\<lambda>_. issue_until E session (set branches) now ttl)"

definition branch_from :: "('p, 's) loom_env \<Rightarrow> token \<Rightarrow> bytes \<Rightarrow> bytes \<Rightarrow> u64 \<Rightarrow> (('p, 's) loom, bytes \<times> token) act" where
  "branch_from E t from name now =
     bind_s (lift_r (authorize (en_issuer E) t from now)) (\<lambda>_.
     bind_s (ask (head from)) (\<lambda>h.
     bind_s (create_branch E name h) (\<lambda>_.
     bind_s (lift_r (token_extend (en_issuer E) t name)) (\<lambda>t'.
       ret (name, t')))))"

definition authorize_read :: "('p, 's) loom_env \<Rightarrow> token \<Rightarrow> bytes \<Rightarrow> u64 \<Rightarrow> loom_error + unit" where
  "authorize_read E t branch now = authorize (en_issuer E) t branch now"

definition rewind :: "('p, 's) loom_env \<Rightarrow> token \<Rightarrow> bytes \<Rightarrow> commit_id \<Rightarrow> u64 \<Rightarrow> (('p, 's) loom, commit_id) act" where
  "rewind E t branch target now =
     bind_s (lift_r (authorize (en_issuer E) t branch now)) (\<lambda>_.
     bind_s (ask (head branch)) (\<lambda>previous.
     bind_s (set_head E branch target) (\<lambda>_. ret previous)))"

definition gc :: "('p, 's) loom_env \<Rightarrow> (('p, 's) loom, nat) act" where
  "gc E l =
     (case pg_gc (en_pager E) (lm_pager l) (refs_roots (lm_refs l)) of (p, r) \<Rightarrow> (l\<lparr>lm_pager := p\<rparr>, r))"

definition verify_integrity :: "('p, 's) loom_env \<Rightarrow> ('p, 's) loom \<Rightarrow> loom_error + bytes" where
  "verify_integrity E l = pg_scrub (en_pager E) (lm_pager l) (refs_roots (lm_refs l))"

end
