(* ===== verification/LoomSessionWrite.thy ===== *)
theory LoomSessionWrite
  imports LoomSession
begin

text \<open>
  Reading and writing records (\<open>crates/loom-branch/src/session.rs\<close>): the captured read set, the one
  write path with its provenance, index entries and claim history, and forgetting.
\<close>

section \<open>What a record cites\<close>

fun citations_of :: "record_t \<Rightarrow> source_ref list" where
  "citations_of (RObservation ob) = [o_source ob]"
| "citations_of (RClaim c) = c_evidence c"
| "citations_of (RValue _) = []"

fun is_stale :: "record_t \<Rightarrow> bool" where
  "is_stale (RClaim c) = (c_status c = Stale)"
| "is_stale _ = False"

fun own_trust :: "record_t \<Rightarrow> trust_class" where
  "own_trust (RObservation ob) = o_trust ob"
| "own_trust (RClaim _) = least_restrictive"
| "own_trust (RValue _) = least_restrictive"

section \<open>Derivation nodes\<close>

definition node_sources :: "envelope \<Rightarrow> read_set \<Rightarrow> record_t \<Rightarrow> source_ref list" where
  "node_sources e captured r =
     rs_sources captured @ e_derived_from e @ (case r of RObservation ob \<Rightarrow> [o_source ob] | _ \<Rightarrow> [])"

definition derivation_nodes :: "crypto \<Rightarrow> bytes \<Rightarrow> commit_id \<Rightarrow> (key \<times> record_t) list \<Rightarrow> envelope \<Rightarrow> read_set
    \<Rightarrow> (key \<Rightarrow> bytes list option) \<Rightarrow> der_node list" where
  "derivation_nodes C branch commit written e captured extra =
     map (\<lambda>(k, r).
            let parents = sort_dedup (rs_nodes captured @ (case extra k of None \<Rightarrow> [] | Some ns \<Rightarrow> ns))
            in der_node_new C branch commit k (e_actor e) (e_delegation e) (e_intent e) parents
                 (node_sources e captured r))
       (filter (\<lambda>(k, r). \<not> is_provenance k) written)"

section \<open>The write path, inside its transaction\<close>

definition put_blob :: "record_t tree_env \<Rightarrow> key \<Rightarrow> bytes \<Rightarrow> record_t tree \<Rightarrow> loom_error + record_t tree" where
  "put_blob T k b t = tree_insert T t k (RValue (Blob b))"

definition insert_records :: "record_t tree_env \<Rightarrow> (key \<times> record_t) list \<Rightarrow> record_t tree \<Rightarrow> loom_error + record_t tree" where
  "insert_records T = fold_r (\<lambda>(k, r) t. tree_insert T t k r)"

definition next_seq :: "u64 \<Rightarrow> loom_error + u64" where
  "next_seq n = (case u64_add n 1 of None \<Rightarrow> Inl (Panic ''attempt to add with overflow'') | Some m \<Rightarrow> Inr m)"

definition insert_node_records :: "loom_codec \<Rightarrow> record_t tree_env \<Rightarrow> bytes \<Rightarrow> der_node \<Rightarrow> record_t tree \<times> u64
    \<Rightarrow> loom_error + record_t tree \<times> u64" where
  "insert_node_records K T branch n ts =
     bind_r (node_encode_blob K n) (\<lambda>b.
     bind_r (put_blob T (node_storage_key branch (snd ts)) b (fst ts)) (\<lambda>t.
     bind_r (put_blob T (latest_node_key (dn_key n)) (dn_id n) t) (\<lambda>t.
     bind_r (fold_r (\<lambda>s t. put_blob T (source_index_key s branch (snd ts)) (dn_id n) t) (dn_sources n) t) (\<lambda>t.
     bind_r (next_seq (snd ts)) (\<lambda>m. Inr (t, m))))))"

definition read_counter :: "record_t option \<Rightarrow> u64" where
  "read_counter r = (case r of Some (RValue (Counter n)) \<Rightarrow> n | _ \<Rightarrow> 0)"

definition write_provenance :: "('p, 's) loom_env \<Rightarrow> record_t tree_env \<Rightarrow> bytes \<Rightarrow> commit_id \<Rightarrow> (key \<times> record_t) list
    \<Rightarrow> envelope \<Rightarrow> read_set \<Rightarrow> (key \<Rightarrow> bytes list option) \<Rightarrow> record_t tree \<Rightarrow> loom_error + record_t tree" where
  "write_provenance E T branch h written e captured extra t =
     (if \<exists>w\<in>set written. \<not> is_provenance (fst w) \<and> \<not> is_reserved (fst w) then
        bind_r (tree_get T t (prov_seq_key branch)) (\<lambda>(t, r).
        bind_r (fold_r (insert_node_records (en_codec E) T branch)
                  (derivation_nodes (en_crypto E) branch h written e captured extra) (t, read_counter r))
          (\<lambda>(t, seq). tree_insert T t (prov_seq_key branch) (RValue (Counter seq))))
      else Inr t)"

definition write_index :: "loom_codec \<Rightarrow> record_t tree_env \<Rightarrow> (key \<Rightarrow> index_hint option) \<Rightarrow> trust_class
    \<Rightarrow> key \<times> record_t \<Rightarrow> record_t tree \<Rightarrow> loom_error + record_t tree" where
  "write_index K T hints min_label w t =
     (case hints (fst w) of
        None \<Rightarrow> Inr t
      | Some h \<Rightarrow>
          (case index_entry_new (fst w) (hi_text h) (hi_embedding h) (citations_of (snd w)) (is_stale (snd w))
                  (most_restrictive min_label (own_trust (snd w))) of
             None \<Rightarrow> Inr t
           | Some entry \<Rightarrow>
               bind_r (index_encode K entry) (\<lambda>b.
               bind_r (put_blob T (index_key (fst w)) b t) (\<lambda>t.
                 case hi_embedding h of
                   None \<Rightarrow> Inr t
                 | Some emb \<Rightarrow>
                     bind_r (embedding_encode K emb) (\<lambda>b. put_blob T (ann_buffer_key (fst w)) b t)))))"

text \<open>The history of a claim: the scan finds the versions of its subject and predicate, the highest
  sequence number and the versions still open.\<close>

definition history_entry :: "loom_codec \<Rightarrow> bytes \<Rightarrow> key \<times> record_t \<Rightarrow> (key \<times> claim_version) option" where
  "history_entry K pre w =
     (if \<not> prefix pre (fst w) then None
      else case snd w of
             RValue (Blob b) \<Rightarrow> map_option (Pair (fst w)) (lc_version_decode K b)
           | _ \<Rightarrow> None)"

definition history_versions :: "loom_codec \<Rightarrow> bytes \<Rightarrow> (key \<times> record_t) list \<Rightarrow> (key \<times> claim_version) list" where
  "history_versions K pre es = List.map_filter (history_entry K pre) es"

definition max_version :: "(key \<times> claim_version) list \<Rightarrow> u64 option" where
  "max_version vs = fold (\<lambda>(_, v) m. Some (case m of None \<Rightarrow> cv_seq v | Some x \<Rightarrow> max x (cv_seq v))) vs None"

definition close_version :: "timestamp option \<Rightarrow> claim_version \<Rightarrow> claim_version" where
  "close_version now v =
     (let c = cv_claim v;
          k = (case now of None \<Rightarrow> c_known c | Some s \<Rightarrow> closed_at (c_known c) s)
      in v\<lparr>cv_claim := c\<lparr>c_known := k, c_status := Superseded\<rparr>\<rparr>)"

definition put_version :: "loom_codec \<Rightarrow> record_t tree_env \<Rightarrow> key \<Rightarrow> claim_version \<Rightarrow> record_t tree
    \<Rightarrow> loom_error + record_t tree" where
  "put_version K T k v t = bind_r (version_encode K v) (\<lambda>b. put_blob T k b t)"

definition append_claim_version :: "loom_codec \<Rightarrow> record_t tree_env \<Rightarrow> claim \<Rightarrow> record_t tree \<Rightarrow> loom_error + record_t tree" where
  "append_claim_version K T c t =
     bind_r (tree_scan T t) (\<lambda>(t, es).
       let versions = history_versions K (history_prefix (c_subject c) (c_predicate c)) es;
           open_ones = filter (\<lambda>(k, v). i_end (c_known (cv_claim v)) = None) versions
       in bind_r (fold_r (\<lambda>(k, v). put_version K T k (close_version (i_start (c_known c)) v)) open_ones t) (\<lambda>t.
          bind_r (case max_version versions of None \<Rightarrow> Inr 0 | Some m \<Rightarrow> next_seq m) (\<lambda>seq.
            put_version K T (history_key (c_subject c) (c_predicate c) seq) \<lparr>cv_claim = c, cv_seq = seq\<rparr> t)))"

definition write_history :: "loom_codec \<Rightarrow> record_t tree_env \<Rightarrow> key \<times> record_t \<Rightarrow> record_t tree \<Rightarrow> loom_error + record_t tree" where
  "write_history K T w t = (case snd w of RClaim c \<Rightarrow> append_claim_version K T c t | _ \<Rightarrow> Inr t)"

definition write_body :: "('p, 's) loom_env \<Rightarrow> record_t tree_env \<Rightarrow> bytes \<Rightarrow> commit_id \<Rightarrow> (key \<times> record_t) list
    \<Rightarrow> envelope \<Rightarrow> read_set \<Rightarrow> (key \<Rightarrow> bytes list option) \<Rightarrow> (key \<Rightarrow> index_hint option) \<Rightarrow> record_t tree
    \<Rightarrow> loom_error + record_t tree" where
  "write_body E T branch h records e captured extra hints t =
     bind_r (insert_records T records t) (\<lambda>t.
     bind_r (write_provenance E T branch h records e captured extra t) (\<lambda>t.
     bind_r (fold_r (write_index (en_codec E) T hints (rs_min_label captured)) records t) (\<lambda>t.
       fold_r (write_history (en_codec E) T) records t)))"

section \<open>A transaction on the head of a branch\<close>

text \<open>\<open>fork\<close>, \<open>begin\<close>, \<open>Tree::open\<close>, the body, \<open>flush\<close>, \<open>commit\<close>; then the commit is
  recorded and the head moves.\<close>

definition commit_txn :: "('p, 's) loom_env \<Rightarrow> commit_id \<Rightarrow> (nat \<times> bytes) list \<Rightarrow> (('p, 's) loom, commit_id) act" where
  "commit_txn E base ws l =
     (case pg_commit (en_pager E) (lm_pager l) base ws of (p, r) \<Rightarrow> (l\<lparr>lm_pager := p\<rparr>, r))"

definition transact :: "('p, 's) loom_env \<Rightarrow> bytes \<Rightarrow>
    (commit_id \<Rightarrow> record_t tree_env \<Rightarrow> record_t tree \<Rightarrow> loom_error + record_t tree \<times> 'a) \<Rightarrow> (('p, 's) loom, commit_id \<times> 'a) act" where
  "transact E branch body =
     bind_s (ask (head branch)) (\<lambda>h.
     bind_s (ask (\<lambda>l. pg_fork (en_pager E) (lm_pager l) h)) (\<lambda>T.
     bind_s (ask (\<lambda>l. pg_begin (en_pager E) (lm_pager l) h)) (\<lambda>_.
     bind_s (lift_r (bind_r (tree_open T) (\<lambda>t. bind_r (body h T t) (\<lambda>(t, a). bind_r (tree_flush T t) (\<lambda>ws. Inr (ws, a)))))) (\<lambda>(ws, a).
     bind_s (commit_txn E h ws) (\<lambda>c.
     bind_s (record_commit c [h]) (\<lambda>_.
     bind_s (set_head E branch c) (\<lambda>_. ret (c, a))))))))"

section \<open>Writing\<close>

definition session_reads :: "bytes \<Rightarrow> ('p, 's) loom \<Rightarrow> read_set" where
  "session_reads session l = (case lm_reads l session of None \<Rightarrow> read_set_default | Some r \<Rightarrow> r)"

definition take_read_set :: "bytes \<Rightarrow> (('p, 's) loom, read_set) act" where
  "take_read_set session l = (l\<lparr>lm_reads := (lm_reads l)(session := None)\<rparr>, Inr (session_reads session l))"

definition check_envelope :: "envelope \<Rightarrow> loom_error + unit" where
  "check_envelope e = (if \<not> envelope_is_valid e then Inl MissingEnvelope else Inr ())"

definition write_all :: "('p, 's) loom_env \<Rightarrow> token \<Rightarrow> bytes \<Rightarrow> (key \<times> record_t) list \<Rightarrow> envelope
    \<Rightarrow> (key \<Rightarrow> bytes list option) \<Rightarrow> (key \<Rightarrow> index_hint option) \<Rightarrow> u64 \<Rightarrow> (('p, 's) loom, commit_id) act" where
  "write_all E tok branch records e extra hints now =
     bind_s (lift_r (check_envelope e)) (\<lambda>_.
     bind_s (ask (\<lambda>l. authenticate E l e)) (\<lambda>_.
     bind_s (lift_r (authorize (en_issuer E) tok branch now)) (\<lambda>_.
     bind_s (take_read_set (e_session e)) (\<lambda>captured.
     bind_s (transact E branch (\<lambda>h T t.
               bind_r (write_body E T branch h records e captured extra hints t) (\<lambda>t. Inr (t, ())))) (\<lambda>(c, _).
       ret c)))))"

definition write_many_derived :: "('p, 's) loom_env \<Rightarrow> token \<Rightarrow> bytes \<Rightarrow> (key \<times> record_t) list \<Rightarrow> envelope
    \<Rightarrow> (key \<Rightarrow> bytes list option) \<Rightarrow> u64 \<Rightarrow> (('p, 's) loom, commit_id) act" where
  "write_many_derived E tok branch records e extra now = write_all E tok branch records e extra Map.empty now"

definition write_many :: "('p, 's) loom_env \<Rightarrow> token \<Rightarrow> bytes \<Rightarrow> (key \<times> record_t) list \<Rightarrow> envelope \<Rightarrow> u64
    \<Rightarrow> (('p, 's) loom, commit_id) act" where
  "write_many E tok branch records e now = write_many_derived E tok branch records e Map.empty now"

definition write_one :: "('p, 's) loom_env \<Rightarrow> token \<Rightarrow> bytes \<Rightarrow> key \<Rightarrow> record_t \<Rightarrow> envelope \<Rightarrow> u64
    \<Rightarrow> (('p, 's) loom, commit_id) act" where
  "write_one E tok branch k r e now = write_many E tok branch [(k, r)] e now"

definition write_indexed_many :: "('p, 's) loom_env \<Rightarrow> token \<Rightarrow> bytes \<Rightarrow> (key \<times> record_t) list
    \<Rightarrow> (key \<Rightarrow> index_hint option) \<Rightarrow> envelope \<Rightarrow> u64 \<Rightarrow> (('p, 's) loom, commit_id) act" where
  "write_indexed_many E tok branch records hints e now = write_all E tok branch records e Map.empty hints now"

definition write_indexed :: "('p, 's) loom_env \<Rightarrow> token \<Rightarrow> bytes \<Rightarrow> key \<Rightarrow> record_t \<Rightarrow> index_hint \<Rightarrow> envelope \<Rightarrow> u64
    \<Rightarrow> (('p, 's) loom, commit_id) act" where
  "write_indexed E tok branch k r hint e now =
     write_indexed_many E tok branch [(k, r)] (Map.empty(k \<mapsto> hint)) e now"

section \<open>Forgetting\<close>

definition forget_key :: "record_t tree_env \<Rightarrow> key \<Rightarrow> record_t tree \<times> nat \<times> nat \<Rightarrow> loom_error + record_t tree \<times> nat \<times> nat" where
  "forget_key T k s =
     (case s of (t, invalidated, deindexed) \<Rightarrow>
        bind_r (tree_remove T t (index_key k)) (\<lambda>(t, removed).
        let deindexed = (if removed then deindexed + 1 else deindexed)
        in bind_r (tree_get T t k) (\<lambda>(t, r).
             case r of
               Some (RClaim c) \<Rightarrow>
                 (if c_status c = Asserted \<or> c_status c = Stale then
                    bind_r (tree_insert T t k (RClaim (c\<lparr>c_status := Invalidated\<rparr>))) (\<lambda>t. Inr (t, invalidated + 1, deindexed))
                  else Inr (t, invalidated, deindexed))
             | _ \<Rightarrow> Inr (t, invalidated, deindexed))))"

definition invalidate_and_deindex :: "('p, 's) loom_env \<Rightarrow> token \<Rightarrow> bytes \<Rightarrow> key list \<Rightarrow> envelope \<Rightarrow> u64
    \<Rightarrow> (('p, 's) loom, nat \<times> nat) act" where
  "invalidate_and_deindex E tok branch keys e now =
     bind_s (lift_r (check_envelope e)) (\<lambda>_.
     bind_s (ask (\<lambda>l. authenticate E l e)) (\<lambda>_.
     bind_s (lift_r (authorize (en_issuer E) tok branch now)) (\<lambda>_.
     bind_s (transact E branch (\<lambda>h T t. fold_r (forget_key T) keys (t, 0, 0))) (\<lambda>(c, counts).
       ret counts))))"

section \<open>Reading\<close>

text \<open>A lookup on the tree of a commit.\<close>

definition read_commit :: "('p, 's) loom_env \<Rightarrow> ('p, 's) loom \<Rightarrow> commit_id \<Rightarrow> key \<Rightarrow> loom_error + record_t option" where
  "read_commit E l c k =
     bind_r (pg_fork (en_pager E) (lm_pager l) c) (\<lambda>T.
     bind_r (tree_open T) (\<lambda>t. bind_r (tree_get T t k) (\<lambda>(t, r). Inr r)))"

definition read_branch :: "('p, 's) loom_env \<Rightarrow> ('p, 's) loom \<Rightarrow> bytes \<Rightarrow> key \<Rightarrow> loom_error + record_t option" where
  "read_branch E l branch k = bind_r (head branch l) (\<lambda>h. read_commit E l h k)"

definition node_for_key :: "('p, 's) loom_env \<Rightarrow> ('p, 's) loom \<Rightarrow> bytes \<Rightarrow> key \<Rightarrow> loom_error + bytes option" where
  "node_for_key E l branch k =
     bind_r (read_branch E l branch (latest_node_key k)) (\<lambda>r.
       Inr (case r of Some (RValue (Blob b)) \<Rightarrow> node_from_index_value b | _ \<Rightarrow> None))"

definition index_entry_for :: "('p, 's) loom_env \<Rightarrow> ('p, 's) loom \<Rightarrow> bytes \<Rightarrow> key \<Rightarrow> loom_error + index_entry option" where
  "index_entry_for E l branch k =
     bind_r (read_branch E l branch (index_key k)) (\<lambda>r.
       case r of Some (RValue (Blob b)) \<Rightarrow> bind_r (index_decode (en_codec E) b) (\<lambda>e. Inr (Some e)) | _ \<Rightarrow> Inr None)"

definition capture_node :: "bytes option \<Rightarrow> read_set \<Rightarrow> read_set" where
  "capture_node n r = (case n of None \<Rightarrow> r | Some x \<Rightarrow> r\<lparr>rs_nodes := insert_node x (rs_nodes r)\<rparr>)"

definition capture_source :: "record_t \<Rightarrow> read_set \<Rightarrow> read_set" where
  "capture_source rec r =
     (case rec of
        RObservation ob \<Rightarrow> r\<lparr>rs_sources := insert_source (o_source ob) (rs_sources r),
                             rs_min_label := most_restrictive (rs_min_label r) (o_trust ob)\<rparr>
      | _ \<Rightarrow> r)"

definition capture_label :: "index_entry option \<Rightarrow> read_set \<Rightarrow> read_set" where
  "capture_label x r =
     (case x of None \<Rightarrow> r | Some en \<Rightarrow> r\<lparr>rs_min_label := most_restrictive (rs_min_label r) (ix_label en)\<rparr>)"

definition capture_read :: "('p, 's) loom_env \<Rightarrow> bytes \<Rightarrow> bytes \<Rightarrow> key \<Rightarrow> record_t \<Rightarrow> (('p, 's) loom, unit) act" where
  "capture_read E session branch k rec =
     (if is_provenance k then ret ()
      else
        bind_s (modify (\<lambda>l. l\<lparr>lm_reads := (lm_reads l)(session \<mapsto> session_reads session l)\<rparr>)) (\<lambda>_.
        bind_s (ask (\<lambda>l. node_for_key E l branch k)) (\<lambda>n.
        bind_s (modify (\<lambda>l. l\<lparr>lm_reads := (lm_reads l)(session \<mapsto> capture_source rec (capture_node n (session_reads session l)))\<rparr>)) (\<lambda>_.
        bind_s (ask (\<lambda>l. index_entry_for E l branch k)) (\<lambda>x.
          modify (\<lambda>l. l\<lparr>lm_reads := (lm_reads l)(session \<mapsto> capture_label x (session_reads session l))\<rparr>))))))"

definition read :: "('p, 's) loom_env \<Rightarrow> token \<Rightarrow> bytes \<Rightarrow> key \<Rightarrow> u64 \<Rightarrow> (('p, 's) loom, record_t option) act" where
  "read E tok branch k now =
     bind_s (lift_r (authorize (en_issuer E) tok branch now)) (\<lambda>_.
     bind_s (ask (\<lambda>l. read_branch E l branch k)) (\<lambda>r.
       case r of
         None \<Rightarrow> ret None
       | Some rec \<Rightarrow> bind_s (capture_read E (tk_session (tk_claims tok)) branch k rec) (\<lambda>_. ret (Some rec))))"

definition read_at :: "('p, 's) loom_env \<Rightarrow> ('p, 's) loom \<Rightarrow> token \<Rightarrow> bytes \<Rightarrow> commit_id \<Rightarrow> key \<Rightarrow> u64 \<Rightarrow> loom_error + record_t option" where
  "read_at E l tok branch commit k now =
     bind_r (authorize (en_issuer E) tok branch now) (\<lambda>_. read_commit E l commit k)"

definition scan :: "('p, 's) loom_env \<Rightarrow> ('p, 's) loom \<Rightarrow> token \<Rightarrow> bytes \<Rightarrow> u64 \<Rightarrow> loom_error + (key \<times> record_t) list" where
  "scan E l tok branch now =
     bind_r (authorize (en_issuer E) tok branch now) (\<lambda>_.
     bind_r (head branch l) (\<lambda>h.
     bind_r (pg_fork (en_pager E) (lm_pager l) h) (\<lambda>T.
     bind_r (tree_open T) (\<lambda>t.
     bind_r (tree_scan T t) (\<lambda>(t, es).
       Inr (filter (\<lambda>(k, r). \<not> is_reserved k \<and> \<not> is_provenance k) es))))))"

end
