(* ===== verification/LoomSessionMerge.thy ===== *)
theory LoomSessionMerge
  imports LoomSessionWrite
begin

text \<open>
  Merging branches (\<open>crates/loom-branch/src/session.rs\<close>): the ancestry of a commit over the recorded
  multi-parent DAG, the merge bases, and the checked merge.
\<close>

section \<open>Ancestry\<close>

text \<open>The recorded parents of a commit, or the page store's single parent edge.\<close>

definition commit_parents :: "('p, 's) loom_env \<Rightarrow> ('p, 's) loom \<Rightarrow> commit_id \<Rightarrow> commit_id list" where
  "commit_parents E l c =
     (case map_of (rf_commits (lm_refs l)) c of
        Some ps \<Rightarrow> ps
      | None \<Rightarrow> (case pg_parent (en_pager E) (lm_pager l) c of Some p \<Rightarrow> [p] | None \<Rightarrow> []))"

text \<open>The stack's top is the head of the list; the walk does not end on an infinite history.\<close>

partial_function (option) ancestors_loop :: "(commit_id \<Rightarrow> commit_id list) \<Rightarrow> commit_id list \<Rightarrow> commit_id list
    \<Rightarrow> commit_id list option" where
  "ancestors_loop parents stack seen =
     (case stack of
        [] \<Rightarrow> Some seen
      | c # rest \<Rightarrow>
          if c \<in> set seen then ancestors_loop parents rest seen
          else ancestors_loop parents (rev (parents c) @ rest) (insert_node c seen))"

definition full_ancestors :: "('p, 's) loom_env \<Rightarrow> ('p, 's) loom \<Rightarrow> commit_id \<Rightarrow> commit_id list option" where
  "full_ancestors E l c = ancestors_loop (commit_parents E l) [c] []"

fun is_lowest :: "(commit_id \<Rightarrow> commit_id list option) \<Rightarrow> commit_id \<Rightarrow> commit_id list \<Rightarrow> bool option" where
  "is_lowest anc candidate [] = Some True"
| "is_lowest anc candidate (other # rest) =
     (if other = candidate then is_lowest anc candidate rest
      else case anc other of
        None \<Rightarrow> None
      | Some A \<Rightarrow> if candidate \<in> set A then Some False else is_lowest anc candidate rest)"

fun lowest_of :: "(commit_id \<Rightarrow> commit_id list option) \<Rightarrow> commit_id list \<Rightarrow> commit_id list \<Rightarrow> commit_id list option" where
  "lowest_of anc common [] = Some []"
| "lowest_of anc common (c # cs) =
     (case is_lowest anc c common of
        None \<Rightarrow> None
      | Some low \<Rightarrow> map_option (\<lambda>r. if low then c # r else r) (lowest_of anc common cs))"

definition merge_bases :: "('p, 's) loom_env \<Rightarrow> ('p, 's) loom \<Rightarrow> commit_id \<Rightarrow> commit_id \<Rightarrow> commit_id list option" where
  "merge_bases E l source target =
     (case (full_ancestors E l source, full_ancestors E l target) of
        (Some A, Some B) \<Rightarrow>
          (let common = filter (\<lambda>c. c \<in> set B) A
           in map_option sort (lowest_of (full_ancestors E l) common common))
      | _ \<Rightarrow> None)"

definition merge_base_count :: "('p, 's) loom_env \<Rightarrow> ('p, 's) loom \<Rightarrow> bytes \<Rightarrow> bytes \<Rightarrow> loom_error + nat" where
  "merge_base_count E l a b =
     bind_r (head a l) (\<lambda>ah. bind_r (head b l) (\<lambda>bh.
       case merge_bases E l ah bh of None \<Rightarrow> Inl Diverges | Some bs \<Rightarrow> Inr (length bs)))"

section \<open>The merge edge\<close>

definition add_merge_edge :: "commit_id \<Rightarrow> commit_id \<Rightarrow> (('p, 's) loom, unit) act" where
  "add_merge_edge commit second l =
     (case map_of (rf_commits (lm_refs l)) commit of
        Some ps \<Rightarrow>
          (if second \<notin> set ps then
             push_edit (AddParent commit second)
               (with_commits (put commit (ps @ [second]) (rf_commits (lm_refs l))) l)
           else (l, Inr ()))
      | None \<Rightarrow> (l, Inr ()))"

definition write_merge :: "('p, 's) loom_env \<Rightarrow> token \<Rightarrow> bytes \<Rightarrow> (key \<times> record_t) list \<Rightarrow> envelope \<Rightarrow> commit_id
    \<Rightarrow> (key \<Rightarrow> bytes list option) \<Rightarrow> u64 \<Rightarrow> (('p, 's) loom, commit_id) act" where
  "write_merge E tok branch records e second parents now =
     bind_s (ask (head branch)) (\<lambda>before.
     bind_s (write_many_derived E tok branch records e parents now) (\<lambda>c.
     bind_s (record_commit c [before, second]) (\<lambda>_.
     bind_s (add_merge_edge c second) (\<lambda>_.
     bind_s (persist E) (\<lambda>_. ret c)))))"

section \<open>The checked merge\<close>

datatype merge_result =
    MergedInto commit_id nat nat
  | MergeConflicts "merge_conflict list"
  | AmbiguousHistory nat bytes
  | PolicyRefused key bytes

definition is_merged :: "merge_result \<Rightarrow> bool" where
  "is_merged r = (case r of MergedInto _ _ _ \<Rightarrow> True | _ \<Rightarrow> False)"

definition ambiguous_detail :: "bytes \<Rightarrow> bytes \<Rightarrow> nat \<Rightarrow> bytes" where
  "ambiguous_detail source target n =
     ''branches br_'' @ source @ '' and br_'' @ target @ '' have merged each other, so their history has ''
     @ decimal n @ '' equally-valid merge bases and a three-way merge cannot be done safely. Merge one direction only, or rebase one branch onto the other, and retry. (Recursive merge over a virtual base is not implemented.)''"

definition caller_key :: "key \<Rightarrow> bool" where
  "caller_key k \<longleftrightarrow> \<not> is_reserved k \<and> \<not> is_provenance k"

text \<open>The first caller-facing write the policy forbids.\<close>

fun first_forbidden :: "(key \<Rightarrow> record_t \<Rightarrow> bytes option) \<Rightarrow> (key \<times> record_t) list \<Rightarrow> (key \<times> bytes) option" where
  "first_forbidden forbids [] = None"
| "first_forbidden forbids ((k, r) # ws) =
     (if \<not> caller_key k then first_forbidden forbids ws
      else case forbids k r of Some why \<Rightarrow> Some (k, why) | None \<Rightarrow> first_forbidden forbids ws)"

definition producers :: "('p, 's) loom_env \<Rightarrow> ('p, 's) loom \<Rightarrow> bytes list \<Rightarrow> key \<Rightarrow> bytes list" where
  "producers E l branches k =
     List.map_filter (\<lambda>b. case node_for_key E l b k of Inr (Some n) \<Rightarrow> Some n | _ \<Rightarrow> None) branches"

definition merge_parents :: "('p, 's) loom_env \<Rightarrow> ('p, 's) loom \<Rightarrow> bytes \<Rightarrow> bytes \<Rightarrow> (key \<times> record_t) list
    \<Rightarrow> key \<Rightarrow> bytes list option" where
  "merge_parents E l source target writes k =
     (if k \<in> fst ` set writes \<and> caller_key k \<and> producers E l [source, target] k \<noteq> []
      then Some (producers E l [source, target] k) else None)"

definition apply_merge :: "('p, 's) loom_env \<Rightarrow> token \<Rightarrow> bytes \<Rightarrow> bytes \<Rightarrow> commit_id \<Rightarrow> (key \<times> record_t) list \<Rightarrow> nat
    \<Rightarrow> envelope \<Rightarrow> u64 \<Rightarrow> (('p, 's) loom, merge_result) act" where
  "apply_merge E tok source target source_head writes automatic e now =
     (let records = length (filter (\<lambda>w. caller_key (fst w)) writes);
          writes = writes @ [(merged_from_key source, RValue (Blob source_head))]
      in bind_s (ask (\<lambda>l. Inr (merge_parents E l source target writes))) (\<lambda>parents.
         bind_s (write_merge E tok target writes e source_head parents now) (\<lambda>c.
           ret (MergedInto c records automatic))))"

definition store_of :: "('p, 's) loom_env \<Rightarrow> ('p, 's) loom \<Rightarrow> commit_id page_store" where
  "store_of E l = \<lparr>ps_diff3 = pg_diff3 (en_pager E) (lm_pager l), ps_fork = pg_fork (en_pager E) (lm_pager l)\<rparr>"

definition merge_planned :: "('p, 's) loom_env \<Rightarrow> token \<Rightarrow> bytes \<Rightarrow> bytes \<Rightarrow> commit_id \<Rightarrow> envelope
    \<Rightarrow> (key \<Rightarrow> record_t \<Rightarrow> bytes option) \<Rightarrow> u64 \<Rightarrow> merge_outcome \<Rightarrow> (('p, 's) loom, merge_result) act" where
  "merge_planned E tok source target source_head e forbids now outcome =
     (case outcome of
        Conflicts cs \<Rightarrow> ret (MergeConflicts cs)
      | Merged writes automatic \<Rightarrow>
          (case first_forbidden forbids writes of
             Some (k, why) \<Rightarrow> ret (PolicyRefused k why)
           | None \<Rightarrow> apply_merge E tok source target source_head writes automatic e now))"

definition choose_base :: "bytes \<Rightarrow> bytes \<Rightarrow> commit_id \<Rightarrow> commit_id list \<Rightarrow> merge_result + commit_id" where
  "choose_base source target source_head bases =
     (case bases of
        [] \<Rightarrow> Inr source_head
      | [b] \<Rightarrow> Inr b
      | _ \<Rightarrow> Inl (AmbiguousHistory (length bases) (ambiguous_detail source target (length bases))))"

definition merge_checked :: "('p, 's) loom_env \<Rightarrow> token \<Rightarrow> bytes \<Rightarrow> bytes \<Rightarrow> merge_policy \<Rightarrow> envelope
    \<Rightarrow> (key \<Rightarrow> record_t \<Rightarrow> bytes option) \<Rightarrow> u64 \<Rightarrow> u64 \<Rightarrow> u64 \<Rightarrow> (('p, 's) loom, merge_result) act" where
  "merge_checked E tok source target policy e forbids now1 now2 now3 =
     bind_s (lift_r (check_envelope e)) (\<lambda>_.
     bind_s (lift_r (authorize (en_issuer E) tok source now1)) (\<lambda>_.
     bind_s (lift_r (authorize (en_issuer E) tok target now2)) (\<lambda>_.
     bind_s (ask (head source)) (\<lambda>source_head.
     bind_s (ask (head target)) (\<lambda>target_head.
     bind_s (ask (\<lambda>l. case merge_bases E l source_head target_head of None \<Rightarrow> Inl Diverges | Some bs \<Rightarrow> Inr bs)) (\<lambda>bases.
       case choose_base source target source_head bases of
         Inl r \<Rightarrow> ret r
       | Inr base \<Rightarrow>
           bind_s (ask (\<lambda>l. plan_merge (store_of E l) base source_head target_head policy)) (\<lambda>outcome.
             merge_planned E tok source target source_head e forbids now3 outcome)))))))"

definition merge :: "('p, 's) loom_env \<Rightarrow> token \<Rightarrow> bytes \<Rightarrow> bytes \<Rightarrow> merge_policy \<Rightarrow> envelope
    \<Rightarrow> u64 \<Rightarrow> u64 \<Rightarrow> u64 \<Rightarrow> (('p, 's) loom, merge_result) act" where
  "merge E tok source target policy e now1 now2 now3 =
     merge_checked E tok source target policy e (\<lambda>_ _. None) now1 now2 now3"

end
