(* ===== verification/LoomTxn.thy ===== *)
theory LoomTxn
  imports LoomSessionMerge
begin

text \<open>
  What the session's transactions rely on: an operation on a working tree keeps the well-formedness
  and never leaves a metadata change unmarked, and it changes only the keys it names.
\<close>

section \<open>The metadata flag\<close>

definition meta_kept :: "'v tree \<Rightarrow> 'v tree \<Rightarrow> bool" where
  "meta_kept t t' \<longleftrightarrow> (t_meta_dirty t \<longrightarrow> t_meta_dirty t') \<and> (\<not> t_meta_dirty t' \<longrightarrow> t_meta t' = t_meta t)"

lemma meta_kept_refl [simp]: "meta_kept t t"
  by (simp add: meta_kept_def)

lemma meta_kept_trans [trans]: "meta_kept t u \<Longrightarrow> meta_kept u v \<Longrightarrow> meta_kept t v"
  by (auto simp: meta_kept_def)

lemma cached_meta_kept: "cached t t' \<Longrightarrow> meta_kept t t'"
  by (simp add: cached_def meta_kept_def)

lemma meta_kept_known: "meta_kept t t' \<Longrightarrow> meta_known E t \<Longrightarrow> meta_known E t'"
  by (auto simp: meta_kept_def meta_known_def)

lemma meta_kept_marked [simp]: "t_meta_dirty t' \<Longrightarrow> meta_kept t t'"
  by (simp add: meta_kept_def)

lemma meta_kept_sets [simp]:
  "meta_kept t (set_sized u p n s) \<longleftrightarrow> meta_kept t u" "meta_kept t (set_node u p n) \<longleftrightarrow> meta_kept t u"
  "meta_kept t (u\<lparr>t_dirty := d\<rparr>) \<longleftrightarrow> meta_kept t u" "meta_kept t (u\<lparr>t_sizes := z\<rparr>) \<longleftrightarrow> meta_kept t u"
  by (simp_all add: meta_kept_def set_sized_def set_node_def)

lemma alloc_marked: "alloc t = (t', p) \<Longrightarrow> t_meta_dirty t'"
  by (auto simp: alloc_def)

lemma take_node_kept: "take_node E t p = Inr (t', n) \<Longrightarrow> meta_kept t t'"
  using node_view [of E t p t' n] cached_meta_kept by (auto simp: take_node_def split: option.splits)

lemma size_of_kept: "size_of E t p n = Inr (t', s) \<Longrightarrow> meta_kept t t'"
  by (auto simp: size_of_def bind_r_Inr_iff split: option.splits)

lemma leaf_put_kept: "leaf_put E t es est k v = Inr (t', es', est') \<Longrightarrow> meta_kept t t'"
  by (auto simp: leaf_put_def bind_r_Inr_iff split: option.splits)

lemma leaf_split_kept: "leaf_split E t p es = Inr (t', s) \<Longrightarrow> meta_kept t t'"
  by (auto simp: leaf_split_def Let_def bind_r_Inr_iff alloc_def split: list.splits)

lemma leaf_insert_kept:
  assumes "leaf_insert E t p es k v = Inr (t', s)"
  shows "meta_kept t t'"
proof -
  obtain u est w es' est' o1 full where u: "size_of E t p (Leaf es) = Inr (u, est)"
    and w: "leaf_put E u es est k v = Inr (w, es', est')" and f: "overflowed E (Leaf es') est' = Inr (o1, full)"
    and r: "(if \<not> full then Inr (set_sized w p (Leaf es') o1, None) else leaf_split E w p es') = Inr (t', s)"
    using assms unfolding leaf_insert_def by (auto simp: bind_r_Inr_iff split: prod.splits)
  have "meta_kept w t'" using r leaf_split_kept by (auto split: if_splits)
  then show ?thesis using meta_kept_trans [OF size_of_kept [OF u] meta_kept_trans [OF leaf_put_kept [OF w]]] by blast
qed

lemma internal_insert_kept: "internal_insert E t p ks cs = Inr (t', s) \<Longrightarrow> meta_kept t t'"
  by (auto simp: internal_insert_def Let_def bind_r_Inr_iff alloc_def set_node_def split: if_splits prod.splits)

lemma insert_into_kept: "insert_into f E t p k v = Inr (t', s) \<Longrightarrow> meta_kept t t'"
proof (induction f arbitrary: t p t' s)
  case (Suc f)
  obtain u n where u: "take_node E t p = Inr (u, n)" using Suc.prems by (auto simp: bind_r_Inr_iff)
  note tu = take_node_kept [OF u]
  show ?case
  proof (cases n)
    case (Leaf es)
    then have "leaf_insert E u p es k v = Inr (t', s)" using Suc.prems u by simp
    from meta_kept_trans [OF tu leaf_insert_kept [OF this]] show ?thesis .
  next
    case (Internal ks cs)
    then obtain w sp where w: "insert_into f E u (cs ! child_index ks k) k v = Inr (w, sp)"
      and r: "(case sp of None \<Rightarrow> Inr (w\<lparr>t_dirty := (t_dirty w)(p \<mapsto> Internal ks cs)\<rparr>, None)
               | Some (sep, r) \<Rightarrow> internal_insert E w p (insert_at (child_index ks k) sep ks) (insert_at (Suc (child_index ks k)) r cs))
             = Inr (t', s)"
      using Suc.prems u by (auto simp: Let_def bind_r_Inr_iff split: if_splits)
    have "meta_kept w t'"
      using r internal_insert_kept by (auto split: option.splits prod.splits)
    then show ?thesis using meta_kept_trans [OF tu meta_kept_trans [OF Suc.IH [OF w]]] by blast
  qed
qed simp

lemma tree_insert_kept:
  assumes "tree_insert E t k v = Inr t'"
  shows "meta_kept t t'"
proof -
  obtain u sp where u: "insert_into (tree_fuel t) E t (m_root (t_meta t)) k v = Inr (u, sp)"
    using assms by (auto simp: tree_insert_def Let_def bind_r_Inr_iff)
  show ?thesis
  proof (cases sp)
    case None
    then show ?thesis using assms u insert_into_kept [OF u] by (simp add: tree_insert_def)
  next
    case (Some sr)
    then have "t_meta_dirty t'" using assms u by (cases sr) (auto simp: tree_insert_def Let_def split: prod.splits)
    then show ?thesis by simp
  qed
qed

lemma remove_loop_kept: "remove_loop f E t p k = Inr (t', b) \<Longrightarrow> meta_kept t t'"
proof (induction f arbitrary: t p)
  case (Suc f)
  obtain u n where u: "node E t p = Inr (u, n)" using Suc.prems by (auto simp: bind_r_Inr_iff)
  then have tu: "meta_kept t u" using node_view cached_meta_kept by blast
  show ?case
  proof (cases n)
    case (Leaf es)
    then show ?thesis using Suc.prems u tu by (auto simp: Let_def split: option.splits)
  next
    case (Internal ks cs)
    then show ?thesis using Suc.prems u meta_kept_trans [OF tu Suc.IH] by (auto simp: Let_def split: if_splits)
  qed
qed simp

lemma tree_remove_kept: "tree_remove E t k = Inr (t', b) \<Longrightarrow> meta_kept t t'"
  unfolding tree_remove_def by (rule remove_loop_kept)

section \<open>Transactions\<close>

definition txn_ok :: "'v tree_env \<Rightarrow> 'v tree \<Rightarrow> bool" where
  "txn_ok T t \<longleftrightarrow> tree_inv T t \<and> meta_known T t"

text \<open>A step of a transaction that writes keys of \<open>K\<close> only.\<close>

definition touches :: "key set \<Rightarrow> 'v tree_env \<Rightarrow> 'v tree \<Rightarrow> 'v tree \<Rightarrow> bool" where
  "touches K T t t' \<longleftrightarrow> (txn_ok T t \<longrightarrow> txn_ok T t' \<and>
     (\<forall>k. k \<notin> K \<longrightarrow> map_of (tree_entries T t') k = map_of (tree_entries T t) k))"

lemma touches_refl [simp]: "touches K T t t"
  by (simp add: touches_def)

lemma touches_trans: "touches K T t u \<Longrightarrow> touches K T u v \<Longrightarrow> touches K T t v"
  by (simp add: touches_def)

lemma touches_mono: "touches K T t u \<Longrightarrow> K \<subseteq> L \<Longrightarrow> touches L T t u"
  by (auto simp: touches_def)

lemma cached_txn: "cached t t' \<Longrightarrow> txn_ok T t \<Longrightarrow> txn_ok T t' \<and> tree_entries T t' = tree_entries T t"
  using cached_tree_inv [of t t' T] meta_kept_known [OF cached_meta_kept] by (auto simp: txn_ok_def)

lemma insert_txn:
  assumes "txn_ok T t" and "tree_insert T t k v = Inr t'"
  shows "txn_ok T t' \<and> tree_entries T t' = put k v (tree_entries T t)"
  using tree_insert_result [of T t k v t'] meta_kept_known [OF tree_insert_kept [OF assms(2)]] assms by (auto simp: txn_ok_def)

lemma insert_touches: "k \<in> K \<Longrightarrow> tree_insert T t k v = Inr t' \<Longrightarrow> touches K T t t'"
  unfolding touches_def
proof (intro impI conjI)
  assume k: "k \<in> K" and r: "tree_insert T t k v = Inr t'" and ok: "txn_ok T t"
  note i = insert_txn [OF ok r]
  then show "txn_ok T t'" by simp
  have "skeys (tree_entries T t)" using ok tree_inv_entries(1) by (auto simp: txn_ok_def)
  then show "\<forall>j. j \<notin> K \<longrightarrow> map_of (tree_entries T t') j = map_of (tree_entries T t) j"
    using i k map_of_put [of "tree_entries T t" k v] by auto
qed

lemma put_blob_touches: "k \<in> K \<Longrightarrow> put_blob T k b t = Inr t' \<Longrightarrow> touches K T t t'"
  unfolding put_blob_def by (rule insert_touches)

lemma get_value:
  assumes "txn_ok T t"
  obtains t' where "tree_get T t k = Inr (t', map_of (tree_entries T t) k)" "txn_ok T t'" "tree_entries T t' = tree_entries T t"
proof -
  have "tree_inv T t" using assms by (simp add: txn_ok_def)
  then obtain t' where t': "tree_get T t k = Inr (t', map_of (tree_entries T t) k)" "cached t t'"
    using tree_get_inv [of T t k] by blast
  then show thesis using that cached_txn [OF t'(2) assms] by blast
qed

lemma scan_value:
  assumes "txn_ok T t"
  obtains t' where "tree_scan T t = Inr (t', tree_entries T t)" "txn_ok T t'" "tree_entries T t' = tree_entries T t"
proof -
  have "tree_inv T t" using assms by (simp add: txn_ok_def)
  then obtain t' where t': "tree_scan T t = Inr (t', tree_entries T t)" "cached t t'"
    using tree_scan_inv [of T t] by blast
  then show thesis using that cached_txn [OF t'(2) assms] by blast
qed

lemma get_touches: "tree_get T t k = Inr (t', r) \<Longrightarrow> touches K T t t'"
  unfolding touches_def by (metis Inr_inject get_value prod.inject)

lemma scan_touches: "tree_scan T t = Inr (t', r) \<Longrightarrow> touches K T t t'"
  unfolding touches_def by (metis Inr_inject scan_value prod.inject)

lemma remove_txn:
  assumes "txn_ok T t" and "tree_remove T t k = Inr (t', b)"
  shows "txn_ok T t' \<and> tree_entries T t' = del k (tree_entries T t) \<and> b = (k \<in> fst ` set (tree_entries T t))"
  using tree_store.remove [of T t k] meta_kept_known [OF tree_remove_kept [OF assms(2)]] assms by (auto simp: txn_ok_def)

lemma fold_touches:
  assumes "\<And>x u v. x \<in> set xs \<Longrightarrow> f x u = Inr v \<Longrightarrow> touches K T u v" and "fold_r f xs t = Inr t'"
  shows "touches K T t t'"
  using assms
proof (induction xs arbitrary: t)
  case (Cons x xs)
  then obtain u where u: "f x t = Inr u" "fold_r f xs u = Inr t'" by (auto simp: bind_r_Inr_iff)
  have "touches K T t u" by (rule Cons.prems(1) [OF _ u(1)]) simp
  moreover have "touches K T u t'" by (rule Cons.IH [OF Cons.prems(1) u(2)]) simp_all
  ultimately show ?case by (rule touches_trans)
qed simp

end
