(* ===== verification/LoomWriteLaws.thy ===== *)
theory LoomWriteLaws
  imports LoomTxn
begin

text \<open>
  What the write path does to the content of a branch: the engine's own records never touch a
  caller's key, a transaction moves one head, and every other commit reads as before.
\<close>

section \<open>The engine's own records\<close>

abbreviation engine_keys :: "key set" where
  "engine_keys \<equiv> {k. \<not> caller_key k}"

text \<open>The bookkeeping a merge skips, and the derivation nodes it carries along.\<close>

abbreviation book_keys :: "key set" where
  "book_keys \<equiv> {k. is_reserved k}"

text \<open>The bookkeeping that is not a branch's sequence number.\<close>

abbreviation aux_keys :: "key set" where
  "aux_keys \<equiv> {k. is_reserved k \<and> k \<notin> range prov_seq_key}"

lemma aux_book: "touches aux_keys T t u \<Longrightarrow> touches book_keys T t u"
  by (erule touches_mono) auto

lemma aux_key [simp]:
  "index_key k \<notin> range prov_seq_key" "ann_buffer_key k \<notin> range prov_seq_key" "history_key su p q \<notin> range prov_seq_key"
  by (auto simp: index_key_def ann_buffer_key_def history_key_def history_prefix_def prov_seq_key_def key_space_defs)

text \<open>What recording the derivation of a write puts down, and what keeping the history does.\<close>

definition prov_keys :: "key set" where
  "prov_keys = {k. (\<exists>b q. k = node_storage_key b q) \<or> (\<exists>x. k = latest_node_key x) \<or> (\<exists>s b q. k = source_index_key s b q) \<or> (\<exists>b. k = prov_seq_key b)}"

definition hist_keys :: "key set" where
  "hist_keys = {k. \<exists>s p. prefix (history_prefix s p) k}"

lemma history_key_hist: "history_key s p q \<in> hist_keys"
proof -
  have "prefix (history_prefix s p) (history_key s p q)" by (simp add: history_prefix_def history_key_def)
  then show ?thesis unfolding hist_keys_def by blast
qed

lemma book_engine: "touches book_keys T t u \<Longrightarrow> touches engine_keys T t u"
  by (erule touches_mono) (auto simp: caller_key_def)

lemma book_key [simp]:
  "is_reserved (latest_node_key k)" "is_reserved (prov_seq_key b)" "is_reserved (index_key k)" "is_reserved (ann_buffer_key k)"
  "is_reserved (history_key su p q)" "is_reserved (merged_from_key b)"
  using reserved_keys by auto

lemma engine_key [simp]:
  "\<not> caller_key (node_storage_key b q)" "\<not> caller_key (latest_node_key k)" "\<not> caller_key (source_index_key s b q)"
  "\<not> caller_key (prov_seq_key b)" "\<not> caller_key (index_key k)" "\<not> caller_key (ann_buffer_key k)"
  "\<not> caller_key (history_key su p q)" "\<not> caller_key (merged_from_key b)"
  using reserved_keys provenance_keys by (auto simp: caller_key_def)

lemma insert_node_records_touches:
  assumes "insert_node_records K T branch n ts = Inr ts'"
  shows "touches prov_keys T (fst ts) (fst ts')"
proof -
  obtain b t1 t2 t3 m where t1: "put_blob T (node_storage_key branch (snd ts)) b (fst ts) = Inr t1"
    and t2: "put_blob T (latest_node_key (dn_key n)) (dn_id n) t1 = Inr t2"
    and t3: "fold_r (\<lambda>s t. put_blob T (source_index_key s branch (snd ts)) (dn_id n) t) (dn_sources n) t2 = Inr t3"
    and ts': "ts' = (t3, m)"
    using assms by (auto simp: insert_node_records_def bind_r_Inr_iff)
  have "touches prov_keys T (fst ts) t1" by (rule put_blob_touches [OF _ t1]) (auto simp: prov_keys_def)
  moreover have "touches prov_keys T t1 t2" by (rule put_blob_touches [OF _ t2]) (auto simp: prov_keys_def)
  moreover have "touches prov_keys T t2 t3"
    by (rule fold_touches [OF _ t3]) (rule put_blob_touches, auto simp: prov_keys_def)
  ultimately show ?thesis unfolding ts' fst_conv by (blast intro: touches_trans)
qed

lemma insert_nodes_touches:
  "fold_r (insert_node_records K T branch) ns ts = Inr ts' \<Longrightarrow> touches prov_keys T (fst ts) (fst ts')"
proof (induction ns arbitrary: ts)
  case (Cons n ns)
  then obtain u where "insert_node_records K T branch n ts = Inr u" "fold_r (insert_node_records K T branch) ns u = Inr ts'"
    by (auto simp: bind_r_Inr_iff)
  with Cons.IH show ?case using insert_node_records_touches touches_trans by blast
qed simp

lemma write_provenance_touches:
  assumes "write_provenance E T branch h written e captured extra t = Inr t'"
  shows "touches prov_keys T t t'"
proof (cases "\<exists>w\<in>set written. \<not> is_provenance (fst w) \<and> \<not> is_reserved (fst w)")
  case True
  then obtain t1 r t2 q where t1: "tree_get T t (prov_seq_key branch) = Inr (t1, r)"
    and t2: "fold_r (insert_node_records (en_codec E) T branch)
              (derivation_nodes (en_crypto E) branch h written e captured extra) (t1, read_counter r) = Inr (t2, q)"
    and t3: "tree_insert T t2 (prov_seq_key branch) (RValue (Counter q)) = Inr t'"
    using assms unfolding write_provenance_def by (auto simp: bind_r_Inr_iff)
  have "touches prov_keys T t1 t2" using insert_nodes_touches [OF t2] by simp
  moreover have "touches prov_keys T t2 t'" by (rule insert_touches [OF _ t3]) (auto simp: prov_keys_def)
  ultimately show ?thesis using get_touches [OF t1] by (blast intro: touches_trans)
next
  case False
  have "t' = t" using assms unfolding write_provenance_def if_not_P [OF False] by simp
  then show ?thesis by simp
qed

lemma prov_engine: "touches prov_keys T t u \<Longrightarrow> touches engine_keys T t u"
  by (erule touches_mono) (auto simp: prov_keys_def)

definition idx_keys :: "key set" where
  "idx_keys = range index_key \<union> range ann_buffer_key"

lemma write_index_touches:
  assumes "write_index K T hints m w t = Inr t'"
  shows "touches idx_keys T t t'"
proof (cases "hints (fst w)")
  case (Some hint)
  show ?thesis
  proof (cases "index_entry_new (fst w) (hi_text hint) (hi_embedding hint) (citations_of (snd w)) (is_stale (snd w))
                  (most_restrictive m (own_trust (snd w)))")
    case (Some entry)
    obtain b t1 where t1: "put_blob T (index_key (fst w)) b t = Inr t1"
      and r: "(case hi_embedding hint of None \<Rightarrow> Inr t1
               | Some emb \<Rightarrow> bind_r (embedding_encode K emb) (\<lambda>b. put_blob T (ann_buffer_key (fst w)) b t1)) = Inr t'"
      using assms Some \<open>hints (fst w) = Some hint\<close> by (auto simp: write_index_def bind_r_Inr_iff)
    have "touches idx_keys T t t1" by (rule put_blob_touches [OF _ t1]) (simp add: idx_keys_def)
    moreover have "touches idx_keys T t1 t'"
    proof (cases "hi_embedding hint")
      case (Some emb)
      then obtain b where "put_blob T (ann_buffer_key (fst w)) b t1 = Inr t'" using r by (auto simp: bind_r_Inr_iff)
      then show ?thesis by (rule put_blob_touches [rotated]) (simp add: idx_keys_def)
    qed (use r in simp)
    ultimately show ?thesis by (rule touches_trans)
  qed (use assms Some in \<open>simp add: write_index_def\<close>)
qed (use assms in \<open>simp add: write_index_def\<close>)

lemma idx_aux: "touches idx_keys T t u \<Longrightarrow> touches aux_keys T t u"
  by (erule touches_mono) (auto simp: idx_keys_def is_reserved_def index_key_def ann_buffer_key_def prov_seq_key_def key_space_defs)

lemma put_version_touches:
  "k \<in> hist_keys \<Longrightarrow> put_version K T k v t = Inr t' \<Longrightarrow> touches hist_keys T t t'"
  by (auto simp: put_version_def bind_r_Inr_iff intro: put_blob_touches)

lemma history_prefix_reserved: "prefix RESERVED_PREFIX (history_prefix s p)"
  by (simp add: history_prefix_def RESERVED_PREFIX_def HISTORY_PREFIX_def)

lemma history_prefix_book:
  assumes "prefix (history_prefix s p) k"
  shows "k \<in> aux_keys"
proof -
  have "is_reserved k" unfolding is_reserved_def using prefix_order.trans [OF history_prefix_reserved assms] .
  moreover have "k \<noteq> prov_seq_key b" for b
    using assms by (auto simp: history_prefix_def prov_seq_key_def key_space_defs)
  ultimately show ?thesis by auto
qed

lemma history_versions_key: 
  assumes "(k, v) \<in> set (history_versions K pre es)"
  shows "prefix pre k"
proof -
  obtain w where "history_entry K pre w = Some (k, v)"
    using assms by (auto simp: history_versions_def List.map_filter_def)
  then show ?thesis by (cases w) (auto simp: history_entry_def split: if_splits record_t.splits val.splits)
qed

lemma append_claim_version_touches:
  assumes "append_claim_version K T c t = Inr t'"
  shows "touches hist_keys T t t'"
proof -
  define pre where "pre = history_prefix (c_subject c) (c_predicate c)"
  obtain t1 es t2 q where t1: "tree_scan T t = Inr (t1, es)"
    and t2: "fold_r (\<lambda>(k, v). put_version K T k (close_version (i_start (c_known c)) v))
          (filter (\<lambda>(k, v). i_end (c_known (cv_claim v)) = None) (history_versions K pre es)) t1 = Inr t2"
    and t3: "put_version K T (history_key (c_subject c) (c_predicate c) q) \<lparr>cv_claim = c, cv_seq = q\<rparr> t2 = Inr t'"
    using assms unfolding append_claim_version_def pre_def by (auto simp: Let_def bind_r_Inr_iff)
  have "touches hist_keys T t1 t2"
  proof (rule fold_touches [OF _ t2])
    fix x u v assume x: "x \<in> set (filter (\<lambda>(k, v). i_end (c_known (cv_claim v)) = None) (history_versions K pre es))"
      and r: "(case x of (k, y) \<Rightarrow> put_version K T k (close_version (i_start (c_known c)) y)) u = Inr v"
    obtain k y where k: "x = (k, y)" by (cases x)
    have "(k, y) \<in> set (history_versions K pre es)" using x k by simp
    then have "k \<in> hist_keys" using history_versions_key unfolding pre_def hist_keys_def by blast
    then show "touches hist_keys T u v" using r k put_version_touches by simp
  qed
  moreover have "touches hist_keys T t2 t'" by (rule put_version_touches [OF history_key_hist t3])
  ultimately show ?thesis using scan_touches [OF t1] by (blast intro: touches_trans)
qed

lemma write_history_touches: "write_history K T w t = Inr t' \<Longrightarrow> touches hist_keys T t t'"
  by (auto simp: write_history_def append_claim_version_touches split: record_t.splits)

lemma hist_aux: "touches hist_keys T t u \<Longrightarrow> touches aux_keys T t u"
  by (erule touches_mono) (use history_prefix_book in \<open>auto simp: hist_keys_def\<close>)

section \<open>The body of a write\<close>

lemma insert_records_txn:
  "txn_ok T t \<Longrightarrow> insert_records T rs t = Inr t'
   \<Longrightarrow> txn_ok T t' \<and> tree_entries T t' = fold (\<lambda>(k, v). put k v) rs (tree_entries T t)"
proof (induction rs arbitrary: t)
  case (Cons r rs)
  obtain k v where r: "r = (k, v)" by (cases r)
  then obtain u where u: "tree_insert T t k v = Inr u" "insert_records T rs u = Inr t'"
    using Cons.prems(2) by (auto simp: insert_records_def bind_r_Inr_iff)
  note i = insert_txn [OF Cons.prems(1) u(1)]
  from Cons.IH [OF conjunct1 [OF i] u(2)] show ?case using i r by simp
qed (simp add: insert_records_def)

definition last_write :: "(key \<times> record_t) list \<Rightarrow> (key \<times> record_t) list \<Rightarrow> key \<Rightarrow> record_t option" where
  "last_write rs es k = (case map_of (rev rs) k of Some r \<Rightarrow> Some r | None \<Rightarrow> map_of es k)"

lemma write_body_result:
  assumes ok: "txn_ok T t" and res: "write_body E T branch h records e captured extra hints t = Inr t'"
  shows "txn_ok T t' \<and> (\<forall>k. caller_key k \<longrightarrow> map_of (tree_entries T t') k = last_write records (tree_entries T t) k)"
proof -
  obtain t1 t2 t3 where t1: "insert_records T records t = Inr t1"
    and t2: "write_provenance E T branch h records e captured extra t1 = Inr t2"
    and t3: "fold_r (write_index (en_codec E) T hints (rs_min_label captured)) records t2 = Inr t3"
    and t4: "fold_r (write_history (en_codec E) T) records t3 = Inr t'"
    using res unfolding write_body_def by (auto simp: bind_r_Inr_iff)
  note i = insert_records_txn [OF ok t1]
  have "touches engine_keys T t2 t3" by (rule book_engine, rule aux_book, rule idx_aux, rule fold_touches [OF _ t3]) (rule write_index_touches)
  moreover have "touches engine_keys T t3 t'" by (rule book_engine, rule aux_book, rule hist_aux, rule fold_touches [OF _ t4]) (rule write_history_touches)
  ultimately have "touches engine_keys T t1 t'"
    using prov_engine [OF write_provenance_touches [OF t2]] by (blast intro: touches_trans)
  then have t': "txn_ok T t' \<and> (\<forall>k. caller_key k \<longrightarrow> map_of (tree_entries T t') k = map_of (tree_entries T t1) k)"
    using i by (simp add: touches_def)
  have "skeys (tree_entries T t)" using ok tree_inv_entries(1) by (auto simp: txn_ok_def)
  from tree_store.map_of_fold_put [OF this, of records]
  have "map_of (tree_entries T t1) k = last_write records (tree_entries T t) k" for k
    using i by (simp add: last_write_def map_add_def split: option.splits)
  then show ?thesis using t' by simp
qed

end
