(* ===== verification/LoomSessionLaws.thy ===== *)
theory LoomSessionLaws
  imports LoomWriteLaws
begin

text \<open>
  The laws of the session's operations: what each one does to the refs, to the store behind them and to
  the content of every branch.
\<close>

section \<open>Refs\<close>

text \<open>An operation extends the refs by edits: the in-memory refs are the old ones with the edits
  applied, and the same edits are queued or stored.\<close>

lemma record_commit_result:
  obtains l' new where "record_commit c ps l = (l', Inr ())"
    "lm_refs l' = apply_edits new (lm_refs l)" "lm_edits l' = lm_edits l @ new" "lm_pager l' = lm_pager l"
    "lm_keys l' = lm_keys l" "lm_reads l' = lm_reads l" "lm_store l' = lm_store l"
    "new = [] \<or> (new = [RecordCommit c (filter (\<lambda>p. p \<noteq> c) ps)] \<and> filter (\<lambda>p. p \<noteq> c) ps \<noteq> [])"
proof (cases "filter (\<lambda>p. p \<noteq> c) ps = [] \<or> map_of (rf_commits (lm_refs l)) c \<noteq> None")
  case True
  then have "record_commit c ps l = (l, Inr ())" by (auto simp: record_commit_def Let_def split: option.splits)
  then show thesis by (rule that [of l "[]"]) simp_all
next
  case False
  let ?e = "RecordCommit c (filter (\<lambda>p. p \<noteq> c) ps)"
  have "record_commit c ps l = (l\<lparr>lm_refs := apply_edits [?e] (lm_refs l), lm_edits := lm_edits l @ [?e]\<rparr>, Inr ())"
    using False by (simp add: record_commit_def Let_def push_edit_def with_commits_def)
  then show thesis by (rule that [of _ "[?e]"]) (use False in simp_all)
qed

lemma persist_result:
  assumes "persist E l = (l', r)"
  shows "lm_refs l' = lm_refs l" and "lm_edits l' = []" and "lm_pager l' = lm_pager l"
    and "lm_keys l' = lm_keys l" and "lm_reads l' = lm_reads l" and "io_apply (en_store E) (lm_store l) (lm_edits l) = (lm_store l', r)"
  using assms by (auto simp: persist_def split: prod.splits)

lemma set_head_result:
  assumes "set_head E b c l = (l', Inr ())"
  shows "lm_refs l' = apply_edit (SetHead b c) (lm_refs l)" and "lm_edits l' = []" and "lm_pager l' = lm_pager l"
    and "lm_keys l' = lm_keys l" and "lm_reads l' = lm_reads l"
    and "io_apply (en_store E) (lm_store l) (lm_edits l @ [SetHead b c]) = (lm_store l', Inr ())"
    and "map_of (rf_branches (lm_refs l)) b \<noteq> None"
  using assms by (auto simp: set_head_def push_edit_def with_branches_def persist_def bind_s_def split: option.splits prod.splits)

lemma create_branch_result:
  assumes "create_branch E b c l = (l', Inr ())"
  shows "lm_refs l' = apply_edit (CreateBranch b c) (lm_refs l)" and "lm_edits l' = []" and "lm_pager l' = lm_pager l"
    and "lm_keys l' = lm_keys l" and "lm_reads l' = lm_reads l"
    and "io_apply (en_store E) (lm_store l) (lm_edits l @ [CreateBranch b c]) = (lm_store l', Inr ())"
    and "map_of (rf_branches (lm_refs l)) b = None"
  using assms by (auto simp: create_branch_def push_edit_def with_branches_def persist_def bind_s_def split: option.splits prod.splits)

lemma head_Inr: "head b l = Inr c \<longleftrightarrow> map_of (rf_branches (lm_refs l)) b = Some c"
  by (auto simp: head_def split: option.splits)

section \<open>The page store's documented behaviour\<close>

text \<open>A commit reads as its base with the staged pages; earlier commits keep reading as they did.\<close>

definition pager_ok :: "'p pager \<Rightarrow> bool" where
  "pager_ok P \<longleftrightarrow>
     (\<forall>p base ws p' c T. pg_commit P p base ws = (p', Inr c) \<longrightarrow> pg_fork P p base = Inr T
        \<longrightarrow> pg_fork P p' c = Inr (commit_writes T ws)) \<and>
     (\<forall>p base ws p' r c T. pg_commit P p base ws = (p', r) \<longrightarrow> pg_fork P p c = Inr T \<longrightarrow> pg_fork P p' c = Inr T)"

text \<open>A commit that opens and reads as a well-formed tree with the given records.\<close>

definition commit_good :: "('p, 's) loom_env \<Rightarrow> ('p, 's) loom \<Rightarrow> commit_id \<Rightarrow> (key \<times> record_t) list \<Rightarrow> bool" where
  "commit_good E l c es \<longleftrightarrow> (\<exists>T t. pg_fork (en_pager E) (lm_pager l) c = Inr T \<and> codec_roundtrip T
     \<and> tree_open T = Inr t \<and> tree_inv T t \<and> tree_entries T t = es)"

lemma commit_good_read:
  assumes "commit_good E l c es"
  shows "read_commit E l c k = Inr (map_of es k)"
proof -
  obtain T t where T: "pg_fork (en_pager E) (lm_pager l) c = Inr T" "tree_open T = Inr t" "tree_inv T t" "tree_entries T t = es"
    using assms by (auto simp: commit_good_def)
  then obtain t' where "tree_get T t k = Inr (t', map_of es k)" using tree_get_inv by blast
  then show ?thesis using T by (simp add: read_commit_def)
qed

lemma commit_good_pager: "lm_pager l' = lm_pager l \<Longrightarrow> commit_good E l' c es \<longleftrightarrow> commit_good E l c es"
  by (simp add: commit_good_def)

lemma commit_good_unique: "commit_good E l c es \<Longrightarrow> commit_good E l c fs \<Longrightarrow> es = fs"
  by (auto simp: commit_good_def)

text \<open>Every branch points at a good commit, and the refs are in order.\<close>

definition loom_ok :: "('p, 's) loom_env \<Rightarrow> ('p, 's) loom \<Rightarrow> bool" where
  "loom_ok E l \<longleftrightarrow> refs_wf (lm_refs l) \<and> (\<forall>b c. head b l = Inr c \<longrightarrow> (\<exists>es. commit_good E l c es))"

text \<open>The records a branch holds.\<close>

definition holds :: "('p, 's) loom_env \<Rightarrow> ('p, 's) loom \<Rightarrow> bytes \<Rightarrow> (key \<times> record_t) list \<Rightarrow> bool" where
  "holds E l b es \<longleftrightarrow> (\<exists>c. head b l = Inr c \<and> commit_good E l c es)"

lemma holds_read: "holds E l b es \<Longrightarrow> read_branch E l b k = Inr (map_of es k)"
  by (auto simp: holds_def read_branch_def commit_good_read)

lemma loom_ok_holds: "loom_ok E l \<Longrightarrow> head b l = Inr c \<Longrightarrow> \<exists>es. holds E l b es"
  by (auto simp: loom_ok_def holds_def)

section \<open>A transaction\<close>

lemma commit_txn_good:
  assumes P: "pager_ok (en_pager E)" and T: "pg_fork (en_pager E) (lm_pager l) h = Inr T" "codec_roundtrip T"
    and t: "txn_ok T t" "tree_flush T t = Inr ws" and c: "commit_txn E h ws l = (l', Inr c)"
  shows "commit_good E l' c (tree_entries T t)" and "commit_good E l d es \<Longrightarrow> commit_good E l' d es"
    and "lm_refs l' = lm_refs l" and "lm_edits l' = lm_edits l" and "lm_store l' = lm_store l"
    and "lm_keys l' = lm_keys l" and "lm_reads l' = lm_reads l"
proof -
  have pc: "pg_commit (en_pager E) (lm_pager l) h ws = (lm_pager l', Inr c)"
    using c by (auto simp: commit_txn_def split: prod.splits)
  show "lm_refs l' = lm_refs l" "lm_edits l' = lm_edits l" "lm_store l' = lm_store l"
    "lm_keys l' = lm_keys l" "lm_reads l' = lm_reads l"
    using c by (auto simp: commit_txn_def split: prod.splits)
  have f: "pg_fork (en_pager E) (lm_pager l') c = Inr (commit_writes T ws)"
    using P pc T(1) unfolding pager_ok_def by blast
  obtain t' where "tree_open (commit_writes T ws) = Inr t'" "tree_inv (commit_writes T ws) t'"
    "tree_entries (commit_writes T ws) t' = tree_entries T t"
    using flush_reopen [of T t ws] t T(2) by (auto simp: txn_ok_def)
  then show "commit_good E l' c (tree_entries T t)"
    using f T(2) by (auto simp: commit_good_def codec_roundtrip_def commit_writes_def)
  show "commit_good E l' d es" if g: "commit_good E l d es"
  proof -
    obtain U u where U: "pg_fork (en_pager E) (lm_pager l) d = Inr U" "codec_roundtrip U" "tree_open U = Inr u"
      "tree_inv U u" "tree_entries U u = es" using g by (auto simp: commit_good_def)
    have "pg_fork (en_pager E) (lm_pager l') d = Inr U" using P pc U(1) unfolding pager_ok_def by blast
    then show ?thesis using U by (auto simp: commit_good_def)
  qed
qed

definition head_moved :: "('p, 's) loom_env \<Rightarrow> ('p, 's) loom \<Rightarrow> bytes \<Rightarrow> commit_id \<Rightarrow> ref_edit list \<Rightarrow> ('p, 's) loom \<Rightarrow> bool" where
  "head_moved E l b c new l' \<longleftrightarrow>
     lm_refs l' = apply_edits (new @ [SetHead b c]) (lm_refs l) \<and> lm_edits l' = []
     \<and> io_apply (en_store E) (lm_store l) (lm_edits l @ new @ [SetHead b c]) = (lm_store l', Inr ())
     \<and> lm_keys l' = lm_keys l \<and> lm_reads l' = lm_reads l"

lemma transact_result:
  assumes P: "pager_ok (en_pager E)" and good: "head b l = Inr h" "commit_good E l h es"
    and body: "\<And>T t t' a. txn_ok T t \<Longrightarrow> tree_entries T t = es \<Longrightarrow> body h T t = Inr (t', a) \<Longrightarrow> txn_ok T t' \<and> Q (tree_entries T t') a"
    and res: "transact E b body l = (l', Inr (c, a))"
  obtains es' new where "commit_good E l' c es'" "Q es' a" "head_moved E l b c new l'"
    "new \<in> {[], [RecordCommit c [h]]}" "\<And>d fs. commit_good E l d fs \<Longrightarrow> commit_good E l' d fs"
proof -
  obtain T t where T: "pg_fork (en_pager E) (lm_pager l) h = Inr T" "codec_roundtrip T" "tree_open T = Inr t"
    "tree_inv T t" "tree_entries T t = es" using good(2) by (auto simp: commit_good_def)
  have ok: "txn_ok T t" using T tree_open_known by (auto simp: txn_ok_def)
  obtain t' ws l1 where t': "body h T t = Inr (t', a)" "tree_flush T t' = Inr ws"
    and l1: "commit_txn E h ws l = (l1, Inr c)"
    and r: "bind_s (record_commit c [h]) (\<lambda>_. bind_s (set_head E b c) (\<lambda>_. ret (c, a))) l1 = (l', Inr (c, a))"
    using res good(1) T unfolding transact_def
    by (auto simp: bind_s_def bind_r_def split: prod.splits sum.splits)
  note ok' = body [OF ok T(5) t'(1)]
  note cg = commit_txn_good [OF P T(1,2) conjunct1 [OF ok'] t'(2) l1]
  obtain l2 new where l2: "record_commit c [h] l1 = (l2, Inr ())"
    "lm_refs l2 = apply_edits new (lm_refs l1)" "lm_edits l2 = lm_edits l1 @ new" "lm_pager l2 = lm_pager l1"
    "lm_keys l2 = lm_keys l1" "lm_reads l2 = lm_reads l1" "lm_store l2 = lm_store l1"
    "new = [] \<or> (new = [RecordCommit c (filter (\<lambda>p. p \<noteq> c) [h])] \<and> filter (\<lambda>p. p \<noteq> c) [h] \<noteq> [])"
    using record_commit_result by blast
  have new: "new \<in> {[], [RecordCommit c [h]]}"
    using l2(8) by (auto split: if_splits)
  have sh: "set_head E b c l2 = (l', Inr ())" using r l2(1) by (auto simp: bind_s_def split: prod.splits sum.splits)
  note s = set_head_result [OF sh]
  have pl: "lm_pager l' = lm_pager l1" using s(3) l2(4) by simp
  have hm: "head_moved E l b c new l'"
    unfolding head_moved_def using s(1,2,4-6) cg(3-7) l2(2-7) by simp
  show thesis
    by (rule that [OF _ conjunct2 [OF ok'] hm new]) (use cg commit_good_pager [OF pl] in blast)+
qed

lemma apply_edits_branches:
  "new \<in> {[], [RecordCommit x ps]} \<Longrightarrow> rf_branches (apply_edits (new @ [SetHead b c]) r) = put b c (rf_branches r)"
  by auto

lemma head_moved_heads:
  assumes "refs_wf (lm_refs l)" and "head_moved E l b c new l'" and "new \<in> {[], [RecordCommit x ps]}"
  shows "head d l' = (if d = b then Inr c else head d l)" and "refs_wf (lm_refs l')"
proof -
  have r: "lm_refs l' = apply_edits (new @ [SetHead b c]) (lm_refs l)" using assms(2) by (simp add: head_moved_def)
  have "rf_branches (lm_refs l') = put b c (rf_branches (lm_refs l))" unfolding r by (rule apply_edits_branches [OF assms(3)])
  moreover have "skeys (rf_branches (lm_refs l))" using assms(1) by (simp add: refs_wf_def)
  ultimately show "head d l' = (if d = b then Inr c else head d l)"
    by (simp add: head_def map_of_put)
  show "refs_wf (lm_refs l')" unfolding r using assms(1) by (rule apply_edits_wf)
qed

text \<open>What a transaction on branch \<open>b\<close> does to every branch.\<close>

lemma transact_holds:
  assumes P: "pager_ok (en_pager E)" and ok: "loom_ok E l"
    and body: "\<And>h T t t' a. txn_ok T t \<Longrightarrow> holds E l b (tree_entries T t) \<Longrightarrow> body h T t = Inr (t', a)
        \<Longrightarrow> txn_ok T t' \<and> Q (tree_entries T t) (tree_entries T t') a"
    and res: "transact E b body l = (l', Inr (c, a))"
  obtains es es' h new where "holds E l b es" "holds E l' b es'" "Q es es' a" "head b l = Inr h" "head b l' = Inr c"
    "head_moved E l b c new l'" "new \<in> {[], [RecordCommit c [h]]}" "loom_ok E l'"
    "\<And>d. d \<noteq> b \<Longrightarrow> head d l' = head d l" "\<And>d fs. d \<noteq> b \<Longrightarrow> holds E l d fs \<Longrightarrow> holds E l' d fs"
    "\<And>d fs. commit_good E l d fs \<Longrightarrow> commit_good E l' d fs"
proof -
  obtain h where h: "head b l = Inr h" using res by (auto simp: transact_def bind_s_def split: prod.splits sum.splits)
  then obtain es where es: "commit_good E l h es" using ok by (auto simp: loom_ok_def)
  have hb: "holds E l b es" using h es by (auto simp: holds_def)
  have b': "txn_ok T t' \<and> Q es (tree_entries T t') a"
    if "txn_ok T t" "tree_entries T t = es" "body h T t = Inr (t', a)" for T t t' a
    using body [of T t h t' a] that hb by simp
  have wf: "refs_wf (lm_refs l)" using ok by (simp add: loom_ok_def)
  show thesis
  proof (rule transact_result [of E b l h es body "Q es" l' c a, OF P h es b' res])
    fix es' new
    assume r: "commit_good E l' c es'" "Q es es' a" "head_moved E l b c new l'"
      "new \<in> {[], [RecordCommit c [h]]}" "\<And>d fs. commit_good E l d fs \<Longrightarrow> commit_good E l' d fs"
    note hd = head_moved_heads [OF wf r(3,4)]
    have lok: "loom_ok E l'"
      unfolding loom_ok_def
    proof (intro conjI allI impI)
      show "refs_wf (lm_refs l')" by (rule hd(2))
      fix d k assume dk: "head d l' = Inr k"
      show "\<exists>es. commit_good E l' k es"
      proof (cases "d = b")
        case True
        then show ?thesis using hd(1) [of d] r(1) dk by auto
      next
        case False
        then have "head d l = Inr k" using hd(1) [of d] dk by simp
        then obtain fs where "commit_good E l k fs" using ok by (auto simp: loom_ok_def)
        then show ?thesis using r(5) by blast
      qed
    qed
    show thesis
      by (rule that [OF hb _ r(2) h _ r(3,4) lok]) (use hd(1) r(1,5) in \<open>auto simp: holds_def\<close>)
  qed
qed

lemma bind_lift_Inr:
  assumes "bind_s (lift_r r) f s = (s', Inr b)"
  obtains a where "r = Inr a" "f a s = (s', Inr b)"
  using assms by (cases r) auto

lemma bind_ask_Inr:
  assumes "bind_s (ask r) f s = (s', Inr b)"
  obtains a where "r s = Inr a" "f a s = (s', Inr b)"
  using assms by (auto simp: bind_s_def split: sum.splits)

section \<open>A write\<close>

lemma write_all_checks:
  assumes "write_all E tok b records e extra hints now l = (l', Inr c)"
  obtains captured l1 where "envelope_is_valid e" "authenticate E l e = Inr ()" "authorize (en_issuer E) tok b now = Inr ()"
    "captured = session_reads (e_session e) l" "l1 = l\<lparr>lm_reads := (lm_reads l)(e_session e := None)\<rparr>"
    "transact E b (\<lambda>h T t. bind_r (write_body E T b h records e captured extra hints t) (\<lambda>t. Inr (t, ()))) l1 = (l', Inr (c, ()))"
proof -
  obtain u1 where 1: "check_envelope e = Inr u1" and r1: "bind_s (ask (\<lambda>l. authenticate E l e)) (\<lambda>_.
     bind_s (lift_r (authorize (en_issuer E) tok b now)) (\<lambda>_.
     bind_s (take_read_set (e_session e)) (\<lambda>captured.
     bind_s (transact E b (\<lambda>h T t.
               bind_r (write_body E T b h records e captured extra hints t) (\<lambda>t. Inr (t, ())))) (\<lambda>(c, _).
       ret c)))) l = (l', Inr c)"
    using assms unfolding write_all_def by (elim bind_lift_Inr)
  obtain u2 where 2: "authenticate E l e = Inr u2" and r2: "bind_s (lift_r (authorize (en_issuer E) tok b now)) (\<lambda>_.
     bind_s (take_read_set (e_session e)) (\<lambda>captured.
     bind_s (transact E b (\<lambda>h T t.
               bind_r (write_body E T b h records e captured extra hints t) (\<lambda>t. Inr (t, ())))) (\<lambda>(c, _).
       ret c))) l = (l', Inr c)"
    using r1 by (elim bind_ask_Inr)
  obtain u3 where 3: "authorize (en_issuer E) tok b now = Inr u3" and r3: "
     bind_s (take_read_set (e_session e)) (\<lambda>captured.
     bind_s (transact E b (\<lambda>h T t.
               bind_r (write_body E T b h records e captured extra hints t) (\<lambda>t. Inr (t, ())))) (\<lambda>(c, _).
       ret c)) l = (l', Inr c)"
    using r2 by (elim bind_lift_Inr)
  have "transact E b (\<lambda>h T t. bind_r (write_body E T b h records e (session_reads (e_session e) l) extra hints t) (\<lambda>t. Inr (t, ())))
      (l\<lparr>lm_reads := (lm_reads l)(e_session e := None)\<rparr>) = (l', Inr (c, ()))"
    using r3 by (auto simp: take_read_set_def bind_s_def split: prod.splits sum.splits)
  then show thesis using that 1 2 3 by (auto simp: check_envelope_def split: if_splits)
qed

lemma loom_ok_reads [simp]:
  "loom_ok E (l\<lparr>lm_reads := x\<rparr>) \<longleftrightarrow> loom_ok E l" "holds E (l\<lparr>lm_reads := x\<rparr>) b es \<longleftrightarrow> holds E l b es"
  "head b (l\<lparr>lm_reads := x\<rparr>) = head b l" "commit_good E (l\<lparr>lm_reads := x\<rparr>) c es \<longleftrightarrow> commit_good E l c es"
  by (simp_all add: loom_ok_def holds_def head_def commit_good_def)

lemma write_all_result:
  assumes P: "pager_ok (en_pager E)" and ok: "loom_ok E l"
    and res: "write_all E tok b records e extra hints now l = (l', Inr c)"
  obtains es es' h new where "holds E l b es" "holds E l' b es'"
    "\<forall>k. caller_key k \<longrightarrow> map_of es' k = last_write records es k" "head b l = Inr h" "head b l' = Inr c"
    "head_moved E (l\<lparr>lm_reads := (lm_reads l)(e_session e := None)\<rparr>) b c new l'" "new \<in> {[], [RecordCommit c [h]]}" "loom_ok E l'"
    "\<And>d. d \<noteq> b \<Longrightarrow> head d l' = head d l" "\<And>d fs. d \<noteq> b \<Longrightarrow> holds E l d fs \<Longrightarrow> holds E l' d fs"
    "\<And>d fs. commit_good E l d fs \<Longrightarrow> commit_good E l' d fs"
proof -
  obtain captured l1 where l1: "l1 = l\<lparr>lm_reads := (lm_reads l)(e_session e := None)\<rparr>"
    and tr: "transact E b (\<lambda>h T t. bind_r (write_body E T b h records e captured extra hints t) (\<lambda>t. Inr (t, ()))) l1 = (l', Inr (c, ()))"
    using write_all_checks [OF res] by blast
  have ok1: "loom_ok E l1" using ok l1 by simp
  have body: "txn_ok T t' \<and> (\<forall>k. caller_key k \<longrightarrow> map_of (tree_entries T t') k = last_write records (tree_entries T t) k)"
    if "txn_ok T t" "bind_r (write_body E T b h records e captured extra hints t) (\<lambda>t. Inr (t, ())) = Inr (t', a)" for h T t t' a
  proof -
    have "write_body E T b h records e captured extra hints t = Inr t'" using that(2) by (auto simp: bind_r_Inr_iff)
    from write_body_result [OF that(1) this] show ?thesis .
  qed
  show thesis
    by (rule transact_holds [of E l1 b _ "\<lambda>es es' a. \<forall>k. caller_key k \<longrightarrow> map_of es' k = last_write records es k", OF P ok1 body tr])
      (assumption, assumption, use that l1 in simp)
qed

lemma write_all_reads:
  assumes P: "pager_ok (en_pager E)" and ok: "loom_ok E l"
    and res: "write_all E tok b records e extra hints now l = (l', Inr c)" and h: "holds E l b es"
  shows "(\<forall>k. caller_key k \<longrightarrow> read_branch E l' b k = Inr (last_write records es k))
    \<and> (\<forall>d. d \<noteq> b \<longrightarrow> (\<forall>k. read_branch E l' d k = read_branch E l d k))"
proof (rule write_all_result [OF P ok res])
  fix fs es' h' new
  assume r: "holds E l b fs" "holds E l' b es'" "\<forall>k. caller_key k \<longrightarrow> map_of es' k = last_write records fs k"
    "\<And>d. d \<noteq> b \<Longrightarrow> head d l' = head d l" "\<And>d fs. d \<noteq> b \<Longrightarrow> holds E l d fs \<Longrightarrow> holds E l' d fs"
  have "fs = es" using r(1) h by (auto simp: holds_def dest: commit_good_unique)
  moreover have "read_branch E l' d k = read_branch E l d k" if d: "d \<noteq> b" for d k
  proof (cases "head d l")
    case (Inl x)
    then show ?thesis using r(4) [OF d] by (simp add: read_branch_def)
  next
    case (Inr x)
    then obtain gs where gs: "holds E l d gs" using loom_ok_holds [OF ok] by blast
    show ?thesis using holds_read [OF gs] holds_read [OF r(5) [OF d gs]] by simp
  qed
  ultimately show ?thesis using r(3) holds_read [OF r(2)] by auto
qed

end
