(* ===== verification/LoomAncestry.thy ===== *)
theory LoomAncestry
  imports LoomSessionMerge
begin

text \<open>
  The ancestry walk and the merge bases against their graph-theoretic meaning: the reflexive
  transitive closure of the parent relation, and the lowest common ancestors.
\<close>

section \<open>Reachability\<close>

definition parent_edge :: "(commit_id \<Rightarrow> commit_id list) \<Rightarrow> (commit_id \<times> commit_id) set" where
  "parent_edge parents = {(x, y). y \<in> set (parents x)}"

definition reach :: "(commit_id \<Rightarrow> commit_id list) \<Rightarrow> commit_id \<Rightarrow> commit_id set" where
  "reach parents c = {d. (c, d) \<in> (parent_edge parents)\<^sup>*}"

lemma reach_self [simp]: "c \<in> reach parents c"
  by (simp add: reach_def)

lemma reach_step: "y \<in> set (parents x) \<Longrightarrow> x \<in> reach parents c \<Longrightarrow> y \<in> reach parents c"
  unfolding reach_def parent_edge_def by (auto intro: rtrancl_into_rtrancl)

lemma reach_trans: "x \<in> reach parents y \<Longrightarrow> y \<in> reach parents c \<Longrightarrow> x \<in> reach parents c"
  unfolding reach_def by auto

lemma closed_reach: "(\<forall>x\<in>A. set (parents x) \<subseteq> A) \<Longrightarrow> c \<in> A \<Longrightarrow> reach parents c \<subseteq> A"
proof
  fix d assume A: "\<forall>x\<in>A. set (parents x) \<subseteq> A" and c: "c \<in> A" and "d \<in> reach parents c"
  then have "(c, d) \<in> (parent_edge parents)\<^sup>*" by (simp add: reach_def)
  then show "d \<in> A" by (induction rule: rtrancl_induct) (use A c in \<open>auto simp: parent_edge_def\<close>)
qed

lemma set_insert_node [simp]: "set (insert_node n xs) = insert n (set xs)"
  by (simp add: insert_node_def sort_dedup_def set_insort_key)

lemma sorted_insert_node [simp]: "sorted (insert_node n xs)" "distinct (insert_node n xs)"
  by (simp_all add: insert_node_def sort_dedup_def sorted_remdups_adj distinct_dedup sorted_insort)

lemma ancestors_loop_steps:
  "ancestors_loop parents [] seen = Some seen"
  "c \<in> set seen \<Longrightarrow> ancestors_loop parents (c # rest) seen = ancestors_loop parents rest seen"
  "c \<notin> set seen \<Longrightarrow> ancestors_loop parents (c # rest) seen = ancestors_loop parents (rev (parents c) @ rest) (insert_node c seen)"
  by (subst ancestors_loop.simps, simp)+

text \<open>The loop's invariant: what has been seen has its parents seen or on the stack.\<close>

definition walk_inv :: "(commit_id \<Rightarrow> commit_id list) \<Rightarrow> commit_id set \<Rightarrow> commit_id list \<Rightarrow> commit_id list \<Rightarrow> bool" where
  "walk_inv parents R stack seen \<longleftrightarrow> set seen \<union> set stack \<subseteq> R \<and> (\<forall>x\<in>R. set (parents x) \<subseteq> R)
     \<and> (\<forall>x\<in>set seen. set (parents x) \<subseteq> set seen \<union> set stack) \<and> sorted seen \<and> distinct seen"

definition walk_end :: "(commit_id \<Rightarrow> commit_id list) \<Rightarrow> commit_id set \<Rightarrow> commit_id set \<Rightarrow> commit_id list \<Rightarrow> bool" where
  "walk_end parents R S A \<longleftrightarrow> S \<subseteq> set A \<and> set A \<subseteq> R \<and> (\<forall>x\<in>set A. set (parents x) \<subseteq> set A) \<and> sorted A \<and> distinct A"

lemma walk_skip: "walk_inv parents R (c # rest) seen \<Longrightarrow> c \<in> set seen \<Longrightarrow> walk_inv parents R rest seen"
  by (auto simp: walk_inv_def)

lemma walk_push: "walk_inv parents R (c # rest) seen \<Longrightarrow> walk_inv parents R (rev (parents c) @ rest) (insert_node c seen)"
  by (auto simp: walk_inv_def)

lemma ancestors_loop_result:
  assumes "finite R" and "walk_inv parents R stack seen"
  shows "\<exists>A. ancestors_loop parents stack seen = Some A \<and> walk_end parents R (set seen \<union> set stack) A"
  using assms(2)
proof (induction "(card (R - set seen), length stack)" arbitrary: seen stack rule: wf_induct_rule [OF wf_lex_prod [OF wf_less_than wf_less_than], consumes 0])
  case 1
  show ?case
  proof (cases stack)
    case Nil
    then show ?thesis using 1(2) by (auto simp: ancestors_loop_steps walk_inv_def walk_end_def)
  next
    case (Cons c rest)
    show ?thesis
    proof (cases "c \<in> set seen")
      case True
      have "\<exists>A. ancestors_loop parents rest seen = Some A \<and> walk_end parents R (set seen \<union> set rest) A"
        by (rule 1(1)) (use Cons 1(2) walk_skip [of parents R c rest seen] True in auto)
      moreover have "set seen \<union> set stack = set seen \<union> set rest" using True Cons by auto
      ultimately show ?thesis using ancestors_loop_steps(2) [OF True, of parents rest] Cons by simp
    next
      case False
      have "c \<in> R" using 1(2) Cons by (simp add: walk_inv_def)
      then have lt: "card (R - set (insert_node c seen)) < card (R - set seen)"
        using False assms(1) by (intro psubset_card_mono) auto
      have "\<exists>A. ancestors_loop parents (rev (parents c) @ rest) (insert_node c seen) = Some A
          \<and> walk_end parents R (set (insert_node c seen) \<union> set (rev (parents c) @ rest)) A"
        by (rule 1(1)) (use Cons 1(2) walk_push [of parents R c rest seen] lt in auto)
      then obtain A where A: "ancestors_loop parents stack seen = Some A"
        "walk_end parents R (set (insert_node c seen) \<union> set (rev (parents c) @ rest)) A"
        using ancestors_loop_steps(3) [OF False, of parents rest] Cons by auto
      have "walk_end parents R (set seen \<union> set stack) A"
        using A(2) Cons by (auto simp: walk_end_def)
      then show ?thesis using A(1) by blast
    qed
  qed
qed

lemma ancestors_exact:
  assumes "finite (reach parents c)"
  obtains A where "ancestors_loop parents [c] [] = Some A" "set A = reach parents c" "sorted A" "distinct A"
proof -
  obtain A where A: "ancestors_loop parents [c] [] = Some A" "c \<in> set A" "set A \<subseteq> reach parents c"
    "\<forall>x\<in>set A. set (parents x) \<subseteq> set A" "sorted A" "distinct A"
    using ancestors_loop_result [OF assms, of parents "[c]" "[]"] reach_step [of _ parents _ c]
    by (auto simp: walk_inv_def walk_end_def)
  have "reach parents c \<subseteq> set A" by (rule closed_reach [OF A(4,2)])
  then show thesis using that A by blast
qed

lemma full_ancestors_exact:
  assumes "finite (reach (commit_parents E l) c)"
  obtains A where "full_ancestors E l c = Some A" "set A = reach (commit_parents E l) c" "sorted A" "distinct A"
  unfolding full_ancestors_def by (rule ancestors_exact [OF assms])

section \<open>Lowest common ancestors\<close>

lemma is_lowest_iff:
  assumes "\<And>d. d \<in> set os \<Longrightarrow> anc d = Some (A d)"
  shows "is_lowest anc c os = Some (\<not> (\<exists>d\<in>set os. d \<noteq> c \<and> c \<in> set (A d)))"
  using assms by (induction os) auto

lemma lowest_of_filter:
  assumes "\<And>d. d \<in> set common \<Longrightarrow> anc d = Some (A d)"
  shows "lowest_of anc common cs = Some (filter (\<lambda>c. \<not> (\<exists>d\<in>set common. d \<noteq> c \<and> c \<in> set (A d))) cs)"
  using is_lowest_iff [of common anc A, OF assms] by (induction cs) auto

definition common_ancestors :: "(commit_id \<Rightarrow> commit_id list) \<Rightarrow> commit_id \<Rightarrow> commit_id \<Rightarrow> commit_id set" where
  "common_ancestors parents a b = reach parents a \<inter> reach parents b"

definition lowest_common :: "(commit_id \<Rightarrow> commit_id list) \<Rightarrow> commit_id \<Rightarrow> commit_id \<Rightarrow> commit_id set" where
  "lowest_common parents a b =
     {c \<in> common_ancestors parents a b. \<not> (\<exists>d\<in>common_ancestors parents a b. d \<noteq> c \<and> c \<in> reach parents d)}"

lemma merge_bases_result:
  assumes "finite (reach (commit_parents E l) a)" and "finite (reach (commit_parents E l) b)"
  obtains bs where "merge_bases E l a b = Some bs" "set bs = lowest_common (commit_parents E l) a b" "sorted bs" "distinct bs"
proof -
  let ?P = "commit_parents E l"
  obtain A where A: "full_ancestors E l a = Some A" "set A = reach ?P a" "sorted A" "distinct A"
    by (rule full_ancestors_exact [OF assms(1)])
  obtain B where B: "full_ancestors E l b = Some B" "set B = reach ?P b"
    by (rule full_ancestors_exact [OF assms(2)])
  define common where "common = filter (\<lambda>c. c \<in> set B) A"
  define G where "G d = the (full_ancestors E l d)" for d
  have sc: "set common = common_ancestors ?P a b" using A(2) B(2) by (auto simp: common_def common_ancestors_def)
  have fa: "full_ancestors E l d = Some (G d) \<and> set (G d) = reach ?P d" if d: "d \<in> set common" for d
  proof -
    have "d \<in> reach ?P a" using d sc by (simp add: common_ancestors_def)
    then have "reach ?P d \<subseteq> reach ?P a" using reach_trans by blast
    then have "finite (reach ?P d)" using assms(1) finite_subset by blast
    then obtain C where "full_ancestors E l d = Some C" "set C = reach ?P d" by (rule full_ancestors_exact)
    then show ?thesis by (simp add: G_def)
  qed
  define low where "low = filter (\<lambda>c. \<not> (\<exists>d\<in>set common. d \<noteq> c \<and> c \<in> set (G d))) common"
  have "lowest_of (full_ancestors E l) common common = Some low"
    unfolding low_def by (rule lowest_of_filter) (rule conjunct1 [OF fa])
  then have m: "merge_bases E l a b = Some (sort low)" using A(1) B(1) by (simp add: merge_bases_def Let_def common_def)
  have "set low = {c \<in> set common. \<not> (\<exists>d\<in>set common. d \<noteq> c \<and> c \<in> reach ?P d)}"
  proof -
    have "(\<exists>d\<in>set common. d \<noteq> c \<and> c \<in> set (G d)) \<longleftrightarrow> (\<exists>d\<in>set common. d \<noteq> c \<and> c \<in> reach ?P d)" for c
      by (rule bex_cong [OF refl]) (simp add: conjunct2 [OF fa])
    then show ?thesis by (simp add: low_def)
  qed
  then have "set (sort low) = lowest_common ?P a b" by (simp add: sc lowest_common_def)
  moreover have "distinct (sort low)" using A(4) by (simp add: low_def common_def)
  ultimately show thesis using that [OF m] by simp
qed

text \<open>On an acyclic history two commits with a common ancestor have a merge base.\<close>

lemma lowest_exists:
  assumes "finite (reach parents a)" and "acyclic (parent_edge parents)" and "x \<in> common_ancestors parents a b"
  shows "\<exists>c\<in>lowest_common parents a b. x \<in> reach parents c"
proof -
  let ?S = "{c \<in> common_ancestors parents a b. x \<in> reach parents c}"
  have fin: "finite (common_ancestors parents a b)" using assms(1) by (simp add: common_ancestors_def)
  have x: "x \<in> ?S" using assms(3) by simp
  let ?r = "{(p, c). p \<in> ?S \<and> c \<in> ?S \<and> (p, c) \<in> (parent_edge parents)\<^sup>+}"
  have "acyclic ((parent_edge parents)\<^sup>+)" using assms(2) by (simp add: acyclic_def)
  then have "acyclic ?r" by (rule acyclic_subset) auto
  moreover have "finite ?r" by (rule finite_subset [of _ "?S \<times> ?S"]) (use fin in auto)
  ultimately have wf: "wf ?r" by (simp add: finite_acyclic_wf)
  obtain c where c: "c \<in> ?S" "\<And>y. (y, c) \<in> ?r \<Longrightarrow> y \<notin> ?S"
    using wfE_min [OF wf x] by blast
  have "\<not> (\<exists>d\<in>common_ancestors parents a b. d \<noteq> c \<and> c \<in> reach parents d)"
  proof
    assume "\<exists>d\<in>common_ancestors parents a b. d \<noteq> c \<and> c \<in> reach parents d"
    then obtain d where d: "d \<in> common_ancestors parents a b" "d \<noteq> c" "c \<in> reach parents d" by blast
    then have "(d, c) \<in> (parent_edge parents)\<^sup>+" by (auto simp: reach_def dest: rtranclD)
    moreover have "d \<in> ?S" using d c(1) reach_trans by blast
    ultimately show False using c by auto
  qed
  then show ?thesis using c(1) by (auto simp: lowest_common_def)
qed

end
