(* ===== verification/LoomProvProps.thy ===== *)
theory LoomProvProps
  imports LoomProvKeys LoomToken
begin

text \<open>
  The properties of envelopes, derivation nodes, the key layout and capability tokens.
\<close>

section \<open>A concrete signature scheme\<close>

text \<open>A key is its own public key, a signature is the key's first byte and the message's, padded.\<close>

definition demo_hash :: "bytes \<Rightarrow> bytes" where
  "demo_hash b = take 32 (rev b @ replicate 32 CHR 0x00)"

definition demo_sign :: "bytes \<Rightarrow> bytes \<Rightarrow> bytes" where
  "demo_sign sk m = take 64 (rev m @ sk @ replicate 64 CHR 0x00)"

definition demo_crypto :: crypto where
  "demo_crypto = \<lparr>cr_hash = demo_hash, cr_public = id, cr_sign = demo_sign,
     cr_verify = (\<lambda>vk m s. if s = demo_sign vk m then None else Some ''signature error'')\<rparr>"

lemma demo_crypto_ok: "crypto_ok demo_crypto"
  by (auto simp: crypto_ok_def demo_crypto_def demo_hash_def demo_sign_def min_def)

section \<open>Envelopes\<close>

text \<open>The printed text of a source, \<open>kind:id\<close>, determines it when its kind holds no colon.\<close>

lemma source_string_inj:
  assumes "source_string x = source_string y" and "CHR '':'' \<notin> set (sr_system x)" and "CHR '':'' \<notin> set (sr_system y)"
  shows "x = y"
proof -
  have cut: "a @ CHR '':'' # b = c @ CHR '':'' # d \<Longrightarrow> CHR '':'' \<notin> set a \<Longrightarrow> CHR '':'' \<notin> set c \<Longrightarrow> a = c \<and> b = d" for a b c d :: bytes
  proof (induction a arbitrary: c)
    case Nil then show ?case by (cases c) auto
  next
    case (Cons z a) then show ?case by (cases c) auto
  qed
  have "sr_system x @ CHR '':'' # sr_record_id x = sr_system y @ CHR '':'' # sr_record_id y" using assms(1) by (simp add: source_string_def)
  from cut [OF this assms(2,3)] show ?thesis by (cases x; cases y) simp
qed

text \<open>C39: the signed bytes pin the envelope up to the printed text of its sources: two envelopes have the
  same signed bytes exactly when they agree on actor, session, branch, context, intent, the delegation
  chain and the list of sources as they are printed (\<open>kind:id\<close>), so nothing can be moved from one
  field into its neighbour under a signature; when no source's kind contains a colon the sources
  themselves agree, and then the envelopes differ at most in the policy and in the signature.  What the
  signature leaves open is that: the colon between a source's kind and its id
  (\<open>source_split_ambiguous\<close>), and the policy (\<open>policy_not_signed\<close>).\<close>

theorem signature_pins_envelope:
  assumes "envelope_fits e" and "envelope_fits e'"
  shows "(signing_bytes e = signing_bytes e' \<longleftrightarrow>
     e_actor e = e_actor e' \<and> e_session e = e_session e' \<and> e_branch e = e_branch e'
     \<and> e_context e = e_context e' \<and> e_intent e = e_intent e' \<and> e_delegation e = e_delegation e'
     \<and> map source_string (e_derived_from e) = map source_string (e_derived_from e'))
   \<and> ((\<forall>s\<in>set (e_derived_from e) \<union> set (e_derived_from e'). CHR '':'' \<notin> set (sr_system s)) \<longrightarrow> signing_bytes e = signing_bytes e'
        \<longrightarrow> e' = e\<lparr>e_policy := e_policy e', e_signature := e_signature e'\<rparr>)"
proof (intro conjI impI)
  show pins: "signing_bytes e = signing_bytes e' \<longleftrightarrow>
     e_actor e = e_actor e' \<and> e_session e = e_session e' \<and> e_branch e = e_branch e'
     \<and> e_context e = e_context e' \<and> e_intent e = e_intent e' \<and> e_delegation e = e_delegation e'
     \<and> map source_string (e_derived_from e) = map source_string (e_derived_from e')"
    using assms by (rule signing_bytes_eq)
  assume c: "\<forall>s\<in>set (e_derived_from e) \<union> set (e_derived_from e'). CHR '':'' \<notin> set (sr_system s)" and same: "signing_bytes e = signing_bytes e'"
  have "map source_string (e_derived_from e) = map source_string (e_derived_from e')" using same pins by blast
  then have "e_derived_from e = e_derived_from e'"
    by (rule map_inj_on) (use c source_string_inj in \<open>auto simp: inj_on_def\<close>)
  then show "e' = e\<lparr>e_policy := e_policy e', e_signature := e_signature e'\<rparr>" using same pins by simp
qed

theorem signature_pins_envelope_witness:
  "signing_bytes (envelope_new ''alice'' ''s'' ''main'' ''x'') \<noteq> signing_bytes (envelope_new ''alic'' ''es'' ''main'' ''x'')
   \<and> signing_bytes (derived_from (envelope_new ''alice'' ''s'' ''main'' ''x'') [\<lparr>sr_system = ''web'', sr_record_id = ''p:1''\<rparr>])
       \<noteq> signing_bytes (derived_from (envelope_new ''alice'' ''s'' ''main'' ''x'') [\<lparr>sr_system = ''web'', sr_record_id = ''p:2''\<rparr>])"
proof
  show "signing_bytes (envelope_new ''alice'' ''s'' ''main'' ''x'') \<noteq> signing_bytes (envelope_new ''alic'' ''es'' ''main'' ''x'')"
    using signature_pins_envelope [of "envelope_new ''alice'' ''s'' ''main'' ''x''" "envelope_new ''alic'' ''es'' ''main'' ''x''"]
    by (simp add: envelope_new_def envelope_fits_def fits_def)
  let ?d = "\<lambda>r. derived_from (envelope_new ''alice'' ''s'' ''main'' ''x'') [\<lparr>sr_system = ''web'', sr_record_id = r\<rparr>]"
  have "?d ''p:2'' \<noteq> (?d ''p:1'')\<lparr>e_policy := p, e_signature := g\<rparr>" for p g
    by (simp add: derived_from_def envelope_new_def)
  moreover have "envelope_fits (?d ''p:1'')" "envelope_fits (?d ''p:2'')"
    by (simp_all add: envelope_new_def envelope_fits_def fits_def derived_from_def source_string_def)
  ultimately show "signing_bytes (?d ''p:1'') \<noteq> signing_bytes (?d ''p:2'')"
    using signature_pins_envelope [of "?d ''p:1''" "?d ''p:2''"] by (auto simp: derived_from_def envelope_new_def)
qed

text \<open>A signature verifies for what was signed and for nothing it does not cover: a signed envelope
  verifies under the signer's public key, it keeps verifying when only the policy is replaced, and an
  envelope without a signature, or with one of another length, is refused with the actor's name.\<close>

theorem sign_then_verify:
  assumes "crypto_ok C"
  shows "envelope_verify C (signed_by C e sk) (cr_public C sk) = Inr ()
    \<and> envelope_verify C ((signed_by C e sk)\<lparr>e_policy := p\<rparr>) (cr_public C sk) = Inr ()
    \<and> envelope_verify C (e\<lparr>e_signature := []\<rparr>) vk = Inl (EnvelopeUnsigned (e_actor e))
    \<and> (s \<noteq> [] \<and> length s \<noteq> 64 \<longrightarrow>
         envelope_verify C (e\<lparr>e_signature := s\<rparr>) vk = Inl (EnvelopeSignatureInvalid (e_actor e)))"
proof -
  have "envelope_verify C ((signed_by C e sk)\<lparr>e_policy := p\<rparr>) (cr_public C sk) = Inr ()"
    using sign_verify [OF assms, of e sk] by (simp add: envelope_verify_ok policy_not_signed)
  then show ?thesis using sign_verify [OF assms] by (simp add: envelope_verify_def)
qed

theorem sign_then_verify_witness:
  "envelope_verify demo_crypto (signed_by demo_crypto (envelope_new ''a'' ''s'' ''b'' ''i'') ''k'') (cr_public demo_crypto ''k'') = Inr ()"
  using sign_then_verify [OF demo_crypto_ok] by (rule conjunct1)

section \<open>The key layout\<close>

text \<open>The engine's own key spaces never meet: a derivation node's key determines its branch and its
  sequence number and sorts by the number, the six spaces are pairwise disjoint, the bookkeeping ones
  are all reserved (so a merge skips them) and the provenance ones are not.\<close>

theorem key_layout_unambiguous:
  "(node_storage_key b q = node_storage_key b' q' \<longleftrightarrow> b = b' \<and> q = q')
   \<and> (node_storage_key b q < node_storage_key b q' \<longleftrightarrow> q < q')
   \<and> is_reserved (prov_seq_key b) \<and> is_reserved (latest_node_key k) \<and> is_reserved (history_key s p q)
   \<and> is_reserved (index_key k) \<and> is_reserved (merged_from_key b)
   \<and> is_provenance (node_storage_key b q) \<and> is_provenance (source_index_key src b q)
   \<and> \<not> (is_reserved k \<and> is_provenance k)
   \<and> distinct [prov_seq_key b, latest_node_key k, history_key s p q, index_key k', merged_from_key b',
               node_storage_key b q, source_index_key src b' q']"
proof -
  have "merged_from_key b' \<noteq> prov_seq_key b" "merged_from_key b' \<noteq> latest_node_key k"
    "merged_from_key b' \<noteq> history_key s p q" "merged_from_key b' \<noteq> index_key k'"
    by (simp_all add: merged_from_key_def prov_seq_key_def latest_node_key_def history_key_def index_key_def key_space_defs)
  moreover have "x \<noteq> y" if "is_reserved x" "is_provenance y" for x y using that spaces_disjoint by blast
  ultimately show ?thesis
    using reserved_keys reserved_spaces_distinct provenance_keys spaces_disjoint node_storage_key_order
    by (simp add: node_storage_key_def branch_seq_inj)
qed

text \<open>The versions of one claim never mix with those of another: with subjects and predicates free of
  NUL bytes a history key determines subject, predicate and sequence number, and the versions of one
  claim sort in the order they were written.\<close>

theorem history_keys_separate_claims:
  assumes "CHR 0x00 \<notin> set s \<union> set p" and "CHR 0x00 \<notin> set s' \<union> set p'"
  shows "(history_key s p q = history_key s' p' q' \<longleftrightarrow> s = s' \<and> p = p' \<and> q = q')
    \<and> (history_key s p q < history_key s p q' \<longleftrightarrow> q < q')"
  using history_key_inj [OF assms] history_key_order by blast

theorem history_keys_separate_claims_witness:
  "history_key ''a'' ''bc'' 1 \<noteq> history_key ''ab'' ''c'' 1"
  using history_keys_separate_claims [of "''a''" "''bc''" "''ab''" "''c''" 1 1] by simp

text \<open>A derivation node does not depend on the order or the multiplicity in which its parents and
  sources were collected.\<close>

theorem derivation_node_order_free:
  assumes "set ps = set ps'" and "set ss = set ss'"
  shows "der_node_new C b c k a dl i ps ss = der_node_new C b c k a dl i ps' ss'
    \<and> sorted (dn_derived_from (der_node_new C b c k a dl i ps ss))
    \<and> distinct (dn_derived_from (der_node_new C b c k a dl i ps ss))
    \<and> set (dn_derived_from (der_node_new C b c k a dl i ps ss)) = set ps"
proof -
  have "sort_dedup ps = sort_dedup ps'" by (rule sort_dedup_set [OF assms(1)])
  moreover have "sort_sources ss = sort_sources ss'"
    using sort_dedup_set [of "map (\<lambda>s. (sr_system s, sr_record_id s)) ss" "map (\<lambda>s. (sr_system s, sr_record_id s)) ss'"]
      assms(2) by (simp add: sort_sources_def)
  ultimately show ?thesis
    by (simp add: der_node_new_def Let_def) (simp add: sort_dedup_def sorted_remdups_adj distinct_dedup assms(1))
qed

theorem derivation_node_order_free_witness:
  "der_node_new demo_crypto ''b'' ''c'' ''k'' ''a'' [] ''i'' [''x'', ''y'', ''x''] []
     = der_node_new demo_crypto ''b'' ''c'' ''k'' ''a'' [] ''i'' [''y'', ''x''] []"
  by (rule derivation_node_order_free [THEN conjunct1]) auto

section \<open>Capability tokens\<close>

definition demo_issuer :: issuer where
  "demo_issuer = \<lparr>is_crypto = demo_crypto, is_key = ''key'',
     is_canonical = (\<lambda>c. Some (usize_le (length (tk_tenant c)) @ tk_tenant c @ tk_session c))\<rparr>"

fun extend_all :: "issuer \<Rightarrow> token \<Rightarrow> bytes list \<Rightarrow> loom_error + token" where
  "extend_all I t [] = Inr t"
| "extend_all I t (b # bs) = bind_r (token_extend I t b) (\<lambda>t'. extend_all I t' bs)"

lemma extend_all_claims:
  assumes "crypto_ok (is_crypto I)"
  shows "genuine I t \<Longrightarrow> extend_all I t bs = Inr t' \<Longrightarrow> genuine I t' \<and> tk_scope (tk_claims t') = tk_scope (tk_claims t) \<union> set bs
      \<and> tk_expires (tk_claims t') = tk_expires (tk_claims t)"
proof (induction bs arbitrary: t)
  case (Cons b bs)
  then obtain u where u: "token_extend I t b = Inr u" "extend_all I u bs = Inr t'" by (auto simp: bind_r_Inr_iff)
  note g = token_issue_genuine [OF assms u(1) [unfolded token_extend_def Let_def]]
  then show ?case using Cons.IH [OF g(1) u(2)] by auto
qed auto

text \<open>C38: a token is a bounded capability: whatever branches a freshly issued token is extended to, in
  any order, the result authorizes exactly the branches of its scope and of those extensions, and only
  before its expiry; on its own, a token that this issuer did not sign authorizes nothing.\<close>

theorem token_authorizes_exactly_its_scope:
  assumes "crypto_ok (is_crypto I)" and "token_issue I tenant session scope expires = Inr t0"
    and "extend_all I t0 bs = Inr t"
  shows "(authorize I t branch now = Inr () \<longleftrightarrow> now < expires \<and> branch \<in> scope \<union> set bs)
    \<and> (expires \<le> now \<longrightarrow> authorize I t branch now = Inl (TokenExpired (tk_session (tk_claims t))))
    \<and> (\<not> genuine I t' \<longrightarrow> authorize I t' branch now \<noteq> Inr ())"
proof -
  note i = token_issue_genuine [OF assms(1,2)]
  note e = extend_all_claims [OF assms(1) i(1) assms(3)]
  then show ?thesis using i(2) by (auto simp: authorize_genuine authorize_ok)
qed

theorem token_authorizes_exactly_its_scope_witness:
  "\<exists>t0 t. token_issue demo_issuer ''acme'' ''s'' {''main''} 100 = Inr t0 \<and> extend_all demo_issuer t0 [''fork''] = Inr t
     \<and> authorize demo_issuer t ''fork'' 99 = Inr () \<and> authorize demo_issuer t ''fork'' 100 \<noteq> Inr ()
     \<and> authorize demo_issuer t ''other'' 5 \<noteq> Inr ()"
proof -
  obtain t0 t where t: "token_issue demo_issuer ''acme'' ''s'' {''main''} 100 = Inr t0" "extend_all demo_issuer t0 [''fork''] = Inr t"
    by (simp add: token_issue_def demo_issuer_def canonical_def token_extend_def Let_def)
  have ok: "crypto_ok (is_crypto demo_issuer)" by (simp add: demo_issuer_def demo_crypto_ok)
  show ?thesis
    using t token_authorizes_exactly_its_scope [OF ok t, of "''fork''" 99] token_authorizes_exactly_its_scope [OF ok t, of "''fork''" 100]
      token_authorizes_exactly_its_scope [OF ok t, of "''other''" 5] by auto
qed

end
