(* ===== verification/LoomSessionDemo.thy ===== *)
theory LoomSessionDemo
  imports LoomSessionLaws LoomAncestry LoomProvProps LoomDemo
begin

text \<open>
  A concrete database for the witnesses: a page store that keeps one environment per commit, the
  in-memory ref store, and a serializer of blobs and counters.
\<close>

fun cell :: "record_t \<Rightarrow> bytes option" where
  "cell (RValue (Blob b)) = Some (CHR ''B'' # b)"
| "cell (RValue (Counter n)) = Some (CHR ''C'' # u64_be n)"
| "cell _ = None"

fun uncell :: "bytes \<Rightarrow> record_t option" where
  "uncell (t # b) = (if t = CHR ''B'' then Some (RValue (Blob b))
     else if t = CHR ''C'' then Some (RValue (Counter (word_of_nat (nat_of_le (rev b))))) else None)"
| "uncell [] = None"

lemma uncell_cell: "cell r = Some b \<Longrightarrow> uncell b = Some r"
proof (induction r rule: cell.induct)
  case (2 n)
  have "nat_of_le (rev (u64_be n)) = unat n"
    using unat_u64_less [of n] by (simp add: u64_be_def be_bytes_def nat_of_le_bytes)
  then show ?case using 2 by auto
qed auto

fun map_opt :: "('a \<Rightarrow> 'b option) \<Rightarrow> 'a list \<Rightarrow> 'b list option" where
  "map_opt f [] = Some []"
| "map_opt f (x # xs) = (case f x of None \<Rightarrow> None | Some y \<Rightarrow> map_option ((#) y) (map_opt f xs))"

lemma map_opt_inv: "(\<And>x y. f x = Some y \<Longrightarrow> g y = Some x) \<Longrightarrow> map_opt f xs = Some ys \<Longrightarrow> map_opt g ys = Some xs"
  by (induction xs arbitrary: ys) (auto split: option.splits)

definition entry_cell :: "key \<times> record_t \<Rightarrow> (key \<times> bytes) option" where
  "entry_cell e = map_option (Pair (fst e)) (cell (snd e))"

definition entry_uncell :: "key \<times> bytes \<Rightarrow> (key \<times> record_t) option" where
  "entry_uncell e = map_option (Pair (fst e)) (uncell (snd e))"

fun enc_node :: "record_t node \<Rightarrow> bytes option" where
  "enc_node (Leaf es) = map_option (\<lambda>xs. d_node (Leaf xs)) (map_opt entry_cell es)"
| "enc_node (Internal ks cs) = Some (d_node (Internal ks cs))"

definition dec_node :: "bytes \<Rightarrow> bytes + record_t node" where
  "dec_node b =
     (case r_node b of
        Inl e \<Rightarrow> Inl e
      | Inr (Leaf xs) \<Rightarrow> (case map_opt entry_uncell xs of None \<Rightarrow> Inl ''record'' | Some es \<Rightarrow> Inr (Leaf es))
      | Inr (Internal ks cs) \<Rightarrow> Inr (Internal ks cs))"

lemma dec_enc: "enc_node n = Some b \<Longrightarrow> dec_node b = Inr n"
proof (cases n)
  case (Leaf es)
  assume "enc_node n = Some b"
  then obtain xs where xs: "map_opt entry_cell es = Some xs" "b = d_node (Leaf xs)" using Leaf by auto
  have "map_opt entry_uncell xs = Some es"
    by (rule map_opt_inv [OF _ xs(1)]) (auto simp: entry_cell_def entry_uncell_def uncell_cell)
  then show ?thesis using xs Leaf r_node [of "Leaf xs"] by (simp add: dec_node_def del: d_node.simps)
next
  case (Internal ks cs)
  assume "enc_node n = Some b"
  then have "b = d_node (Internal ks cs)" using Internal by simp
  then show ?thesis using Internal r_node [of "Internal ks cs"] by (simp add: dec_node_def del: d_node.simps)
qed

definition rec_env :: "record_t tree_env" where
  "rec_env = \<lparr>te_read_head = (\<lambda>_. PageNotFound), te_page_size = 4096, te_write_error = (\<lambda>_ _. None),
     te_encode = enc_node, te_decode = dec_node, te_size = (\<lambda>v. Some 0),
     te_encode_meta = (\<lambda>m. Some (d_meta m)), te_decode_meta = r_meta\<rparr>"

lemma rec_codec: "codec_roundtrip rec_env"
  by (simp add: codec_roundtrip_def rec_env_def dec_enc)

text \<open>While everything fits one leaf, an insert into it succeeds.\<close>

definition leaf_tree :: "(key \<times> record_t) list \<Rightarrow> nat \<Rightarrow> nat \<Rightarrow> record_t tree" where
  "leaf_tree es n sz = \<lparr>t_dirty = [1 \<mapsto> Leaf es], t_sizes = [1 \<mapsto> sz],
     t_meta = meta_empty\<lparr>m_count := n\<rparr>, t_meta_dirty = True\<rparr>"

definition small_leaf :: "nat \<Rightarrow> (key \<times> record_t) list \<Rightarrow> record_t tree \<Rightarrow> bool" where
  "small_leaf B es t \<longleftrightarrow> skeys es \<and> (\<exists>n sz. t = leaf_tree es n sz \<and> sz \<le> B)"

lemma rec_open: "tree_open rec_env = Inr empty_tree"
  by (simp add: tree_open_def rec_env_def empty_tree_def)

lemma rec_env_sel [simp]:
  "te_read_head rec_env p = PageNotFound" "te_page_size rec_env = 4096" "te_write_error rec_env p b = None"
  "te_encode rec_env = enc_node" "te_size rec_env v = Some 0" "te_encode_meta rec_env m = Some (d_meta m)"
  by (simp_all add: rec_env_def)

lemma root_leaf_insert:
  assumes "take_node T t 1 = Inr (u, Leaf es)" and "m_root (t_meta t) = 1" and "m_next_free (t_meta t) = Suc f"
    and "leaf_insert T u 1 es k v = Inr (t', None)"
  shows "tree_insert T t k v = Inr t'"
  using assms by (simp add: tree_insert_def tree_fuel_def)

lemma fits_leaf: "est \<le> 2867 \<Longrightarrow> overflowed rec_env n est = Inr (est, False)"
  by (simp add: overflowed_def fill_limit_4096)

lemma rec_cost: "entry_cost rec_env k v = Inr (length k + 24)"
  by (simp add: entry_cost_def SLACK_def)

lemma small_leaf_start:
  assumes "length k \<le> 1000"
  obtains t' where "tree_insert rec_env empty_tree k v = Inr t'" "small_leaf (2000 + length k) [(k, v)] t'"
proof -
  have l: "length (d_node (Leaf ([] :: (key \<times> bytes) list))) = 2" by (simp add: d_list_def d_nat_def d_str_def)
  have est: "26 + length k \<le> 2867" using assms by simp
  have "tree_insert rec_env empty_tree k v = Inr (leaf_tree [(k, v)] 1 (2 + (length k + 24)))"
  proof (rule root_leaf_insert)
    show "take_node rec_env empty_tree 1 = Inr (empty_tree, Leaf [])" by (simp add: take_node_def node_def empty_tree_def)
    show "leaf_insert rec_env empty_tree 1 [] k v = Inr (leaf_tree [(k, v)] 1 (2 + (length k + 24)), None)"
      by (simp add: leaf_insert_def size_of_def node_encode_def leaf_put_def found_at_def lower_bound_def rec_cost insert_at_def
          fits_leaf [OF est] set_sized_def leaf_tree_def empty_tree_def l meta_empty_def del: d_node.simps)
  qed (simp_all add: empty_tree_def meta_empty_def)
  moreover have "small_leaf (2000 + length k) [(k, v)] (leaf_tree [(k, v)] 1 (2 + (length k + 24)))"
    unfolding small_leaf_def by (intro conjI exI, simp, rule refl, simp)
  ultimately show thesis by (rule that)
qed

lemma leaf_tree_insert:
  assumes "skeys es" and "sz + (length k + 24) \<le> 2867"
  shows "\<exists>m z. tree_insert rec_env (leaf_tree es n sz) k v = Inr (leaf_tree (put k v es) m z) \<and> z \<le> sz + (length k + 24)"
proof (cases "found_at es k")
  case None
  have "tree_insert rec_env (leaf_tree es n sz) k v = Inr (leaf_tree (put k v es) (n + 1) (sz + (length k + 24)))"
    by (rule root_leaf_insert [of _ _ "leaf_tree es n sz\<lparr>t_dirty := Map.empty\<rparr>" es 1])
      (simp_all add: take_node_def leaf_tree_def meta_empty_def leaf_insert_def size_of_def leaf_put_def None rec_cost
        fits_leaf [OF assms(2)] set_sized_def leaf_update [OF assms(1)])
  then show ?thesis by blast
next
  case (Some i)
  let ?z = "sz - (length (fst (es ! i)) + 24) + (length k + 24)"
  have z: "?z \<le> 2867" using assms(2) by simp
  have "tree_insert rec_env (leaf_tree es n sz) k v = Inr (leaf_tree (put k v es) n ?z)"
    by (rule root_leaf_insert [of _ _ "leaf_tree es n sz\<lparr>t_dirty := Map.empty\<rparr>" es 1])
      (simp_all add: take_node_def leaf_tree_def meta_empty_def leaf_insert_def size_of_def leaf_put_def Some rec_cost
        fits_leaf [OF z, simplified] set_sized_def leaf_update [OF assms(1)])
  then show ?thesis by (intro exI conjI) (assumption, simp)
qed

lemma small_leaf_insert:
  assumes "small_leaf B es t" and "B + length k + 24 \<le> 2867"
  obtains t' where "tree_insert rec_env t k v = Inr t'" "small_leaf (B + length k + 24) (put k v es) t'"
proof -
  obtain n sz where t: "t = leaf_tree es n sz" "sz \<le> B" "skeys es" using assms(1) by (auto simp: small_leaf_def)
  obtain m z where "tree_insert rec_env t k v = Inr (leaf_tree (put k v es) m z)" "z \<le> sz + (length k + 24)"
    using leaf_tree_insert [OF t(3), of sz k n v] assms(2) t(1,2) by auto
  moreover from this(2) have "z \<le> B + length k + 24" using t(2) by simp
  ultimately show thesis using that skeys_put [OF t(3), of k v] unfolding small_leaf_def by blast
qed

lemma small_leaf_get:
  assumes "small_leaf B es t"
  shows "tree_get rec_env t k = Inr (t, map_of es k)"
  using assms leaf_lookup [of es k]
  by (auto simp: small_leaf_def tree_get_def tree_fuel_def leaf_tree_def meta_empty_def node_def numeral_2_eq_2)

lemma small_leaf_flush:
  assumes "small_leaf B es t" and "map_opt entry_cell es = Some xs"
  shows "\<exists>ws. tree_flush rec_env t = Inr ws"
  using assms by (auto simp: small_leaf_def tree_flush_def leaf_tree_def node_encode_def)

type_synonym demo_pages = "commit_id \<Rightarrow> record_t tree_env option"

text \<open>The id of a commit extends its base's; a commit under a taken id is refused.\<close>

definition demo_pager :: "demo_pages pager" where
  "demo_pager = \<lparr>pg_root = (\<lambda>_. Inr ''r''),
     pg_fork = (\<lambda>p c. case p c of None \<Rightarrow> Inl (PagerError ''no manifest'') | Some T \<Rightarrow> Inr T),
     pg_begin = (\<lambda>_ _. Inr ()),
     pg_commit = (\<lambda>p base ws. case p base of
         None \<Rightarrow> (p, Inl (PagerError ''no manifest''))
       | Some T \<Rightarrow> if p (base @ ''+'') \<noteq> None then (p, Inl (PagerError ''taken''))
                   else (p(base @ ''+'' \<mapsto> commit_writes T ws), Inr (base @ ''+''))),
     pg_parent = (\<lambda>_ _. None), pg_diff3 = (\<lambda>_ _ _ _. Inr [0, 1]),
     pg_gc = (\<lambda>p _. (p, Inr 0)), pg_scrub = (\<lambda>_ _. Inr [])\<rparr>"

lemma demo_pager_ok: "pager_ok demo_pager"
  by (auto simp: pager_ok_def demo_pager_def split: option.splits if_splits)

definition mem_io :: "refs option refs_io" where
  "mem_io = \<lparr>io_load = mem_load, io_save = mem_save, io_apply = mem_apply\<rparr>"

definition demo_loom_codec :: loom_codec where
  "demo_loom_codec = \<lparr>lc_node_encode = (\<lambda>n. Some (dn_key n @ dn_actor n)), lc_node_decode = (\<lambda>_. None),
     lc_index_encode = (\<lambda>_. None), lc_index_decode = (\<lambda>_. None), lc_version_encode = (\<lambda>_. None),
     lc_version_decode = (\<lambda>_. None), lc_embedding_encode = (\<lambda>_. None)\<rparr>"

definition demo_lenv :: "(demo_pages, refs option) loom_env" where
  "demo_lenv = \<lparr>en_pager = demo_pager, en_store = mem_io, en_issuer = demo_issuer, en_codec = demo_loom_codec,
     en_tenant = ''acme''\<rparr>"

definition demo_pages0 :: demo_pages where "demo_pages0 = [''r'' \<mapsto> rec_env]"

definition demo_refs0 :: refs where
  "demo_refs0 = \<lparr>rf_version = 1, rf_branches = [(''main'', ''r''), (''s1'', ''r'')], rf_tags = [], rf_commits = []\<rparr>"

definition demo_loom :: "(demo_pages, refs option) loom" where
  "demo_loom = fresh_loom demo_pages0 (Some demo_refs0) demo_refs0"

definition demo_claims :: token_claims where
  "demo_claims = \<lparr>tk_tenant = ''acme'', tk_session = ''s1'', tk_scope = {''main'', ''s1''}, tk_expires = 100\<rparr>"

definition demo_token :: token where
  "demo_token = \<lparr>tk_claims = demo_claims, tk_signature = demo_sign ''key'' (the (is_canonical demo_issuer demo_claims))\<rparr>"

definition demo_envelope :: envelope where
  "demo_envelope = envelope_new ''alice'' ''s1'' ''s1'' ''note''"

lemma demo_loom_sel [simp]:
  "en_pager demo_lenv = demo_pager" "en_store demo_lenv = mem_io" "en_issuer demo_lenv = demo_issuer"
  "en_codec demo_lenv = demo_loom_codec" "en_tenant demo_lenv = ''acme''"
  "lm_refs demo_loom = demo_refs0" "lm_pager demo_loom = demo_pages0" "lm_store demo_loom = Some demo_refs0"
  "lm_keys demo_loom = None" "lm_edits demo_loom = []" "lm_reads demo_loom = Map.empty"
  by (simp_all add: demo_lenv_def demo_loom_def fresh_loom_def)

lemma demo_heads: "head b demo_loom = (if b = ''main'' \<or> b = ''s1'' then Inr ''r'' else Inl (NoSuchBranch b))"
  by (auto simp: head_def demo_refs0_def)

lemma demo_root: "commit_good demo_lenv demo_loom ''r'' []"
  using empty_store [of rec_env] rec_codec rec_open
  by (auto simp: commit_good_def demo_pager_def demo_pages0_def)

lemma demo_loom_ok: "loom_ok demo_lenv demo_loom"
  using demo_root demo_heads by (auto simp: loom_ok_def refs_wf_def demo_refs0_def REFS_FORMAT_VERSION_def less_list_code split: if_splits)

lemma demo_envelope_valid: "envelope_is_valid demo_envelope"
  by code_simp

lemma demo_checks:
  "authenticate demo_lenv demo_loom demo_envelope = Inr ()"
  "authorize demo_issuer demo_token ''s1'' 5 = Inr ()" "authorize demo_issuer demo_token ''main'' 5 = Inr ()"
  by (simp_all add: authenticate_def
      authorize_ok genuine_def demo_token_def demo_issuer_def demo_claims_def demo_crypto_def demo_sign_def)

definition demo_records :: "(key \<times> record_t) list" where
  "demo_records = [(''k'', RValue (Blob ''v''))]"

text \<open>A write of that one record: the body fits one leaf, so the flush and the commit succeed.\<close>

definition demo_node :: "envelope \<Rightarrow> read_set \<Rightarrow> der_node" where
  "demo_node e captured = hd (derivation_nodes demo_crypto ''s1'' ''r'' demo_records e captured Map.empty)"

lemma demo_nodes:
  "derivation_nodes demo_crypto ''s1'' ''r'' demo_records e captured Map.empty = [demo_node e captured]"
  "dn_key (demo_node e captured) = ''k''" "dn_sources (demo_node e captured) = sort_sources (rs_sources captured @ e_derived_from e)"
  by (simp_all add: demo_node_def derivation_nodes_def demo_records_def is_provenance_def key_space_defs der_node_new_def node_sources_def Let_def)

lemma small_leaf_mono: "small_leaf B es t \<Longrightarrow> B \<le> C \<Longrightarrow> small_leaf C es t"
  unfolding small_leaf_def by (elim conjE exE, intro conjI exI, assumption, assumption, erule (1) le_trans)

lemma small_leaf_step:
  assumes "small_leaf B es t" and "length k \<le> 76" and "B \<le> 2700"
  obtains t' where "tree_insert rec_env t k v = Inr t'" "small_leaf (B + 100) (put k v es) t'"
proof -
  have "B + length k + 24 \<le> 2867" using assms(2,3) by simp
  from small_leaf_insert [OF assms(1) this] obtain t' where
    "tree_insert rec_env t k v = Inr t'" "small_leaf (B + length k + 24) (put k v es) t'" .
  moreover have "small_leaf (B + 100) (put k v es) t'"
    using small_leaf_mono [OF calculation(2)] assms(2) by simp
  ultimately show thesis using that by blast
qed

lemma put_cells:
  assumes "cell v \<noteq> None" and "\<exists>xs. map_opt entry_cell es = Some xs"
  shows "\<exists>ys. map_opt entry_cell (put k v es) = Some ys"
proof -
  obtain xs where "map_opt entry_cell es = Some xs" using assms(2) by blast
  then show ?thesis using assms(1) by (induction es arbitrary: xs) (auto simp: entry_cell_def split: option.splits)
qed

lemma demo_body:
  assumes "rs_sources captured @ e_derived_from e = []"
  shows "\<exists>t xs. write_body demo_lenv rec_env ''s1'' ''r'' demo_records e captured Map.empty Map.empty empty_tree = Inr t
     \<and> (\<exists>B es. small_leaf B es t \<and> map_opt entry_cell es = Some xs)"
proof -
  let ?n = "demo_node e captured"
  let ?b = "dn_key ?n @ dn_actor ?n"
  let ?e1 = "[(''k'', RValue (Blob ''v''))]"
  obtain t1 where t1: "tree_insert rec_env empty_tree ''k'' (RValue (Blob ''v'')) = Inr t1" "small_leaf 2001 ?e1 t1"
    using small_leaf_start [of "''k''"] by auto
  have g: "tree_get rec_env t1 (prov_seq_key ''s1'') = Inr (t1, None)"
    using small_leaf_get [OF t1(2)] by (simp add: prov_seq_key_def key_space_defs)
  let ?e2 = "put (node_storage_key ''s1'' 0) (RValue (Blob ?b)) ?e1"
  obtain t2 where t2: "tree_insert rec_env t1 (node_storage_key ''s1'' 0) (RValue (Blob ?b)) = Inr t2" "small_leaf 2101 ?e2 t2"
    by (rule small_leaf_step [OF t1(2), of "node_storage_key ''s1'' 0"])
      (auto simp: node_storage_key_def branch_seq_def PROV_PREFIX_def)
  let ?e3 = "put (latest_node_key ''k'') (RValue (Blob (dn_id ?n))) ?e2"
  obtain t3 where t3: "tree_insert rec_env t2 (latest_node_key ''k'') (RValue (Blob (dn_id ?n))) = Inr t3" "small_leaf 2201 ?e3 t3"
    by (rule small_leaf_step [OF t2(2), of "latest_node_key ''k''"]) (auto simp: latest_node_key_def LATEST_PREFIX_def)
  let ?e4 = "put (prov_seq_key ''s1'') (RValue (Counter 1)) ?e3"
  obtain t4 where t4: "tree_insert rec_env t3 (prov_seq_key ''s1'') (RValue (Counter 1)) = Inr t4" "small_leaf 2301 ?e4 t4"
    by (rule small_leaf_step [OF t3(2), of "prov_seq_key ''s1''"]) (auto simp: prov_seq_key_def PROV_SEQ_PREFIX_def)
  have "\<exists>xs. map_opt entry_cell ?e4 = Some xs"
    by (intro put_cells) (simp_all add: entry_cell_def)
  moreover have "write_body demo_lenv rec_env ''s1'' ''r'' demo_records e captured Map.empty Map.empty empty_tree = Inr t4"
  proof -
    have "insert_records rec_env demo_records empty_tree = Inr t1"
      using t1(1) by (simp add: insert_records_def demo_records_def)
    moreover have "write_provenance demo_lenv rec_env ''s1'' ''r'' demo_records e captured Map.empty t1 = Inr t4"
    proof -
      have ds: "dn_sources ?n = []" using demo_nodes(3) [of e captured] assms by (simp add: sort_sources_def sort_dedup_def)
      have "insert_node_records demo_loom_codec rec_env ''s1'' ?n (t1, 0) = Inr (t3, 1)"
        using t2(1) t3(1) demo_nodes(2) [of e captured] ds
        by (simp add: insert_node_records_def node_encode_blob_def demo_loom_codec_def put_blob_def next_seq_def u64_add_def)
      then show ?thesis
        using g t4(1) demo_nodes(1) [of e captured]
        by (simp add: write_provenance_def read_counter_def demo_records_def is_provenance_def is_reserved_def key_space_defs demo_issuer_def)
    qed
    ultimately show ?thesis
      by (simp add: write_body_def demo_records_def write_index_def write_history_def)
  qed
  ultimately show ?thesis using t4(2) by blast
qed

end
