(* ===== verification/LoomSessionProps.thy ===== *)
theory LoomSessionProps
  imports LoomSessionDemo
begin

text \<open>
  The properties of the session layer (\<open>session.rs\<close>), with witnesses on the database of
  \<open>LoomSessionDemo\<close>.
\<close>

section \<open>The concrete write\<close>

lemma demo_transact:
  assumes "loom_ok demo_lenv l" and "lm_pager l = demo_pages0" and "lm_refs l = demo_refs0" and "lm_store l = Some demo_refs0"
    and "lm_edits l = []"
    and "rs_sources captured @ e_derived_from e = []"
  obtains l' where "transact demo_lenv ''s1'' (\<lambda>h T t. bind_r (write_body demo_lenv T ''s1'' h demo_records e captured Map.empty Map.empty t)
        (\<lambda>t. Inr (t, ()))) l = (l', Inr (''r+'', ()))"
proof -
  obtain t B es xs where t: "write_body demo_lenv rec_env ''s1'' ''r'' demo_records e captured Map.empty Map.empty empty_tree = Inr t"
    "small_leaf B es t" "map_opt entry_cell es = Some xs" using demo_body [OF assms(6)] by blast
  obtain ws where ws: "tree_flush rec_env t = Inr ws" using small_leaf_flush [OF t(2,3)] by blast
  have h: "head ''s1'' l = Inr ''r''" using assms(3) by (simp add: head_def demo_refs0_def)
  have "map_of (rf_branches demo_refs0) ''s1'' = Some ''r''" "rf_commits demo_refs0 = []" by (simp_all add: demo_refs0_def)
  then show thesis
    using h t(1) ws assms(2-5)
    by (intro that) (simp add: transact_def bind_s_def rec_open demo_pager_def demo_pages0_def commit_txn_def record_commit_def Let_def
        push_edit_def with_commits_def set_head_def with_branches_def persist_def mem_io_def mem_apply_def)
qed

lemma demo_write:
  obtains l' where "write_many demo_lenv demo_token ''s1'' demo_records demo_envelope 5 demo_loom = (l', Inr ''r+'')"
proof -
  let ?l = "demo_loom\<lparr>lm_reads := (lm_reads demo_loom)(e_session demo_envelope := None)\<rparr>"
  have c: "session_reads (e_session demo_envelope) demo_loom = read_set_default" by (simp add: session_reads_def)
  obtain l' where "transact demo_lenv ''s1'' (\<lambda>h T t. bind_r (write_body demo_lenv T ''s1'' h demo_records demo_envelope read_set_default Map.empty Map.empty t)
        (\<lambda>t. Inr (t, ()))) ?l = (l', Inr (''r+'', ()))"
    by (rule demo_transact [of ?l read_set_default demo_envelope])
      (use demo_loom_ok in \<open>simp_all add: read_set_default_def demo_envelope_def envelope_new_def\<close>)
  then show thesis
    using demo_checks demo_envelope_valid c
    by (intro that) (simp add: write_many_def write_many_derived_def write_all_def check_envelope_def take_read_set_def bind_s_def)
qed

section \<open>Writing\<close>

text \<open>C2: a successful write is exactly the write that was asked for: it passed the envelope check, the
  actor's authentication and the token's scope; afterwards every key of the caller reads the last record
  the batch wrote under it, or what it read before; no other branch moves or reads differently; every
  earlier commit still reads as before; and the database is again in order, although the same
  commit also carries the provenance, the index entries and the claim history.\<close>

theorem write_updates_exactly:
  assumes "pager_ok (en_pager E)" and "loom_ok E l"
    and "write_all E tok b records e extra hints now l = (l', Inr c)"
  shows "envelope_is_valid e \<and> authenticate E l e = Inr () \<and> authorize (en_issuer E) tok b now = Inr ()
    \<and> loom_ok E l' \<and> head b l' = Inr c
    \<and> (\<exists>es. holds E l b es \<and> (\<forall>k. caller_key k \<longrightarrow> read_branch E l' b k = Inr (last_write records es k)))
    \<and> (\<forall>d. d \<noteq> b \<longrightarrow> head d l' = head d l \<and> (\<forall>k. read_branch E l' d k = read_branch E l d k))
    \<and> (\<forall>d fs. commit_good E l d fs \<longrightarrow> commit_good E l' d fs)"
proof -
  have checks: "envelope_is_valid e \<and> authenticate E l e = Inr () \<and> authorize (en_issuer E) tok b now = Inr ()"
    by (rule write_all_checks [OF assms(3)]) simp
  show ?thesis
  proof (rule write_all_result [OF assms])
    fix es es' h new
    assume r: "holds E l b es" "head b l' = Inr c" "loom_ok E l'" "\<And>d. d \<noteq> b \<Longrightarrow> head d l' = head d l"
      "\<And>d fs. commit_good E l d fs \<Longrightarrow> commit_good E l' d fs"
    show ?thesis using checks r write_all_reads [OF assms r(1)] by blast
  qed
qed

theorem write_updates_exactly_witness:
  "\<exists>l'. write_many demo_lenv demo_token ''s1'' demo_records demo_envelope 5 demo_loom = (l', Inr ''r+'')
     \<and> read_branch demo_lenv l' ''s1'' ''k'' = Inr (Some (RValue (Blob ''v'')))
     \<and> read_branch demo_lenv l' ''main'' ''k'' = Inr None"
proof -
  obtain l' where w: "write_many demo_lenv demo_token ''s1'' demo_records demo_envelope 5 demo_loom = (l', Inr ''r+'')"
    by (rule demo_write)
  then have wa: "write_all demo_lenv demo_token ''s1'' demo_records demo_envelope Map.empty Map.empty 5 demo_loom = (l', Inr ''r+'')"
    by (simp add: write_many_def write_many_derived_def)
  have p: "pager_ok (en_pager demo_lenv)" by (simp add: demo_pager_ok)
  note u = write_updates_exactly [OF p demo_loom_ok wa]
  have "caller_key ''k''" by (simp add: caller_key_def is_reserved_def is_provenance_def key_space_defs)
  then have "read_branch demo_lenv l' ''s1'' ''k'' = Inr (Some (RValue (Blob ''v'')))"
    using u by (auto simp: last_write_def demo_records_def)
  moreover have "read_branch demo_lenv demo_loom ''main'' ''k'' = Inr None"
    using holds_read [of demo_lenv demo_loom "''main''" "[]" "''k''"] demo_root demo_heads by (auto simp: holds_def)
  ultimately show ?thesis using u w by auto
qed

text \<open>C36: in a database with an actor registry nothing is written in another's name: a write that
  succeeds carries a signature over exactly its own signed bytes that verifies under the key the
  registry holds for the actor it names, and a revoked or unknown actor writes nothing.\<close>

theorem only_registered_signers_write:
  assumes "lm_keys l = Some ks" and "write_all E tok b records e extra hints now l = (l', Inr c)"
  shows "\<exists>k. map_of ks (e_actor e) = Some k \<and> length (e_signature e) = 64
    \<and> cr_verify (en_crypto E) k (signing_bytes e) (e_signature e) = None"
proof -
  have "authenticate E l e = Inr ()" by (rule write_all_checks [OF assms(2)])
  then show ?thesis using assms(1) by (auto simp: authenticate_def envelope_verify_ok split: option.splits)
qed

definition demo_signed :: envelope where
  "demo_signed = signed_by demo_crypto demo_envelope ''key''"

definition demo_secure :: "(demo_pages, refs option) loom" where
  "demo_secure = with_actor_keys [(''alice'', ''key'')] demo_loom"

lemma demo_secure_write:
  obtains l' where "write_many demo_lenv demo_token ''s1'' demo_records demo_signed 5 demo_secure = (l', Inr ''r+'')"
proof -
  let ?l = "demo_secure\<lparr>lm_reads := (lm_reads demo_secure)(e_session demo_signed := None)\<rparr>"
  have s: "lm_refs demo_secure = demo_refs0" "lm_pager demo_secure = demo_pages0" "lm_store demo_secure = Some demo_refs0"
    "lm_edits demo_secure = []" "lm_reads demo_secure = Map.empty" "lm_keys demo_secure = Some [(''alice'', ''key'')]"
    by (simp_all add: demo_secure_def with_actor_keys_def with_keys_def collect_keys_def)
  have c: "session_reads (e_session demo_signed) demo_secure = read_set_default" using s by (simp add: session_reads_def)
  have ok: "loom_ok demo_lenv demo_secure"
    using demo_loom_ok s by (simp add: loom_ok_def head_def commit_good_def)
  have v: "envelope_is_valid demo_signed" using demo_envelope_valid by (simp add: demo_signed_def signed_by_def envelope_is_valid_def)
  have a: "authenticate demo_lenv demo_secure demo_signed = Inr ()"
    using s sign_verify [OF demo_crypto_ok, of demo_envelope "''key''"]
    by (simp add: authenticate_def demo_signed_def signed_by_def demo_envelope_def envelope_new_def demo_issuer_def)
      (simp add: demo_crypto_def)
  obtain l' where "transact demo_lenv ''s1'' (\<lambda>h T t. bind_r (write_body demo_lenv T ''s1'' h demo_records demo_signed read_set_default Map.empty Map.empty t)
        (\<lambda>t. Inr (t, ()))) ?l = (l', Inr (''r+'', ()))"
    by (rule demo_transact [of ?l read_set_default demo_signed])
      (use ok s in \<open>simp_all add: read_set_default_def demo_signed_def signed_by_def demo_envelope_def envelope_new_def\<close>)
  then show thesis
    using demo_checks v a c
    by (intro that) (simp add: write_many_def write_many_derived_def write_all_def check_envelope_def take_read_set_def bind_s_def)
qed

theorem only_registered_signers_write_witness:
  "\<exists>k. map_of [(''alice'', ''key'')] (e_actor demo_signed) = Some k \<and> length (e_signature demo_signed) = 64
    \<and> cr_verify (en_crypto demo_lenv) k (signing_bytes demo_signed) (e_signature demo_signed) = None"
proof -
  obtain l' where "write_many demo_lenv demo_token ''s1'' demo_records demo_signed 5 demo_secure = (l', Inr ''r+'')"
    by (rule demo_secure_write)
  then have w: "write_all demo_lenv demo_token ''s1'' demo_records demo_signed Map.empty Map.empty 5 demo_secure = (l', Inr ''r+'')"
    by (simp add: write_many_def write_many_derived_def)
  have k: "lm_keys demo_secure = Some [(''alice'', ''key'')]"
    by (simp add: demo_secure_def with_actor_keys_def with_keys_def collect_keys_def)
  show ?thesis by (rule only_registered_signers_write [OF k w])
qed

section \<open>Durability\<close>

text \<open>The store holds exactly the refs in memory, and nothing waits to be written.\<close>

definition durable :: "('s \<Rightarrow> bool) \<Rightarrow> ('s \<Rightarrow> refs option) \<Rightarrow> ('p, 's) loom \<Rightarrow> bool" where
  "durable okS absS l \<longleftrightarrow> okS (lm_store l) \<and> absS (lm_store l) = Some (lm_refs l) \<and> lm_edits l = []"

abbreviation store_laws :: "('p, 's) loom_env \<Rightarrow> ('s \<Rightarrow> bool) \<Rightarrow> ('s \<Rightarrow> refs option) \<Rightarrow> (ref_edit \<Rightarrow> bool) \<Rightarrow> bool" where
  "store_laws E okS absS fitE \<equiv>
     ref_store okS absS fitE (io_load (en_store E)) (io_save (en_store E)) (io_apply (en_store E))"

lemma applied_durable:
  assumes "store_laws E okS absS fitE" and "durable okS absS l" and "list_all fitE es" and "es \<noteq> []"
    and "io_apply (en_store E) (lm_store l) es = (lm_store l', Inr ())" and "lm_refs l' = apply_edits es (lm_refs l)" and "lm_edits l' = []"
  shows "durable okS absS l'"
proof -
  have d: "okS (lm_store l)" "absS (lm_store l) = Some (lm_refs l)" using assms(2) by (simp_all add: durable_def)
  have "okS (lm_store l') \<and> absS (lm_store l') = Some (edited (absS (lm_store l)) es)"
    by (rule ref_store.append [OF assms(1) d(1) _ assms(3,5)]) (simp add: assms(4))
  then show ?thesis using d(2) assms(6,7) by (simp add: durable_def edited_def)
qed

lemma durable_reopens:
  assumes "store_laws E okS absS fitE" and "durable okS absS l"
  shows "assemble E (lm_pager l, lm_store l) = Inr (fresh_loom (lm_pager l) (lm_store l) (lm_refs l))"
proof -
  have "io_load (en_store E) (lm_store l) = Inr (Some (lm_refs l))"
    using ref_store.load [OF assms(1)] assms(2) by (simp add: durable_def)
  then show ?thesis by (simp add: assemble_def)
qed

text \<open>C35: an acknowledged write survives a restart: with the ref store keeping its laws, the store
  holds exactly the refs in memory after the write, so a database assembled afresh from the page
  store and the ref store has every branch where it was and reads every key as before.\<close>

theorem acknowledged_write_survives_restart:
  assumes "store_laws E okS absS fitE" and "pager_ok (en_pager E)" and "loom_ok E l" and "durable okS absS l"
    and "write_all E tok b records e extra hints now l = (l', Inr c)"
    and "head b l = Inr h" and "fitE (SetHead b c)" and "fitE (RecordCommit c [h])"
  shows "durable okS absS l' \<and> (\<exists>l''. assemble E (lm_pager l', lm_store l') = Inr l''
    \<and> (\<forall>d k. head d l'' = head d l' \<and> read_branch E l'' d k = read_branch E l' d k))"
proof -
  have d: "durable okS absS l'"
  proof (rule write_all_result [OF assms(2,3,5)])
    fix es es' h' new
    let ?l = "l\<lparr>lm_reads := (lm_reads l)(e_session e := None)\<rparr>"
    assume r: "head b l = Inr h'" "head_moved E ?l b c new l'" "new \<in> {[], [RecordCommit c [h']]}"
    have dl: "durable okS absS ?l" using assms(4) by (simp add: durable_def)
    have f: "list_all fitE (new @ [SetHead b c])" using r(1,3) assms(6-8) by auto
    have m: "lm_refs l' = apply_edits (new @ [SetHead b c]) (lm_refs ?l)" "lm_edits l' = []"
      "io_apply (en_store E) (lm_store ?l) (new @ [SetHead b c]) = (lm_store l', Inr ())"
      using r(2) assms(4) by (simp_all add: head_moved_def durable_def)
    show ?thesis by (rule applied_durable [OF assms(1) dl f _ m(3,1,2)]) simp
  qed
  have "read_branch E (fresh_loom (lm_pager l') (lm_store l') (lm_refs l')) d k = read_branch E l' d k"
    "head d (fresh_loom (lm_pager l') (lm_store l') (lm_refs l')) = head d l'" for d k
    by (simp_all add: read_branch_def read_commit_def head_def fresh_loom_def)
  then show ?thesis using d durable_reopens [OF assms(1) d] by blast
qed

lemma demo_store_laws: "store_laws demo_lenv mem_inv id (\<lambda>_. True)"
  using mem_refs.ref_store_axioms by (simp add: mem_io_def)

lemma demo_durable: "durable mem_inv id demo_loom"
  using demo_loom_ok by (simp add: durable_def mem_inv_def loom_ok_def)

theorem acknowledged_write_survives_restart_witness:
  "\<exists>l' l''. write_many demo_lenv demo_token ''s1'' demo_records demo_envelope 5 demo_loom = (l', Inr ''r+'')
     \<and> assemble demo_lenv (lm_pager l', lm_store l') = Inr l'' \<and> head ''s1'' l'' = Inr ''r+''"
proof -
  obtain l' where w: "write_many demo_lenv demo_token ''s1'' demo_records demo_envelope 5 demo_loom = (l', Inr ''r+'')"
    by (rule demo_write)
  then have wa: "write_all demo_lenv demo_token ''s1'' demo_records demo_envelope Map.empty Map.empty 5 demo_loom = (l', Inr ''r+'')"
    by (simp add: write_many_def write_many_derived_def)
  have p: "pager_ok (en_pager demo_lenv)" by (simp add: demo_pager_ok)
  have h: "head ''s1'' demo_loom = Inr ''r''" by (simp add: demo_heads)
  have hd: "head ''s1'' l' = Inr ''r+''" by (rule write_all_result [OF p demo_loom_ok wa]) simp
  show ?thesis
    using acknowledged_write_survives_restart [OF demo_store_laws p demo_loom_ok demo_durable wa h TrueI TrueI] w hd by metis
qed

end
