(* ===== verification/LoomText.thy ===== *)
theory LoomText
  imports LoomState
begin

text \<open>
  What the code uses of the standard library on text: \<open>String::from_utf8_lossy\<close>, \<open>char\<close> counts,
  \<open>rsplit\<close>, line writing, and the non-ASCII characters its messages contain, as UTF-8 bytes.
\<close>

section \<open>Characters of the messages\<close>

definition EM_DASH :: bytes where "EM_DASH = [CHR 0xE2, CHR 0x80, CHR 0x94]"
definition ELLIPSIS :: bytes where "ELLIPSIS = [CHR 0xE2, CHR 0x80, CHR 0xA6]"
definition BULLET :: bytes where "BULLET = [CHR 0xE2, CHR 0x80, CHR 0xA2]"
definition ARROW :: bytes where "ARROW = [CHR 0xE2, CHR 0x86, CHR 0x92]"
definition WARNING_SIGN :: bytes where "WARNING_SIGN = [CHR 0xE2, CHR 0x9A, CHR 0xA0]"
definition REPLACEMENT :: bytes where "REPLACEMENT = [CHR 0xEF, CHR 0xBF, CHR 0xBD]"

definition newline :: bytes where "newline = [CHR 0x0A]"

definition line :: "bytes \<Rightarrow> bytes" where "line s = s @ newline"

section \<open>Lossy decoding\<close>

text \<open>The length of the next chunk and whether it is a character: an ill-formed sequence ends before the
  first byte that cannot continue it.\<close>

definition second_ok :: "char \<Rightarrow> char \<Rightarrow> bool" where
  "second_ok a b \<longleftrightarrow> tail_byte b \<and> (nat_of_byte a = 224 \<longrightarrow> 160 \<le> nat_of_byte b)
     \<and> (nat_of_byte a = 237 \<longrightarrow> nat_of_byte b < 160) \<and> (nat_of_byte a = 240 \<longrightarrow> 144 \<le> nat_of_byte b)
     \<and> (nat_of_byte a = 244 \<longrightarrow> nat_of_byte b < 144)"

definition char_width :: "char \<Rightarrow> nat" where
  "char_width a = (if nat_of_byte a < 128 then 1 else if byte_in 194 223 a then 2
                   else if byte_in 224 239 a then 3 else if byte_in 240 244 a then 4 else 0)"

definition byte_at :: "bytes \<Rightarrow> nat \<Rightarrow> char" where
  "byte_at r i = (if i < length r then r ! i else CHR 0x00)"

definition utf8_chunk :: "char \<Rightarrow> bytes \<Rightarrow> nat \<times> bool" where
  "utf8_chunk a r =
     (if char_width a = 1 then (1, True)
      else if char_width a = 0 \<or> \<not> second_ok a (byte_at r 0) then (1, False)
      else if char_width a = 2 then (2, True)
      else if \<not> tail_byte (byte_at r 1) then (2, False)
      else if char_width a = 3 then (3, True)
      else if \<not> tail_byte (byte_at r 2) then (3, False)
      else (4, True))"

lemma utf8_chunk_pos: "0 < fst (utf8_chunk a r)"
  by (simp add: utf8_chunk_def)

function utf8_lossy :: "bytes \<Rightarrow> bytes" where
  "utf8_lossy [] = []"
| "utf8_lossy (a # r) =
     (case utf8_chunk a r of
        (n, ok) \<Rightarrow> (if ok then take n (a # r) else REPLACEMENT) @ utf8_lossy (drop n (a # r)))"
  by pat_completeness auto
termination
  by (relation "measure length") (auto simp: utf8_chunk_def split: if_splits)

text \<open>ASCII text is kept as it is.\<close>

lemma utf8_lossy_ascii: "\<forall>c\<in>set s. nat_of_byte c < 128 \<Longrightarrow> utf8_lossy s = s"
  by (induction s) (simp_all add: utf8_chunk_def char_width_def)

section \<open>Counting and splitting\<close>

text \<open>\<open>chars().count()\<close> of a UTF-8 string: the bytes that do not continue a character.\<close>

definition char_count :: "bytes \<Rightarrow> nat" where
  "char_count s = length (filter (\<lambda>c. \<not> tail_byte c) s)"

text \<open>\<open>rsplit(c).next()\<close>: what follows the last separator, or all of it.\<close>

definition after_last :: "char \<Rightarrow> bytes \<Rightarrow> bytes" where
  "after_last c s = rev (takeWhile (\<lambda>x. x \<noteq> c) (rev s))"

fun join :: "bytes \<Rightarrow> bytes list \<Rightarrow> bytes" where
  "join sep [] = []"
| "join sep [x] = x"
| "join sep (x # xs) = x @ sep @ join sep xs"

text \<open>The line of a derivation node in a report; \<open>dbg\<close> is the \<open>Debug\<close> rendering of a string, which
  escapes by the standard library's Unicode tables.\<close>

definition node_text :: "(bytes \<Rightarrow> bytes) \<Rightarrow> node_line \<Rightarrow> bytes" where
  "node_text dbg d =
     (case d of
        NodeLine actor k intent \<Rightarrow> ''act_'' @ actor @ '' wrote '' @ dbg (utf8_lossy k) @ '' '' @ EM_DASH @ '' '' @ dbg intent
      | NodeLineCut actor k intent \<Rightarrow>
          ''act_'' @ actor @ '' wrote '' @ dbg (utf8_lossy k) @ '' '' @ EM_DASH @ '' '' @ dbg (intent @ ELLIPSIS))"

end
