(* ===== verification/LoomRecall.thy ===== *)
theory LoomRecall
  imports LoomText
begin

text \<open>
  The recall plan (\<open>crates/loom-core/src/recall.rs\<close>): what a taint can undo, what it cannot, and the
  report, which leads with what it cannot.
\<close>

datatype compensation = Rewind bytes commit_id | Tombstone bytes "bytes list"

record reversible_item =
  rv_branch :: bytes
  rv_commit :: commit_id
  rv_actor :: bytes
  rv_description :: bytes
  rv_derived_via :: "bytes list"
  rv_compensation :: compensation

record irreversible_item =
  ir_action_id :: bytes
  ir_action_type :: bytes
  ir_target :: bytes
  ir_actor :: bytes
  ir_receipt :: "bytes option"
  ir_justified_by :: "bytes list"
  ir_derived_via :: "bytes list"
  ir_compensating :: "bytes option"
  ir_escalation :: bytes

record recall_plan =
  rp_source :: "source_ref option"
  rp_irreversible :: "irreversible_item list"
  rp_reversible :: "reversible_item list"

record executed_action =
  ea_action_id :: bytes
  ea_action_type :: bytes
  ea_target :: bytes
  ea_actor :: bytes
  ea_justified_by :: "key list"
  ea_receipt :: "bytes option"
  ea_compensating :: "bytes option"

definition is_fully_reversible :: "recall_plan \<Rightarrow> bool" where
  "is_fully_reversible p \<longleftrightarrow> rp_irreversible p = []"

definition needs_human :: "recall_plan \<Rightarrow> bool" where
  "needs_human p \<longleftrightarrow> list_ex (\<lambda>i. ir_compensating i = None) (rp_irreversible p)"

definition plan_len :: "recall_plan \<Rightarrow> nat" where
  "plan_len p = length (rp_irreversible p) + length (rp_reversible p)"

definition plan_is_empty :: "recall_plan \<Rightarrow> bool" where
  "plan_is_empty p \<longleftrightarrow> plan_len p = 0"

section \<open>The report\<close>

definition irreversible_lines :: "irreversible_item \<Rightarrow> bytes" where
  "irreversible_lines i =
     line (''   '' @ BULLET @ '' '' @ ir_action_type i @ '' '' @ ARROW @ '' '' @ ir_target i)
     @ line (''       requested by:  act_'' @ ir_actor i)
     @ (case ir_receipt i of Some r \<Rightarrow> line (''       receipt:       '' @ r) | None \<Rightarrow> [])
     @ line (''       justified by:  '' @ decimal (length (ir_justified_by i)) @ '' claim(s) downstream of the tainted source'')
     @ (case ir_compensating i of
          Some a \<Rightarrow> line (''       CAN BE COMPENSATED: '' @ a)
        | None \<Rightarrow> line ''       NO COMPENSATING ACTION EXISTS. A human must decide.'')
     @ line (''       '' @ ARROW @ '' '' @ ir_escalation i @ newline)"

definition irreversible_section :: "irreversible_item list \<Rightarrow> bytes" where
  "irreversible_section is =
     (if is = [] then []
      else line (WARNING_SIGN @ ''  '' @ decimal (length is)
                 @ '' ACTION(S) ALREADY HAPPENED IN THE WORLD AND CANNOT BE UNDONE BY THIS DATABASE.'')
           @ line (''   Rewinding a branch reverts writes. It does not un-suspend an account.'' @ newline)
           @ concat (map irreversible_lines is))"

definition reversible_lines :: "(commit_id \<Rightarrow> bytes) \<Rightarrow> reversible_item \<Rightarrow> bytes" where
  "reversible_lines show_commit i =
     line (''   '' @ BULLET @ '' '' @ rv_description i @ '' [br_'' @ rv_branch i @ '']'')
     @ line (''       written by: act_'' @ rv_actor i)
     @ (case rv_compensation i of
          Rewind b c \<Rightarrow> line (''       action:     rewind br_'' @ b @ '' to '' @ show_commit c)
        | Tombstone b cs \<Rightarrow> line (''       action:     invalidate '' @ decimal (length cs) @ '' claim(s) in br_'' @ b))
     @ (if rv_derived_via i = [] then []
        else line (''       via:        '' @ join ('' '' @ ARROW @ '' '') (rv_derived_via i)))
     @ newline"

definition reversible_section :: "(commit_id \<Rightarrow> bytes) \<Rightarrow> reversible_item list \<Rightarrow> bytes" where
  "reversible_section show_commit rs =
     (if rs = [] then []
      else line (decimal (length rs) @ '' write(s) are downstream of this source and CAN be reverted:'' @ newline)
           @ concat (map (reversible_lines show_commit) rs))"

definition report :: "(commit_id \<Rightarrow> bytes) \<Rightarrow> recall_plan \<Rightarrow> bytes" where
  "report show_commit p =
     (case rp_source p of
        Some s \<Rightarrow> line (''RECALL PLAN '' @ EM_DASH @ '' tainted source: '' @ source_string s)
      | None \<Rightarrow> line ''RECALL PLAN'')
     @ line (''This is a DRY RUN. Nothing has been changed.'' @ newline)
     @ (if plan_is_empty p then line ''Nothing is downstream of this source. No action is needed.''
        else irreversible_section (rp_irreversible p) @ reversible_section show_commit (rp_reversible p)
             @ line ''To carry out the reversible part, call execute_recall() with this plan's id. It is a separate, token-gated call, deliberately.'')"

end
