(* ===== verification/LoomTaint.thy ===== *)
theory LoomTaint
  imports LoomRecall LoomSessionMerge "HOL-Library.Multiset"
begin

text \<open>
  The taint walk (\<open>crates/loom-provenance/src/taint.rs\<close>): the derivation nodes of a branch, the nodes
  that cite a source, the flood downstream, the dry-run plan, and marking claims stale.  A \<open>BTreeMap\<close>
  of nodes is a strictly sorted association list, a \<open>BTreeSet\<close> of ids a sorted list.
\<close>

definition MAX_DERIVATION_DEPTH :: nat where "MAX_DERIVATION_DEPTH = 64"

record taint_stats =
  ts_branches :: nat
  ts_nodes_examined :: nat
  ts_contaminated :: nat

type_synonym node_map = "(bytes \<times> der_node) list"

section \<open>What a branch holds\<close>

definition blob_of :: "record_t \<Rightarrow> bytes option" where
  "blob_of r = (case r of RValue (Blob b) \<Rightarrow> Some b | _ \<Rightarrow> None)"

definition branch_entries :: "('p, 's) loom_env \<Rightarrow> ('p, 's) loom \<Rightarrow> bytes \<Rightarrow> loom_error + (key \<times> record_t) list" where
  "branch_entries E l branch =
     bind_r (head branch l) (\<lambda>h.
     bind_r (pg_fork (en_pager E) (lm_pager l) h) (\<lambda>T.
     bind_r (tree_open T) (\<lambda>t. bind_r (tree_scan T t) (\<lambda>(t, es). Inr es))))"

definition node_of_entry :: "loom_codec \<Rightarrow> key \<times> record_t \<Rightarrow> der_node option" where
  "node_of_entry K w =
     (if \<not> prefix PROV_PREFIX (fst w) then None
      else case blob_of (snd w) of None \<Rightarrow> None | Some b \<Rightarrow> lc_node_decode K b)"

definition nodes_of :: "loom_codec \<Rightarrow> (key \<times> record_t) list \<Rightarrow> node_map" where
  "nodes_of K es = fold (\<lambda>n m. put (dn_id n) n m) (List.map_filter (node_of_entry K) es) []"

definition nodes_on :: "('p, 's) loom_env \<Rightarrow> ('p, 's) loom \<Rightarrow> bytes \<Rightarrow> loom_error + node_map" where
  "nodes_on E l branch = bind_r (branch_entries E l branch) (\<lambda>es. Inr (nodes_of (en_codec E) es))"

definition seed_of_entry :: "source_ref \<Rightarrow> key \<times> record_t \<Rightarrow> bytes option" where
  "seed_of_entry source w =
     (if \<not> prefix (source_index_prefix source) (fst w) then None
      else case blob_of (snd w) of None \<Rightarrow> None | Some b \<Rightarrow> node_from_index_value b)"

definition seeds_of :: "source_ref \<Rightarrow> (key \<times> record_t) list \<Rightarrow> bytes list" where
  "seeds_of source es = sort_dedup (List.map_filter (seed_of_entry source) es)"

definition seeds_on :: "('p, 's) loom_env \<Rightarrow> ('p, 's) loom \<Rightarrow> bytes \<Rightarrow> source_ref \<Rightarrow> loom_error + bytes list" where
  "seeds_on E l branch source = bind_r (branch_entries E l branch) (\<lambda>es. Inr (seeds_of source es))"

section \<open>The flood\<close>

text \<open>The inverted edges, a map to the children in the order of the nodes.\<close>

definition add_edges :: "der_node \<Rightarrow> (bytes \<Rightarrow> bytes list) \<Rightarrow> bytes \<Rightarrow> bytes list" where
  "add_edges n m = fold (\<lambda>p m. m(p := m p @ [dn_id n])) (dn_derived_from n) m"

definition children_of :: "node_map \<Rightarrow> bytes \<Rightarrow> bytes list" where
  "children_of nodes = fold (\<lambda>(_, n) m. add_edges n m) nodes (\<lambda>_. [])"

text \<open>The stack's top is the head of the list.\<close>

function flood_loop :: "(bytes \<Rightarrow> bytes list) \<Rightarrow> (bytes \<times> nat) list \<Rightarrow> bytes list \<Rightarrow> loom_error + bytes list" where
  "flood_loop kids [] seen = Inr seen"
| "flood_loop kids ((nid, depth) # stack) seen =
     (if MAX_DERIVATION_DEPTH < depth then Inl (DerivationCycle MAX_DERIVATION_DEPTH)
      else if nid \<in> set seen then flood_loop kids stack seen
      else flood_loop kids (rev (map (\<lambda>c. (c, depth + 1)) (kids nid)) @ stack) (insert_node nid seen))"
  by pat_completeness auto
termination
proof (relation "inv_image (mult less_than) (\<lambda>(kids, stack, seen). image_mset (\<lambda>x. 65 - snd x) (mset stack))", goal_cases)
  case (3 kids nid depth stack seen)
  let ?new = "image_mset (\<lambda>x. 65 - snd x) (mset (rev (map (\<lambda>c. (c, depth + 1)) (kids nid))))"
  have "(image_mset (\<lambda>x. 65 - snd x) (mset stack) + ?new, image_mset (\<lambda>x. 65 - snd x) (mset stack) + {#65 - depth#}) \<in> mult less_than"
    by (rule one_step_implies_mult) (use 3 in \<open>auto simp: MAX_DERIVATION_DEPTH_def\<close>)
  then show ?case by (simp add: add.commute)
qed (auto simp: wf_mult intro!: subset_implies_mult)

definition flood_downstream :: "node_map \<Rightarrow> bytes list \<Rightarrow> loom_error + bytes list" where
  "flood_downstream nodes seeds = flood_loop (children_of nodes) (rev (map (\<lambda>s. (s, 0)) seeds)) []"

definition contaminated_key :: "node_map \<Rightarrow> bytes \<Rightarrow> key option" where
  "contaminated_key nodes nid =
     (case map_of nodes nid of None \<Rightarrow> None | Some n \<Rightarrow> if is_provenance (dn_key n) then None else Some (dn_key n))"

definition contaminated_keys_on :: "('p, 's) loom_env \<Rightarrow> ('p, 's) loom \<Rightarrow> bytes \<Rightarrow> source_ref \<Rightarrow> loom_error + key list" where
  "contaminated_keys_on E l branch source =
     bind_r (nodes_on E l branch) (\<lambda>nodes.
     bind_r (seeds_on E l branch source) (\<lambda>seeds.
     bind_r (flood_downstream nodes seeds) (\<lambda>ids.
       Inr (sort_dedup (List.map_filter (contaminated_key nodes) ids)))))"

section \<open>The plan\<close>

text \<open>\<open>n\<close> is the number of hops left.\<close>

primrec path_back :: "nat \<Rightarrow> node_map \<Rightarrow> bytes \<Rightarrow> source_ref \<Rightarrow> bytes list" where
  "path_back 0 nodes nid source = [ELLIPSIS @ '' (path truncated)'']"
| "path_back (Suc n) nodes nid source =
     (case map_of nodes nid of
        None \<Rightarrow> []
      | Some x \<Rightarrow>
          utf8_lossy (dn_key x) #
          (if source \<in> set (dn_sources x) then [source_string source]
           else case dn_derived_from x of [] \<Rightarrow> [] | p # _ \<Rightarrow> path_back n nodes p source))"

definition path_to_source :: "node_map \<Rightarrow> bytes \<Rightarrow> source_ref \<Rightarrow> bytes list" where
  "path_to_source nodes nid source = rev (path_back MAX_DERIVATION_DEPTH nodes nid source)"

definition reversible_of :: "(bytes \<Rightarrow> bytes) \<Rightarrow> node_map \<Rightarrow> source_ref \<Rightarrow> bytes \<Rightarrow> loom_error + reversible_item list" where
  "reversible_of dbg nodes source nid =
     (case map_of nodes nid of
        None \<Rightarrow> Inr []
      | Some n \<Rightarrow>
          if is_provenance (dn_key n) then Inr []
          else case describe_node n of
            None \<Rightarrow> Inl (Panic ''byte index 60 is not a char boundary'')
          | Some d \<Rightarrow> Inr [\<lparr>rv_branch = dn_branch n, rv_commit = dn_commit n, rv_actor = dn_actor n,
                           rv_description = node_text dbg d, rv_derived_via = path_to_source nodes nid source,
                           rv_compensation = Tombstone (dn_branch n) []\<rparr>])"

definition taint_branch :: "('p, 's) loom_env \<Rightarrow> (bytes \<Rightarrow> bytes) \<Rightarrow> ('p, 's) loom \<Rightarrow> source_ref \<Rightarrow> bytes
    \<Rightarrow> reversible_item list \<times> taint_stats \<Rightarrow> loom_error + reversible_item list \<times> taint_stats" where
  "taint_branch E dbg l source branch acc =
     (case acc of (items, stats) \<Rightarrow>
        bind_r (nodes_on E l branch) (\<lambda>nodes.
        bind_r (seeds_on E l branch source) (\<lambda>seeds.
          let stats = stats\<lparr>ts_branches := ts_branches stats + 1, ts_nodes_examined := ts_nodes_examined stats + length nodes\<rparr>
          in if seeds = [] then Inr (items, stats)
             else bind_r (flood_downstream nodes seeds) (\<lambda>ids.
                  bind_r (map_r (reversible_of dbg nodes source) ids) (\<lambda>found.
                    Inr (items @ concat found, stats\<lparr>ts_contaminated := ts_contaminated stats + length ids\<rparr>))))))"

definition same_item :: "reversible_item \<Rightarrow> reversible_item \<Rightarrow> bool" where
  "same_item a b \<longleftrightarrow> rv_branch a = rv_branch b \<and> rv_description a = rv_description b \<and> rv_commit a = rv_commit b"

fun dedup_by :: "('a \<Rightarrow> 'a \<Rightarrow> bool) \<Rightarrow> 'a list \<Rightarrow> 'a list" where
  "dedup_by same [] = []"
| "dedup_by same [x] = [x]"
| "dedup_by same (x # y # xs) = (if same y x then dedup_by same (x # xs) else x # dedup_by same (y # xs))"

definition taint :: "('p, 's) loom_env \<Rightarrow> (bytes \<Rightarrow> bytes) \<Rightarrow> ('p, 's) loom \<Rightarrow> source_ref \<Rightarrow> loom_error + recall_plan \<times> taint_stats" where
  "taint E dbg l source =
     bind_r (fold_r (taint_branch E dbg l source) (branch_names l)
              ([], \<lparr>ts_branches = 0, ts_nodes_examined = 0, ts_contaminated = 0\<rparr>)) (\<lambda>(items, stats).
       Inr (\<lparr>rp_source = Some source, rp_irreversible = [],
             rp_reversible = dedup_by same_item (sort_key (\<lambda>i. (rv_branch i, rv_description i)) items)\<rparr>, stats))"

section \<open>The actions it cannot undo\<close>

definition escalation_of :: "executed_action \<Rightarrow> bytes" where
  "escalation_of a =
     (case ea_compensating a of
        Some undo \<Rightarrow> ''run the registered compensating action ('' @ undo @ '') for '' @ ea_action_type a @ '' on ''
                     @ ea_target a @ '', then confirm with the affected party.''
      | None \<Rightarrow> ''there is NO registered compensating action for '' @ ea_action_type a @ '' on '' @ ea_target a
                 @ ''. A human must decide how to make this right '' @ EM_DASH @ '' rewinding the branch will not un-''
                 @ after_last CHR ''.'' (ea_action_type a) @ '' it.'')"

definition irreversible_of :: "executed_action \<Rightarrow> irreversible_item" where
  "irreversible_of a =
     \<lparr>ir_action_id = ea_action_id a, ir_action_type = ea_action_type a, ir_target = ea_target a, ir_actor = ea_actor a,
      ir_receipt = ea_receipt a, ir_justified_by = [], ir_derived_via = [], ir_compensating = ea_compensating a,
      ir_escalation = escalation_of a\<rparr>"

definition action_order :: "irreversible_item \<Rightarrow> bytes \<times> bytes \<times> bytes" where
  "action_order i = (ir_action_type i, ir_target i, ir_action_id i)"

definition contaminated_anywhere :: "('p, 's) loom_env \<Rightarrow> ('p, 's) loom \<Rightarrow> source_ref \<Rightarrow> loom_error + key list" where
  "contaminated_anywhere E l source = bind_r (map_r (\<lambda>b. contaminated_keys_on E l b source) (branch_names l)) (\<lambda>kss. Inr (concat kss))"

definition taint_with_actions :: "('p, 's) loom_env \<Rightarrow> (bytes \<Rightarrow> bytes) \<Rightarrow> ('p, 's) loom \<Rightarrow> source_ref \<Rightarrow> executed_action list
    \<Rightarrow> loom_error + recall_plan \<times> taint_stats" where
  "taint_with_actions E dbg l source actions =
     bind_r (taint E dbg l source) (\<lambda>(plan, stats).
     bind_r (contaminated_anywhere E l source) (\<lambda>keys.
       let hit = filter (\<lambda>a. list_ex (\<lambda>k. k \<in> set keys) (ea_justified_by a)) actions
       in Inr (plan\<lparr>rp_irreversible := sort_key action_order (rp_irreversible plan @ map irreversible_of hit)\<rparr>, stats)))"

section \<open>Marking stale\<close>

definition mark_node :: "record_t tree_env \<Rightarrow> node_map \<Rightarrow> bytes \<Rightarrow> record_t tree \<times> (key \<times> record_t) list
    \<Rightarrow> loom_error + record_t tree \<times> (key \<times> record_t) list" where
  "mark_node T nodes nid s =
     (case map_of nodes nid of
        None \<Rightarrow> Inr s
      | Some n \<Rightarrow>
          if is_provenance (dn_key n) then Inr s
          else bind_r (tree_get T (fst s) (dn_key n)) (\<lambda>(t, r).
            case r of
              Some (RClaim c) \<Rightarrow>
                if c_status c \<noteq> Asserted then Inr (t, snd s)
                else Inr (t, snd s @ [(dn_key n, RClaim (c\<lparr>c_status := Stale\<rparr>))])
            | _ \<Rightarrow> Inr (t, snd s)))"

definition stale_writes :: "('p, 's) loom_env \<Rightarrow> ('p, 's) loom \<Rightarrow> bytes \<Rightarrow> source_ref \<Rightarrow> loom_error + (key \<times> record_t) list" where
  "stale_writes E l branch source =
     bind_r (nodes_on E l branch) (\<lambda>nodes.
     bind_r (seeds_on E l branch source) (\<lambda>seeds.
     bind_r (flood_downstream nodes seeds) (\<lambda>ids.
     bind_r (head branch l) (\<lambda>h.
     bind_r (pg_fork (en_pager E) (lm_pager l) h) (\<lambda>T.
     bind_r (tree_open T) (\<lambda>t.
     bind_r (fold_r (mark_node T nodes) ids (t, [])) (\<lambda>(t, ws). Inr ws)))))))"

definition mark_stale :: "('p, 's) loom_env \<Rightarrow> token \<Rightarrow> bytes \<Rightarrow> source_ref \<Rightarrow> envelope \<Rightarrow> u64
    \<Rightarrow> (('p, 's) loom, key list) act" where
  "mark_stale E tok branch source e now =
     bind_s (ask (\<lambda>l. stale_writes E l branch source)) (\<lambda>writes.
       if writes \<noteq> [] then bind_s (write_many E tok branch writes e now) (\<lambda>_. ret (map fst writes))
       else ret (map fst writes))"

end
