(* ===== verification/LoomTaintLaws.thy ===== *)
theory LoomTaintLaws
  imports LoomTaint LoomAncestry LoomSessionLaws
begin

text \<open>
  The flood against its meaning, the set of nodes reachable along the inverted edges, and what the
  nodes and seeds of a branch are in terms of its content.
\<close>

section \<open>The edges\<close>

lemma set_add_edges: "set (add_edges n m x) = set (m x) \<union> (if x \<in> set (dn_derived_from n) then {dn_id n} else {})"
proof -
  have "set (fold (\<lambda>p m. m(p := m p @ [dn_id n])) ps m x) = set (m x) \<union> (if x \<in> set ps then {dn_id n} else {})" for ps
    by (induction ps arbitrary: m) auto
  then show ?thesis by (simp add: add_edges_def)
qed

lemma set_children_of: "set (children_of nodes x) = {dn_id n | n. n \<in> snd ` set nodes \<and> x \<in> set (dn_derived_from n)}"
proof -
  have "set (fold (\<lambda>(_, n) m. add_edges n m) nodes m x) = set (m x) \<union> {dn_id n | n. n \<in> snd ` set nodes \<and> x \<in> set (dn_derived_from n)}" for m
    by (induction nodes arbitrary: m) (auto simp: set_add_edges split: if_splits)
  then show ?thesis by (simp add: children_of_def)
qed

section \<open>The flood\<close>

definition downstream :: "(bytes \<Rightarrow> bytes list) \<Rightarrow> bytes set \<Rightarrow> bytes set" where
  "downstream kids S = (\<Union>s\<in>S. reach kids s)"

lemma downstream_seed: "s \<in> S \<Longrightarrow> s \<in> downstream kids S"
  unfolding downstream_def using reach_self [of s kids] by blast

lemma downstream_step: "x \<in> downstream kids S \<Longrightarrow> y \<in> set (kids x) \<Longrightarrow> y \<in> downstream kids S"
  by (auto simp: downstream_def intro: reach_step)

lemma downstream_closed: "S \<subseteq> A \<Longrightarrow> (\<forall>x\<in>A. set (kids x) \<subseteq> A) \<Longrightarrow> downstream kids S \<subseteq> A"
  unfolding downstream_def using closed_reach [of A kids] by blast

text \<open>A derivation chain of distinct nodes that starts at a seed.\<close>

definition derivation_chain :: "(bytes \<Rightarrow> bytes list) \<Rightarrow> bytes set \<Rightarrow> bytes list \<Rightarrow> bool" where
  "derivation_chain kids S p \<longleftrightarrow> p \<noteq> [] \<and> hd p \<in> S \<and> distinct p \<and> successively (\<lambda>x y. y \<in> set (kids x)) p"

definition flood_inv :: "(bytes \<Rightarrow> bytes list) \<Rightarrow> bytes set \<Rightarrow> (bytes \<times> nat) list \<Rightarrow> bytes list \<Rightarrow> bool" where
  "flood_inv kids S stack seen \<longleftrightarrow>
     set seen \<union> fst ` set stack \<subseteq> downstream kids S \<and> S \<subseteq> set seen \<union> fst ` set stack
     \<and> (\<forall>x\<in>set seen. set (kids x) \<subseteq> set seen \<union> fst ` set stack) \<and> sorted seen \<and> distinct seen
     \<and> (\<forall>(x, d)\<in>set stack. (d = 0 \<and> x \<in> S)
           \<or> (\<exists>p. length p = d \<and> derivation_chain kids S p \<and> set p \<subseteq> set seen \<and> x \<in> set (kids (last p))))"

lemma chain_extend:
  assumes "(d = 0 \<and> x \<in> S) \<or> (\<exists>p. length p = d \<and> derivation_chain kids S p \<and> set p \<subseteq> A \<and> x \<in> set (kids (last p)))"
    and "x \<notin> A"
  shows "\<exists>p. length p = Suc d \<and> derivation_chain kids S p \<and> set p \<subseteq> insert x A \<and> last p = x"
  using assms(1)
proof (elim disjE exE conjE)
  assume "d = 0" "x \<in> S"
  then show ?thesis by (intro exI [of _ "[x]"]) (simp add: derivation_chain_def)
next
  fix p assume p: "length p = d" "derivation_chain kids S p" "set p \<subseteq> A" "x \<in> set (kids (last p))"
  then have "derivation_chain kids S (p @ [x])"
    using assms(2) by (auto simp: derivation_chain_def successively_append_iff)
  then show ?thesis using p by (intro exI [of _ "p @ [x]"]) auto
qed

lemma flood_skip:
  assumes "flood_inv kids S ((x, d) # stack) seen" and "x \<in> set seen"
  shows "flood_inv kids S stack seen"
  using assms unfolding flood_inv_def by auto

lemma flood_push:
  assumes inv: "flood_inv kids S ((x, d) # stack) seen" and x: "x \<notin> set seen"
  shows "flood_inv kids S (rev (map (\<lambda>c. (c, d + 1)) (kids x)) @ stack) (insert_node x seen)"
proof -
  have entry: "(d = 0 \<and> x \<in> S) \<or> (\<exists>p. length p = d \<and> derivation_chain kids S p \<and> set p \<subseteq> set seen \<and> x \<in> set (kids (last p)))"
    using inv by (simp add: flood_inv_def)
  obtain p where p: "length p = Suc d" "derivation_chain kids S p" "set p \<subseteq> insert x (set seen)" "last p = x"
    using chain_extend [OF entry x] by blast
  have down: "set (kids x) \<subseteq> downstream kids S"
    using inv downstream_step [of x] by (auto simp: flood_inv_def)
  let ?st = "rev (map (\<lambda>c. (c, d + 1)) (kids x)) @ stack"
  have ids: "fst ` set ?st = set (kids x) \<union> fst ` set stack" by (simp add: image_Un image_image)
  have "(d' = 0 \<and> y \<in> S) \<or> (\<exists>q. length q = d' \<and> derivation_chain kids S q \<and> set q \<subseteq> set (insert_node x seen) \<and> y \<in> set (kids (last q)))"
    if "(y, d') \<in> set ?st" for y d'
  proof -
    have "(y \<in> set (kids x) \<and> d' = Suc d) \<or> (y, d') \<in> set stack" using that by (auto simp: image_iff)
    then consider "y \<in> set (kids x)" "d' = Suc d" | "(y, d') \<in> set stack" by blast
    then show ?thesis
  proof cases
    case 1
    then show ?thesis using p by auto
  next
    case 2
    then have "(d' = 0 \<and> y \<in> S) \<or> (\<exists>q. length q = d' \<and> derivation_chain kids S q \<and> set q \<subseteq> set seen \<and> y \<in> set (kids (last q)))"
      using inv unfolding flood_inv_def by fastforce
    then show ?thesis by (metis insert_iff set_insert_node subset_iff)
  qed
  qed
  then show ?thesis using inv down unfolding flood_inv_def ids by auto
qed

lemma flood_loop_result:
  "flood_inv kids S stack seen \<Longrightarrow>
     (\<exists>A. flood_loop kids stack seen = Inr A \<and> set A = downstream kids S \<and> sorted A \<and> distinct A)
   \<or> (flood_loop kids stack seen = Inl (DerivationCycle MAX_DERIVATION_DEPTH)
      \<and> (\<exists>p. derivation_chain kids S p \<and> MAX_DERIVATION_DEPTH < length p))"
proof (induction kids stack seen rule: flood_loop.induct)
  case (1 kids seen)
  then have "set seen = downstream kids S"
    using downstream_closed [of S "set seen" kids] unfolding flood_inv_def by auto
  then show ?case using 1 by (simp add: flood_inv_def)
next
  case (2 kids x d stack seen)
  show ?case
  proof (cases "MAX_DERIVATION_DEPTH < d")
    case True
    then have "\<exists>p. length p = d \<and> derivation_chain kids S p" using 2(3) unfolding flood_inv_def by fastforce
    then show ?thesis using True by auto
  next
    case False
    show ?thesis
    proof (cases "x \<in> set seen")
      case True
      then show ?thesis using 2(1) [OF False True flood_skip [OF 2(3) True]] False by simp
    next
      case new: False
      then show ?thesis using 2(2) [OF False new flood_push [OF 2(3) new]] False by simp
    qed
  qed
qed

lemma flood_downstream_result:
  "(\<exists>A. flood_downstream nodes seeds = Inr A \<and> set A = downstream (children_of nodes) (set seeds) \<and> sorted A \<and> distinct A)
   \<or> (flood_downstream nodes seeds = Inl (DerivationCycle MAX_DERIVATION_DEPTH)
      \<and> (\<exists>p. derivation_chain (children_of nodes) (set seeds) p \<and> MAX_DERIVATION_DEPTH < length p))"
proof -
  have "fst ` set (rev (map (\<lambda>s. (s, 0::nat)) seeds)) = set seeds" by (auto simp: image_iff)
  then have "flood_inv (children_of nodes) (set seeds) (rev (map (\<lambda>s. (s, 0)) seeds)) []"
    unfolding flood_inv_def by (auto intro: downstream_seed)
  from flood_loop_result [OF this] show ?thesis by (simp add: flood_downstream_def)
qed

lemma flood_downstream_Inr:
  "flood_downstream nodes seeds = Inr A \<Longrightarrow> set A = downstream (children_of nodes) (set seeds)"
  using flood_downstream_result [of nodes seeds] by auto

text \<open>A chain past its seed consists of nodes, so a chain longer than the number of nodes has none.\<close>

lemma chain_nodes:
  assumes "derivation_chain (children_of nodes) S p"
  shows "length p \<le> Suc (card (dn_id ` snd ` set nodes))"
proof -
  have "set (tl p) \<subseteq> dn_id ` snd ` set nodes"
  proof -
    have "set (tl q) \<subseteq> dn_id ` snd ` set nodes" if "successively (\<lambda>x y. y \<in> set (children_of nodes x)) q" for q
      using that
    proof (induction q)
      case (Cons a q)
      then show ?case by (cases q) (auto simp: set_children_of)
    qed simp
    then show ?thesis using assms by (simp add: derivation_chain_def)
  qed
  then have "card (set (tl p)) \<le> card (dn_id ` snd ` set nodes)" by (intro card_mono) auto
  moreover have "distinct (tl p)" using assms by (simp add: derivation_chain_def distinct_tl)
  ultimately show ?thesis by (simp add: distinct_card)
qed

section \<open>What a branch holds\<close>

lemma branch_entries_holds:
  assumes "holds E l b es"
  shows "branch_entries E l b = Inr es"
proof -
  obtain c T t where c: "head b l = Inr c" "pg_fork (en_pager E) (lm_pager l) c = Inr T" "tree_open T = Inr t" "tree_inv T t" "tree_entries T t = es"
    using assms by (auto simp: holds_def commit_good_def)
  then obtain t' where "tree_scan T t = Inr (t', es)" using tree_scan_inv by blast
  then show ?thesis using c by (simp add: branch_entries_def)
qed

lemma nodes_on_holds: "holds E l b es \<Longrightarrow> nodes_on E l b = Inr (nodes_of (en_codec E) es)"
  by (simp add: nodes_on_def branch_entries_holds)

lemma seeds_on_holds: "holds E l b es \<Longrightarrow> seeds_on E l b s = Inr (seeds_of s es)"
  by (simp add: seeds_on_def branch_entries_holds)

lemma set_map_filter [simp]: "y \<in> set (List.map_filter f xs) \<longleftrightarrow> (\<exists>x\<in>set xs. f x = Some y)"
  by (force simp: List.map_filter_def)

lemma map_of_nodes:
  "map_of (fold (\<lambda>n m. put (dn_id n) n m) ns m) i = (case find (\<lambda>n. dn_id n = i) (rev ns) of Some n \<Rightarrow> Some n | None \<Rightarrow> map_of m i)"
  if "skeys m"
  using that
proof (induction ns arbitrary: m rule: rev_induct)
  case (snoc n ns)
  have "skeys (fold (\<lambda>n m. put (dn_id n) n m) ns m)" using snoc.prems
    by (induction ns arbitrary: m) (simp_all add: skeys_put)
  then show ?case using snoc by (simp add: map_of_put)
qed simp

lemma find_in: "find P xs = Some n \<Longrightarrow> P n \<and> n \<in> set xs"
  by (induction xs) (auto split: if_splits)

lemma nodes_of_lookup:
  assumes "map_of (nodes_of K es) i = Some n"
  shows "dn_id n = i" and "\<exists>w\<in>set es. node_of_entry K w = Some n"
  using assms find_in [of "\<lambda>n. dn_id n = i" "rev (List.map_filter (node_of_entry K) es)" n]
  by (auto simp: nodes_of_def map_of_nodes split: option.splits)

lemma nodes_of_present:
  assumes "w \<in> set es" and "node_of_entry K w = Some n"
  shows "\<exists>n'. map_of (nodes_of K es) (dn_id n) = Some n'"
proof -
  have "find (\<lambda>m. dn_id m = dn_id n) (rev (List.map_filter (node_of_entry K) es)) \<noteq> None"
    unfolding find_None_iff using assms by auto
  then show ?thesis by (auto simp: nodes_of_def map_of_nodes)
qed

lemma contaminated_keys_holds:
  assumes "holds E l b es"
  shows "contaminated_keys_on E l b s =
     bind_r (flood_downstream (nodes_of (en_codec E) es) (seeds_of s es)) (\<lambda>ids.
       Inr (sort_dedup (List.map_filter (contaminated_key (nodes_of (en_codec E) es)) ids)))"
  using nodes_on_holds [OF assms] seeds_on_holds [OF assms] by (simp add: contaminated_keys_on_def)

section \<open>The actions of a plan\<close>

lemma recall_actions:
  assumes "taint_with_actions E dbg l s actions = Inr (plan, stats)"
  shows "\<exists>keys plan0. contaminated_anywhere E l s = Inr keys \<and> taint E dbg l s = Inr (plan0, stats)
    \<and> mset (rp_irreversible plan) = mset (map irreversible_of (filter (\<lambda>a. set (ea_justified_by a) \<inter> set keys \<noteq> {}) actions))
    \<and> sorted (map action_order (rp_irreversible plan)) \<and> rp_reversible plan = rp_reversible plan0
    \<and> (needs_human plan \<longleftrightarrow> (\<exists>a\<in>set actions. set (ea_justified_by a) \<inter> set keys \<noteq> {} \<and> ea_compensating a = None))"
proof -
  obtain plan0 keys where p0: "taint E dbg l s = Inr (plan0, stats)" and keys: "contaminated_anywhere E l s = Inr keys"
    and plan: "plan = plan0\<lparr>rp_irreversible := sort_key action_order (rp_irreversible plan0 @ map irreversible_of
         (filter (\<lambda>a. list_ex (\<lambda>k. k \<in> set keys) (ea_justified_by a)) actions))\<rparr>"
    using assms by (auto simp: taint_with_actions_def bind_r_Inr_iff Let_def)
  have e: "rp_irreversible plan0 = []" using p0 by (auto simp: taint_def bind_r_Inr_iff)
  have hit: "list_ex (\<lambda>k. k \<in> set keys) ks \<longleftrightarrow> set ks \<inter> set keys \<noteq> {}" for ks by (auto simp: list_ex_iff)
  show ?thesis
    using p0 keys by (intro exI [of _ keys] exI [of _ plan0])
      (auto simp: plan e hit needs_human_def list_ex_iff irreversible_of_def)
qed

end
