(* ===== verification/LoomProvLaws.thy ===== *)
theory LoomProvLaws
  imports LoomTaintLaws
begin

text \<open>
  What a write leaves for the taint walk: its derivation nodes under keys of their own, and an index
  entry for each source a node cites.
\<close>

section \<open>One node\<close>

definition stored :: "loom_codec \<Rightarrow> bytes \<Rightarrow> (key \<times> record_t) list \<Rightarrow> der_node \<Rightarrow> u64 \<Rightarrow> bool" where
  "stored K branch es n q \<longleftrightarrow>
     (\<exists>b. lc_node_encode K n = Some b \<and> map_of es (node_storage_key branch q) = Some (RValue (Blob b)))
     \<and> (\<forall>s\<in>set (dn_sources n). map_of es (source_index_key s branch q) = Some (RValue (Blob (dn_id n))))"

text \<open>The keys one node's records are written under.\<close>

abbreviation step_keys :: "bytes \<Rightarrow> u64 \<Rightarrow> key set" where
  "step_keys branch q \<equiv> {k. is_reserved k} \<union> {node_storage_key branch q} \<union> {source_index_key s branch q | s. True}"

lemma source_seq: "source_index_key s b q = source_index_key s' b q' \<Longrightarrow> q = q'"
  by (simp add: source_index_key_def branch_seq_def u64_be_inj)

lemma step_keys_apart:
  assumes "q \<noteq> q'"
  shows "node_storage_key b q \<notin> step_keys b q'" and "source_index_key s b q \<notin> step_keys b q'"
proof -
  have r: "\<not> is_reserved (node_storage_key b q)" "\<not> is_reserved (source_index_key s b q)"
    using provenance_keys spaces_disjoint by blast+
  have "node_storage_key b q \<noteq> node_storage_key b q'" using assms by (auto simp: node_storage_key_def branch_seq_inj)
  then show "node_storage_key b q \<notin> step_keys b q'" using r by (auto simp: node_storage_key_def source_index_key_def key_space_defs)
  show "source_index_key s b q \<notin> step_keys b q'" using r assms source_seq
    by (auto simp: node_storage_key_def source_index_key_def key_space_defs)
qed

lemma stored_kept:
  assumes "stored K b es n q" and "\<And>k. k \<notin> A \<Longrightarrow> map_of es' k = map_of es k"
    and "node_storage_key b q \<notin> A" and "\<And>s. source_index_key s b q \<notin> A"
  shows "stored K b es' n q"
  using assms unfolding stored_def by auto

lemma put_blob_txn:
  "txn_ok T t \<Longrightarrow> put_blob T k b t = Inr t' \<Longrightarrow> txn_ok T t' \<and> map_of (tree_entries T t') = (map_of (tree_entries T t))(k \<mapsto> RValue (Blob b))"
  unfolding put_blob_def using insert_txn tree_inv_entries(1) map_of_put by (metis txn_ok_def)

lemma put_blobs_txn:
  "txn_ok T t \<Longrightarrow> fold_r (\<lambda>s t. put_blob T (f s) b t) ss t = Inr t' \<Longrightarrow>
     txn_ok T t' \<and> (\<forall>k. map_of (tree_entries T t') k = (if k \<in> f ` set ss then Some (RValue (Blob b)) else map_of (tree_entries T t) k))"
proof (induction ss arbitrary: t)
  case (Cons s ss)
  then obtain u where u: "put_blob T (f s) b t = Inr u" "fold_r (\<lambda>s t. put_blob T (f s) b t) ss u = Inr t'"
    by (auto simp: bind_r_Inr_iff)
  note p = put_blob_txn [OF Cons.prems(1) u(1)]
  show ?case using Cons.IH [OF conjunct1 [OF p] u(2)] p by auto
qed simp

lemma insert_node_records_stored:
  assumes ok: "txn_ok T (fst ts)" and res: "insert_node_records K T branch n ts = Inr ts'"
  shows "txn_ok T (fst ts')" and "stored K branch (tree_entries T (fst ts')) n (snd ts)"
    and "\<And>k. k \<notin> step_keys branch (snd ts) \<Longrightarrow> map_of (tree_entries T (fst ts')) k = map_of (tree_entries T (fst ts)) k"
    and "unat (snd ts') = Suc (unat (snd ts))"
proof -
  let ?q = "snd ts"
  obtain b t1 t2 t3 m where b: "lc_node_encode K n = Some b"
    and t1: "put_blob T (node_storage_key branch ?q) b (fst ts) = Inr t1"
    and t2: "put_blob T (latest_node_key (dn_key n)) (dn_id n) t1 = Inr t2"
    and t3: "fold_r (\<lambda>s t. put_blob T (source_index_key s branch ?q) (dn_id n) t) (dn_sources n) t2 = Inr t3"
    and m: "next_seq ?q = Inr m" and ts': "ts' = (t3, m)"
    using res by (auto simp: insert_node_records_def bind_r_Inr_iff node_encode_blob_def split: option.splits)
  note p1 = put_blob_txn [OF ok t1]
  note p2 = put_blob_txn [OF conjunct1 [OF p1] t2]
  note p3 = put_blobs_txn [OF conjunct1 [OF p2] t3]
  have l: "is_reserved (latest_node_key k)" for k by simp
  have r: "\<not> is_reserved (node_storage_key branch ?q)" "\<not> is_reserved (source_index_key s branch ?q)" for s
    using provenance_keys spaces_disjoint by blast+
  have d: "node_storage_key branch ?q \<noteq> source_index_key s branch ?q" for s
    by (simp add: node_storage_key_def source_index_key_def key_space_defs)
  show "txn_ok T (fst ts')" using p3 ts' by simp
  have "map_of (tree_entries T t3) (node_storage_key branch ?q) = Some (RValue (Blob b))"
    using p1 p2 p3 d r l by (auto simp: image_iff)
  then show "stored K branch (tree_entries T (fst ts')) n ?q" using b p3 ts' by (auto simp: stored_def)
  show "map_of (tree_entries T (fst ts')) k = map_of (tree_entries T (fst ts)) k" if "k \<notin> step_keys branch ?q" for k
    using that p1 p2 p3 l ts' by (auto simp: image_iff)
  show "unat (snd ts') = Suc (unat ?q)"
    using m ts' unat_u64_add [of ?q 1] by (auto simp: next_seq_def split: option.splits)
qed

lemma insert_nodes_stored:
  "txn_ok T (fst ts) \<Longrightarrow> fold_r (insert_node_records K T branch) ns ts = Inr ts' \<Longrightarrow>
     txn_ok T (fst ts') \<and> unat (snd ts') = unat (snd ts) + length ns
     \<and> (\<forall>n\<in>set ns. \<exists>q. stored K branch (tree_entries T (fst ts')) n q)
     \<and> (\<forall>n q. unat q < unat (snd ts) \<and> stored K branch (tree_entries T (fst ts)) n q \<longrightarrow> stored K branch (tree_entries T (fst ts')) n q)"
proof (induction ns arbitrary: ts)
  case (Cons n ns)
  then obtain u where u: "insert_node_records K T branch n ts = Inr u" "fold_r (insert_node_records K T branch) ns u = Inr ts'"
    by (auto simp: bind_r_Inr_iff)
  note s = insert_node_records_stored [OF Cons.prems(1) u(1)]
  have ih: "txn_ok T (fst ts') \<and> unat (snd ts') = unat (snd u) + length ns
     \<and> (\<forall>n\<in>set ns. \<exists>q. stored K branch (tree_entries T (fst ts')) n q)
     \<and> (\<forall>n q. unat q < unat (snd u) \<and> stored K branch (tree_entries T (fst u)) n q \<longrightarrow> stored K branch (tree_entries T (fst ts')) n q)"
    by (rule Cons.IH [OF s(1) u(2)])
  have "stored K branch (tree_entries T (fst ts')) n (snd ts)" using ih s(2,4) by simp
  moreover have "stored K branch (tree_entries T (fst ts')) m q"
    if "unat q < unat (snd ts)" "stored K branch (tree_entries T (fst ts)) m q" for m q
  proof -
    have "q \<noteq> snd ts" using that(1) by auto
    note a = step_keys_apart [OF this]
    have "stored K branch (tree_entries T (fst u)) m q" by (rule stored_kept [OF that(2) s(3) a])
    then show ?thesis using ih s(4) that(1) by simp
  qed
  ultimately show ?case using ih s(4) by auto
qed simp

section \<open>A whole write\<close>

lemma touches_stored:
  assumes "touches book_keys T t t'" and "txn_ok T t" and "stored K b (tree_entries T t) n q"
  shows "stored K b (tree_entries T t') n q"
proof (rule stored_kept [OF assms(3)])
  show "map_of (tree_entries T t') k = map_of (tree_entries T t) k" if "k \<notin> book_keys" for k
    using assms(1,2) that by (simp add: touches_def)
  show "node_storage_key b q \<notin> book_keys" "source_index_key s b q \<notin> book_keys" for s
    using provenance_keys spaces_disjoint by blast+
qed

lemma write_body_stored:
  assumes ok: "txn_ok T t" and res: "write_body E T branch h records e captured extra hints t = Inr t'"
    and caller: "k \<in> fst ` set records" "caller_key k" and n: "n \<in> set (derivation_nodes (en_crypto E) branch h records e captured extra)"
  shows "\<exists>q. stored (en_codec E) branch (tree_entries T t') n q"
proof -
  obtain t1 t2 t3 where t1: "insert_records T records t = Inr t1"
    and t2: "write_provenance E T branch h records e captured extra t1 = Inr t2"
    and t3: "fold_r (write_index (en_codec E) T hints (rs_min_label captured)) records t2 = Inr t3"
    and t4: "fold_r (write_history (en_codec E) T) records t3 = Inr t'"
    using res unfolding write_body_def by (auto simp: bind_r_Inr_iff)
  have ok1: "txn_ok T t1" using insert_records_txn [OF ok t1] by simp
  have some: "\<exists>w\<in>set records. \<not> is_provenance (fst w) \<and> \<not> is_reserved (fst w)"
    using caller by (auto simp: caller_key_def)
  obtain u r v seq where u: "tree_get T t1 (prov_seq_key branch) = Inr (u, r)"
    and v: "fold_r (insert_node_records (en_codec E) T branch) (derivation_nodes (en_crypto E) branch h records e captured extra) (u, read_counter r) = Inr (v, seq)"
    and t2': "tree_insert T v (prov_seq_key branch) (RValue (Counter seq)) = Inr t2"
    using t2 unfolding write_provenance_def if_P [OF some] by (auto simp: bind_r_Inr_iff)
  have oku: "txn_ok T u" using get_touches [OF u] ok1 by (simp add: touches_def)
  have nodes: "txn_ok T v \<and> (\<forall>n\<in>set (derivation_nodes (en_crypto E) branch h records e captured extra). \<exists>q. stored (en_codec E) branch (tree_entries T v) n q)"
    using insert_nodes_stored [OF _ v] oku by simp
  then obtain q where q: "stored (en_codec E) branch (tree_entries T v) n q" using n by blast
  have "touches book_keys T v t2" by (rule insert_touches [OF _ t2']) simp
  moreover have "touches book_keys T t2 t3" by (rule aux_book, rule idx_aux, rule fold_touches [OF _ t3]) (rule write_index_touches)
  moreover have "touches book_keys T t3 t'" by (rule aux_book, rule hist_aux, rule fold_touches [OF _ t4]) (rule write_history_touches)
  ultimately have "touches book_keys T v t'" by (blast intro: touches_trans)
  from touches_stored [OF this _ q] nodes show ?thesis by blast
qed

lemma write_all_stored:
  assumes P: "pager_ok (en_pager E)" and ok: "loom_ok E l"
    and res: "write_all E tok b records e extra hints now l = (l', Inr c)"
    and caller: "k \<in> fst ` set records" "caller_key k"
  obtains es' h where "holds E l' b es'"
    "\<forall>n\<in>set (derivation_nodes (en_crypto E) b h records e (session_reads (e_session e) l) extra). \<exists>q. stored (en_codec E) b es' n q"
proof -
  let ?cap = "session_reads (e_session e) l"
  obtain l1 where l1: "l1 = l\<lparr>lm_reads := (lm_reads l)(e_session e := None)\<rparr>"
    and tr: "transact E b (\<lambda>h T t. bind_r (write_body E T b h records e ?cap extra hints t) (\<lambda>t. Inr (t, ()))) l1 = (l', Inr (c, ()))"
    using write_all_checks [OF res] by blast
  have ok1: "loom_ok E l1" using ok l1 by simp
  let ?Q = "\<lambda>es es' a. \<exists>h. \<forall>n\<in>set (derivation_nodes (en_crypto E) b h records e ?cap extra). \<exists>q. stored (en_codec E) b es' n q"
  have body: "txn_ok T t' \<and> ?Q (tree_entries T t) (tree_entries T t') a"
    if "txn_ok T t" "bind_r (write_body E T b h records e ?cap extra hints t) (\<lambda>t. Inr (t, ())) = Inr (t', a)" for h T t t' a
  proof -
    have w: "write_body E T b h records e ?cap extra hints t = Inr t'" using that(2) by (auto simp: bind_r_Inr_iff)
    show ?thesis using write_body_result [OF that(1) w] write_body_stored [OF that(1) w caller] by blast
  qed
  show thesis
    by (rule transact_holds [of E l1 b _ ?Q, OF P ok1 body tr]) (assumption, assumption, use that in blast)
qed

section \<open>What the taint walk finds\<close>

text \<open>The serializer of nodes gives back what it was given.\<close>

definition node_codec_ok :: "loom_codec \<Rightarrow> bool" where
  "node_codec_ok K \<longleftrightarrow> (\<forall>n b. lc_node_encode K n = Some b \<longrightarrow> lc_node_decode K b = Some n)"

lemma stored_node:
  assumes "stored K b es n q" and "node_codec_ok K"
  shows "\<exists>w\<in>set es. node_of_entry K w = Some n"
proof -
  obtain blob where "lc_node_encode K n = Some blob" "map_of es (node_storage_key b q) = Some (RValue (Blob blob))"
    using assms(1) by (auto simp: stored_def)
  then have "(node_storage_key b q, RValue (Blob blob)) \<in> set es" "node_of_entry K (node_storage_key b q, RValue (Blob blob)) = Some n"
    using assms(2) by (auto simp: node_of_entry_def blob_of_def node_codec_ok_def node_storage_key_def dest: map_of_SomeD)
  then show ?thesis by blast
qed

lemma stored_seed:
  assumes "stored K b es n q" and "s \<in> set (dn_sources n)" and "length (dn_id n) = 32"
  shows "dn_id n \<in> set (seeds_of s es)"
proof -
  let ?w = "(source_index_key s b q, RValue (Blob (dn_id n)))"
  have "?w \<in> set es" using assms(1,2) by (auto simp: stored_def dest: map_of_SomeD)
  moreover have "seed_of_entry s ?w = Some (dn_id n)"
    using source_index_complete assms(3) by (simp add: seed_of_entry_def blob_of_def node_from_index_value_def)
  ultimately show ?thesis unfolding seeds_of_def sort_dedup_def by auto
qed

end
