(* ===== verification/LoomTaintDemo.thy ===== *)
theory LoomTaintDemo
  imports LoomProvLaws LoomSessionProps
begin

text \<open>
  A database for the witnesses of the taint walk: one branch leaf that already holds a claim, the node
  that derived it from a source and the index entry of that source.  The serializer knows the
  contents the leaf has: the first, the last, and the first without its head.
\<close>

section \<open>A leaf store\<close>

definition leaf_db :: "(key \<times> record_t) list \<Rightarrow> (key \<times> record_t) list \<Rightarrow> record_t tree_env" where
  "leaf_db a b = \<lparr>te_read_head = (\<lambda>p. if p = 0 then PageBytes (d_meta (meta_empty\<lparr>m_count := length a\<rparr>))
                                       else if p = 1 then PageBytes ''a'' else PageNotFound),
     te_page_size = 4096, te_write_error = (\<lambda>_ _. None),
     te_encode = (\<lambda>n. if n = Leaf a then Some ''a'' else if n = Leaf b then Some ''b'' else if n = Leaf (tl a) then Some ''c'' else None),
     te_decode = (\<lambda>s. if s = ''a'' then Inr (Leaf a) else if s = ''b'' then Inr (Leaf b) else if s = ''c'' then Inr (Leaf (tl a)) else Inl ''page''),
     te_size = (\<lambda>v. Some 0), te_encode_meta = (\<lambda>m. Some (d_meta m)), te_decode_meta = r_meta\<rparr>"

lemma leaf_db_sel [simp]:
  "te_read_head (leaf_db a b) (Suc 0) = PageBytes ''a''" "te_page_size (leaf_db a b) = 4096" "te_write_error (leaf_db a b) p s = None"
  "te_decode (leaf_db a b) ''a'' = Inr (Leaf a)" "te_size (leaf_db a b) v = Some 0" "te_encode_meta (leaf_db a b) m = Some (d_meta m)"
  "te_encode (leaf_db a b) (Leaf a) = Some ''a''" "te_encode (leaf_db a b) (Leaf b) = Some (if b = a then ''a'' else ''b'')"
  "te_encode (leaf_db a b) (Leaf (tl a)) = Some (if tl a = a then ''a'' else if tl a = b then ''b'' else ''c'')"
  by (simp_all add: leaf_db_def)

lemma leaf_db_codec: "codec_roundtrip (leaf_db a b)"
  by (auto simp: codec_roundtrip_def leaf_db_def)

definition leaf_start :: "(key \<times> record_t) list \<Rightarrow> record_t tree" where
  "leaf_start a = \<lparr>t_dirty = Map.empty, t_sizes = Map.empty, t_meta = meta_empty\<lparr>m_count := length a\<rparr>, t_meta_dirty = False\<rparr>"

lemma leaf_db_open: "tree_open (leaf_db a b) = Inr (leaf_start a)"
  by (simp add: tree_open_def leaf_db_def leaf_start_def META_PAGE_def)

lemma leaf_db_inv:
  assumes "skeys a"
  shows "tree_inv (leaf_db a b) (leaf_start a)" and "tree_entries (leaf_db a b) (leaf_start a) = a"
proof -
  have v: "view (leaf_db a b) (leaf_start a) (Suc 0) = Some (Leaf a)"
    by (simp add: view_def base_view_def leaf_start_def)
  have r: "m_root (t_meta (leaf_start a)) = Suc 0" and n: "next_free (leaf_start a) = 2" by (simp_all add: leaf_start_def meta_empty_def)
  have "forest (view (leaf_db a b) (leaf_start a)) 0 None None [] [m_root (t_meta (leaf_start a))]
      a {1..<next_free (leaf_start a)}"
    unfolding forest_one r n by (auto simp: v within_def assms)
  from tree_wfI [OF this] show "tree_inv (leaf_db a b) (leaf_start a)" "tree_entries (leaf_db a b) (leaf_start a) = a"
    by (simp_all add: leaf_start_def)
qed

text \<open>A working tree whose only page is the leaf.\<close>

definition at_leaf :: "(key \<times> record_t) list \<Rightarrow> nat \<Rightarrow> (key \<times> record_t) list \<Rightarrow> record_t tree \<Rightarrow> bool" where
  "at_leaf a B es t \<longleftrightarrow> skeys es \<and> m_root (t_meta t) = 1 \<and> m_next_free (t_meta t) = 2
     \<and> ((t_dirty t = [1 \<mapsto> Leaf es] \<and> (case t_sizes t 1 of Some sz \<Rightarrow> sz \<le> B | None \<Rightarrow> es = tl a \<and> 1 \<le> B))
        \<or> (t_dirty t = Map.empty \<and> es = a \<and> 1 \<le> B))"

lemma at_leaf_start: "skeys a \<Longrightarrow> at_leaf a 1 a (leaf_start a)"
  by (simp add: at_leaf_def leaf_start_def meta_empty_def)

lemma leaf_take:
  assumes "at_leaf a B es t"
  obtains u v sz where "take_node (leaf_db a b) t 1 = Inr (u, Leaf es)" "size_of (leaf_db a b) u 1 (Leaf es) = Inr (v, sz)" "sz \<le> B"
    "t_dirty v = Map.empty" "t_meta v = t_meta t"
  using assms by (auto simp: at_leaf_def take_node_def node_def size_of_def node_encode_def split: option.splits)

lemma at_leaf_insert:
  assumes "at_leaf a B es t" and "B + length k + 24 \<le> 2867"
  obtains t' where "tree_insert (leaf_db a b) t k v = Inr t'" "at_leaf a (B + length k + 24) (put k v es) t'"
proof -
  obtain u0 u sz where u: "take_node (leaf_db a b) t 1 = Inr (u0, Leaf es)" "size_of (leaf_db a b) u0 1 (Leaf es) = Inr (u, sz)" "sz \<le> B"
    "t_dirty u = Map.empty" "t_meta u = t_meta t" by (rule leaf_take [OF assms(1)])
  have es: "skeys es" and root: "m_root (t_meta t) = 1" "m_next_free (t_meta t) = Suc 1" using assms(1) by (simp_all add: at_leaf_def)
  have small: "overflowed (leaf_db a b) n est = Inr (est, False)" if "est \<le> 2867" for n est
    using that by (simp add: overflowed_def fill_limit_4096)
  have cost: "entry_cost (leaf_db a b) k' v' = Inr (length k' + 24)" for k' v' by (simp add: entry_cost_def SLACK_def)
  show thesis
  proof (cases "found_at es k")
    case None
    let ?w = "u\<lparr>t_meta := (t_meta u)\<lparr>m_count := m_count (t_meta u) + 1\<rparr>, t_meta_dirty := True\<rparr>"
    have "leaf_insert (leaf_db a b) u0 1 es k v = Inr (set_sized ?w 1 (Leaf (put k v es)) (sz + (length k + 24)), None)"
      using u assms(2) leaf_update [OF es] by (simp add: leaf_insert_def leaf_put_def None cost small)
    from root_leaf_insert [OF u(1) root this] show thesis
      using that u root skeys_put [OF es, of k v] by (simp add: at_leaf_def set_sized_def)
  next
    case (Some i)
    let ?z = "sz - (length (fst (es ! i)) + 24) + (length k + 24)"
    have "leaf_insert (leaf_db a b) u0 1 es k v = Inr (set_sized u 1 (Leaf (put k v es)) ?z, None)"
      using u assms(2) leaf_update [OF es] by (simp add: leaf_insert_def leaf_put_def Some cost small)
    from root_leaf_insert [OF u(1) root this] show thesis
      using that u root skeys_put [OF es, of k v] by (simp add: at_leaf_def set_sized_def)
  qed
qed

lemma at_leaf_mono: "at_leaf a B es t \<Longrightarrow> B \<le> C \<Longrightarrow> at_leaf a C es t"
  unfolding at_leaf_def by (elim conjE, intro conjI; auto split: option.splits)

lemma at_leaf_step:
  assumes "at_leaf a B es t" and "length k \<le> 76" and "B \<le> 2700"
  shows "\<exists>t'. tree_insert (leaf_db a b) t k v = Inr t' \<and> at_leaf a (B + 100) (put k v es) t'"
proof -
  have "B + length k + 24 \<le> 2867" using assms(2,3) by simp
  from at_leaf_insert [OF assms(1) this] obtain t' where
    t': "tree_insert (leaf_db a b) t k v = Inr t'" "at_leaf a (B + length k + 24) (put k v es) t'" .
  have "B + length k + 24 \<le> B + 100" using assms(2) by simp
  from at_leaf_mono [OF t'(2) this] t'(1) show ?thesis by blast
qed

text \<open>Reading and scanning keep the working tree.\<close>

lemma at_leaf_node:
  assumes "at_leaf a B es t"
  shows "\<exists>t'. node (leaf_db a b) t 1 = Inr (t', Leaf es) \<and> at_leaf a B es t'"
  using assms by (auto simp: at_leaf_def node_def)

lemma at_leaf_read:
  assumes "at_leaf a B es t"
  obtains t' where "tree_get (leaf_db a b) t k = Inr (t', map_of es k)" "at_leaf a B es t'"
  using assms at_leaf_node [OF assms, of b] leaf_lookup [of es k]
  by (auto simp: tree_get_def tree_fuel_def at_leaf_def numeral_2_eq_2)

lemma at_leaf_scan:
  assumes "at_leaf a B es t"
  obtains t' where "tree_scan (leaf_db a b) t = Inr (t', es)" "at_leaf a B es t'"
  using assms at_leaf_node [OF assms, of b] by (auto simp: tree_scan_def tree_fuel_def at_leaf_def numeral_2_eq_2)

text \<open>Removing the first entry: the size is taken again from the serializer.\<close>

lemma at_leaf_remove:
  assumes "at_leaf a B es t" and "del k es = tl a" and "k \<in> fst ` set es"
  shows "\<exists>t'. tree_remove (leaf_db a b) t k = Inr (t', True) \<and> at_leaf a 1 (tl a) t'"
proof -
  obtain u where u: "node (leaf_db a b) t 1 = Inr (u, Leaf es)" "at_leaf a B es u" using at_leaf_node [OF assms(1)] by blast
  have es: "skeys es" and m: "m_root (t_meta t) = 1" "m_next_free (t_meta t) = 2" using assms(1) by (simp_all add: at_leaf_def)
  then obtain i where i: "found_at es k = Some i" using found_at_iff [OF es, of k] assms(3) by auto
  have d: "t_dirty u = [1 \<mapsto> Leaf es] \<or> t_dirty u = Map.empty" and mu: "m_root (t_meta u) = 1" "m_next_free (t_meta u) = 2"
    using u(2) by (auto simp: at_leaf_def)
  have "remove_at i es = tl a" using leaf_remove [OF es i] assms(2) by simp
  moreover have "skeys (tl a)" using skeys_del [OF es, of k] assms(2) by simp
  ultimately show ?thesis using u(1) i m d mu
    by (auto simp: tree_remove_def tree_fuel_def numeral_2_eq_2 set_node_def at_leaf_def Let_def fun_upd_def)
qed

lemma at_leaf_flush:
  assumes "at_leaf a B b t"
  shows "\<exists>ws. tree_flush (leaf_db a b) t = Inr ws"
  using assms by (auto simp: at_leaf_def tree_flush_def node_encode_def)

section \<open>The scenario\<close>

definition demo_page :: source_ref where "demo_page = \<lparr>sr_system = ''web'', sr_record_id = ''page''\<rparr>"

definition demo_claim :: claim where
  "demo_claim = \<lparr>c_id = ''c1'', c_predicate = ''is'', c_subject = ''user'', c_object = BoolV True,
     c_valid = \<lparr>i_start = None, i_end = None\<rparr>, c_known = \<lparr>i_start = None, i_end = None\<rparr>,
     c_confidence = \<lparr>cf_value = 0, cf_method = LanguageModel, cf_calibration = ''raw''\<rparr>, c_evidence = [demo_page], c_status = Asserted,
     c_policy = None, c_actor = ''alice''\<rparr>"

abbreviation demo_stale :: record_t where
  "demo_stale \<equiv> RClaim (demo_claim\<lparr>c_status := Stale\<rparr>)"

definition demo_id :: bytes where "demo_id = replicate 31 CHR ''i'' @ ''j''"

definition demo_origin :: der_node where
  "demo_origin = \<lparr>dn_id = demo_id, dn_branch = ''s1'', dn_commit = ''r'', dn_key = ''k'', dn_actor = ''alice'', dn_delegation = [],
     dn_intent = ''read the page'', dn_derived_from = [], dn_sources = [demo_page]\<rparr>"

definition demo_before :: "(key \<times> record_t) list" where
  "demo_before =
     [(latest_node_key ''k'', RValue (Blob demo_id)), (prov_seq_key ''s1'', RValue (Counter 1)),
      (node_storage_key ''s1'' 0, RValue (Blob ''n'')), (source_index_key demo_page ''s1'' 0, RValue (Blob demo_id)),
      (''k'', RClaim demo_claim)]"

lemmas key_defs = latest_node_key_def prov_seq_key_def node_storage_key_def source_index_key_def key_space_defs

lemma demo_before_keys: "skeys demo_before"
  by (simp add: demo_before_def key_defs less_list_code less_char_def)

lemma demo_before_lookup:
  "map_of demo_before ''k'' = Some (RClaim demo_claim)" "map_of demo_before (prov_seq_key ''s1'') = Some (RValue (Counter 1))"
  by (simp_all add: demo_before_def key_defs)

definition demo_capture :: read_set where
  "demo_capture = \<lparr>rs_nodes = [demo_id], rs_sources = [], rs_min_label = least_restrictive\<rparr>"

definition demo_derived :: der_node where
  "demo_derived = der_node_new demo_crypto ''s1'' ''r'' ''k'' ''alice'' [] ''note'' [demo_id] []"

lemma demo_derived_nodes:
  "derivation_nodes demo_crypto ''s1'' ''r'' [(''k'', demo_stale)] demo_envelope demo_capture Map.empty = [demo_derived]"
  by (simp add: derivation_nodes_def demo_derived_def demo_capture_def demo_envelope_def envelope_new_def node_sources_def
      is_provenance_def key_space_defs der_node_new_def sort_dedup_def)

lemma demo_derived_sel [simp]: "dn_key demo_derived = ''k''" "dn_sources demo_derived = []" "dn_derived_from demo_derived = [demo_id]"
  by (simp_all add: demo_derived_def der_node_new_def sort_sources_def sort_dedup_def Let_def)

lemma demo_ids_differ: "dn_id demo_derived \<noteq> demo_id"
  by (simp add: demo_derived_def der_node_new_def sort_sources_def sort_dedup_def demo_id_def node_hash_input_def demo_crypto_def
      demo_hash_def numeral_eq_Suc Let_def)

definition demo_taint_codec :: loom_codec where
  "demo_taint_codec = \<lparr>lc_node_encode = (\<lambda>n. if n = demo_origin then Some ''n'' else if n = demo_derived then Some ''m'' else None),
     lc_node_decode = (\<lambda>b. if b = ''n'' then Some demo_origin else if b = ''m'' then Some demo_derived else None),
     lc_index_encode = (\<lambda>_. None), lc_index_decode = (\<lambda>_. None), lc_version_encode = (\<lambda>_. Some ''v''),
     lc_version_decode = (\<lambda>_. None), lc_embedding_encode = (\<lambda>_. None)\<rparr>"

lemma demo_nodes_differ: "demo_derived \<noteq> demo_origin"
  using demo_derived_sel(3) by (metis der_node.select_convs(8) demo_origin_def list.distinct(1))

lemma demo_taint_codec_ok: "node_codec_ok demo_taint_codec"
  using demo_nodes_differ by (auto simp: node_codec_ok_def demo_taint_codec_def)

definition demo_after :: "(key \<times> record_t) list" where
  "demo_after = fold (\<lambda>(k, v). put k v)
     [(''k'', demo_stale), (node_storage_key ''s1'' 1, RValue (Blob ''m'')), (latest_node_key ''k'', RValue (Blob (dn_id demo_derived))),
      (prov_seq_key ''s1'', RValue (Counter 2)), (history_key ''user'' ''is'' 0, RValue (Blob ''v''))] demo_before"

definition demo_tenv :: "(demo_pages, refs option) loom_env" where
  "demo_tenv = demo_lenv\<lparr>en_codec := demo_taint_codec\<rparr>"

lemma demo_tenv_sel [simp]:
  "en_pager demo_tenv = demo_pager" "en_store demo_tenv = mem_io" "en_issuer demo_tenv = demo_issuer" "en_codec demo_tenv = demo_taint_codec"
  by (simp_all add: demo_tenv_def)

lemma demo_crypto_of [simp]: "is_crypto demo_issuer = demo_crypto"
  by (simp add: demo_issuer_def)

definition demo_tainted :: "(demo_pages, refs option) loom" where
  "demo_tainted = (fresh_loom [''r'' \<mapsto> leaf_db demo_before demo_after] (Some demo_refs0) demo_refs0)\<lparr>lm_reads := [''s1'' \<mapsto> demo_capture]\<rparr>"

lemma demo_tainted_sel [simp]:
  "lm_pager demo_tainted = [''r'' \<mapsto> leaf_db demo_before demo_after]" "lm_store demo_tainted = Some demo_refs0"
  "lm_refs demo_tainted = demo_refs0" "lm_keys demo_tainted = None" "lm_edits demo_tainted = []" "lm_reads demo_tainted = [''s1'' \<mapsto> demo_capture]"
  by (simp_all add: demo_tainted_def fresh_loom_def)

lemma demo_tainted_heads: "head b demo_tainted = (if b = ''main'' \<or> b = ''s1'' then Inr ''r'' else Inl (NoSuchBranch b))"
  by (auto simp: head_def demo_refs0_def)

lemma demo_tainted_commit: "commit_good demo_tenv demo_tainted ''r'' demo_before"
  using leaf_db_codec [of demo_before demo_after] leaf_db_open [of demo_before demo_after]
    leaf_db_inv [OF demo_before_keys, of demo_after]
  by (auto simp: commit_good_def demo_pager_def)

lemma demo_tainted_holds: "holds demo_tenv demo_tainted ''s1'' demo_before"
  using demo_tainted_commit by (auto simp: holds_def demo_tainted_heads)

lemma demo_tainted_ok: "loom_ok demo_tenv demo_tainted"
  using demo_tainted_commit demo_tainted_heads
  by (auto simp: loom_ok_def refs_wf_def demo_refs0_def REFS_FORMAT_VERSION_def less_list_code split: if_splits)

lemma no_versions: "(\<And>b. lc_version_decode K b = None) \<Longrightarrow> history_versions K pre es = []"
  by (auto simp: history_versions_def history_entry_def List.map_filter_def split: record_t.splits val.splits if_splits intro!: filter_False)

text \<open>The body of the write of a claim, on any leaf whose branch has used one sequence number, whatever the hints
  and whatever the history of the claim.\<close>

lemma demo_write_claim:
  assumes sk: "skeys a" and seq: "map_of a (prov_seq_key ''s1'') = Some (RValue (Counter 1))"
    and E: "en_codec E = K" "en_crypto E = demo_crypto"
    and K: "lc_node_encode K demo_derived = Some ''m''"
    and cap: "rs_nodes cap = [demo_id]" "rs_sources cap = []"
    and e4: "e4 = put (prov_seq_key ''s1'') (RValue (Counter 2)) (put (latest_node_key ''k'') (RValue (Blob (dn_id demo_derived)))
        (put (node_storage_key ''s1'' 1) (RValue (Blob ''m'')) (put ''k'' (RClaim c) a)))"
    and idx: "\<And>t. at_leaf a 401 e4 t \<Longrightarrow> \<exists>t'. write_index K (leaf_db a f) hints (rs_min_label cap) (''k'', RClaim c) t = Inr t' \<and> at_leaf a 501 e5 t'"
    and hist: "\<And>t. at_leaf a 501 e5 t \<Longrightarrow> \<exists>t'. append_claim_version K (leaf_db a f) c t = Inr t' \<and> at_leaf a 1000 f t'"
  shows "\<exists>t. write_body E (leaf_db a f) ''s1'' ''r'' [(''k'', RClaim c)] demo_envelope cap Map.empty hints (leaf_start a) = Inr t \<and> at_leaf a 1000 f t"
proof -
  let ?T = "leaf_db a f"
  let ?e1 = "put ''k'' (RClaim c) a"
  let ?e2 = "put (node_storage_key ''s1'' 1) (RValue (Blob ''m'')) ?e1"
  let ?e3 = "put (latest_node_key ''k'') (RValue (Blob (dn_id demo_derived))) ?e2"
  have len: "length (node_storage_key ''s1'' 1) \<le> 76" "length (latest_node_key ''k'') \<le> 76" "length (prov_seq_key ''s1'') \<le> 76"
    by (simp_all add: key_defs branch_seq_def)
  obtain t1 where t1: "tree_insert ?T (leaf_start a) ''k'' (RClaim c) = Inr t1" "at_leaf a 101 ?e1 t1"
    using at_leaf_step [OF at_leaf_start [OF sk], of "''k''"] by auto
  obtain t2 where t2: "tree_get ?T t1 (prov_seq_key ''s1'') = Inr (t2, Some (RValue (Counter 1)))" "at_leaf a 101 ?e1 t2"
  proof (rule at_leaf_read [OF t1(2), of f "prov_seq_key ''s1''"])
    fix t' assume "tree_get ?T t1 (prov_seq_key ''s1'') = Inr (t', map_of ?e1 (prov_seq_key ''s1''))" "at_leaf a 101 ?e1 t'"
    moreover have "map_of ?e1 (prov_seq_key ''s1'') = Some (RValue (Counter 1))"
      using seq by (simp add: map_of_put [OF sk] prov_seq_key_def key_space_defs)
    ultimately show thesis using that by simp
  qed
  obtain t3 where t3: "tree_insert ?T t2 (node_storage_key ''s1'' 1) (RValue (Blob ''m'')) = Inr t3" "at_leaf a 201 ?e2 t3"
    using at_leaf_step [OF t2(2) len(1)] by auto
  obtain t4 where t4: "tree_insert ?T t3 (latest_node_key ''k'') (RValue (Blob (dn_id demo_derived))) = Inr t4" "at_leaf a 301 ?e3 t4"
    using at_leaf_step [OF t3(2) len(2)] by auto
  obtain t5 where t5: "tree_insert ?T t4 (prov_seq_key ''s1'') (RValue (Counter 2)) = Inr t5" "at_leaf a 401 e4 t5"
    using at_leaf_step [OF t4(2) len(3)] unfolding e4 by auto
  obtain ti where ti: "write_index K ?T hints (rs_min_label cap) (''k'', RClaim c) t5 = Inr ti" "at_leaf a 501 e5 ti"
    using idx [OF t5(2)] by blast
  obtain t6 where t6: "append_claim_version K ?T c ti = Inr t6" "at_leaf a 1000 f t6" using hist [OF ti(2)] by blast
  have nodes: "derivation_nodes demo_crypto ''s1'' ''r'' [(''k'', RClaim c)] demo_envelope cap Map.empty = [demo_derived]"
    using demo_derived_nodes by (simp add: derivation_nodes_def node_sources_def cap demo_capture_def is_provenance_def key_space_defs)
  have "write_provenance E ?T ''s1'' ''r'' [(''k'', RClaim c)] demo_envelope cap Map.empty t1 = Inr t5"
  proof -
    have "insert_node_records K ?T ''s1'' demo_derived (t2, 1) = Inr (t4, 2)"
      using t3(1) t4(1) K by (simp add: insert_node_records_def node_encode_blob_def put_blob_def next_seq_def u64_add_def)
    then show ?thesis
      using t2(1) t5(1) nodes
      by (simp add: write_provenance_def read_counter_def is_provenance_def is_reserved_def key_space_defs E)
  qed
  then have "write_body E ?T ''s1'' ''r'' [(''k'', RClaim c)] demo_envelope cap Map.empty hints (leaf_start a) = Inr t6"
    using t1(1) ti(1) t6(1) by (simp add: write_body_def insert_records_def write_history_def E)
  then show ?thesis using t6(2) by blast
qed

text \<open>The first version of a claim.\<close>

lemma first_version:
  assumes leaf: "at_leaf a B e t" and B: "B \<le> 2700" and key: "length (history_key (c_subject c) (c_predicate c) 0) \<le> 76"
    and K: "lc_version_encode K \<lparr>cv_claim = c, cv_seq = 0\<rparr> = Some v" "history_versions K (history_prefix (c_subject c) (c_predicate c)) e = []"
  shows "\<exists>t'. append_claim_version K (leaf_db a f) c t = Inr t' \<and> at_leaf a (B + 100) (put (history_key (c_subject c) (c_predicate c) 0) (RValue (Blob v)) e) t'"
proof -
  obtain u where u: "tree_scan (leaf_db a f) t = Inr (u, e)" "at_leaf a B e u" by (rule at_leaf_scan [OF leaf])
  from at_leaf_step [OF u(2) key B, of f "RValue (Blob v)"] show ?thesis
    using u(1) K by (auto simp: append_claim_version_def max_version_def put_version_def version_encode_def put_blob_def)
qed

lemma stale_version:
  assumes leaf: "at_leaf a 501 e t" and K: "lc_version_encode K \<lparr>cv_claim = demo_claim\<lparr>c_status := Stale\<rparr>, cv_seq = 0\<rparr> = Some v"
    "history_versions K (history_prefix ''user'' ''is'') e = []"
  shows "\<exists>t'. append_claim_version K (leaf_db a f) (demo_claim\<lparr>c_status := Stale\<rparr>) t = Inr t'
    \<and> at_leaf a 1000 (put (history_key ''user'' ''is'' 0) (RValue (Blob v)) e) t'"
proof -
  let ?c = "demo_claim\<lparr>c_status := Stale\<rparr>"
  have sp: "c_subject ?c = ''user''" "c_predicate ?c = ''is''" by (simp_all add: demo_claim_def)
  have "length (history_key (c_subject ?c) (c_predicate ?c) 0) \<le> 76" unfolding sp by (simp add: history_key_def history_prefix_def key_space_defs)
  from first_version [OF leaf _ this K(1), of f] K(2) show ?thesis unfolding sp using at_leaf_mono by fastforce
qed

lemma demo_tainted_body:
  "\<exists>t. write_body demo_tenv (leaf_db demo_before demo_after) ''s1'' ''r'' [(''k'', demo_stale)] demo_envelope demo_capture Map.empty Map.empty
      (leaf_start demo_before) = Inr t \<and> at_leaf demo_before 1000 demo_after t"
proof (rule demo_write_claim [OF demo_before_keys demo_before_lookup(2), of _ demo_taint_codec, OF _ _ _ _ _ refl])
  show "lc_node_encode demo_taint_codec demo_derived = Some ''m''" using demo_nodes_differ by (simp add: demo_taint_codec_def)
  show "\<exists>t'. write_index demo_taint_codec (leaf_db demo_before demo_after) Map.empty (rs_min_label demo_capture) (''k'', demo_stale) t = Inr t'
      \<and> at_leaf demo_before 501 e t'" if "at_leaf demo_before 401 e t" for t e
    using at_leaf_mono [OF that, of 501] by (auto simp: write_index_def)
  show "\<exists>t'. append_claim_version demo_taint_codec (leaf_db demo_before demo_after) (demo_claim\<lparr>c_status := Stale\<rparr>) t = Inr t'
      \<and> at_leaf demo_before 1000 demo_after t'"
    if leaf: "at_leaf demo_before 501 (put (prov_seq_key ''s1'') (RValue (Counter 2)) (put (latest_node_key ''k'') (RValue (Blob (dn_id demo_derived)))
        (put (node_storage_key ''s1'' 1) (RValue (Blob ''m'')) (put ''k'' demo_stale demo_before)))) t" for t
    using stale_version [OF leaf, of demo_taint_codec] by (simp add: demo_taint_codec_def demo_after_def no_versions)
qed (simp_all add: demo_taint_codec_def demo_capture_def)

section \<open>Running it\<close>

lemma demo_walk:
  "nodes_of demo_taint_codec demo_before = [(demo_id, demo_origin)]" "seeds_of demo_page demo_before = [demo_id]"
  "flood_downstream [(demo_id, demo_origin)] [demo_id] = Inr [demo_id]"
proof -
  have p: "node_of_entry demo_taint_codec w = (if w = (node_storage_key ''s1'' 0, RValue (Blob ''n'')) then Some demo_origin else None)"
    if "w \<in> set demo_before" for w
    using that by (auto simp: demo_before_def node_of_entry_def blob_of_def demo_taint_codec_def demo_id_def key_defs)
  have "List.map_filter (node_of_entry demo_taint_codec) demo_before = [demo_origin]"
    using p by (simp add: demo_before_def map_filter_simps key_defs)
  then show "nodes_of demo_taint_codec demo_before = [(demo_id, demo_origin)]"
    by (simp add: nodes_of_def demo_origin_def)
  have "List.map_filter (seed_of_entry demo_page) demo_before = [demo_id]"
    by (simp add: demo_before_def map_filter_simps seed_of_entry_def source_index_prefix_def blob_of_def key_defs node_from_index_value_def demo_id_def)
  then show "seeds_of demo_page demo_before = [demo_id]" by (simp add: seeds_of_def sort_dedup_def)
  have "children_of [(demo_id, demo_origin)] demo_id = []" by (simp add: children_of_def add_edges_def demo_origin_def)
  then show "flood_downstream [(demo_id, demo_origin)] [demo_id] = Inr [demo_id]"
    by (simp add: flood_downstream_def MAX_DERIVATION_DEPTH_def insert_node_def sort_dedup_def)
qed

lemma demo_contaminated: "contaminated_keys_on demo_tenv demo_tainted ''s1'' demo_page = Inr [''k'']"
  using nodes_on_holds [OF demo_tainted_holds] seeds_on_holds [OF demo_tainted_holds, of demo_page] demo_walk
  by (simp add: contaminated_keys_on_def contaminated_key_def demo_origin_def map_filter_simps sort_dedup_def is_provenance_def key_space_defs)

lemma demo_stale_writes: "stale_writes demo_tenv demo_tainted ''s1'' demo_page = Inr [(''k'', demo_stale)]"
proof -
  obtain t where t: "tree_get (leaf_db demo_before demo_after) (leaf_start demo_before) ''k'' = Inr (t, Some (RClaim demo_claim))"
    using at_leaf_read [OF at_leaf_start [OF demo_before_keys], of demo_after "''k''"] demo_before_lookup(1) by metis
  then have "mark_node (leaf_db demo_before demo_after) [(demo_id, demo_origin)] demo_id (leaf_start demo_before, []) = Inr (t, [(''k'', demo_stale)])"
    by (simp add: mark_node_def demo_origin_def is_provenance_def key_space_defs) (simp add: demo_claim_def)
  then show ?thesis
    using nodes_on_holds [OF demo_tainted_holds] seeds_on_holds [OF demo_tainted_holds, of demo_page] demo_walk
    by (simp add: stale_writes_def demo_tainted_heads demo_pager_def leaf_db_open)
qed

lemma demo_tainted_write:
  obtains l' where "write_many demo_tenv demo_token ''s1'' [(''k'', demo_stale)] demo_envelope 5 demo_tainted = (l', Inr ''r+'')"
proof -
  obtain t where t: "write_body demo_tenv (leaf_db demo_before demo_after) ''s1'' ''r'' [(''k'', demo_stale)] demo_envelope demo_capture Map.empty Map.empty
      (leaf_start demo_before) = Inr t" "at_leaf demo_before 1000 demo_after t" using demo_tainted_body by blast
  obtain ws where ws: "tree_flush (leaf_db demo_before demo_after) t = Inr ws" using at_leaf_flush [OF t(2)] by blast
  have e: "e_session demo_envelope = ''s1''" by (simp add: demo_envelope_def envelope_new_def)
  have c: "session_reads ''s1'' demo_tainted = demo_capture" by (simp add: session_reads_def)
  have b: "map_of (rf_branches demo_refs0) ''s1'' = Some ''r''" "rf_commits demo_refs0 = []" by (simp_all add: demo_refs0_def)
  have "\<exists>l'. transact demo_tenv ''s1'' (\<lambda>h T t. bind_r (write_body demo_tenv T ''s1'' h [(''k'', demo_stale)] demo_envelope demo_capture Map.empty Map.empty t)
        (\<lambda>t. Inr (t, ()))) (demo_tainted\<lparr>lm_reads := (lm_reads demo_tainted)(''s1'' := None)\<rparr>) = (l', Inr (''r+'', ()))"
    using b t(1) ws
    by (simp add: transact_def bind_s_def leaf_db_open demo_pager_def commit_txn_def record_commit_def Let_def head_def
        push_edit_def with_commits_def set_head_def with_branches_def persist_def mem_io_def mem_apply_def)
  then show thesis
    using that demo_checks demo_envelope_valid c e
    by (auto simp: write_many_def write_many_derived_def write_all_def check_envelope_def take_read_set_def bind_s_def authenticate_def)
qed

section \<open>A recall over the two branches\<close>

lemma demo_names: "branch_names demo_tainted = [''main'', ''s1'']"
  by (simp add: branch_names_def demo_refs0_def)

lemma demo_main_holds: "holds demo_tenv demo_tainted ''main'' demo_before"
  using demo_tainted_commit by (auto simp: holds_def demo_tainted_heads)

lemma demo_anywhere: "contaminated_anywhere demo_tenv demo_tainted demo_page = Inr [''k'', ''k'']"
proof -
  have keys: "contaminated_keys_on demo_tenv demo_tainted ''main'' demo_page = Inr [''k'']"
    using contaminated_keys_holds [OF demo_main_holds, of demo_page] contaminated_keys_holds [OF demo_tainted_holds, of demo_page] demo_contaminated by simp
  then show ?thesis using demo_contaminated by (simp add: contaminated_anywhere_def demo_names)
qed

lemma demo_recall: "\<exists>plan stats. taint_with_actions demo_tenv (\<lambda>x. x) demo_tainted demo_page actions = Inr (plan, stats)"
proof -
  have each: "\<exists>acc'. taint_branch demo_tenv (\<lambda>x. x) demo_tainted demo_page b acc = Inr acc'" if "holds demo_tenv demo_tainted b demo_before" for b acc
  proof -
    have "describe_node demo_origin \<noteq> None" by (simp add: describe_node_def demo_origin_def)
    then have "\<exists>rs. reversible_of (\<lambda>x. x) [(demo_id, demo_origin)] demo_page demo_id = Inr rs"
      by (cases "is_provenance (dn_key demo_origin)") (auto simp: reversible_of_def)
    then obtain rs where "reversible_of (\<lambda>x. x) [(demo_id, demo_origin)] demo_page demo_id = Inr rs" by blast
    then show ?thesis using nodes_on_holds [OF that] seeds_on_holds [OF that, of demo_page] demo_walk
      by (cases acc) (simp add: taint_branch_def Let_def)
  qed
  obtain plan0 stats where t: "taint demo_tenv (\<lambda>x. x) demo_tainted demo_page = Inr (plan0, stats)"
  proof -
    obtain a1 where a1: "taint_branch demo_tenv (\<lambda>x. x) demo_tainted demo_page ''main'' ([], \<lparr>ts_branches = 0, ts_nodes_examined = 0, ts_contaminated = 0\<rparr>) = Inr a1"
      using each [OF demo_main_holds] by blast
    obtain a2 where "taint_branch demo_tenv (\<lambda>x. x) demo_tainted demo_page ''s1'' a1 = Inr a2" using each [OF demo_tainted_holds] by blast
    then show thesis using that a1 by (cases a2) (simp add: taint_def demo_names)
  qed
  then show ?thesis using demo_anywhere by (simp add: taint_with_actions_def Let_def)
qed

end
