(* ===== verification/LoomBranchProps.thy ===== *)
theory LoomBranchProps
  imports LoomTaintDemo
begin

text \<open>
  Properties of branching and merging (\<open>session.rs\<close>): the merge bases, what a checked merge writes,
  sessions, rewinding, reads that are captured, and the registry attestation.
\<close>

section \<open>Merge bases\<close>

text \<open>C7: on a finite history the ancestry walk and the search for the merge base end, and the bases are
  exactly the lowest common ancestors over the recorded multi-parent DAG: the common ancestors from
  which no other common ancestor descends, each once and in order; on an acyclic history every common
  ancestor is an ancestor of one of them, so there is a base whenever there is shared history.\<close>

theorem merge_bases_are_lowest_common:
  assumes "finite (reach (commit_parents E l) a)" and "finite (reach (commit_parents E l) b)"
  shows "\<exists>bs. merge_bases E l a b = Some bs \<and> set bs = lowest_common (commit_parents E l) a b \<and> sorted bs \<and> distinct bs
    \<and> (acyclic (parent_edge (commit_parents E l)) \<longrightarrow>
         (\<forall>x\<in>common_ancestors (commit_parents E l) a b. \<exists>c\<in>set bs. x \<in> reach (commit_parents E l) c))"
proof -
  obtain bs where "merge_bases E l a b = Some bs" "set bs = lowest_common (commit_parents E l) a b" "sorted bs" "distinct bs"
    by (rule merge_bases_result [OF assms])
  then show ?thesis using lowest_exists [OF assms(1)] by blast
qed

definition demo_dag :: "(demo_pages, refs option) loom" where
  "demo_dag = demo_loom\<lparr>lm_refs := demo_refs0\<lparr>rf_commits := [(''a'', [''r'']), (''b'', [''r'']), (''m'', [''a'', ''b''])]\<rparr>\<rparr>"

lemma demo_dag_parents:
  "commit_parents demo_lenv demo_dag c =
     (if c = ''a'' \<or> c = ''b'' then [''r''] else if c = ''m'' then [''a'', ''b''] else [])"
  by (simp add: commit_parents_def demo_dag_def demo_pager_def)

lemma demo_dag_finite: "finite (reach (commit_parents demo_lenv demo_dag) c)"
proof (rule finite_subset)
  show "reach (commit_parents demo_lenv demo_dag) c \<subseteq> {''a'', ''b'', ''r'', ''m'', c}"
    by (rule closed_reach) (auto simp: demo_dag_parents)
qed simp

theorem merge_bases_are_lowest_common_witness:
  "\<exists>bs. merge_bases demo_lenv demo_dag ''m'' ''b'' = Some bs \<and> ''b'' \<in> set bs"
proof -
  let ?P = "commit_parents demo_lenv demo_dag"
  have a: "reach ?P ''r'' \<subseteq> {''r''}" "reach ?P ''a'' \<subseteq> {''a'', ''r''}"
    by (rule closed_reach; auto simp: demo_dag_parents)+
  have b: "reach ?P ''b'' \<subseteq> {''b'', ''r''}" by (rule closed_reach) (auto simp: demo_dag_parents)
  have "''b'' \<in> reach ?P ''m''" by (rule reach_step [of _ _ "''m''"]) (simp_all add: demo_dag_parents)
  then have "''b'' \<in> lowest_common ?P ''m'' ''b''"
    using a b by (auto simp: lowest_common_def common_ancestors_def)
  then show ?thesis using merge_bases_are_lowest_common [OF demo_dag_finite demo_dag_finite, of "''m''" "''b''"] by auto
qed

section \<open>The checked merge\<close>

lemma bind_s_keeps:
  assumes "bind_s (lift_r r) f s = (s', x)"
  shows "(s' = s) \<or> (\<exists>a. r = Inr a \<and> f a s = (s', x))"
  using assms by (cases r) auto

lemma merge_checked_steps:
  assumes "merge_checked E tok source target policy e forbids n1 n2 n3 l = (l', Inr r)"
  obtains sh th bs where "envelope_is_valid e" "authorize (en_issuer E) tok source n1 = Inr ()" "authorize (en_issuer E) tok target n2 = Inr ()"
    "head source l = Inr sh" "head target l = Inr th" "merge_bases E l sh th = Some bs"
    "(case choose_base source target sh bs of
         Inl r \<Rightarrow> ret r
       | Inr base \<Rightarrow>
           bind_s (ask (\<lambda>l. plan_merge (store_of E l) base sh th policy)) (\<lambda>outcome.
             merge_planned E tok source target sh e forbids n3 outcome)) l = (l', Inr r)"
  using assms unfolding merge_checked_def
  by (elim bind_lift_Inr bind_ask_Inr) (auto simp: check_envelope_def split: if_splits option.splits)

text \<open>A merge that does not go through changes nothing: when the branches have merged each other,
  when a record conflicts, or when the current policy forbids one of the writes, the whole state,
  refs, pages and read sets, is what it was.\<close>

theorem refused_merge_changes_nothing:
  assumes "merge_checked E tok source target policy e forbids n1 n2 n3 l = (l', Inr r)" and "\<not> is_merged r"
  shows "l' = l"
proof (rule merge_checked_steps [OF assms(1)])
  fix sh th bs
  assume r: "(case choose_base source target sh bs of
         Inl r \<Rightarrow> ret r
       | Inr base \<Rightarrow>
           bind_s (ask (\<lambda>l. plan_merge (store_of E l) base sh th policy)) (\<lambda>outcome.
             merge_planned E tok source target sh e forbids n3 outcome)) l = (l', Inr r)"
  show ?thesis
  proof (cases "choose_base source target sh bs")
    case (Inl x)
    then show ?thesis using r by simp
  next
    case (Inr base)
    then obtain outcome where o: "merge_planned E tok source target sh e forbids n3 outcome l = (l', Inr r)"
      using r by (auto elim: bind_ask_Inr)
    show ?thesis
    proof (cases outcome)
      case (Merged ws n)
      show ?thesis
      proof (cases "first_forbidden forbids ws")
        case None
        then have "apply_merge E tok source target sh ws n e n3 l = (l', Inr r)" using o Merged by (simp add: merge_planned_def)
        then have "is_merged r" by (auto simp: apply_merge_def Let_def bind_s_def is_merged_def split: prod.splits sum.splits)
        then show ?thesis using assms(2) by simp
      next
        case (Some kw)
        then show ?thesis using o Merged by (cases kw) (auto simp: merge_planned_def)
      qed
    qed (use o in \<open>simp add: merge_planned_def\<close>)
  qed
qed

definition demo_cross :: "(demo_pages, refs option) loom" where
  "demo_cross = demo_loom\<lparr>lm_refs := demo_refs0\<lparr>rf_branches := [(''main'', ''m''), (''s1'', ''n'')],
     rf_commits := [(''a'', [''r'']), (''b'', [''r'']), (''m'', [''a'', ''b'']), (''n'', [''b'', ''a''])]\<rparr>\<rparr>"

lemma demo_cross_parents:
  "commit_parents demo_lenv demo_cross c =
     (if c = ''a'' \<or> c = ''b'' then [''r''] else if c = ''m'' then [''a'', ''b''] else if c = ''n'' then [''b'', ''a''] else [])"
  by (simp add: commit_parents_def demo_cross_def demo_pager_def)

lemma demo_cross_reach:
  "reach (commit_parents demo_lenv demo_cross) ''r'' = {''r''}"
  "reach (commit_parents demo_lenv demo_cross) ''a'' = {''a'', ''r''}"
  "reach (commit_parents demo_lenv demo_cross) ''b'' = {''b'', ''r''}"
  "reach (commit_parents demo_lenv demo_cross) ''m'' = {''m'', ''a'', ''b'', ''r''}"
  "reach (commit_parents demo_lenv demo_cross) ''n'' = {''n'', ''a'', ''b'', ''r''}"
proof -
  let ?P = "commit_parents demo_lenv demo_cross"
  have up: "reach ?P ''r'' \<subseteq> {''r''}" "reach ?P ''a'' \<subseteq> {''a'', ''r''}" "reach ?P ''b'' \<subseteq> {''b'', ''r''}"
    "reach ?P ''m'' \<subseteq> {''m'', ''a'', ''b'', ''r''}" "reach ?P ''n'' \<subseteq> {''n'', ''a'', ''b'', ''r''}"
    by (rule closed_reach; auto simp: demo_cross_parents)+
  have e: "''r'' \<in> reach ?P ''a''" "''r'' \<in> reach ?P ''b''" "''a'' \<in> reach ?P ''m''" "''b'' \<in> reach ?P ''m''"
    "''a'' \<in> reach ?P ''n''" "''b'' \<in> reach ?P ''n''"
    by (rule reach_step [OF _ reach_self]; simp add: demo_cross_parents)+
  then have "''r'' \<in> reach ?P ''m''" "''r'' \<in> reach ?P ''n''" using reach_trans by blast+
  then show "reach ?P ''r'' = {''r''}" "reach ?P ''a'' = {''a'', ''r''}" "reach ?P ''b'' = {''b'', ''r''}"
    "reach ?P ''m'' = {''m'', ''a'', ''b'', ''r''}" "reach ?P ''n'' = {''n'', ''a'', ''b'', ''r''}"
    using up e by auto
qed

lemma demo_cross_bases: "\<exists>bs. merge_bases demo_lenv demo_cross ''n'' ''m'' = Some bs \<and> length bs = 2"
proof -
  let ?P = "commit_parents demo_lenv demo_cross"
  have fin: "finite (reach ?P ''n'')" "finite (reach ?P ''m'')" by (simp_all add: demo_cross_reach)
  have c: "common_ancestors ?P ''n'' ''m'' = {''a'', ''b'', ''r''}" by (auto simp: common_ancestors_def demo_cross_reach)
  have "lowest_common ?P ''n'' ''m'' = {''a'', ''b''}"
    unfolding lowest_common_def c by (auto simp: demo_cross_reach)
  with merge_bases_result [OF fin] obtain bs where bs: "merge_bases demo_lenv demo_cross ''n'' ''m'' = Some bs" "set bs = {''a'', ''b''}" "distinct bs"
    by metis
  then show ?thesis using distinct_card [of bs] by auto
qed

theorem refused_merge_changes_nothing_witness:
  "\<exists>l' t. merge demo_lenv demo_token ''s1'' ''main'' TakeSource demo_envelope 5 5 5 demo_cross = (l', Inr (AmbiguousHistory 2 t))
     \<and> l' = demo_cross"
proof -
  obtain bs where bs: "merge_bases demo_lenv demo_cross ''n'' ''m'' = Some bs" "length bs = 2" using demo_cross_bases by blast
  have h: "head ''s1'' demo_cross = Inr ''n''" "head ''main'' demo_cross = Inr ''m''" by (simp_all add: head_def demo_cross_def demo_refs0_def)
  have cb: "choose_base ''s1'' ''main'' ''n'' bs = Inl (AmbiguousHistory 2 (ambiguous_detail ''s1'' ''main'' 2))"
    using bs(2) by (auto simp: choose_base_def numeral_2_eq_2 split: list.splits)
  have m: "merge_checked demo_lenv demo_token ''s1'' ''main'' TakeSource demo_envelope (\<lambda>_ _. None) 5 5 5 demo_cross
      = (demo_cross, Inr (AmbiguousHistory 2 (ambiguous_detail ''s1'' ''main'' 2)))"
    using demo_checks demo_envelope_valid h bs(1) cb by (simp add: merge_checked_def check_envelope_def bind_s_def)
  from refused_merge_changes_nothing [OF m] show ?thesis using m by (auto simp: merge_def is_merged_def)
qed

lemma first_forbidden_None: "first_forbidden f ws = None \<longleftrightarrow> (\<forall>(k, r)\<in>set ws. caller_key k \<longrightarrow> f k r = None)"
  by (induction f ws rule: first_forbidden.induct) (auto split: option.splits)

lemma add_merge_edge_result:
  assumes "add_merge_edge c second l = (l', r)"
  shows "lm_pager l' = lm_pager l" and "rf_branches (lm_refs l') = rf_branches (lm_refs l)"
    and "refs_wf (lm_refs l) \<Longrightarrow> refs_wf (lm_refs l')"
  using assms by (auto simp: add_merge_edge_def push_edit_def with_commits_def refs_wf_def skeys_put split: option.splits if_splits)

lemma write_merge_result:
  assumes "write_merge E tok b records e second parents now l = (l', Inr c)"
  obtains l1 where "write_all E tok b records e parents Map.empty now l = (l1, Inr c)" "lm_pager l' = lm_pager l1"
    "rf_branches (lm_refs l') = rf_branches (lm_refs l1)" "refs_wf (lm_refs l1) \<longrightarrow> refs_wf (lm_refs l')"
proof -
  obtain before where before: "head b l = Inr before"
    and w: "bind_s (write_many_derived E tok b records e parents now) (\<lambda>c. bind_s (record_commit c [before, second]) (\<lambda>_.
       bind_s (add_merge_edge c second) (\<lambda>_. bind_s (persist E) (\<lambda>_. ret c)))) l = (l', Inr c)"
    using assms unfolding write_merge_def by (rule bind_ask_Inr)
  obtain l1 c1 where l1: "write_many_derived E tok b records e parents now l = (l1, Inr c1)"
    and r1: "bind_s (record_commit c1 [before, second]) (\<lambda>_. bind_s (add_merge_edge c1 second) (\<lambda>_. bind_s (persist E) (\<lambda>_. ret c1))) l1 = (l', Inr c)"
    using w by (rule bind_s_Inr)
  obtain l2 new where l2: "record_commit c1 [before, second] l1 = (l2, Inr ())" "lm_refs l2 = apply_edits new (lm_refs l1)" "lm_pager l2 = lm_pager l1"
    "new = [] \<or> (new = [RecordCommit c1 (filter (\<lambda>p. p \<noteq> c1) [before, second])] \<and> filter (\<lambda>p. p \<noteq> c1) [before, second] \<noteq> [])"
    using record_commit_result by blast
  obtain l3 u where l3: "add_merge_edge c1 second l2 = (l3, Inr u)" and r3: "bind_s (persist E) (\<lambda>_. ret c1) l3 = (l', Inr c)"
    using r1 l2(1) by (auto simp: bind_s_simps elim!: bind_s_Inr)
  obtain w where p: "persist E l3 = (l', Inr w)" and c: "c = c1" using r3 by (auto elim!: bind_s_Inr)
  note a = add_merge_edge_result [OF l3] and pr = persist_result [OF p]
  have br: "rf_branches (lm_refs l2) = rf_branches (lm_refs l1)" using l2(2,4) by auto
  show thesis
    by (rule that [of l1])
      (use l1 c a pr l2(2,3) br apply_edits_wf in \<open>simp_all add: write_many_derived_def\<close>)
qed

text \<open>C3: a merge that goes through writes exactly its plan, on the target only: there was at most one
  merge base, the plan against it has no conflict, the current policy forbids none of the caller's
  records it writes, and both branches were in the token's scope; afterwards the target reads the
  planned records and otherwise what it read before, every other branch, the source included, is
  untouched, and the database is again in order.\<close>

theorem merge_writes_its_plan:
  assumes "pager_ok (en_pager E)" and "loom_ok E l"
    and "merge_checked E tok source target policy e forbids n1 n2 n3 l = (l', Inr (MergedInto c n a))"
  shows "\<exists>sh th bs base writes es. head source l = Inr sh \<and> head target l = Inr th \<and> merge_bases E l sh th = Some bs
     \<and> length bs \<le> 1 \<and> choose_base source target sh bs = Inr base
     \<and> plan_merge (store_of E l) base sh th policy = Inr (Merged writes a)
     \<and> n = length (filter (\<lambda>w. caller_key (fst w)) writes)
     \<and> (\<forall>(k, r)\<in>set writes. caller_key k \<longrightarrow> forbids k r = None)
     \<and> loom_ok E l' \<and> head target l' = Inr c \<and> holds E l target es
     \<and> (\<forall>k. caller_key k \<longrightarrow> read_branch E l' target k = Inr (last_write writes es k))
     \<and> (\<forall>d. d \<noteq> target \<longrightarrow> head d l' = head d l \<and> (\<forall>k. read_branch E l' d k = read_branch E l d k))"
proof (rule merge_checked_steps [OF assms(3)])
  fix sh th bs
  assume h: "head source l = Inr sh" "head target l = Inr th" "merge_bases E l sh th = Some bs"
    and r: "(case choose_base source target sh bs of
         Inl r \<Rightarrow> ret r
       | Inr base \<Rightarrow>
           bind_s (ask (\<lambda>l. plan_merge (store_of E l) base sh th policy)) (\<lambda>outcome.
             merge_planned E tok source target sh e forbids n3 outcome)) l = (l', Inr (MergedInto c n a))"
  obtain base where base: "choose_base source target sh bs = Inr base"
    using r by (cases "choose_base source target sh bs") (auto simp: choose_base_def split: list.splits)
  then have len: "length bs \<le> 1" by (auto simp: choose_base_def split: list.splits)
  obtain outcome where o: "plan_merge (store_of E l) base sh th policy = Inr outcome"
    and m: "merge_planned E tok source target sh e forbids n3 outcome l = (l', Inr (MergedInto c n a))"
    using r base by (auto elim: bind_ask_Inr)
  obtain writes a' where w: "outcome = Merged writes a'" "first_forbidden forbids writes = None"
    and am: "apply_merge E tok source target sh writes a' e n3 l = (l', Inr (MergedInto c n a))"
    using m by (auto simp: merge_planned_def split: merge_outcome.splits option.splits)
  let ?ws = "writes @ [(merged_from_key source, RValue (Blob sh))]"
  have n: "n = length (filter (\<lambda>w. caller_key (fst w)) writes)" "a' = a"
    and wm: "write_merge E tok target ?ws e sh (merge_parents E l source target ?ws) n3 l = (l', Inr c)"
    using am by (auto simp: apply_merge_def Let_def bind_s_def split: prod.splits sum.splits)
  obtain l1 where l1: "write_all E tok target ?ws e (merge_parents E l source target ?ws) Map.empty n3 l = (l1, Inr c)"
    "lm_pager l' = lm_pager l1" "rf_branches (lm_refs l') = rf_branches (lm_refs l1)" "refs_wf (lm_refs l1) \<longrightarrow> refs_wf (lm_refs l')"
    by (rule write_merge_result [OF wm])
  have hd: "head d l' = head d l1" for d using l1(3) by (simp add: head_def)
  have rd: "read_branch E l' d k = read_branch E l1 d k" for d k using hd l1(2) by (simp add: read_branch_def read_commit_def)
  note u = write_updates_exactly [OF assms(1,2) l1(1)]
  have ok: "loom_ok E l'" using u l1(4) hd commit_good_pager [OF l1(2)] by (auto simp: loom_ok_def)
  obtain es where es: "holds E l target es" "\<forall>k. caller_key k \<longrightarrow> read_branch E l1 target k = Inr (last_write ?ws es k)" using u by blast
  have lw: "last_write ?ws es k = last_write writes es k" if "caller_key k" for k
    using that engine_key(8) [of source] by (auto simp: last_write_def)
  have "\<forall>k. caller_key k \<longrightarrow> read_branch E l' target k = Inr (last_write writes es k)" using es(2) lw rd by simp
  moreover have "\<forall>d. d \<noteq> target \<longrightarrow> head d l' = head d l \<and> (\<forall>k. read_branch E l' d k = read_branch E l d k)" using u hd rd by simp
  moreover have "\<forall>(k, r)\<in>set writes. caller_key k \<longrightarrow> forbids k r = None" using w(2) first_forbidden_None by blast
  moreover have "head target l' = Inr c" using u hd by simp
  moreover have "plan_merge (store_of E l) base sh th policy = Inr (Merged writes a)" using o w(1) n(2) by simp
  ultimately show ?thesis using h len base n(1) ok es(1) by blast
qed

lemma demo_plan: "plan_merge (store_of demo_lenv demo_loom) ''r'' ''r'' ''r'' TakeSource = Inr (Merged [] 0)"
proof -
  have k: "keys_in_pages rec_env empty_tree [0, 1] = (empty_tree, [])"
    by (simp add: keys_in_pages_def META_PAGE_def node_def empty_tree_def)
  show ?thesis
    by (simp add: plan_merge_def store_of_def demo_pager_def demo_pages0_def rec_open k candidate_keys_def plan_finish_def plan_start_def del: One_nat_def)
qed

lemma demo_bases: "merge_bases demo_lenv demo_loom ''r'' ''r'' = Some [''r'']"
proof -
  have "commit_parents demo_lenv demo_loom ''r'' = []" by (simp add: commit_parents_def demo_refs0_def demo_pager_def)
  then have "full_ancestors demo_lenv demo_loom ''r'' = Some [''r'']"
    by (simp add: full_ancestors_def ancestors_loop_steps insert_node_def sort_dedup_def)
  then show ?thesis by (simp add: merge_bases_def)
qed

lemma demo_session_merge:
  obtains l' where "merge_checked demo_lenv demo_token ''s1'' ''main'' TakeSource demo_envelope (\<lambda>_ _. None) 5 5 5 demo_loom
    = (l', Inr (MergedInto ''r+'' 0 0))"
proof -
  let ?w = "[(merged_from_key ''s1'', RValue (Blob ''r''))]"
  let ?k = "merged_from_key ''s1''"
  obtain t1 where t1: "tree_insert rec_env empty_tree ?k (RValue (Blob ''r'')) = Inr t1" "small_leaf (2000 + length ?k) [(?k, RValue (Blob ''r''))] t1"
    by (rule small_leaf_start [of ?k]) (simp_all add: merged_from_key_def key_space_defs)
  obtain ws where ws: "tree_flush rec_env t1 = Inr ws"
    using small_leaf_flush [OF t1(2)] by (auto simp: entry_cell_def)
  have res: "is_reserved ?k" by (rule reserved_keys)
  have body: "write_body demo_lenv rec_env ''main'' ''r'' ?w demo_envelope c x Map.empty empty_tree = Inr t1" for c x
    using t1(1) res by (simp add: write_body_def insert_records_def write_provenance_def write_index_def write_history_def)
  have v: "map_of (rf_branches demo_refs0) ''main'' = Some ''r''" "rf_commits demo_refs0 = []" by (simp_all add: demo_refs0_def)
  have pl: "plan_merge (store_of demo_lenv demo_loom) ''r'' ''r'' ''r'' TakeSource = Inr (Merged [] 0)" by (rule demo_plan)
  show thesis
    using demo_checks demo_envelope_valid demo_heads pl demo_bases body ws v
    by (intro that) (simp add: merge_checked_def check_envelope_def bind_s_def choose_base_def merge_planned_def apply_merge_def Let_def
        write_merge_def write_many_derived_def write_all_def take_read_set_def authenticate_def
        transact_def head_def rec_open demo_pager_def demo_pages0_def commit_txn_def record_commit_def
        push_edit_def with_commits_def set_head_def with_branches_def persist_def mem_io_def mem_apply_def add_merge_edge_def)
qed

theorem merge_writes_its_plan_witness:
  "\<exists>l'. merge demo_lenv demo_token ''s1'' ''main'' TakeSource demo_envelope 5 5 5 demo_loom = (l', Inr (MergedInto ''r+'' 0 0))
     \<and> head ''main'' l' = Inr ''r+'' \<and> head ''s1'' l' = Inr ''r''"
proof -
  obtain l' where m: "merge_checked demo_lenv demo_token ''s1'' ''main'' TakeSource demo_envelope (\<lambda>_ _. None) 5 5 5 demo_loom
    = (l', Inr (MergedInto ''r+'' 0 0))" by (rule demo_session_merge)
  have p: "pager_ok (en_pager demo_lenv)" by (simp add: demo_pager_ok)
  show ?thesis
    using merge_writes_its_plan [OF p demo_loom_ok m] m demo_heads [of "''s1''"] by (auto simp: merge_def)
qed

section \<open>Captured reads\<close>

lemma read_set_upd [simp]:
  "session_reads s (l\<lparr>lm_reads := f\<rparr>) = (case f s of None \<Rightarrow> read_set_default | Some r \<Rightarrow> r)"
  by (simp add: session_reads_def)

lemma read_branch_reads [simp]:
  "read_branch E (l\<lparr>lm_reads := f\<rparr>) b k = read_branch E l b k"
  "node_for_key E (l\<lparr>lm_reads := f\<rparr>) b k = node_for_key E l b k"
  "index_entry_for E (l\<lparr>lm_reads := f\<rparr>) b k = index_entry_for E l b k"
  by (simp_all add: node_for_key_def index_entry_for_def read_branch_def read_commit_def head_def)

lemma capture_read_result:
  assumes "capture_read E s b k rec l = (l', Inr ())" and "\<not> is_provenance k"
  obtains n x where "node_for_key E l b k = Inr n" "index_entry_for E l b k = Inr x"
    "session_reads s l' = capture_label x (capture_source rec (capture_node n (session_reads s l)))"
    "l' = l\<lparr>lm_reads := (lm_reads l)(s \<mapsto> session_reads s l')\<rparr>"
  using assms unfolding capture_read_def
  by (auto simp: bind_s_def split: sum.splits)

lemma read_result:
  assumes "read E tok b k now l = (l', Inr (Some rec))"
  shows "capture_read E (tk_session (tk_claims tok)) b k rec l = (l', Inr ())" and "read_branch E l b k = Inr (Some rec)"
    and "authorize (en_issuer E) tok b now = Inr ()"
  using assms unfolding read_def
  by (auto elim!: bind_lift_Inr bind_ask_Inr bind_s_Inr split: option.splits)

lemma capture_grows:
  "set (rs_nodes r) \<subseteq> set (rs_nodes (capture_label x (capture_source rec (capture_node n r))))"
  "set (rs_sources r) \<subseteq> set (rs_sources (capture_label x (capture_source rec (capture_node n r))))"
  "rs_min_label r \<le> rs_min_label (capture_label x (capture_source rec (capture_node n r)))"
  by (auto simp: capture_label_def capture_source_def capture_node_def most_restrictive_def le_max_iff_disj
      split: option.splits record_t.splits)

text \<open>C37: what a session reads it cannot disown: when a read under a token succeeds and the next call is a
  successful write whose envelope names the session of that token, the branch afterwards holds, for
  every caller's key of the batch, a derivation node of the key that is derived from the node that wrote
  the record that was read, cites the source of an observation that was read, with an entry in that
  source's index, and carries whatever the session had read before; the session's trust label is at least as
  restrictive as that of what was read; the write has consumed this session's read set and no other.
  The session is the one the envelope names: under an envelope of another session the write carries none of
  it (\<open>envelope_session_escapes\<close>).\<close>

theorem reads_reach_the_next_write:
  assumes P: "pager_ok (en_pager E)" and ok: "loom_ok E l"
    and rd: "read E tok b k now l = (l1, Inr (Some rec))" "\<not> is_provenance k"
    and wr: "write_all E tok' b' records e extra hints now' l1 = (l', Inr c)" and same: "e_session e = tk_session (tk_claims tok)"
    and kw: "kw \<in> fst ` set records" "caller_key kw"
  shows "(\<exists>es' n q. holds E l' b' es' \<and> stored (en_codec E) b' es' n q \<and> dn_key n = kw
        \<and> (\<forall>m. node_for_key E l b k = Inr (Some m) \<longrightarrow> m \<in> set (dn_derived_from n))
        \<and> (\<forall>ob. rec = RObservation ob \<longrightarrow> o_source ob \<in> set (dn_sources n)
              \<and> map_of es' (source_index_key (o_source ob) b' q) = Some (RValue (Blob (dn_id n))))
        \<and> set (rs_nodes (session_reads (e_session e) l)) \<subseteq> set (dn_derived_from n)
        \<and> set (rs_sources (session_reads (e_session e) l)) \<union> set (e_derived_from e) \<subseteq> set (dn_sources n))
    \<and> (\<forall>ob. rec = RObservation ob \<longrightarrow> o_trust ob \<le> rs_min_label (session_reads (e_session e) l1))
    \<and> (\<forall>x. index_entry_for E l b k = Inr (Some x) \<longrightarrow> ix_label x \<le> rs_min_label (session_reads (e_session e) l1))
    \<and> rs_min_label (session_reads (e_session e) l) \<le> rs_min_label (session_reads (e_session e) l1)
    \<and> (\<forall>s. session_reads s l' = (if s = e_session e then read_set_default else session_reads s l1))"
proof -
  let ?s = "tk_session (tk_claims tok)"
  obtain n x where r: "node_for_key E l b k = Inr n" "index_entry_for E l b k = Inr x"
    "session_reads ?s l1 = capture_label x (capture_source rec (capture_node n (session_reads ?s l)))"
    "l1 = l\<lparr>lm_reads := (lm_reads l)(?s \<mapsto> session_reads ?s l1)\<rparr>"
    by (rule capture_read_result [OF read_result(1) [OF rd(1)] rd(2)])
  define cap where "cap = session_reads (e_session e) l1"
  note c = cap_def [unfolded same r(3)]
  have 1: "m \<in> set (rs_nodes cap)" if "n = Some m" for m
    using that by (simp add: c capture_label_def capture_source_def capture_node_def split: option.split record_t.split)
  have 2: "o_source ob \<in> set (rs_sources cap) \<and> o_trust ob \<le> rs_min_label cap" if "rec = RObservation ob" for ob
    using that by (auto simp: c capture_label_def capture_source_def most_restrictive_def le_max_iff_disj split: option.split)
  have 3: "ix_label en \<le> rs_min_label cap" if "x = Some en" for en using that by (simp add: c capture_label_def)
  have g: "set (rs_nodes (session_reads ?s l)) \<subseteq> set (rs_nodes cap)" "set (rs_sources (session_reads ?s l)) \<subseteq> set (rs_sources cap)"
    "rs_min_label (session_reads ?s l) \<le> rs_min_label cap" unfolding c by (rule capture_grows)+
  have ok1: "loom_ok E l1" using ok r(4) by (metis loom_ok_reads)
  obtain es' h where es': "holds E l' b' es'"
    "\<forall>n\<in>set (derivation_nodes (en_crypto E) b' h records e cap extra). \<exists>q. stored (en_codec E) b' es' n q"
    unfolding cap_def by (rule write_all_stored [OF P ok1 wr kw])
  obtain rw where rw: "(kw, rw) \<in> set records" using kw(1) by auto
  define d where "d = der_node_new (en_crypto E) b' h kw (e_actor e) (e_delegation e) (e_intent e)
    (sort_dedup (rs_nodes cap @ (case extra kw of None \<Rightarrow> [] | Some ns \<Rightarrow> ns))) (node_sources e cap rw)"
  have "\<not> is_provenance kw" using kw(2) by (simp add: caller_key_def)
  then have "d \<in> set (derivation_nodes (en_crypto E) b' h records e cap extra)"
    unfolding derivation_nodes_def d_def Let_def using rw by force
  then obtain q where q: "stored (en_codec E) b' es' d q" using es'(2) by blast
  have d: "dn_key d = kw" "set (rs_nodes cap) \<subseteq> set (dn_derived_from d)" "set (rs_sources cap) \<union> set (e_derived_from e) \<subseteq> set (dn_sources d)"
    by (auto simp: d_def der_node_new_def Let_def node_sources_def)
  have ob: "o_source ob \<in> set (dn_sources d) \<and> map_of es' (source_index_key (o_source ob) b' q) = Some (RValue (Blob (dn_id d)))"
    if "rec = RObservation ob" for ob
    using 2 [OF that] d(3) q unfolding stored_def by blast
  have "head_moved E (l1\<lparr>lm_reads := (lm_reads l1)(e_session e := None)\<rparr>) b' c new l' \<Longrightarrow>
      session_reads s l' = (if s = e_session e then read_set_default else session_reads s l1)" for new s
    by (simp add: head_moved_def session_reads_def)
  then have used: "session_reads s l' = (if s = e_session e then read_set_default else session_reads s l1)" for s
    using write_all_result [OF P ok1 wr] by metis
  have first: "\<exists>es' n' q. holds E l' b' es' \<and> stored (en_codec E) b' es' n' q \<and> dn_key n' = kw
        \<and> (\<forall>m. node_for_key E l b k = Inr (Some m) \<longrightarrow> m \<in> set (dn_derived_from n'))
        \<and> (\<forall>ob. rec = RObservation ob \<longrightarrow> o_source ob \<in> set (dn_sources n')
              \<and> map_of es' (source_index_key (o_source ob) b' q) = Some (RValue (Blob (dn_id n'))))
        \<and> set (rs_nodes (session_reads (e_session e) l)) \<subseteq> set (dn_derived_from n')
        \<and> set (rs_sources (session_reads (e_session e) l)) \<union> set (e_derived_from e) \<subseteq> set (dn_sources n')"
    using es'(1) q d ob 1 g(1,2) unfolding r(1) same by (intro exI [of _ es'] exI [of _ d] exI [of _ q]) auto
  show ?thesis using first 2 3 g(3) used unfolding r(2) cap_def same by auto
qed

text \<open>A session reads the claim, and writes it again.\<close>

definition demo_fresh :: "(demo_pages, refs option) loom" where
  "demo_fresh = demo_tainted\<lparr>lm_reads := Map.empty\<rparr>"

lemma demo_fresh_read: "read demo_tenv demo_token ''s1'' ''k'' 5 demo_fresh = (demo_tainted, Inr (Some (RClaim demo_claim)))"
proof -
  have h: "holds demo_tenv demo_fresh ''s1'' demo_before" using demo_tainted_holds by (simp add: demo_fresh_def)
  note b = holds_read [OF h]
  have look: "map_of demo_before ''k'' = Some (RClaim demo_claim)" "map_of demo_before (latest_node_key ''k'') = Some (RValue (Blob demo_id))"
    "map_of demo_before (index_key ''k'') = None"
    by (simp_all add: demo_before_def key_defs index_key_def INDEX_PREFIX_def)
  have n: "node_for_key demo_tenv (demo_fresh\<lparr>lm_reads := f\<rparr>) ''s1'' ''k'' = Inr (Some demo_id)" for f
    using b [of "latest_node_key ''k''"] look by (simp add: node_for_key_def node_from_index_value_def demo_id_def)
  have x: "index_entry_for demo_tenv (demo_fresh\<lparr>lm_reads := f\<rparr>) ''s1'' ''k'' = Inr None" for f
    using b [of "index_key ''k''"] look by (simp add: index_entry_for_def)
  have s: "tk_session (tk_claims demo_token) = ''s1''" by (simp add: demo_token_def demo_claims_def)
  have pk: "\<not> is_provenance ''k''" by (simp add: is_provenance_def key_space_defs)
  show ?thesis
    using b [of "''k''"] look n x s pk demo_checks
    by (simp add: read_def bind_s_def capture_read_def capture_source_def capture_node_def capture_label_def insert_node_def sort_dedup_def
        read_set_default_def demo_fresh_def demo_capture_def demo_tainted_def)
qed

theorem reads_reach_the_next_write_witness:
  "\<exists>l' es' n q. read demo_tenv demo_token ''s1'' ''k'' 5 demo_fresh = (demo_tainted, Inr (Some (RClaim demo_claim)))
     \<and> write_many demo_tenv demo_token ''s1'' [(''k'', demo_stale)] demo_envelope 5 demo_tainted = (l', Inr ''r+'')
     \<and> holds demo_tenv l' ''s1'' es' \<and> stored demo_taint_codec ''s1'' es' n q \<and> dn_key n = ''k'' \<and> demo_id \<in> set (dn_derived_from n)
     \<and> session_reads ''s1'' l' = read_set_default"
proof -
  obtain l' where w: "write_many demo_tenv demo_token ''s1'' [(''k'', demo_stale)] demo_envelope 5 demo_tainted = (l', Inr ''r+'')"
    by (rule demo_tainted_write)
  then have wa: "write_all demo_tenv demo_token ''s1'' [(''k'', demo_stale)] demo_envelope Map.empty Map.empty 5 demo_tainted = (l', Inr ''r+'')"
    by (simp add: write_many_def write_many_derived_def)
  have P: "pager_ok (en_pager demo_tenv)" by (simp add: demo_pager_ok)
  have ok: "loom_ok demo_tenv demo_fresh" using demo_tainted_ok by (simp add: demo_fresh_def)
  have k: "\<not> is_provenance ''k''" "caller_key ''k''" "''k'' \<in> fst ` set [(''k'', demo_stale)]"
    by (simp_all add: caller_key_def is_reserved_def is_provenance_def key_space_defs)
  have s: "e_session demo_envelope = tk_session (tk_claims demo_token)" "e_session demo_envelope = ''s1''"
    by (simp_all add: demo_token_def demo_claims_def demo_envelope_def envelope_new_def)
  have h: "holds demo_tenv demo_fresh ''s1'' demo_before" using demo_tainted_holds by (simp add: demo_fresh_def)
  have "map_of demo_before (latest_node_key ''k'') = Some (RValue (Blob demo_id))" by (simp add: demo_before_def key_defs)
  then have n: "node_for_key demo_tenv demo_fresh ''s1'' ''k'' = Inr (Some demo_id)"
    using holds_read [OF h, of "latest_node_key ''k''"] by (simp add: node_for_key_def node_from_index_value_def demo_id_def)
  note r = reads_reach_the_next_write [OF P ok demo_fresh_read k(1) wa s(1) k(3,2)]
  have "\<exists>es' n q. holds demo_tenv l' ''s1'' es' \<and> stored demo_taint_codec ''s1'' es' n q \<and> dn_key n = ''k'' \<and> demo_id \<in> set (dn_derived_from n)"
    using conjunct1 [OF r] n by auto
  moreover have "session_reads ''s1'' l' = read_set_default" using r s(2) by simp
  ultimately show ?thesis using demo_fresh_read w by blast
qed

text \<open>The read set is keyed by the session the token names, the write takes the one the envelope names:
  a write under another session name has captured nothing of what was read.\<close>

lemma envelope_session_escapes:
  assumes "read E tok b k now l = (l', Inr r)" and "s \<noteq> tk_session (tk_claims tok)"
  shows "session_reads s l' = session_reads s l"
proof (cases r)
  case None
  then show ?thesis using assms(1) unfolding read_def by (auto elim!: bind_lift_Inr bind_ask_Inr bind_s_Inr split: option.splits)
next
  case (Some rec)
  have c: "capture_read E (tk_session (tk_claims tok)) b k rec l = (l', Inr ())"
    using read_result(1) assms(1) Some by blast
  show ?thesis
  proof (cases "is_provenance k")
    case True
    then show ?thesis using c by (simp add: capture_read_def)
  next
    case False
    then have "l' = l\<lparr>lm_reads := (lm_reads l)(tk_session (tk_claims tok) \<mapsto> session_reads (tk_session (tk_claims tok)) l')\<rparr>"
      using capture_read_result [OF c] by blast
    then have "lm_reads l' s = lm_reads l s" using assms(2) by (metis fun_upd_other loom.select_convs(6) loom.surjective loom.update_convs(6))
    then show ?thesis by (simp add: session_reads_def)
  qed
qed

section \<open>Sessions, forks and rewinding\<close>

text \<open>A session is a fork of main that nobody else is in scope of: opening one under a name that is
  free creates exactly that branch at main's head, reading what main reads, moves no other branch, and
  the token that comes back authorizes that branch and no other until its expiry; under a taken name it
  fails and changes nothing.\<close>

theorem session_forks_main:
  assumes "refs_wf (lm_refs l)" and "crypto_ok (en_crypto E)"
  shows "(open_session_named E s now l = (l', Inr (sh, t)) \<longrightarrow>
            head MAIN l = Inr (sh_base sh) \<and> sh_branch sh = s \<and> head s l = Inl (NoSuchBranch s)
            \<and> (\<forall>d. head d l' = (if d = s then head MAIN l else head d l))
            \<and> (\<forall>k. read_branch E l' s k = read_branch E l MAIN k)
            \<and> (\<forall>b at. authorize (en_issuer E) t b at = Inr () \<longleftrightarrow> b = s \<and> at < tk_expires (tk_claims t))
            \<and> unat (tk_expires (tk_claims t)) = unat now + unat DEFAULT_SESSION_TTL_MS)
     \<and> (head s l = Inr c \<longrightarrow> (\<exists>x. open_session_named E s now l = (l, Inl x)))"
proof (intro conjI impI)
  assume r: "open_session_named E s now l = (l', Inr (sh, t))"
  then obtain base l1 where base: "head MAIN l = Inr base" and cb: "create_branch E s base l = (l1, Inr ())"
    and tk: "issue_until E s {s} now DEFAULT_SESSION_TTL_MS = Inr t" and l1: "l' = l1"
    and sh: "sh = \<lparr>sh_id = s, sh_branch = s, sh_base = base\<rparr>"
    unfolding open_session_named_def by (auto elim!: bind_ask_Inr bind_s_Inr bind_lift_Inr)
  note b = create_branch_result [OF cb]
  have sk: "skeys (rf_branches (lm_refs l))" using assms(1) by (simp add: refs_wf_def)
  have hd: "head d l' = (if d = s then head MAIN l else head d l)" for d
    using b(1) l1 base sk by (simp add: head_def map_of_put)
  obtain ex where ex: "u64_add now DEFAULT_SESSION_TTL_MS = Some ex" "token_issue (en_issuer E) (en_tenant E) s {s} ex = Inr t"
    using tk by (auto simp: issue_until_def split: option.splits)
  note g = token_issue_genuine [OF assms(2) ex(2)]
  show "head MAIN l = Inr (sh_base sh)" "sh_branch sh = s" using base sh by simp_all
  show "head s l = Inl (NoSuchBranch s)" using b(7) by (simp add: head_def)
  show "\<forall>d. head d l' = (if d = s then head MAIN l else head d l)" using hd by blast
  show "\<forall>k. read_branch E l' s k = read_branch E l MAIN k" using hd b(3) l1 by (simp add: read_branch_def read_commit_def)
  show "\<forall>b at. authorize (en_issuer E) t b at = Inr () \<longleftrightarrow> b = s \<and> at < tk_expires (tk_claims t)"
    using g by (auto simp: authorize_ok)
  show "unat (tk_expires (tk_claims t)) = unat now + unat DEFAULT_SESSION_TTL_MS" using g unat_u64_add [OF ex(1)] by simp
next
  assume "head s l = Inr c"
  then show "\<exists>x. open_session_named E s now l = (l, Inl x)"
    by (cases "head MAIN l") (auto simp: open_session_named_def bind_s_def create_branch_def head_def split: option.splits)
qed

theorem session_forks_main_witness:
  "\<exists>l' sh t. open_session_named demo_lenv ''s2'' 5 demo_loom = (l', Inr (sh, t)) \<and> head ''s2'' l' = Inr ''r''
     \<and> authorize (en_issuer demo_lenv) t ''s2'' 6 = Inr () \<and> authorize (en_issuer demo_lenv) t ''main'' 6 \<noteq> Inr ()"
proof -
  have m: "map_of (rf_branches demo_refs0) ''main'' = Some ''r''" "map_of (rf_branches demo_refs0) ''s2'' = None"
    by (simp_all add: demo_refs0_def)
  obtain l' sh t where o: "open_session_named demo_lenv ''s2'' 5 demo_loom = (l', Inr (sh, t))"
    using m by (auto simp: open_session_named_def bind_s_def head_def MAIN_def create_branch_def push_edit_def with_branches_def
        persist_def mem_io_def mem_apply_def issue_until_def u64_add_def DEFAULT_SESSION_TTL_MS_def token_issue_def canonical_def demo_issuer_def Let_def)
  have wf: "refs_wf (lm_refs demo_loom)" using demo_loom_ok by (simp add: loom_ok_def)
  have ok: "crypto_ok (en_crypto demo_lenv)" using demo_crypto_ok by (simp add: demo_issuer_def)
  note r = session_forks_main [OF wf ok, THEN conjunct1, rule_format, OF o]
  have "6 < tk_expires (tk_claims t)" using r by (simp add: word_less_nat_alt DEFAULT_SESSION_TTL_MS_def)
  then show ?thesis using o r demo_heads by (auto simp: MAIN_def)
qed

lemma rewind_step:
  assumes wf: "refs_wf (lm_refs m)" and r: "rewind E t b c now m = (m', Inr p)"
  shows "authorize (en_issuer E) t b now = Inr () \<and> head b m = Inr p \<and> lm_pager m' = lm_pager m \<and> refs_wf (lm_refs m')
      \<and> (\<forall>d. head d m' = (if d = b then Inr c else head d m))"
proof -
  obtain u where a: "authorize (en_issuer E) t b now = Inr ()" and h: "head b m = Inr p" and s: "set_head E b c m = (m', Inr u)"
    using r unfolding rewind_def by (auto elim!: bind_lift_Inr bind_ask_Inr bind_s_Inr)
  note sr = set_head_result [OF s [simplified]]
  have "skeys (rf_branches (lm_refs m))" using wf by (simp add: refs_wf_def)
  then show ?thesis using a h sr(1,3) apply_edit_wf [OF wf, of "SetHead b c"] by (simp add: head_def map_of_put)
qed

text \<open>Rewinding moves one pointer: it returns the head it leaves, the branch then reads exactly as
  the target commit reads, no page and no other branch changes, so the abandoned commits stay readable
  and rewinding back restores the branch.\<close>

theorem rewind_moves_one_pointer:
  assumes "refs_wf (lm_refs l)" and "rewind E t b target now l = (l', Inr previous)"
  shows "authorize (en_issuer E) t b now = Inr () \<and> head b l = Inr previous \<and> head b l' = Inr target
    \<and> lm_pager l' = lm_pager l \<and> (\<forall>d. d \<noteq> b \<longrightarrow> head d l' = head d l)
    \<and> (\<forall>k. read_branch E l' b k = read_commit E l target k)
    \<and> (\<forall>l'' x. rewind E t b previous now l' = (l'', Inr x) \<longrightarrow> x = target \<and> (\<forall>d. head d l'' = head d l))"
proof -
  note 1 = rewind_step [OF assms]
  have "\<forall>k. read_branch E l' b k = read_commit E l target k" using 1 by (simp add: read_branch_def read_commit_def)
  moreover have "x = target \<and> (\<forall>d. head d l'' = head d l)" if "rewind E t b previous now l' = (l'', Inr x)" for l'' x
    using rewind_step [of l' E t b previous now l'' x] that 1 by auto
  ultimately show ?thesis using 1 by auto
qed

theorem rewind_moves_one_pointer_witness:
  "\<exists>l'. rewind demo_lenv demo_token ''s1'' ''old'' 5 demo_loom = (l', Inr ''r'') \<and> head ''s1'' l' = Inr ''old'' \<and> head ''main'' l' = Inr ''r''"
proof -
  have m: "map_of (rf_branches demo_refs0) ''s1'' = Some ''r''" by (simp add: demo_refs0_def)
  obtain l' where r: "rewind demo_lenv demo_token ''s1'' ''old'' 5 demo_loom = (l', Inr ''r'')"
    using m demo_checks by (auto simp: rewind_def bind_s_def head_def set_head_def push_edit_def with_branches_def persist_def mem_io_def mem_apply_def)
  have wf: "refs_wf (lm_refs demo_loom)" using demo_loom_ok by (simp add: loom_ok_def)
  show ?thesis using r rewind_moves_one_pointer [OF wf r] demo_heads by auto
qed

text \<open>A rewind to a commit that does not exist succeeds, and leaves a branch that cannot be read.\<close>

lemma rewind_to_nowhere:
  "\<exists>l' e. rewind demo_lenv demo_token ''s1'' ''old'' 5 demo_loom = (l', Inr ''r'') \<and> read_branch demo_lenv l' ''s1'' ''k'' = Inl e"
proof -
  have m: "map_of (rf_branches demo_refs0) ''s1'' = Some ''r''" by (simp add: demo_refs0_def)
  obtain l' where r: "rewind demo_lenv demo_token ''s1'' ''old'' 5 demo_loom = (l', Inr ''r'')"
    using m demo_checks by (auto simp: rewind_def bind_s_def head_def set_head_def push_edit_def with_branches_def persist_def mem_io_def mem_apply_def)
  have wf: "refs_wf (lm_refs demo_loom)" using demo_loom_ok by (simp add: loom_ok_def)
  have "read_branch demo_lenv l' ''s1'' ''k'' = read_commit demo_lenv demo_loom ''old'' ''k''"
    using rewind_step [OF wf r] by (simp add: read_branch_def read_commit_def)
  then show ?thesis using r by (simp add: read_commit_def demo_pager_def demo_pages0_def)
qed

text \<open>\<open>read_at\<close> checks the branch it is given and then reads whatever commit it is given: a token for
  one branch reads the commits of every other.\<close>

lemma read_at_any_commit:
  "authorize (en_issuer E) tok b now = Inr () \<Longrightarrow> read_at E l tok b c k now = read_commit E l c k"
  by (simp add: read_at_def)

end
