(* ===== verification/LoomRegistryProps.thy ===== *)
theory LoomRegistryProps
  imports LoomBranchProps
begin

text \<open>
  Properties of opening a production database (\<open>session.rs\<close>): the actor registry, its fingerprint, its
  attestation, and the commit clock.
\<close>

lemma collect_keys_wf: "skeys (collect_keys ks)"
proof -
  have "skeys (fold (\<lambda>(a, k). put a k) ks m)" if "skeys m" for m
    using that by (induction ks arbitrary: m) (auto simp: skeys_put)
  then show ?thesis by (simp add: collect_keys_def)
qed

lemma collect_keys_map: "map_of (collect_keys ks) = map_of (rev ks)"
  using tree_store.map_of_fold_put [of "[]" ks] by (simp add: collect_keys_def)

text \<open>The fingerprint of a registry does not depend on the order of the actors, and the registry a
  production constructor installs is not empty.\<close>

theorem fingerprint_order_free:
  assumes "distinct (map fst ks)" and "set ks = set ks'" and "distinct (map fst ks')"
  shows "actor_key_fingerprint C ks = actor_key_fingerprint C ks' \<and> collect_keys ks = collect_keys ks'
    \<and> (production_actor_keys ks = Inr (collect_keys ks) \<longleftrightarrow> ks \<noteq> [])"
proof -
  have rev: "map_of (rev xs) = map_of xs" if "distinct (map fst xs)" for xs :: "(bytes \<times> bytes) list"
    using that by (intro map_of_inject_set [THEN iffD2]) (simp_all add: rev_map [symmetric])
  have "map_of ks = map_of ks'" using assms by (simp add: map_of_inject_set)
  then have "map_of (collect_keys ks) = map_of (collect_keys ks')"
    using rev assms(1,3) by (simp add: collect_keys_map)
  then have eq: "collect_keys ks = collect_keys ks'" using skeys_eqI collect_keys_wf by blast
  have "collect_keys ks = [] \<longleftrightarrow> ks = []"
  proof
    assume "collect_keys ks = []"
    then have "map_of (rev ks) = Map.empty" using collect_keys_map [of ks] by simp
    then show "ks = []" using map_of_eq_empty_iff by blast
  qed (simp add: collect_keys_def)
  then show ?thesis using eq by (simp add: actor_key_fingerprint_def production_actor_keys_def Let_def)
qed

theorem fingerprint_order_free_witness:
  "actor_key_fingerprint demo_crypto [(''a'', ''1''), (''b'', ''2'')] = actor_key_fingerprint demo_crypto [(''b'', ''2''), (''a'', ''1'')]"
  by (rule fingerprint_order_free [THEN conjunct1]) auto

text \<open>C40: an attested production database opens only on evidence: the governance key signed exactly this
  tenant, this generation and the fingerprint of the keys presented, the generation is not below the
  caller's floor, so an older registry cannot be rolled back to, and the registry installed is the one
  presented; an attestation governance issues for these keys at such a generation is accepted.\<close>

theorem attested_open_is_sound:
  assumes "crypto_ok (en_crypto E)"
  shows "(open_production_attested E opened keys a governance minimum = Inr l \<longrightarrow>
            cr_verify (en_crypto E) governance (attestation_payload (en_tenant E) (at_generation a) (actor_key_fingerprint (en_crypto E) keys)) (at_signature a) = None
            \<and> minimum \<le> at_generation a \<and> keys \<noteq> [] \<and> lm_keys l = Some (collect_keys keys))
     \<and> (\<forall>sk. a = attestation_issue (en_crypto E) (en_tenant E) g keys sk \<longrightarrow> governance = cr_public (en_crypto E) sk \<longrightarrow> minimum \<le> g \<longrightarrow> keys \<noteq> []
          \<longrightarrow> open_production_attested E opened keys a governance minimum = map_sum id (with_keys (collect_keys keys)) (loom_open E opened))"
proof (intro conjI impI allI)
  have empty: "collect_keys keys = [] \<longleftrightarrow> keys = []"
    using map_of_eq_empty_iff [of "rev keys"] by (metis collect_keys_def collect_keys_map fold_simps(1) map_of.simps(1) rev_is_Nil_conv)
  {
    assume r: "open_production_attested E opened keys a governance minimum = Inr l"
    then have v: "attestation_verify (en_crypto E) a (en_tenant E) (fingerprint_actor_key_map (en_crypto E) (collect_keys keys)) governance minimum = Inr ()"
      and k: "collect_keys keys \<noteq> []" and l: "lm_keys l = Some (collect_keys keys)"
      by (auto simp: open_production_attested_def production_actor_keys_def Let_def bind_r_Inr_iff with_keys_def split: if_splits)
    show "keys \<noteq> []" using k empty by simp
    show "lm_keys l = Some (collect_keys keys)" by (rule l)
    show "minimum \<le> at_generation a" using v by (auto simp: attestation_verify_def split: if_splits)
    show "cr_verify (en_crypto E) governance (attestation_payload (en_tenant E) (at_generation a) (actor_key_fingerprint (en_crypto E) keys)) (at_signature a) = None"
      using v by (auto simp: attestation_verify_def signed_bytes_def actor_key_fingerprint_def split: if_splits)
  }
  fix sk
  assume a: "a = attestation_issue (en_crypto E) (en_tenant E) g keys sk" "governance = cr_public (en_crypto E) sk" "minimum \<le> g" "keys \<noteq> []"
  have "attestation_verify (en_crypto E) a (en_tenant E) (fingerprint_actor_key_map (en_crypto E) (collect_keys keys)) governance minimum = Inr ()"
    using assms a by (simp add: attestation_verify_def attestation_issue_def Let_def signed_bytes_def crypto_ok_def actor_key_fingerprint_def not_less)
  then show "open_production_attested E opened keys a governance minimum = map_sum id (with_keys (collect_keys keys)) (loom_open E opened)"
    using a(4) empty by (cases "loom_open E opened") (simp_all add: open_production_attested_def production_actor_keys_def Let_def)
qed

theorem attested_open_is_sound_witness:
  "\<exists>l. open_production_attested demo_lenv (Inr (demo_pages0, Some demo_refs0)) [(''alice'', ''key'')]
        (attestation_issue demo_crypto ''acme'' 3 [(''alice'', ''key'')] ''gov'') ''gov'' 3 = Inr l"
proof -
  have c: "en_crypto demo_lenv = demo_crypto" by (simp add: demo_issuer_def)
  then have ok: "crypto_ok (en_crypto demo_lenv)" using demo_crypto_ok by simp
  have p: "cr_public demo_crypto ''gov'' = ''gov''" by (simp add: demo_crypto_def)
  have t: "en_tenant demo_lenv = ''acme''" by (simp add: demo_issuer_def)
  have "open_production_attested demo_lenv (Inr (demo_pages0, Some demo_refs0)) [(''alice'', ''key'')]
        (attestation_issue demo_crypto ''acme'' 3 [(''alice'', ''key'')] ''gov'') ''gov'' 3
      = map_sum id (with_keys (collect_keys [(''alice'', ''key'')])) (loom_open demo_lenv (Inr (demo_pages0, Some demo_refs0)))"
    by (rule attested_open_is_sound [OF ok, THEN conjunct2, rule_format, where sk = "''gov''" and g = 3]) (simp_all only: c p t, simp_all)
  then show ?thesis by (simp add: loom_open_def assemble_def mem_io_def mem_load_def)
qed

text \<open>The commit clock never hands out the same instant twice: any number of consecutive readings
  below \<open>2^64\<close> are pairwise distinct, each one later than the one before as long as the counter does not wrap.\<close>

theorem commit_clock_distinct:
  assumes "n \<le> 2 ^ 64"
  shows "length (clock_instants n c) = n \<and> distinct (clock_instants n c)
    \<and> (unat c + n \<le> 2 ^ 64 \<longrightarrow> sorted_wrt (<) (clock_instants n c))"
proof -
  have eq: "clock_instants n c = map (\<lambda>i. c + of_nat i) [0..<n]" for n c
  proof (induction n arbitrary: c)
    case (Suc n)
    have "clock_instants (Suc n) c = c # map (\<lambda>i. c + 1 + of_nat i) [0..<n]" using Suc by (simp add: clock_now_def)
    also have "\<dots> = map (\<lambda>i. c + of_nat i) (0 # map Suc [0..<n])" by (simp add: comp_def add.assoc)
    also have "0 # map Suc [0..<n] = [0..<Suc n]" by (metis map_Suc_upt upt_conv_Cons zero_less_Suc)
    finally show ?case .
  qed simp
  have inj: "i = j" if "i < n" "j < n" "c + of_nat i = c + of_nat j" for i j
  proof -
    have "(of_nat i :: u64) = of_nat j" using that(3) by simp
    then have "unat (of_nat i :: u64) = unat (of_nat j :: u64)" by simp
    then show ?thesis using that(1,2) assms by (simp add: unat_of_nat)
  qed
  have d: "distinct (clock_instants n c)" by (auto simp: eq distinct_map inj_on_def intro: inj)
  have less: "c + of_nat i < c + (of_nat j :: u64)" if "i < j" "j < n" "unat c + n \<le> 2 ^ 64" for i j
    using that by (simp add: word_less_nat_alt unat_word_ariths unat_of_nat)
  have "sorted_wrt (<) (clock_instants n c)" if "unat c + n \<le> 2 ^ 64"
    using less that by (auto simp: eq sorted_wrt_map sorted_wrt_upt intro!: sorted_wrt_mono_rel [OF _ sorted_wrt_upt])
  then show ?thesis using d by (simp add: eq)
qed

theorem commit_clock_distinct_witness:
  "distinct (clock_instants 5 (- 2))"
  using commit_clock_distinct [of 5 "- 2"] by simp

end
