(* ===== verification/LoomFloat32.thy ===== *)
theory LoomFloat32
  imports LoomFloat
begin

text \<open>
  The \<open>f32\<close> operations the program uses, on IEEE-754 bit patterns: addition, product, quotient, square
  root and the cast of a count, each the exact value rounded once to 24 significant bits, ties
  to even, with gradual underflow, infinities and NaN.  A NaN result is the quiet NaN; its payload is
  never looked at.
\<close>

type_synonym u32 = "32 word"

type_synonym f32 = "32 word"

definition f32_neg :: "f32 \<Rightarrow> bool" where "f32_neg x \<longleftrightarrow> 2 ^ 31 \<le> uint x"
definition f32_bits :: "f32 \<Rightarrow> int" where "f32_bits x = uint x mod 2 ^ 31"
definition f32_exp :: "f32 \<Rightarrow> int" where "f32_exp x = f32_bits x div 2 ^ 23"
definition f32_frac :: "f32 \<Rightarrow> int" where "f32_frac x = f32_bits x mod 2 ^ 23"

definition f32_nan :: "f32 \<Rightarrow> bool" where "f32_nan x \<longleftrightarrow> 255 * 2 ^ 23 < f32_bits x"
definition f32_inf :: "f32 \<Rightarrow> bool" where "f32_inf x \<longleftrightarrow> f32_bits x = 255 * 2 ^ 23"
definition f32_zero :: "f32 \<Rightarrow> bool" where "f32_zero x \<longleftrightarrow> f32_bits x = 0"

definition f32_qnan :: f32 where "f32_qnan = 0x7FC00000"

definition f32_make :: "bool \<Rightarrow> int \<Rightarrow> f32" where
  "f32_make neg bits = word_of_int ((if neg then 2 ^ 31 else 0) + bits)"

section \<open>Comparison\<close>

text \<open>Magnitudes are ordered as their bit patterns are; both zeros have key 0.\<close>

definition f32_key :: "f32 \<Rightarrow> int" where
  "f32_key x = (if f32_neg x then - f32_bits x else f32_bits x)"

definition f32_eq :: "f32 \<Rightarrow> f32 \<Rightarrow> bool" where
  "f32_eq a b \<longleftrightarrow> \<not> f32_nan a \<and> \<not> f32_nan b \<and> f32_key a = f32_key b"

section \<open>Rounding\<close>

text \<open>A finite value is \<open>f32_mant x * 2 ^ f32_pow x\<close>.\<close>

definition f32_mant :: "f32 \<Rightarrow> int" where
  "f32_mant x = (if f32_exp x = 0 then f32_frac x else f32_frac x + 2 ^ 23)"

definition f32_pow :: "f32 \<Rightarrow> int" where
  "f32_pow x = max (f32_exp x) 1 - 150"

text \<open>The bits of \<open>n * 2 ^ q\<close> with \<open>0 \<le> n\<close>, plus a positive remainder below \<open>2 ^ q\<close> when \<open>sticky\<close>.  A mantissa
  below \<open>2 ^ 23\<close> is subnormal, and a carry out of the mantissa moves into the exponent by itself.\<close>

definition round24 :: "int \<Rightarrow> int \<Rightarrow> bool \<Rightarrow> int" where
  "round24 n q sticky =
     (let t = max (q + int (bit_len n) - 24) (- 149);
          s = nat (t - q); d = n div 2 ^ s; r = n mod 2 ^ s;
          m = (if t \<le> q then n * 2 ^ nat (q - t)
               else if 2 ^ (s - 1) < r \<or> (r = 2 ^ (s - 1) \<and> (sticky \<or> odd d)) then d + 1 else d)
      in min ((t + 149) * 2 ^ 23 + m) (255 * 2 ^ 23))"

definition f32_round :: "bool \<Rightarrow> int \<Rightarrow> int \<Rightarrow> bool \<Rightarrow> f32" where
  "f32_round neg n q sticky = f32_make neg (if n = 0 then 0 else round24 n q sticky)"

section \<open>Arithmetic\<close>

definition f32_signed :: "f32 \<Rightarrow> int \<Rightarrow> int" where
  "f32_signed x q = (if f32_neg x then - 1 else 1) * f32_mant x * 2 ^ nat (f32_pow x - q)"

definition f32_add :: "f32 \<Rightarrow> f32 \<Rightarrow> f32" where
  "f32_add a b =
     (if f32_nan a \<or> f32_nan b \<or> (f32_inf a \<and> f32_inf b \<and> f32_neg a \<noteq> f32_neg b) then f32_qnan
      else if f32_inf a then a
      else if f32_inf b then b
      else let q = min (f32_pow a) (f32_pow b); v = f32_signed a q + f32_signed b q
           in if v = 0 then f32_make (f32_zero a \<and> f32_zero b \<and> f32_neg a \<and> f32_neg b) 0
              else f32_round (v < 0) \<bar>v\<bar> q False)"

definition f32_mul :: "f32 \<Rightarrow> f32 \<Rightarrow> f32" where
  "f32_mul a b =
     (let neg = (f32_neg a \<noteq> f32_neg b)
      in if f32_nan a \<or> f32_nan b \<or> (f32_inf a \<and> f32_zero b) \<or> (f32_zero a \<and> f32_inf b) then f32_qnan
         else if f32_inf a \<or> f32_inf b then f32_make neg (255 * 2 ^ 23)
         else f32_round neg (f32_mant a * f32_mant b) (f32_pow a + f32_pow b) False)"

definition f32_div :: "f32 \<Rightarrow> f32 \<Rightarrow> f32" where
  "f32_div a b =
     (let neg = (f32_neg a \<noteq> f32_neg b)
      in if f32_nan a \<or> f32_nan b \<or> (f32_inf a \<and> f32_inf b) \<or> (f32_zero a \<and> f32_zero b) then f32_qnan
         else if f32_inf a \<or> f32_zero b then f32_make neg (255 * 2 ^ 23)
         else if f32_inf b then f32_make neg 0
         else let n = f32_mant a * 2 ^ 64
              in f32_round neg (n div f32_mant b) (f32_pow a - f32_pow b - 64) (n mod f32_mant b \<noteq> 0))"

function isqrt :: "int \<Rightarrow> int" where
  "isqrt n = (if n \<le> 0 then 0 else let r = 2 * isqrt (n div 4) in if (r + 1) * (r + 1) \<le> n then r + 1 else r)"
  by pat_completeness auto
termination
  by (relation "measure nat") auto

declare isqrt.simps [simp del]

definition f32_sqrt :: "f32 \<Rightarrow> f32" where
  "f32_sqrt x =
     (if f32_zero x then x
      else if f32_nan x \<or> f32_neg x then f32_qnan
      else if f32_inf x then x
      else let e = f32_pow x mod 2; n = f32_mant x * 2 ^ nat e * 2 ^ 64; r = isqrt n
           in f32_round False r ((f32_pow x - e) div 2 - 32) (r * r \<noteq> n))"

definition f32_of_nat :: "nat \<Rightarrow> f32" where
  "f32_of_nat n = f32_round False (int n) 0 False"

section \<open>Some values\<close>

definition f32_one :: f32 where "f32_one = 0x3F800000"
definition f32_two :: f32 where "f32_two = 0x40000000"
definition f32_quarter :: f32 where "f32_quarter = 0x3E800000"

lemma isqrt_range: "0 \<le> n \<Longrightarrow> 0 \<le> isqrt n \<and> isqrt n * isqrt n \<le> n \<and> n < (isqrt n + 1) * (isqrt n + 1)"
proof (induction n rule: isqrt.induct)
  case (1 n)
  show ?case
  proof (cases "n \<le> 0")
    case False
    define s where "s = isqrt (n div 4)"
    have s: "0 \<le> s" "s * s \<le> n div 4" "n div 4 < (s + 1) * (s + 1)" using 1 False by (auto simp: s_def)
    have i: "isqrt n = (if (2 * s + 1) * (2 * s + 1) \<le> n then 2 * s + 1 else 2 * s)"
      using False by (subst isqrt.simps) (simp add: s_def Let_def)
    have "4 * (s * s) \<le> n" "n < 4 * ((s + 1) * (s + 1))" using s(2,3) by linarith+
    then show ?thesis using s(1) unfolding i by (auto simp: algebra_simps)
  qed (use 1 in \<open>simp add: isqrt.simps\<close>)
qed

lemma f32_key_not_nan: "f32_eq a a \<longleftrightarrow> \<not> f32_nan a"
  by (simp add: f32_eq_def)

end
