(* ===== verification/LoomPolicy.thy ===== *)
theory LoomPolicy
  imports LoomState
begin

text \<open>
  The policy engine (\<open>crates/loom-policy/src/engine.rs\<close>, \<open>influence.rs\<close>): rules with wildcards, indexed by
  action, deny-overrides, and closed by default.  The rationale of a decision is kept as data; each
  constructor is one of the texts the engine formats.
\<close>

section \<open>Rules and requests\<close>

datatype effect = Allow | Deny

datatype 'a field_match = Is 'a | Anything

fun matches :: "'a field_match \<Rightarrow> 'a \<Rightarrow> bool" where
  "matches (Is v) x = (v = x)"
| "matches Anything x = True"

record request =
  rq_actor :: bytes
  rq_label :: trust_class
  rq_purpose :: bytes
  rq_action :: bytes

record policy_rule =
  pr_actor :: "bytes field_match"
  pr_label :: "trust_class field_match"
  pr_purpose :: "bytes field_match"
  pr_action :: "bytes field_match"
  pr_effect :: effect

definition applies_to :: "policy_rule \<Rightarrow> request \<Rightarrow> bool" where
  "applies_to r q \<longleftrightarrow> matches (pr_actor r) (rq_actor q) \<and> matches (pr_label r) (rq_label q)
     \<and> matches (pr_purpose r) (rq_purpose q) \<and> matches (pr_action r) (rq_action q)"

record policy_set =
  ps_version :: bytes
  ps_rules :: "policy_rule list"

definition policy_empty :: "bytes \<Rightarrow> policy_set" where
  "policy_empty version = \<lparr>ps_version = version, ps_rules = []\<rparr>"

definition policy_new :: "bytes \<Rightarrow> policy_rule list \<Rightarrow> policy_set" where
  "policy_new version rules = \<lparr>ps_version = version, ps_rules = rules\<rparr>"

section \<open>Decisions\<close>

datatype verdict = Allowed | Denied

definition is_allowed :: "verdict \<Rightarrow> bool" where
  "is_allowed v \<longleftrightarrow> v = Allowed"

datatype rationale = DeniedBy policy_rule | NoRuleDenies | FailClosed

record policy_decision =
  pd_decision :: verdict
  pd_version :: bytes
  pd_request :: request
  pd_rationale :: rationale

section \<open>The engine\<close>

record engine =
  eg_version :: bytes
  eg_by_action :: "(bytes \<times> policy_rule list) list"
  eg_any_action :: "policy_rule list"

text \<open>One rule of the compilation: into the bucket of its action, or the wildcard bucket.\<close>

definition rules_for :: "(bytes \<times> policy_rule list) list \<Rightarrow> bytes \<Rightarrow> policy_rule list" where
  "rules_for m a = (case map_of m a of Some rs \<Rightarrow> rs | None \<Rightarrow> [])"

definition compile_rule :: "policy_rule \<Rightarrow> (bytes \<times> policy_rule list) list \<times> policy_rule list
    \<Rightarrow> (bytes \<times> policy_rule list) list \<times> policy_rule list" where
  "compile_rule r s =
     (case pr_action r of
        Is a \<Rightarrow> (put a (rules_for (fst s) a @ [r]) (fst s), snd s)
      | Anything \<Rightarrow> (fst s, snd s @ [r]))"

definition engine_new :: "policy_set \<Rightarrow> engine" where
  "engine_new ps =
     (case fold compile_rule (ps_rules ps) ([], []) of
        (m, w) \<Rightarrow> \<lparr>eg_version = ps_version ps, eg_by_action = m, eg_any_action = w\<rparr>)"

definition decision_of :: "engine \<Rightarrow> request \<Rightarrow> verdict \<Rightarrow> rationale \<Rightarrow> policy_decision" where
  "decision_of g q v why = \<lparr>pd_decision = v, pd_version = eg_version g, pd_request = q, pd_rationale = why\<rparr>"

definition applicable :: "engine \<Rightarrow> request \<Rightarrow> policy_rule list" where
  "applicable g q = filter (\<lambda>r. applies_to r q) (rules_for (eg_by_action g) (rq_action q) @ eg_any_action g)"

definition decide_policy :: "engine \<Rightarrow> request \<Rightarrow> policy_decision" where
  "decide_policy g q =
     (case find (\<lambda>r. pr_effect r = Deny) (applicable g q) of
        Some r \<Rightarrow> decision_of g q Denied (DeniedBy r)
      | None \<Rightarrow>
          if list_ex (\<lambda>r. pr_effect r = Allow) (applicable g q) then decision_of g q Allowed NoRuleDenies
          else decision_of g q Denied FailClosed)"

section \<open>The two questions\<close>

definition ACTION_PACK :: bytes where "ACTION_PACK = ''pack_into_context''"
definition PURPOSE_AUTHORIZE :: bytes where "PURPOSE_AUTHORIZE = ''authorize_action''"

definition may_pack :: "engine \<Rightarrow> bytes \<Rightarrow> bytes \<Rightarrow> index_entry \<Rightarrow> bool" where
  "may_pack g actor purpose e =
     is_allowed (pd_decision (decide_policy g
       \<lparr>rq_actor = actor, rq_label = ix_label e, rq_purpose = purpose, rq_action = ACTION_PACK\<rparr>))"

definition may_authorize_action :: "engine \<Rightarrow> bytes \<Rightarrow> bytes \<Rightarrow> trust_class \<Rightarrow> policy_decision" where
  "may_authorize_action g actor action evidence_label =
     decide_policy g \<lparr>rq_actor = actor, rq_label = evidence_label, rq_purpose = PURPOSE_AUTHORIZE, rq_action = action\<rparr>"

definition permitted :: "policy_decision \<Rightarrow> bool" where
  "permitted d \<longleftrightarrow> pd_decision d = Allowed"

section \<open>The index loses no rule\<close>

text \<open>The compiled rules a request can reach are, as a set, the rules that apply to it.\<close>

lemma set_compile:
  "skeys m \<Longrightarrow> fold compile_rule rs (m, w) = (m', w') \<Longrightarrow>
     skeys m' \<and> set w' = set w \<union> {r \<in> set rs. pr_action r = Anything}
     \<and> (\<forall>a. set (rules_for m' a) = set (rules_for m a) \<union> {r \<in> set rs. pr_action r = Is a})"
proof (induction rs arbitrary: m w)
  case (Cons r rs)
  show ?case
  proof (cases "pr_action r")
    case (Is a)
    have sk: "skeys (put a (rules_for m a @ [r]) m)" using Cons.prems(1) by (rule skeys_put)
    have one: "set (rules_for (put a (rules_for m a @ [r]) m) b) = set (rules_for m b) \<union> (if b = a then {r} else {})" for b
      using map_of_put [OF Cons.prems(1)] by (auto simp: rules_for_def)
    have "compile_rule r (m, w) = (put a (rules_for m a @ [r]) m, w)" by (simp add: compile_rule_def Is)
    then have "fold compile_rule rs (put a (rules_for m a @ [r]) m, w) = (m', w')" using Cons.prems(2) by simp
    from Cons.IH [OF sk this] show ?thesis unfolding one using Is by auto
  next
    case Anything
    have "compile_rule r (m, w) = (m, w @ [r])" by (simp add: compile_rule_def Anything)
    then have "fold compile_rule rs (m, w @ [r]) = (m', w')" using Cons.prems(2) by simp
    from Cons.IH [OF Cons.prems(1) this] show ?thesis using Anything by auto
  qed
qed (auto simp: rules_for_def)

lemma set_applicable: "set (applicable (engine_new ps) q) = {r \<in> set (ps_rules ps). applies_to r q}"
proof -
  obtain m w where c: "fold compile_rule (ps_rules ps) ([], []) = (m, w)" by fastforce
  have s: "set w = {r \<in> set (ps_rules ps). pr_action r = Anything}"
    "set (rules_for m a) = {r \<in> set (ps_rules ps). pr_action r = Is a}" for a
    using set_compile [OF _ c] by (simp_all add: rules_for_def)
  have a: "applies_to r q \<Longrightarrow> pr_action r = Is (rq_action q) \<or> pr_action r = Anything" for r
    by (cases "pr_action r") (auto simp: applies_to_def)
  show ?thesis using a by (auto simp: applicable_def engine_new_def c s)
qed

lemma find_set: "find P xs = Some x \<Longrightarrow> x \<in> set xs \<and> P x"
  by (induction xs) (auto split: if_splits)

lemma engine_version [simp]: "eg_version (engine_new ps) = ps_version ps"
  by (simp add: engine_new_def split: prod.splits)

text \<open>The reference: no index and no order.\<close>

definition policy_allows :: "policy_rule set \<Rightarrow> request \<Rightarrow> bool" where
  "policy_allows R q \<longleftrightarrow> (\<exists>r\<in>R. applies_to r q \<and> pr_effect r = Allow) \<and> \<not> (\<exists>r\<in>R. applies_to r q \<and> pr_effect r = Deny)"

lemma decide_policy_allows:
  "is_allowed (pd_decision (decide_policy (engine_new ps) q)) \<longleftrightarrow> policy_allows (set (ps_rules ps)) q"
  using set_applicable [of ps q]
  by (auto simp: decide_policy_def policy_allows_def is_allowed_def decision_of_def list_ex_iff find_None_iff
      dest!: find_set split: option.splits)

lemma decide_policy_records [simp]:
  "pd_version (decide_policy (engine_new ps) q) = ps_version ps" "pd_request (decide_policy (engine_new ps) q) = q"
  by (auto simp: decide_policy_def decision_of_def split: option.splits)

section \<open>What a client of the engine relies on\<close>

locale policy_decider =
  fixes decide :: "request \<Rightarrow> policy_decision" and R :: "policy_rule set" and version :: bytes
  assumes decides: "is_allowed (pd_decision (decide q)) \<longleftrightarrow> policy_allows R q"
    and records: "pd_version (decide q) = version \<and> pd_request (decide q) = q"
begin

lemma permitted_iff: "permitted (decide q) \<longleftrightarrow> policy_allows R q"
  using decides [of q] by (simp add: permitted_def is_allowed_def)

lemma deny_is_final: "r \<in> R \<Longrightarrow> applies_to r q \<Longrightarrow> pr_effect r = Deny \<Longrightarrow> \<not> permitted (decide q)"
  unfolding permitted_iff policy_allows_def by blast

lemma fails_closed: "(\<And>r. r \<in> R \<Longrightarrow> \<not> applies_to r q) \<Longrightarrow> \<not> permitted (decide q)"
  unfolding permitted_iff policy_allows_def by blast

end

interpretation engine_of: policy_decider "decide_policy (engine_new ps)" "set (ps_rules ps)" "ps_version ps" for ps
  by unfold_locales (simp_all add: decide_policy_allows)

end
