(* ===== verification/LoomMemory.thy ===== *)
theory LoomMemory
  imports LoomFloat32 LoomTaint LoomPolicy
begin

text \<open>
  Retrieval and forgetting (\<open>crates/loom-memory/src/\<close>, \<open>crates/loom-core/src/embedding.rs\<close>): scoring a
  candidate, packing candidates into a token budget, reading a branch's index behind a filter, and
  forgetting a source.  The Unicode tables behind \<open>to_lowercase\<close> and \<open>is_alphanumeric\<close>
  are parameters.
\<close>

section \<open>Embeddings\<close>

definition cosine_step :: "f32 \<times> f32 \<Rightarrow> f32 \<times> f32 \<times> f32 \<Rightarrow> f32 \<times> f32 \<times> f32" where
  "cosine_step ab s =
     (case ab of (a, b) \<Rightarrow> case s of (dot, na, nb) \<Rightarrow> (f32_add dot (f32_mul a b), f32_add na (f32_mul a a), f32_add nb (f32_mul b b)))"

definition cosine :: "embedding \<Rightarrow> embedding \<Rightarrow> f32 option" where
  "cosine u v =
     (if length u \<noteq> length v \<or> u = [] then None
      else case fold cosine_step (zip u v) (0, 0, 0) of
        (dot, na, nb) \<Rightarrow>
          if f32_eq na 0 \<or> f32_eq nb 0 then None
          else Some (f32_div dot (f32_mul (f32_sqrt na) (f32_sqrt nb))))"

section \<open>The token budget (\<open>tokens.rs\<close>)\<close>

definition estimate :: "bytes \<Rightarrow> u32" where
  "estimate text = word_of_nat ((unat (word_of_nat (char_count text) :: u32) + 3) div 4 + 1)"

record budget =
  bg_total :: u32
  bg_spent :: u32

definition budget_new :: "u32 \<Rightarrow> budget" where
  "budget_new limit = \<lparr>bg_total = limit, bg_spent = 0\<rparr>"

definition budget_fits :: "u32 \<Rightarrow> budget \<Rightarrow> bool" where
  "budget_fits cost b \<longleftrightarrow> min (unat (bg_spent b) + unat cost) (2 ^ 32 - 1) \<le> unat (bg_total b)"

text \<open>\<open>spent += cost\<close> traps on overflow (\<open>overflow-checks = true\<close>).\<close>

definition budget_spend :: "u32 \<Rightarrow> budget \<Rightarrow> loom_error + budget \<times> bool" where
  "budget_spend cost b =
     (if \<not> budget_fits cost b then Inr (b, False)
      else if 2 ^ 32 \<le> unat (bg_spent b) + unat cost then Inl (Panic ''attempt to add with overflow'')
      else Inr (b\<lparr>bg_spent := bg_spent b + cost\<rparr>, True))"

section \<open>Scoring (\<open>retrieval.rs\<close>)\<close>

definition STALE_PENALTY :: f32 where "STALE_PENALTY = f32_quarter"

record retrieval_query =
  qy_embedding :: "embedding option"
  qy_text :: bytes
  qy_budget :: u32

definition query_text :: "bytes \<Rightarrow> u32 \<Rightarrow> retrieval_query" where
  "query_text text budget = \<lparr>qy_embedding = None, qy_text = text, qy_budget = budget\<rparr>"

definition query_with_embedding :: "embedding \<Rightarrow> retrieval_query \<Rightarrow> retrieval_query" where
  "query_with_embedding v q = q\<lparr>qy_embedding := Some v\<rparr>"

record unicode =
  uc_lowercase :: "bytes \<Rightarrow> bytes"
  uc_alphanumeric :: "bytes \<Rightarrow> bool"

text \<open>The characters of a UTF-8 string.\<close>

function chars :: "bytes \<Rightarrow> bytes list" where
  "chars [] = []"
| "chars (a # r) = (a # takeWhile tail_byte r) # chars (dropWhile tail_byte r)"
  by pat_completeness auto
termination
  by (relation "measure length") (auto simp: less_Suc_eq_le length_dropWhile_le)

fun split_words :: "(bytes \<Rightarrow> bool) \<Rightarrow> bytes list \<Rightarrow> bytes list" where
  "split_words ok [] = [[]]"
| "split_words ok (c # cs) =
     (if ok c then (case split_words ok cs of w # ws \<Rightarrow> (c @ w) # ws | [] \<Rightarrow> [c]) else [] # split_words ok cs)"

definition tokenize :: "unicode \<Rightarrow> bytes \<Rightarrow> bytes list" where
  "tokenize U text = filter (\<lambda>t. t \<noteq> []) (split_words (uc_alphanumeric U) (chars (uc_lowercase U text)))"

definition text_contains :: "bytes \<Rightarrow> bytes \<Rightarrow> bool" where
  "text_contains text t = list_ex (prefix t) (suffixes text)"

definition semantic_score :: "retrieval_query \<Rightarrow> index_entry \<Rightarrow> f32 \<Rightarrow> f32" where
  "semantic_score q e score =
     (case (qy_embedding q, ix_embedding e) of
        (Some u, Some v) \<Rightarrow> (case cosine u v of Some c \<Rightarrow> f32_add score (f32_div (f32_add c f32_one) f32_two) | None \<Rightarrow> score)
      | _ \<Rightarrow> score)"

definition text_score :: "unicode \<Rightarrow> retrieval_query \<Rightarrow> index_entry \<Rightarrow> f32 \<Rightarrow> f32" where
  "text_score U q e score =
     (let terms = tokenize U (qy_text q)
      in if terms = [] then score
         else let hits = length (filter (text_contains (uc_lowercase U (ix_text e))) terms)
              in f32_add score (f32_div (f32_of_nat hits) (f32_of_nat (length terms))))"

definition score_candidate :: "unicode \<Rightarrow> retrieval_query \<Rightarrow> index_entry \<Rightarrow> f32" where
  "score_candidate U q e =
     (let score = text_score U q e (semantic_score q e 0)
      in if ix_stale e then f32_mul score STALE_PENALTY else score)"

section \<open>Packing\<close>

record scored_candidate =
  sc_entry :: index_entry
  sc_score :: f32

record packed_item =
  pk_key :: key
  pk_text :: bytes
  pk_citations :: "source_ref list"
  pk_score :: f32
  pk_stale :: bool
  pk_tokens :: u32

record packed_context =
  pc_items :: "packed_item list"
  pc_budget :: u32
  pc_used_tokens :: u32
  pc_considered :: nat
  pc_dropped :: nat

definition contains_stale :: "packed_context \<Rightarrow> bool" where
  "contains_stale c = list_ex pk_stale (pc_items c)"

text \<open>Best score first, then the key.  With a NaN among the scores the comparison is not an order, and the
  standard library promises no more than some order of the list, or a panic: \<open>unordered\<close> is that.\<close>

definition best_first :: "(scored_candidate list \<Rightarrow> scored_candidate list option) \<Rightarrow> scored_candidate list
    \<Rightarrow> loom_error + scored_candidate list" where
  "best_first unordered cs =
     (if list_ex (\<lambda>c. f32_nan (sc_score c)) cs
      then (case unordered cs of None \<Rightarrow> Inl (Panic ''user-provided comparison function does not correctly implement a total order'')
                               | Some ds \<Rightarrow> Inr ds)
      else Inr (sort_key (\<lambda>c. (- f32_key (sc_score c), ix_key (sc_entry c))) cs))"

definition packed_of :: "scored_candidate \<Rightarrow> packed_item" where
  "packed_of c =
     \<lparr>pk_key = ix_key (sc_entry c), pk_text = ix_text (sc_entry c), pk_citations = ix_citations (sc_entry c), pk_score = sc_score c,
      pk_stale = ix_stale (sc_entry c), pk_tokens = estimate (ix_text (sc_entry c))\<rparr>"

definition pack_step :: "scored_candidate \<Rightarrow> budget \<times> packed_item list \<times> nat \<Rightarrow> loom_error + budget \<times> packed_item list \<times> nat" where
  "pack_step c s =
     (case s of (b, items, dropped) \<Rightarrow>
        bind_r (budget_spend (estimate (ix_text (sc_entry c))) b) (\<lambda>(b, fit).
          Inr (if fit then (b, items @ [packed_of c], dropped) else (b, items, dropped + 1))))"

definition pack :: "(scored_candidate list \<Rightarrow> scored_candidate list option) \<Rightarrow> scored_candidate list \<Rightarrow> u32 \<Rightarrow> loom_error + packed_context" where
  "pack unordered cs limit =
     bind_r (best_first unordered cs) (\<lambda>ds.
     bind_r (fold_r pack_step ds (budget_new limit, [], 0)) (\<lambda>(b, items, dropped).
       Inr \<lparr>pc_items = items, pc_budget = limit, pc_used_tokens = bg_spent b, pc_considered = length cs, pc_dropped = dropped\<rparr>))"

section \<open>Retrieval\<close>

definition entry_of_record :: "loom_codec \<Rightarrow> key \<times> record_t \<Rightarrow> index_entry list \<Rightarrow> loom_error + index_entry list" where
  "entry_of_record K w acc =
     (if \<not> prefix INDEX_PREFIX (fst w) then Inr acc
      else case blob_of (snd w) of
        None \<Rightarrow> Inr acc
      | Some b \<Rightarrow> bind_r (index_decode K b) (\<lambda>e. Inr (acc @ [e])))"

definition entries_on :: "('p, 's) loom_env \<Rightarrow> ('p, 's) loom \<Rightarrow> token \<Rightarrow> bytes \<Rightarrow> u64 \<Rightarrow> loom_error + index_entry list" where
  "entries_on E l tok branch now =
     bind_r (authorize_read E tok branch now) (\<lambda>_.
     bind_r (branch_entries E l branch) (\<lambda>es. fold_r (entry_of_record (en_codec E)) es []))"

definition retrieve_filtered :: "('p, 's) loom_env \<Rightarrow> unicode \<Rightarrow> (scored_candidate list \<Rightarrow> scored_candidate list option)
    \<Rightarrow> ('p, 's) loom \<Rightarrow> token \<Rightarrow> bytes \<Rightarrow> retrieval_query \<Rightarrow> (index_entry \<Rightarrow> bool) \<Rightarrow> u64 \<Rightarrow> loom_error + packed_context" where
  "retrieve_filtered E U unordered l tok branch q allow now =
     bind_r (entries_on E l tok branch now) (\<lambda>es.
       pack unordered (map (\<lambda>e. \<lparr>sc_entry = e, sc_score = score_candidate U q e\<rparr>) (filter allow es)) (qy_budget q))"

definition retrieve :: "('p, 's) loom_env \<Rightarrow> unicode \<Rightarrow> (scored_candidate list \<Rightarrow> scored_candidate list option)
    \<Rightarrow> ('p, 's) loom \<Rightarrow> token \<Rightarrow> bytes \<Rightarrow> retrieval_query \<Rightarrow> u64 \<Rightarrow> loom_error + packed_context" where
  "retrieve E U unordered l tok branch q now = retrieve_filtered E U unordered l tok branch q (\<lambda>_. True) now"

section \<open>Forgetting (\<open>forget.rs\<close>)\<close>

record irreversible_effect =
  fx_description :: bytes
  fx_receipt :: bytes

record forget_report =
  fr_source :: "source_ref option"
  fr_irreversible :: "irreversible_effect list"
  fr_deindexed :: nat
  fr_invalidated :: nat
  fr_reached :: "key list"

definition summary :: "forget_report \<Rightarrow> bytes" where
  "summary r =
     (if fr_irreversible r = [] then
        ''Forgot '' @ (case fr_source r of Some s \<Rightarrow> source_string s | None \<Rightarrow> []) @ '': removed '' @ decimal (fr_deindexed r)
        @ '' representation(s), invalidated '' @ decimal (fr_invalidated r)
        @ '' claim(s). Nothing external had been done, so there is nothing that cannot be undone.''
      else
        WARNING_SIGN @ '' '' @ decimal (length (fr_irreversible r))
        @ '' ACTION(S) ALREADY HAPPENED and CANNOT BE UNDONE by forgetting. Then: removed '' @ decimal (fr_deindexed r)
        @ '' representation(s), invalidated '' @ decimal (fr_invalidated r)
        @ '' claim(s). The removals are reversible; the actions above are not '' @ EM_DASH @ '' compensate or escalate.'')"

definition forget :: "('p, 's) loom_env \<Rightarrow> token \<Rightarrow> bytes \<Rightarrow> source_ref \<Rightarrow> envelope \<Rightarrow> u64 \<Rightarrow> (('p, 's) loom, forget_report) act" where
  "forget E tok branch source e now =
     bind_s (ask (\<lambda>l. contaminated_keys_on E l branch source)) (\<lambda>reached.
     bind_s (invalidate_and_deindex E tok branch reached e now) (\<lambda>(invalidated, deindexed).
       ret \<lparr>fr_source = Some source, fr_irreversible = [], fr_deindexed = deindexed, fr_invalidated = invalidated, fr_reached = reached\<rparr>))"

end
