(* ===== verification/LoomAppendOnly.thy ===== *)
theory LoomAppendOnly
  imports LoomProvLaws
begin

text \<open>
  The derivation records of a branch are append-only: a write numbers its nodes from the branch's
  sequence counter, and the counter is past every number in use, so what an earlier write recorded is
  still there afterwards, and a taint walk after the write reaches at least what it reached before.
\<close>

section \<open>The counter\<close>

text \<open>Every derivation record of branch \<open>b\<close> has a number below the branch's counter.\<close>

definition seq_ok :: "bytes \<Rightarrow> (key \<times> record_t) list \<Rightarrow> bool" where
  "seq_ok b es \<longleftrightarrow> (\<forall>q. (map_of es (node_storage_key b q) \<noteq> None \<or> (\<exists>s. map_of es (source_index_key s b q) \<noteq> None))
     \<longrightarrow> unat q < unat (read_counter (map_of es (prov_seq_key b))))"

abbreviation numbered :: "bytes \<Rightarrow> u64 \<Rightarrow> key set" where
  "numbered b q \<equiv> insert (node_storage_key b q) {source_index_key s b q | s. True}"

definition prov_kept :: "(key \<times> record_t) list \<Rightarrow> (key \<times> record_t) list \<Rightarrow> bool" where
  "prov_kept es es' \<longleftrightarrow> (\<forall>k r. is_provenance k \<longrightarrow> map_of es k = Some r \<longrightarrow> map_of es' k = Some r)"

lemma seq_ok_fresh: "seq_ok b es \<Longrightarrow> map_of es k = Some r \<Longrightarrow> k \<in> numbered b q \<Longrightarrow> unat q < unat (read_counter (map_of es (prov_seq_key b)))"
  unfolding seq_ok_def by blast

lemma insert_nodes_frame:
  assumes "txn_ok T (fst ts)" and "fold_r (insert_node_records K T b) ns ts = Inr ts'"
    and "is_provenance k" and "\<And>q. unat (snd ts) \<le> unat q \<Longrightarrow> unat q < unat (snd ts') \<Longrightarrow> k \<notin> numbered b q"
  shows "map_of (tree_entries T (fst ts')) k = map_of (tree_entries T (fst ts)) k"
  using assms
proof (induction ns arbitrary: ts)
  case (Cons n ns)
  obtain u where u: "insert_node_records K T b n ts = Inr u" "fold_r (insert_node_records K T b) ns u = Inr ts'"
    using Cons.prems(2) by (auto simp: bind_r_Inr_iff)
  note s = insert_node_records_stored [OF Cons.prems(1) u(1)]
  have le: "unat (snd u) \<le> unat (snd ts')" using insert_nodes_stored [OF s(1) u(2)] by simp
  have "\<not> is_reserved k" using spaces_disjoint Cons.prems(3) by blast
  then have "k \<notin> step_keys b (snd ts)" using Cons.prems(4) [of "snd ts"] le s(4) by auto
  from s(3) [OF this] show ?case using Cons.IH [OF s(1) u(2) Cons.prems(3)] Cons.prems(4) s(4) by simp
qed simp

lemma touches_map: "touches A T t t' \<Longrightarrow> txn_ok T t \<Longrightarrow> k \<notin> A \<Longrightarrow> map_of (tree_entries T t') k = map_of (tree_entries T t) k"
  by (simp add: touches_def)

lemma numbered_provenance: "k \<in> numbered b q \<Longrightarrow> is_provenance k"
  using provenance_keys by auto

lemma provenance_not_book: "is_provenance k \<Longrightarrow> k \<notin> book_keys"
  using spaces_disjoint by blast

text \<open>One write of the caller's keys.\<close>

lemma write_body_appends:
  assumes ok: "txn_ok T t" and res: "write_body E T b h records e captured extra hints t = Inr t'"
    and caller: "\<forall>w\<in>set records. caller_key (fst w)" and seq: "seq_ok b (tree_entries T t)"
  shows "prov_kept (tree_entries T t) (tree_entries T t') \<and> seq_ok b (tree_entries T t')"
proof -
  let ?ns = "derivation_nodes (en_crypto E) b h records e captured extra"
  obtain t1 t2 t3 where t1: "insert_records T records t = Inr t1"
    and t2: "write_provenance E T b h records e captured extra t1 = Inr t2"
    and t3: "fold_r (write_index (en_codec E) T hints (rs_min_label captured)) records t2 = Inr t3"
    and t4: "fold_r (write_history (en_codec E) T) records t3 = Inr t'"
    using res unfolding write_body_def by (auto simp: bind_r_Inr_iff)
  note i = insert_records_txn [OF ok t1]
  have "skeys (tree_entries T t)" using ok tree_inv_entries(1) by (auto simp: txn_ok_def)
  then have m1: "map_of (tree_entries T t1) k = map_of (tree_entries T t) k" if "\<not> caller_key k" for k
  proof -
    have "map_of (rev records) k = None" unfolding map_of_eq_None_iff using caller that by auto
    then show ?thesis using tree_store.map_of_fold_put [OF \<open>skeys (tree_entries T t)\<close>, of records] i by (simp add: map_add_def)
  qed
  have p1: "map_of (tree_entries T t1) k = map_of (tree_entries T t) k" if "is_provenance k" for k
    by (rule m1) (use that in \<open>simp add: caller_key_def\<close>)
  define c where "c = read_counter (map_of (tree_entries T t) (prov_seq_key b))"
  have "touches aux_keys T t2 t3" by (rule idx_aux, rule fold_touches [OF _ t3]) (rule write_index_touches)
  moreover have "touches aux_keys T t3 t'" by (rule hist_aux, rule fold_touches [OF _ t4]) (rule write_history_touches)
  ultimately have aux: "touches aux_keys T t2 t'" by (rule touches_trans)
  have step: "\<exists>c'. unat c \<le> unat c' \<and> txn_ok T t2 \<and> read_counter (map_of (tree_entries T t2) (prov_seq_key b)) = c'
     \<and> (\<forall>k. is_provenance k \<longrightarrow> (\<forall>q. unat c \<le> unat q \<longrightarrow> unat q < unat c' \<longrightarrow> k \<notin> numbered b q)
            \<longrightarrow> map_of (tree_entries T t2) k = map_of (tree_entries T t) k)"
  proof (cases "\<exists>w\<in>set records. \<not> is_provenance (fst w) \<and> \<not> is_reserved (fst w)")
    case True
    obtain u r v seq where u: "tree_get T t1 (prov_seq_key b) = Inr (u, r)"
      and v: "fold_r (insert_node_records (en_codec E) T b) ?ns (u, read_counter r) = Inr (v, seq)"
      and t2': "tree_insert T v (prov_seq_key b) (RValue (Counter seq)) = Inr t2"
      using t2 unfolding write_provenance_def if_P [OF True] by (auto simp: bind_r_Inr_iff)
    have r: "r = map_of (tree_entries T t1) (prov_seq_key b)"
      using get_value u i by (metis Inr_inject prod.inject)
    then have rc: "read_counter r = c" using m1 [of "prov_seq_key b"] by (simp add: c_def)
    have gu: "txn_ok T u" "\<And>k. map_of (tree_entries T u) k = map_of (tree_entries T t1) k"
      using get_touches [OF u, of "{}"] i by (auto simp: touches_def)
    have nodes: "txn_ok T v" "unat seq = unat c + length ?ns"
      using insert_nodes_stored [OF _ v] gu(1) rc by simp_all
    have fr: "map_of (tree_entries T v) k = map_of (tree_entries T u) k"
      if "is_provenance k" "\<And>q. unat c \<le> unat q \<Longrightarrow> unat q < unat seq \<Longrightarrow> k \<notin> numbered b q" for k
      using insert_nodes_frame [OF _ v that(1)] gu(1) that(2) rc by simp
    note ins = insert_txn [OF nodes(1) t2']
    have sk: "skeys (tree_entries T v)" using nodes(1) tree_inv_entries(1) by (auto simp: txn_ok_def)
    have "map_of (tree_entries T t2) k = map_of (tree_entries T t) k"
      if k: "is_provenance k" "\<forall>q. unat c \<le> unat q \<longrightarrow> unat q < unat seq \<longrightarrow> k \<notin> numbered b q" for k
    proof -
      have "k \<noteq> prov_seq_key b" using provenance_not_book [OF k(1)] by auto
      then show ?thesis using ins sk fr [OF k(1)] k gu(2) p1 by (simp add: map_of_put)
    qed
    moreover have "read_counter (map_of (tree_entries T t2) (prov_seq_key b)) = seq"
      using ins sk by (simp add: map_of_put read_counter_def)
    ultimately show ?thesis using nodes(2) ins by (intro exI [of _ seq]) simp
  next
    case False
    have "t2 = t1" using t2 unfolding write_provenance_def if_not_P [OF False] by simp
    then show ?thesis using i m1 [of "prov_seq_key b"] p1 by (intro exI [of _ c]) (simp add: c_def)
  qed
  then obtain c' where c': "unat c \<le> unat c'" "txn_ok T t2" "read_counter (map_of (tree_entries T t2) (prov_seq_key b)) = c'"
    "\<And>k. is_provenance k \<Longrightarrow> (\<And>q. unat c \<le> unat q \<Longrightarrow> unat q < unat c' \<Longrightarrow> k \<notin> numbered b q)
       \<Longrightarrow> map_of (tree_entries T t2) k = map_of (tree_entries T t) k" by blast
  have keep: "map_of (tree_entries T t') k = map_of (tree_entries T t2) k" if "is_provenance k \<or> k = prov_seq_key b" for k
    by (rule touches_map [OF aux c'(2)]) (use that provenance_not_book in auto)
  have "prov_kept (tree_entries T t) (tree_entries T t')"
    unfolding prov_kept_def
  proof (intro allI impI)
    fix k r assume k: "is_provenance k" "map_of (tree_entries T t) k = Some r"
    have "map_of (tree_entries T t2) k = map_of (tree_entries T t) k"
      by (rule c'(4) [OF k(1)]) (use seq_ok_fresh [OF seq k(2)] in \<open>fastforce simp: c_def\<close>)
    then show "map_of (tree_entries T t') k = Some r" using keep k by simp
  qed
  moreover have "seq_ok b (tree_entries T t')"
  proof -
    have "unat q < unat c'" if k: "k \<in> numbered b q" "map_of (tree_entries T t') k \<noteq> None" for k q
    proof (rule ccontr)
      assume n: "\<not> unat q < unat c'"
      have p: "is_provenance k" by (rule numbered_provenance [OF k(1)])
      have other: "k \<notin> numbered b q'" if "unat q' < unat c'" for q'
      proof
        assume "k \<in> numbered b q'"
        moreover have "q' \<noteq> q" using that n by auto
        ultimately show False using k(1) step_keys_apart(1) [of q' q b] step_keys_apart(2) [of q' q _ b] by auto
      qed
      have "map_of (tree_entries T t) k \<noteq> None" using k(2) keep [of k] c'(4) [OF p] other p by simp
      then show False using seq_ok_fresh [OF seq _ k(1)] n c'(1) by (auto simp: c_def)
    qed
    then show ?thesis unfolding seq_ok_def using keep [of "prov_seq_key b"] c'(3) by auto
  qed
  ultimately show ?thesis by simp
qed

lemma write_all_appends:
  assumes P: "pager_ok (en_pager E)" and ok: "loom_ok E l"
    and res: "write_all E tok b records e extra hints now l = (l', Inr c)"
    and h: "holds E l b es" "seq_ok b es" and caller: "\<forall>w\<in>set records. caller_key (fst w)"
  shows "\<exists>es'. holds E l' b es' \<and> prov_kept es es' \<and> seq_ok b es'"
proof -
  let ?cap = "session_reads (e_session e) l"
  obtain l1 where l1: "l1 = l\<lparr>lm_reads := (lm_reads l)(e_session e := None)\<rparr>"
    and tr: "transact E b (\<lambda>h T t. bind_r (write_body E T b h records e ?cap extra hints t) (\<lambda>t. Inr (t, ()))) l1 = (l', Inr (c, ()))"
    using write_all_checks [OF res] by blast
  have ok1: "loom_ok E l1" and h1: "holds E l1 b es" using ok h(1) l1 by simp_all
  let ?Q = "\<lambda>es es' a. seq_ok b es \<longrightarrow> prov_kept es es' \<and> seq_ok b es'"
  have body: "txn_ok T t' \<and> ?Q (tree_entries T t) (tree_entries T t') a"
    if "txn_ok T t" "bind_r (write_body E T b h records e ?cap extra hints t) (\<lambda>t. Inr (t, ())) = Inr (t', a)" for h T t t' a
  proof -
    have w: "write_body E T b h records e ?cap extra hints t = Inr t'" using that(2) by (auto simp: bind_r_Inr_iff)
    show ?thesis using write_body_result [OF that(1) w] write_body_appends [OF that(1) w caller] by blast
  qed
  show ?thesis
  proof (rule transact_holds [of E l1 b _ ?Q, OF P ok1 body tr])
    fix es0 es' assume "holds E l1 b es0" "holds E l' b es'" "?Q es0 es' ()"
    moreover have "es0 = es" using calculation(1) h1 by (auto simp: holds_def dest: commit_good_unique)
    ultimately show ?thesis using h(2) by blast
  qed assumption+
qed

section \<open>The walk afterwards\<close>

lemma downstream_mono:
  assumes "S \<subseteq> S'" and "\<And>x. set (kids x) \<subseteq> set (kids' x)"
  shows "downstream kids S \<subseteq> downstream kids' S'"
proof (rule downstream_closed)
  show "S \<subseteq> downstream kids' S'" using assms(1) downstream_seed by blast
  show "\<forall>x\<in>downstream kids' S'. set (kids x) \<subseteq> downstream kids' S'"
    using assms(2) downstream_step by blast
qed

text \<open>Node ids pin the key and the parents they were computed from (no collision of the hash).\<close>

definition ids_pin_nodes :: "loom_codec \<Rightarrow> (key \<times> record_t) list \<Rightarrow> bool" where
  "ids_pin_nodes K es \<longleftrightarrow> (\<forall>w\<in>set es. \<forall>w'\<in>set es. \<forall>n n'. node_of_entry K w = Some n \<longrightarrow> node_of_entry K w' = Some n'
     \<longrightarrow> dn_id n = dn_id n' \<longrightarrow> dn_key n = dn_key n' \<and> dn_derived_from n = dn_derived_from n')"

definition downstream_of :: "loom_codec \<Rightarrow> (key \<times> record_t) list \<Rightarrow> source_ref \<Rightarrow> bytes set" where
  "downstream_of K es s = downstream (children_of (nodes_of K es)) (set (seeds_of s es))"

lemma pinned_lookup:
  assumes "ids_pin_nodes K es" and "w \<in> set es" and "node_of_entry K w = Some n"
  obtains m where "map_of (nodes_of K es) (dn_id n) = Some m" "dn_id m = dn_id n" "dn_key m = dn_key n"
    "dn_derived_from m = dn_derived_from n"
proof -
  obtain m where m: "map_of (nodes_of K es) (dn_id n) = Some m" using nodes_of_present [OF assms(2,3)] by blast
  then have "dn_id m = dn_id n" "\<exists>w'\<in>set es. node_of_entry K w' = Some m" by (rule nodes_of_lookup)+
  then have "dn_key m = dn_key n \<and> dn_derived_from m = dn_derived_from n" using assms unfolding ids_pin_nodes_def by metis
  with m \<open>dn_id m = dn_id n\<close> show thesis using that by blast
qed

lemma pinned_child:
  assumes "ids_pin_nodes K es" and "w \<in> set es" and "node_of_entry K w = Some n" and "x \<in> set (dn_derived_from n)"
  shows "dn_id n \<in> set (children_of (nodes_of K es) x)"
proof -
  obtain m where m: "map_of (nodes_of K es) (dn_id n) = Some m" "dn_id m = dn_id n" "dn_derived_from m = dn_derived_from n"
    by (rule pinned_lookup [OF assms(1-3)])
  then have "m \<in> snd ` set (nodes_of K es)" by (force dest: map_of_SomeD)
  moreover have "x \<in> set (dn_derived_from m)" using m(3) assms(4) by simp
  ultimately have "dn_id m \<in> set (children_of (nodes_of K es) x)" unfolding set_children_of by blast
  then show ?thesis using m(2) by simp
qed

lemma node_entry_provenance: "node_of_entry K w = Some n \<Longrightarrow> is_provenance (fst w)"
  by (simp add: node_of_entry_def is_provenance_def split: if_splits)

lemma seed_entry_provenance: "seed_of_entry s w = Some i \<Longrightarrow> is_provenance (fst w)"
  by (auto simp: seed_of_entry_def is_provenance_def source_index_prefix_def append_prefixD split: if_splits)

lemma prov_kept_entry: "skeys es \<Longrightarrow> prov_kept es es' \<Longrightarrow> w \<in> set es \<Longrightarrow> is_provenance (fst w) \<Longrightarrow> w \<in> set es'"
  unfolding prov_kept_def by (cases w) (auto simp: map_of_skeys_Some dest: map_of_SomeD)

lemma holds_skeys: "holds E l b es \<Longrightarrow> skeys es"
  using tree_inv_entries(1) by (auto simp: holds_def commit_good_def)

lemma nodes_of_skeys: "skeys (nodes_of K es)"
proof -
  have "skeys m \<Longrightarrow> skeys (fold (\<lambda>n m. put (dn_id n) n m) ns m)" for ns and m :: node_map
    by (induction ns arbitrary: m) (simp_all add: skeys_put)
  then show ?thesis by (simp add: nodes_of_def)
qed

lemma downstream_of_mono:
  assumes sk: "skeys es" and kept: "prov_kept es es'" and pin: "ids_pin_nodes K es'"
  shows "downstream_of K es s \<subseteq> downstream_of K es' s"
  unfolding downstream_of_def
proof (rule downstream_mono)
  show "set (seeds_of s es) \<subseteq> set (seeds_of s es')"
    using prov_kept_entry [OF sk kept] seed_entry_provenance by (fastforce simp: seeds_of_def)
  fix x
  show "set (children_of (nodes_of K es) x) \<subseteq> set (children_of (nodes_of K es') x)"
  proof
    fix y assume "y \<in> set (children_of (nodes_of K es) x)"
    then obtain i n where n: "(i, n) \<in> set (nodes_of K es)" "dn_id n = y" "x \<in> set (dn_derived_from n)" unfolding set_children_of by auto
    have "map_of (nodes_of K es) i = Some n" using n(1) map_of_skeys_Some [OF nodes_of_skeys] by simp
    then obtain w where w: "w \<in> set es" "node_of_entry K w = Some n" using nodes_of_lookup(2) by blast
    then have "w \<in> set es'" using prov_kept_entry [OF sk kept] node_entry_provenance by blast
    from pinned_child [OF pin this w(2) n(3)] show "y \<in> set (children_of (nodes_of K es') x)" using n(2) by simp
  qed
qed

end
