(* ===== verification/LoomMemoryLaws.thy ===== *)
theory LoomMemoryLaws
  imports LoomMemory LoomAppendOnly
begin

text \<open>
  Lemmas for retrieval and forgetting: the packing loop, the entries a retrieval reads, and what
  forgetting does to the content of a branch.
\<close>

section \<open>Packing\<close>

definition cost :: "scored_candidate \<Rightarrow> nat" where
  "cost c = unat (estimate (ix_text (sc_entry c)))"

lemma budget_spend_cases:
  assumes "budget_spend n b = Inr (b', fit)"
  shows "fit \<longleftrightarrow> budget_fits n b" and "bg_total b' = bg_total b"
    and "unat (bg_spent b') = unat (bg_spent b) + (if fit then unat n else 0)"
    and "\<not> fit \<Longrightarrow> unat (bg_total b) < unat (bg_spent b) + unat n"
    and "fit \<Longrightarrow> unat (bg_spent b') \<le> unat (bg_total b)"
proof -
  have small: "unat (bg_spent b + n) = unat (bg_spent b) + unat n" if "unat (bg_spent b) + unat n < 2 ^ 32"
    using that unat_add_lem [where 'a = 32, of "bg_spent b" n] by simp
  have lim: "unat (bg_total b) \<le> 2 ^ 32 - 1" using unsigned_less [of "bg_total b", where 'a = nat] by simp
  show "fit \<longleftrightarrow> budget_fits n b" "bg_total b' = bg_total b"
    "unat (bg_spent b') = unat (bg_spent b) + (if fit then unat n else 0)"
    using assms small by (auto simp: budget_spend_def split: if_splits)
  show "\<not> fit \<Longrightarrow> unat (bg_total b) < unat (bg_spent b) + unat n"
    using assms lim by (auto simp: budget_spend_def budget_fits_def split: if_splits)
  show "fit \<Longrightarrow> unat (bg_spent b') \<le> unat (bg_total b)"
    using assms small lim by (auto simp: budget_spend_def budget_fits_def split: if_splits)
qed

text \<open>The loop packs some of the candidates, in order, and leaves out only what will never fit.\<close>

lemma pack_loop_result:
  assumes "fold_r pack_step ds (b, items, dropped) = Inr (b', items', dropped')"
    and "unat (bg_spent b) \<le> unat (bg_total b)"
  shows "\<exists>ps rest. items' = items @ map packed_of ps \<and> mset ds = mset ps + mset rest \<and> subseq ps ds
    \<and> dropped' = dropped + length rest \<and> bg_total b' = bg_total b
    \<and> unat (bg_spent b') = unat (bg_spent b) + (\<Sum>c\<leftarrow>ps. cost c) \<and> unat (bg_spent b') \<le> unat (bg_total b)
    \<and> (\<forall>c\<in>set rest. unat (bg_total b) < unat (bg_spent b') + cost c)"
  using assms
proof (induction ds arbitrary: b items dropped)
  case (Cons d ds)
  obtain v where v: "pack_step d (b, items, dropped) = Inr v" "fold_r pack_step ds v = Inr (b', items', dropped')"
    using Cons.prems(1) by (auto simp: bind_r_Inr_iff)
  obtain u fit where u: "budget_spend (estimate (ix_text (sc_entry d))) b = Inr (u, fit)"
    and v': "v = (if fit then (u, items @ [packed_of d], dropped) else (u, items, dropped + 1))"
    using v(1) by (auto simp: pack_step_def bind_r_Inr_iff)
  have rest: "fold_r pack_step ds (if fit then (u, items @ [packed_of d], dropped) else (u, items, dropped + 1)) = Inr (b', items', dropped')"
    using v(2) by (simp only: v')
  note s = budget_spend_cases [OF u]
  have le: "unat (bg_spent u) \<le> unat (bg_total u)" using s Cons.prems(2) by (cases fit) simp_all
  show ?case
  proof (cases fit)
    case True
    obtain ps rs where "items' = (items @ [packed_of d]) @ map packed_of ps" "mset ds = mset ps + mset rs" "subseq ps ds"
      "dropped' = dropped + length rs" "bg_total b' = bg_total u" "unat (bg_spent b') = unat (bg_spent u) + (\<Sum>c\<leftarrow>ps. cost c)"
      "unat (bg_spent b') \<le> unat (bg_total u)" "\<forall>c\<in>set rs. unat (bg_total u) < unat (bg_spent b') + cost c"
      using Cons.IH [OF _ le, of "items @ [packed_of d]" dropped] rest True by auto
    then show ?thesis using s True
      by (intro exI [of _ "d # ps"] exI [of _ rs]) (simp add: cost_def)
  next
    case False
    obtain ps rs where r: "items' = items @ map packed_of ps" "mset ds = mset ps + mset rs" "subseq ps ds"
      "dropped' = dropped + 1 + length rs" "bg_total b' = bg_total u" "unat (bg_spent b') = unat (bg_spent u) + (\<Sum>c\<leftarrow>ps. cost c)"
      "unat (bg_spent b') \<le> unat (bg_total u)" "\<forall>c\<in>set rs. unat (bg_total u) < unat (bg_spent b') + cost c"
      using Cons.IH [OF _ le, of items "dropped + 1"] rest False by auto
    have "unat (bg_total b) < unat (bg_spent b') + cost d" using s(3) s(4) [OF False] r(6) False by (simp add: cost_def)
    then show ?thesis using s r False
      by (intro exI [of _ ps] exI [of _ "d # rs"]) auto
  qed
qed (auto intro!: exI [of _ "[]"])

lemma pack_loop_total:
  assumes "unat (bg_total b) < 2 ^ 32 - 1"
  shows "\<exists>s. fold_r pack_step ds (b, items, dropped) = Inr s"
  using assms
proof (induction ds arbitrary: b items dropped)
  case (Cons d ds)
  have "\<exists>u fit. budget_spend (estimate (ix_text (sc_entry d))) b = Inr (u, fit)"
    using Cons.prems by (auto simp: budget_spend_def budget_fits_def)
  then obtain u fit where u: "budget_spend (estimate (ix_text (sc_entry d))) b = Inr (u, fit)" by blast
  have "unat (bg_total u) < 2 ^ 32 - 1" using budget_spend_cases(2) [OF u] Cons.prems by simp
  from Cons.IH [OF this] show ?case using u by (cases fit) (simp_all add: pack_step_def)
qed simp

section \<open>What a retrieval reads\<close>

lemma entries_fold:
  "fold_r (entry_of_record K) es acc = Inr out \<Longrightarrow>
     (\<forall>e\<in>set out. e \<in> set acc \<or> (\<exists>k b. (k, RValue (Blob b)) \<in> set es \<and> prefix INDEX_PREFIX k \<and> lc_index_decode K b = Some e))"
proof (induction es arbitrary: acc)
  case (Cons w es)
  obtain u where u: "entry_of_record K w acc = Inr u" "fold_r (entry_of_record K) es u = Inr out"
    using Cons.prems by (auto simp: bind_r_Inr_iff)
  have "e \<in> set acc \<or> (\<exists>k b. (k, RValue (Blob b)) \<in> set (w # es) \<and> prefix INDEX_PREFIX k \<and> lc_index_decode K b = Some e)" if e: "e \<in> set u" for e
  proof (cases "e \<in> set acc")
    case False
    then obtain b where "prefix INDEX_PREFIX (fst w)" "blob_of (snd w) = Some b" "lc_index_decode K b = Some e"
      using u(1) e by (auto simp: entry_of_record_def bind_r_Inr_iff index_decode_def split: if_splits option.splits)
    then have "w = (fst w, RValue (Blob b))" by (cases w) (auto simp: blob_of_def split: record_t.splits val.splits)
    then show ?thesis using \<open>prefix INDEX_PREFIX (fst w)\<close> \<open>lc_index_decode K b = Some e\<close> by (metis list.set_intros(1))
  qed simp
  then show ?case using Cons.IH [OF u(2)] by (metis list.set_intros(2))
qed simp

lemma entries_on_holds:
  assumes "holds E l b es" and "entries_on E l tok b now = Inr out"
  shows "authorize (en_issuer E) tok b now = Inr ()"
    and "e \<in> set out \<Longrightarrow> \<exists>k blob. map_of es k = Some (RValue (Blob blob)) \<and> prefix INDEX_PREFIX k \<and> lc_index_decode (en_codec E) blob = Some e"
  using assms branch_entries_holds [OF assms(1)] map_of_skeys_Some [OF holds_skeys [OF assms(1)]]
    entries_fold [of "en_codec E" es "[]" out]
  by (auto simp: entries_on_def authorize_read_def bind_r_Inr_iff)

section \<open>Forgetting\<close>

definition standing :: "record_t option \<Rightarrow> bool" where
  "standing r \<longleftrightarrow> (\<exists>c. r = Some (RClaim c) \<and> (c_status c = Asserted \<or> c_status c = Stale))"

definition withdrawn :: "record_t option \<Rightarrow> record_t option" where
  "withdrawn r = (case r of Some (RClaim c) \<Rightarrow> (if standing r then Some (RClaim (c\<lparr>c_status := Invalidated\<rparr>)) else r) | _ \<Rightarrow> r)"

lemma forget_key_result:
  assumes ok: "txn_ok T t" and res: "forget_key T k (t, i, d) = Inr (t', i', d')" and k: "caller_key k"
  shows "txn_ok T t'"
    and "map_of (tree_entries T t') = (map_of (tree_entries T t))(index_key k := None, k := withdrawn (map_of (tree_entries T t) k))"
    and "i' = i + (if standing (map_of (tree_entries T t) k) then 1 else 0)"
    and "d' = d + (if map_of (tree_entries T t) (index_key k) = None then 0 else 1)"
proof -
  have ne: "k \<noteq> index_key k" using k engine_key(5) by metis
  obtain u removed where u: "tree_remove T t (index_key k) = Inr (u, removed)"
    using res by (auto simp: forget_key_def bind_r_Inr_iff)
  note r = remove_txn [OF ok u]
  have mu: "map_of (tree_entries T u) = (map_of (tree_entries T t))(index_key k := None)" using r by (simp add: map_of_del)
  have rm: "removed \<longleftrightarrow> map_of (tree_entries T t) (index_key k) \<noteq> None" using r by (simp add: map_of_eq_None_iff)
  obtain v where v: "tree_get T u k = Inr (v, map_of (tree_entries T u) k)" "txn_ok T v" "tree_entries T v = tree_entries T u"
    using get_value [of T u k] r by blast
  have look: "map_of (tree_entries T u) k = map_of (tree_entries T t) k" using mu ne by simp
  have "txn_ok T t' \<and> map_of (tree_entries T t') = (map_of (tree_entries T t))(index_key k := None, k := withdrawn (map_of (tree_entries T t) k))
     \<and> i' = i + (if standing (map_of (tree_entries T t) k) then 1 else 0) \<and> d' = d + (if map_of (tree_entries T t) (index_key k) = None then 0 else 1)"
  proof (cases "standing (map_of (tree_entries T t) k)")
    case True
    then obtain c where c: "map_of (tree_entries T t) k = Some (RClaim c)" "c_status c = Asserted \<or> c_status c = Stale" by (auto simp: standing_def)
    then have ins: "tree_insert T v k (RClaim (c\<lparr>c_status := Invalidated\<rparr>)) = Inr t'" and i: "i' = i + 1" "d' = (if removed then d + 1 else d)"
      using res u v(1) look by (auto simp: forget_key_def bind_r_Inr_iff Let_def split: if_splits)
    note n = insert_txn [OF v(2) ins]
    have "skeys (tree_entries T v)" using v(2) tree_inv_entries(1) by (auto simp: txn_ok_def)
    then show ?thesis using n v(3) mu i rm True c by (auto simp: map_of_put withdrawn_def)
  next
    case False
    then have "t' = v" "i' = i" "d' = (if removed then d + 1 else d)"
      using res u v(1) look by (auto simp: forget_key_def bind_r_Inr_iff Let_def standing_def split: if_splits option.splits record_t.splits)
    moreover have "withdrawn (map_of (tree_entries T t) k) = map_of (tree_entries T t) k"
      using False by (auto simp: withdrawn_def split: option.splits record_t.splits)
    ultimately show ?thesis using v mu rm False look by (auto simp: fun_eq_iff)
  qed
  then show "txn_ok T t'" "map_of (tree_entries T t') = (map_of (tree_entries T t))(index_key k := None, k := withdrawn (map_of (tree_entries T t) k))"
    "i' = i + (if standing (map_of (tree_entries T t) k) then 1 else 0)"
    "d' = d + (if map_of (tree_entries T t) (index_key k) = None then 0 else 1)" by simp_all
qed

lemma index_key_inj: "index_key k = index_key k' \<longleftrightarrow> k = k'"
  by (simp add: index_key_def)

definition forgotten :: "key set \<Rightarrow> (key \<rightharpoonup> record_t) \<Rightarrow> key \<rightharpoonup> record_t" where
  "forgotten ks m k = (if k \<in> index_key ` ks then None else if k \<in> ks then withdrawn (m k) else m k)"

lemma forget_keys_result:
  assumes "txn_ok T t" and "fold_r (forget_key T) ks (t, i, d) = Inr (t', i', d')" and "\<forall>k\<in>set ks. caller_key k" and "distinct ks"
  shows "txn_ok T t' \<and> map_of (tree_entries T t') = forgotten (set ks) (map_of (tree_entries T t))
    \<and> i' = i + length (filter (\<lambda>k. standing (map_of (tree_entries T t) k)) ks)
    \<and> d' = d + length (filter (\<lambda>k. map_of (tree_entries T t) (index_key k) \<noteq> None) ks)"
  using assms
proof (induction ks arbitrary: t i d)
  case (Cons k ks)
  obtain u i1 d1 where u: "forget_key T k (t, i, d) = Inr (u, i1, d1)" "fold_r (forget_key T) ks (u, i1, d1) = Inr (t', i', d')"
    using Cons.prems(2) by (auto simp: bind_r_Inr_iff)
  have ck: "caller_key k" "\<forall>k\<in>set ks. caller_key k" "k \<notin> set ks" "distinct ks" using Cons.prems(3,4) by simp_all
  note f = forget_key_result [OF Cons.prems(1) u(1) ck(1)]
  note ih = Cons.IH [OF f(1) u(2) ck(2,4)]
  have apart: "x \<noteq> index_key y" if "caller_key x" for x y using that engine_key(5) by metis
  have look: "map_of (tree_entries T u) x = map_of (tree_entries T t) x"
    "map_of (tree_entries T u) (index_key x) = map_of (tree_entries T t) (index_key x)" if "x \<in> set ks" for x
    using that ck f(2) apart index_key_inj by (auto simp: fun_upd_def)
  have "filter (\<lambda>k. standing (map_of (tree_entries T u) k)) ks = filter (\<lambda>k. standing (map_of (tree_entries T t) k)) ks"
    "filter (\<lambda>k. map_of (tree_entries T u) (index_key k) \<noteq> None) ks = filter (\<lambda>k. map_of (tree_entries T t) (index_key k) \<noteq> None) ks"
    using look by (auto intro!: filter_cong)
  moreover have "forgotten (set ks) (map_of (tree_entries T u)) = forgotten (set (k # ks)) (map_of (tree_entries T t))"
    using f(2) ck apart by (auto simp: forgotten_def fun_eq_iff index_key_inj)
  ultimately show ?case using ih f(3,4) by auto
qed (auto simp: forgotten_def)

lemma forget_result:
  assumes P: "pager_ok (en_pager E)" and ok: "loom_ok E l" and h: "holds E l b es"
    and res: "forget E tok b s e now l = (l', Inr rep)"
    and caller: "\<forall>ks. contaminated_keys_on E l b s = Inr ks \<longrightarrow> (\<forall>k\<in>set ks. caller_key k)"
  obtains ks es' where "contaminated_keys_on E l b s = Inr ks" "holds E l' b es'" "map_of es' = forgotten (set ks) (map_of es)" "distinct ks"
    "rep = \<lparr>fr_source = Some s, fr_irreversible = [], fr_deindexed = length (filter (\<lambda>k. map_of es (index_key k) \<noteq> None) ks),
            fr_invalidated = length (filter (\<lambda>k. standing (map_of es k)) ks), fr_reached = ks\<rparr>"
    "envelope_is_valid e" "authenticate E l e = Inr ()" "authorize (en_issuer E) tok b now = Inr ()" "loom_ok E l'"
    "\<And>d. d \<noteq> b \<Longrightarrow> head d l' = head d l" "\<And>d fs. d \<noteq> b \<Longrightarrow> holds E l d fs \<Longrightarrow> holds E l' d fs"
    "\<And>d fs. commit_good E l d fs \<Longrightarrow> commit_good E l' d fs"
proof -
  obtain ks i d where ks: "contaminated_keys_on E l b s = Inr ks" and inv: "invalidate_and_deindex E tok b ks e now l = (l', Inr (i, d))"
    and rep: "rep = \<lparr>fr_source = Some s, fr_irreversible = [], fr_deindexed = d, fr_invalidated = i, fr_reached = ks\<rparr>"
    using res unfolding forget_def by (auto elim!: bind_ask_Inr bind_s_Inr split: prod.splits)
  have dk: "distinct ks" using ks by (auto simp: contaminated_keys_holds [OF h] bind_r_Inr_iff sort_dedup_def distinct_dedup)
  have checks: "envelope_is_valid e" "authenticate E l e = Inr ()" "authorize (en_issuer E) tok b now = Inr ()"
    and tr: "\<exists>c. transact E b (\<lambda>h T t. fold_r (forget_key T) ks (t, 0, 0)) l = (l', Inr (c, (i, d)))"
    using inv unfolding invalidate_and_deindex_def
    by (auto elim!: bind_lift_Inr bind_ask_Inr bind_s_Inr simp: check_envelope_def split: if_splits prod.splits)
  obtain c where tr: "transact E b (\<lambda>h T t. fold_r (forget_key T) ks (t, 0, 0)) l = (l', Inr (c, (i, d)))" using tr by blast
  let ?Q = "\<lambda>es es' a. map_of es' = forgotten (set ks) (map_of es) \<and> fst a = length (filter (\<lambda>k. standing (map_of es k)) ks)
     \<and> snd a = length (filter (\<lambda>k. map_of es (index_key k) \<noteq> None) ks)"
  have body: "txn_ok T t' \<and> ?Q (tree_entries T t) (tree_entries T t') a"
    if "txn_ok T t" "fold_r (forget_key T) ks (t, 0, 0) = Inr (t', a)" for h T t t' a
    using forget_keys_result [of T t ks 0 0 t' "fst a" "snd a"] that caller ks dk by simp
  show thesis
  proof (rule transact_holds [of E l b "\<lambda>h T t. fold_r (forget_key T) ks (t, 0, 0)" ?Q, OF P ok body tr])
    fix es0 es' h0 new
    assume a: "holds E l b es0" "holds E l' b es'" "?Q es0 es' (i, d)" "loom_ok E l'"
      "\<And>d. d \<noteq> b \<Longrightarrow> head d l' = head d l" "\<And>d fs. d \<noteq> b \<Longrightarrow> holds E l d fs \<Longrightarrow> holds E l' d fs"
      "\<And>d fs. commit_good E l d fs \<Longrightarrow> commit_good E l' d fs"
    have "es0 = es" using a(1) h by (auto simp: holds_def dest: commit_good_unique)
    then show thesis using that [OF ks a(2) _ dk _ checks a(4-7)] a(3) rep by simp
  qed assumption+
qed

end
