(* ===== verification/LoomIndexLaws.thy ===== *)
theory LoomIndexLaws
  imports LoomMemoryLaws
begin

text \<open>
  The index a write leaves behind: one entry per hinted record that can cite something, labelled with
  what the session had read; every other write of the engine stays out of the index.
\<close>

section \<open>The keys of the index\<close>

abbreviation index_keys :: "key set" where
  "index_keys \<equiv> {k. prefix INDEX_PREFIX k}"

lemma index_key_in [simp]: "index_key k \<in> index_keys"
  by (simp add: index_key_def)

lemma outside_index [simp]:
  "\<not> prefix INDEX_PREFIX (node_storage_key b q)" "\<not> prefix INDEX_PREFIX (latest_node_key k)" "\<not> prefix INDEX_PREFIX (source_index_key s b q)"
  "\<not> prefix INDEX_PREFIX (prov_seq_key b)" "\<not> prefix INDEX_PREFIX (ann_buffer_key k)"
  by (simp_all add: node_storage_key_def latest_node_key_def source_index_key_def prov_seq_key_def ann_buffer_key_def key_space_defs)

lemma index_reserved: "prefix INDEX_PREFIX k \<Longrightarrow> is_reserved k"
  by (auto simp: is_reserved_def key_space_defs prefix_def)

lemma outside_hist: "prefix INDEX_PREFIX k \<Longrightarrow> k \<notin> hist_keys"
proof
  assume "prefix INDEX_PREFIX k" "k \<in> hist_keys"
  then obtain s p y z where "k = INDEX_PREFIX @ y" "k = history_prefix s p @ z" unfolding hist_keys_def prefix_def by blast
  then show False by (simp add: history_prefix_def INDEX_PREFIX_def HISTORY_PREFIX_def)
qed

lemma outside_prov: "prefix INDEX_PREFIX k \<Longrightarrow> k \<notin> prov_keys"
  by (auto simp: prov_keys_def)

section \<open>One write\<close>

definition entry_for :: "(key \<Rightarrow> index_hint option) \<Rightarrow> trust_class \<Rightarrow> key \<times> record_t \<Rightarrow> index_entry option" where
  "entry_for hints m w =
     (case hints (fst w) of
        None \<Rightarrow> None
      | Some h \<Rightarrow> index_entry_new (fst w) (hi_text h) (hi_embedding h) (citations_of (snd w)) (is_stale (snd w)) (most_restrictive m (own_trust (snd w))))"

lemma entry_for_facts:
  assumes "entry_for hints m w = Some e"
  shows "ix_key e = fst w" "ix_citations e = citations_of (snd w)" "ix_citations e \<noteq> []" "ix_stale e = is_stale (snd w)"
    "ix_label e = most_restrictive m (own_trust (snd w))"
  using assms by (auto simp: entry_for_def index_entry_new_def split: option.splits if_splits)

lemma write_index_result:
  assumes ok: "txn_ok T t" and res: "write_index K T hints m w t = Inr t'"
  shows "txn_ok T t'" and "\<And>x. prefix INDEX_PREFIX x \<Longrightarrow> map_of (tree_entries T t') x =
    (case entry_for hints m w of
       Some e \<Rightarrow> if x = index_key (fst w) then map_option (\<lambda>b. RValue (Blob b)) (lc_index_encode K e) else map_of (tree_entries T t) x
     | None \<Rightarrow> map_of (tree_entries T t) x)"
    and "entry_for hints m w = Some e \<Longrightarrow> \<exists>b. lc_index_encode K e = Some b"
proof -
  have "txn_ok T t' \<and> (\<forall>x. prefix INDEX_PREFIX x \<longrightarrow> map_of (tree_entries T t') x =
    (case entry_for hints m w of
       Some e \<Rightarrow> if x = index_key (fst w) then map_option (\<lambda>b. RValue (Blob b)) (lc_index_encode K e) else map_of (tree_entries T t) x
     | None \<Rightarrow> map_of (tree_entries T t) x))
     \<and> (\<forall>e. entry_for hints m w = Some e \<longrightarrow> (\<exists>b. lc_index_encode K e = Some b))"
  proof (cases "entry_for hints m w")
    case None
    then have "t' = t" using res by (auto simp: entry_for_def write_index_def split: option.splits)
    then show ?thesis using None ok by simp
  next
    case (Some e)
    then obtain h where h: "hints (fst w) = Some h"
      "index_entry_new (fst w) (hi_text h) (hi_embedding h) (citations_of (snd w)) (is_stale (snd w)) (most_restrictive m (own_trust (snd w))) = Some e"
      by (auto simp: entry_for_def split: option.splits)
    obtain b t1 where b: "lc_index_encode K e = Some b" and t1: "put_blob T (index_key (fst w)) b t = Inr t1"
      and r: "(case hi_embedding h of None \<Rightarrow> Inr t1
               | Some emb \<Rightarrow> bind_r (embedding_encode K emb) (\<lambda>b. put_blob T (ann_buffer_key (fst w)) b t1)) = Inr t'"
      using res h by (auto simp: write_index_def bind_r_Inr_iff index_encode_def split: option.splits)
    note p1 = put_blob_txn [OF ok t1]
    have "txn_ok T t' \<and> (\<forall>x. prefix INDEX_PREFIX x \<longrightarrow> map_of (tree_entries T t') x = map_of (tree_entries T t1) x)"
    proof (cases "hi_embedding h")
      case None
      then show ?thesis using r p1 by simp
    next
      case (Some emb)
      then obtain eb where eb: "put_blob T (ann_buffer_key (fst w)) eb t1 = Inr t'" using r by (auto simp: bind_r_Inr_iff)
      from put_blob_txn [OF conjunct1 [OF p1] this] show ?thesis by auto
    qed
    then show ?thesis using p1 Some b by auto
  qed
  then show "txn_ok T t'" "\<And>x. prefix INDEX_PREFIX x \<Longrightarrow> map_of (tree_entries T t') x =
    (case entry_for hints m w of
       Some e \<Rightarrow> if x = index_key (fst w) then map_option (\<lambda>b. RValue (Blob b)) (lc_index_encode K e) else map_of (tree_entries T t) x
     | None \<Rightarrow> map_of (tree_entries T t) x)"
    "entry_for hints m w = Some e \<Longrightarrow> \<exists>b. lc_index_encode K e = Some b" by auto
qed

text \<open>What is at an index key afterwards: what was there, when no record of the batch indexes it, or the
  encoding of the entry of one that does.\<close>

definition index_written :: "loom_codec \<Rightarrow> (key \<Rightarrow> index_hint option) \<Rightarrow> trust_class \<Rightarrow> (key \<times> record_t) list
    \<Rightarrow> (key \<rightharpoonup> record_t) \<Rightarrow> (key \<rightharpoonup> record_t) \<Rightarrow> key \<Rightarrow> bool" where
  "index_written K hints m records old new x \<longleftrightarrow>
     (new x = old x \<and> (\<forall>w\<in>set records. x = index_key (fst w) \<longrightarrow> entry_for hints m w = None))
     \<or> (\<exists>w\<in>set records. \<exists>e b. x = index_key (fst w) \<and> entry_for hints m w = Some e \<and> lc_index_encode K e = Some b \<and> new x = Some (RValue (Blob b)))"

lemma index_written_hinted:
  assumes "index_written K hints m records old new x" and "w \<in> set records" and "x = index_key (fst w)" and "entry_for hints m w \<noteq> None"
  obtains v e b where "entry_for hints m v = Some e" "lc_index_encode K e = Some b" "new x = Some (RValue (Blob b))"
proof (cases "\<forall>w\<in>set records. x = index_key (fst w) \<longrightarrow> entry_for hints m w = None")
  case True
  from this [rule_format, OF assms(2,3)] assms(4) show thesis by simp
next
  case False
  then have "\<exists>v\<in>set records. \<exists>e b. x = index_key (fst v) \<and> entry_for hints m v = Some e \<and> lc_index_encode K e = Some b \<and> new x = Some (RValue (Blob b))"
    using assms(1) by (simp only: index_written_def) (elim disjE conjE, simp_all)
  then obtain v e b where "entry_for hints m v = Some e" "lc_index_encode K e = Some b" "new x = Some (RValue (Blob b))" by (elim bexE exE conjE)
  then show thesis by (rule that)
qed

lemma write_indexes_result:
  "txn_ok T t \<Longrightarrow> fold_r (write_index K T hints m) ws t = Inr t' \<Longrightarrow> prefix INDEX_PREFIX x \<Longrightarrow>
     txn_ok T t' \<and> index_written K hints m ws (map_of (tree_entries T t)) (map_of (tree_entries T t')) x"
proof (induction ws arbitrary: t)
  case (Cons w ws)
  obtain u where u: "write_index K T hints m w t = Inr u" "fold_r (write_index K T hints m) ws u = Inr t'"
    using Cons.prems(2) by (auto simp: bind_r_Inr_iff)
  note s = write_index_result [OF Cons.prems(1) u(1)]
  note ih = Cons.IH [OF s(1) u(2) Cons.prems(3)]
  have at: "map_of (tree_entries T u) x = (case entry_for hints m w of
       Some e \<Rightarrow> if x = index_key (fst w) then map_option (\<lambda>b. RValue (Blob b)) (lc_index_encode K e) else map_of (tree_entries T t) x
     | None \<Rightarrow> map_of (tree_entries T t) x)" by (rule s(2) [OF Cons.prems(3)])
  have "index_written K hints m (w # ws) (map_of (tree_entries T t)) (map_of (tree_entries T t')) x"
    using conjunct2 [OF ih] unfolding index_written_def
  proof (elim disjE)
    assume a: "map_of (tree_entries T t') x = map_of (tree_entries T u) x \<and> (\<forall>w\<in>set ws. x = index_key (fst w) \<longrightarrow> entry_for hints m w = None)"
    show "(map_of (tree_entries T t') x = map_of (tree_entries T t) x \<and> (\<forall>w\<in>set (w # ws). x = index_key (fst w) \<longrightarrow> entry_for hints m w = None))
     \<or> (\<exists>w\<in>set (w # ws). \<exists>e b. x = index_key (fst w) \<and> entry_for hints m w = Some e \<and> lc_index_encode K e = Some b \<and> map_of (tree_entries T t') x = Some (RValue (Blob b)))"
    proof (cases "x = index_key (fst w) \<and> entry_for hints m w \<noteq> None")
      case True
      then obtain e where e: "entry_for hints m w = Some e" "x = index_key (fst w)" by auto
      obtain b where "lc_index_encode K e = Some b" using s(3) [OF e(1)] by blast
      then show ?thesis using e a at by auto
    next
      case False
      then show ?thesis using a at by (auto split: option.splits)
    qed
  qed auto
  then show ?case using ih by simp
qed (simp add: index_written_def)

lemma write_body_index:
  assumes ok: "txn_ok T t" and res: "write_body E T b h records e captured extra hints t = Inr t'"
    and caller: "\<forall>w\<in>set records. caller_key (fst w)" and x: "prefix INDEX_PREFIX x"
  shows "index_written (en_codec E) hints (rs_min_label captured) records (map_of (tree_entries T t)) (map_of (tree_entries T t')) x"
proof -
  obtain t1 t2 t3 where t1: "insert_records T records t = Inr t1"
    and t2: "write_provenance E T b h records e captured extra t1 = Inr t2"
    and t3: "fold_r (write_index (en_codec E) T hints (rs_min_label captured)) records t2 = Inr t3"
    and t4: "fold_r (write_history (en_codec E) T) records t3 = Inr t'"
    using res unfolding write_body_def by (auto simp: bind_r_Inr_iff)
  note i = insert_records_txn [OF ok t1]
  have sk: "skeys (tree_entries T t)" using ok tree_inv_entries(1) by (auto simp: txn_ok_def)
  have "\<not> caller_key x" using index_reserved [OF x] by (simp add: caller_key_def)
  then have "map_of (rev records) x = None" unfolding map_of_eq_None_iff using caller by auto
  then have e1: "map_of (tree_entries T t1) x = map_of (tree_entries T t) x"
    using tree_store.map_of_fold_put [OF sk, of records] i by (simp add: map_add_def)
  have p: "touches prov_keys T t1 t2" by (rule write_provenance_touches [OF t2])
  then have ok2: "txn_ok T t2" using i by (simp add: touches_def)
  have e2: "map_of (tree_entries T t2) x = map_of (tree_entries T t1) x"
    by (rule touches_map [OF p conjunct1 [OF i] outside_prov [OF x]])
  note w = write_indexes_result [OF ok2 t3 x]
  have "touches hist_keys T t3 t'" by (rule fold_touches [OF _ t4]) (rule write_history_touches)
  from touches_map [OF this conjunct1 [OF w] outside_hist [OF x]]
  show ?thesis using conjunct2 [OF w] e1 e2 by (simp add: index_written_def)
qed

lemma write_all_index:
  assumes P: "pager_ok (en_pager E)" and ok: "loom_ok E l"
    and res: "write_all E tok b records e extra hints now l = (l', Inr c)"
    and h: "holds E l b es" and caller: "\<forall>w\<in>set records. caller_key (fst w)"
  shows "\<exists>es'. holds E l' b es' \<and> (\<forall>x. prefix INDEX_PREFIX x \<longrightarrow>
     index_written (en_codec E) hints (rs_min_label (session_reads (e_session e) l)) records (map_of es) (map_of es') x)"
proof -
  let ?cap = "session_reads (e_session e) l"
  obtain l1 where l1: "l1 = l\<lparr>lm_reads := (lm_reads l)(e_session e := None)\<rparr>"
    and tr: "transact E b (\<lambda>h T t. bind_r (write_body E T b h records e ?cap extra hints t) (\<lambda>t. Inr (t, ()))) l1 = (l', Inr (c, ()))"
    using write_all_checks [OF res] by blast
  have ok1: "loom_ok E l1" and h1: "holds E l1 b es" using ok h l1 by simp_all
  let ?Q = "\<lambda>es es' a. \<forall>x. prefix INDEX_PREFIX x \<longrightarrow> index_written (en_codec E) hints (rs_min_label ?cap) records (map_of es) (map_of es') x"
  have body: "txn_ok T t' \<and> ?Q (tree_entries T t) (tree_entries T t') a"
    if "txn_ok T t" "bind_r (write_body E T b h records e ?cap extra hints t) (\<lambda>t. Inr (t, ())) = Inr (t', a)" for h T t t' a
  proof -
    have w: "write_body E T b h records e ?cap extra hints t = Inr t'" using that(2) by (auto simp: bind_r_Inr_iff)
    show ?thesis using write_body_result [OF that(1) w] write_body_index [OF that(1) w caller] by blast
  qed
  show ?thesis
  proof (rule transact_holds [of E l1 b _ ?Q, OF P ok1 body tr])
    fix es0 es' assume a: "holds E l1 b es0" "holds E l' b es'" "?Q es0 es' ()"
    moreover have "es0 = es" using a(1) h1 by (auto simp: holds_def dest: commit_good_unique)
    ultimately show ?thesis by blast
  qed assumption+
qed

section \<open>The invariant of the index\<close>

text \<open>The serializer of index entries gives back what it was given.\<close>

definition index_codec_ok :: "loom_codec \<Rightarrow> bool" where
  "index_codec_ok K \<longleftrightarrow> (\<forall>e b. lc_index_encode K e = Some b \<longrightarrow> lc_index_decode K b = Some e)"

text \<open>Every entry is at the key of the record it describes, and cites something.\<close>

definition index_ok :: "loom_codec \<Rightarrow> (key \<rightharpoonup> record_t) \<Rightarrow> bool" where
  "index_ok K m \<longleftrightarrow> (\<forall>x b e. prefix INDEX_PREFIX x \<longrightarrow> m x = Some (RValue (Blob b)) \<longrightarrow> lc_index_decode K b = Some e
     \<longrightarrow> x = index_key (ix_key e) \<and> ix_citations e \<noteq> [])"

lemma index_written_ok:
  assumes "\<And>x. prefix INDEX_PREFIX x \<Longrightarrow> index_written K hints m records old new x" and "index_ok K old" and "index_codec_ok K"
  shows "index_ok K new"
  unfolding index_ok_def
proof (intro allI impI)
  fix x b e assume x: "prefix INDEX_PREFIX x" "new x = Some (RValue (Blob b))" "lc_index_decode K b = Some e"
  from assms(1) [OF x(1)] show "x = index_key (ix_key e) \<and> ix_citations e \<noteq> []"
    unfolding index_written_def
  proof (elim disjE bexE exE conjE)
    assume "new x = old x"
    then show ?thesis using assms(2) x unfolding index_ok_def by metis
  next
    fix w e' b' assume w: "x = index_key (fst w)" "entry_for hints m w = Some e'" "lc_index_encode K e' = Some b'" "new x = Some (RValue (Blob b'))"
    then have "e' = e" using assms(3) x(2,3) by (auto simp: index_codec_ok_def)
    then show ?thesis using w entry_for_facts [OF w(2)] by simp
  qed
qed

end
