(* ===== verification/LoomMemoryDemo.thy ===== *)
theory LoomMemoryDemo
  imports LoomIndexLaws LoomTaintDemo
begin

text \<open>
  A database for the witnesses of retrieval and forgetting: the claim of the taint scenario, with an
  index entry, and a session that has read something untrusted.
\<close>

definition mem_entry :: index_entry where
  "mem_entry = \<lparr>ix_key = ''k'', ix_text = ''the old note'', ix_embedding = None, ix_citations = [demo_page], ix_stale = False, ix_label = ThirdParty\<rparr>"

definition mem_rewritten :: index_entry where
  "mem_rewritten = \<lparr>ix_key = ''k'', ix_text = ''note'', ix_embedding = None, ix_citations = [demo_page], ix_stale = True, ix_label = Untrusted\<rparr>"

definition mem_hints :: "key \<Rightarrow> index_hint option" where
  "mem_hints = [''k'' \<mapsto> \<lparr>hi_text = ''note'', hi_embedding = None\<rparr>]"

definition mem_codec :: loom_codec where
  "mem_codec = demo_taint_codec\<lparr>lc_index_encode := (\<lambda>e. if e = mem_entry then Some ''x'' else if e = mem_rewritten then Some ''y'' else None),
     lc_index_decode := (\<lambda>b. if b = ''x'' then Some mem_entry else if b = ''y'' then Some mem_rewritten else None)\<rparr>"

lemma mem_codec_ok: "index_codec_ok mem_codec"
  by (auto simp: index_codec_ok_def mem_codec_def mem_entry_def mem_rewritten_def)

lemma mem_codec_nodes [simp]: "lc_node_decode mem_codec = lc_node_decode demo_taint_codec" "lc_node_encode mem_codec = lc_node_encode demo_taint_codec"
  by (simp_all add: mem_codec_def)

definition mem_env :: "(demo_pages, refs option) loom_env" where
  "mem_env = demo_tenv\<lparr>en_codec := mem_codec\<rparr>"

lemma mem_env_sel [simp]:
  "en_pager mem_env = demo_pager" "en_store mem_env = mem_io" "en_issuer mem_env = demo_issuer" "en_codec mem_env = mem_codec"
  by (simp_all add: mem_env_def)

definition mem_before :: "(key \<times> record_t) list" where
  "mem_before = (index_key ''k'', RValue (Blob ''x'')) # demo_before"

lemmas index_defs = index_key_def INDEX_PREFIX_def

lemma mem_before_keys: "skeys mem_before"
  using demo_before_keys by (simp add: mem_before_def demo_before_def key_defs index_defs less_list_code less_char_def)

lemma mem_before_lookup:
  "map_of mem_before ''k'' = Some (RClaim demo_claim)" "map_of mem_before (prov_seq_key ''s1'') = Some (RValue (Counter 1))"
  "map_of mem_before (index_key ''k'') = Some (RValue (Blob ''x''))"
  using demo_before_lookup by (simp_all add: mem_before_def key_defs index_defs)

lemma mem_index: "w \<in> set mem_before \<Longrightarrow> prefix INDEX_PREFIX (fst w) \<Longrightarrow> w = (index_key ''k'', RValue (Blob ''x''))"
  by (auto simp: mem_before_def demo_before_def key_defs INDEX_PREFIX_def)

lemma mem_index_ok: "index_ok mem_codec (map_of mem_before)"
proof -
  have "b = ''x'' \<and> x = index_key ''k''" if "prefix INDEX_PREFIX x" "map_of mem_before x = Some (RValue (Blob b))" for x b
    using mem_index [OF map_of_SomeD [OF that(2)]] that(1) by simp
  moreover have "lc_index_decode mem_codec ''x'' = Some mem_entry" by (simp add: mem_codec_def)
  ultimately show ?thesis unfolding index_ok_def by (auto simp: mem_entry_def)
qed

definition mem_capture :: read_set where
  "mem_capture = demo_capture\<lparr>rs_min_label := Untrusted\<rparr>"

text \<open>A database of one commit, a leaf of any records \<open>a\<close>; its serializer knows \<open>a\<close> and \<open>f\<close>.\<close>

definition leaf_loom :: "(key \<times> record_t) list \<Rightarrow> (key \<times> record_t) list \<Rightarrow> (demo_pages, refs option) loom" where
  "leaf_loom a f = (fresh_loom [''r'' \<mapsto> leaf_db a f] (Some demo_refs0) demo_refs0)\<lparr>lm_reads := [''s1'' \<mapsto> mem_capture]\<rparr>"

abbreviation mem_loom :: "(key \<times> record_t) list \<Rightarrow> (demo_pages, refs option) loom" where
  "mem_loom f \<equiv> leaf_loom mem_before f"

lemma leaf_loom_sel [simp]:
  "lm_pager (leaf_loom a f) = [''r'' \<mapsto> leaf_db a f]" "lm_store (leaf_loom a f) = Some demo_refs0"
  "lm_refs (leaf_loom a f) = demo_refs0" "lm_keys (leaf_loom a f) = None" "lm_edits (leaf_loom a f) = []" "lm_reads (leaf_loom a f) = [''s1'' \<mapsto> mem_capture]"
  by (simp_all add: leaf_loom_def fresh_loom_def)

lemma leaf_heads: "head b (leaf_loom a f) = (if b = ''main'' \<or> b = ''s1'' then Inr ''r'' else Inl (NoSuchBranch b))"
  by (auto simp: head_def demo_refs0_def)

lemma leaf_commit: "skeys a \<Longrightarrow> en_pager E = demo_pager \<Longrightarrow> commit_good E (leaf_loom a f) ''r'' a"
  using leaf_db_codec [of a f] leaf_db_open [of a f] leaf_db_inv [of a f]
  by (auto simp: commit_good_def demo_pager_def)

lemma leaf_holds: "skeys a \<Longrightarrow> en_pager E = demo_pager \<Longrightarrow> holds E (leaf_loom a f) ''s1'' a"
  using leaf_commit by (auto simp: holds_def leaf_heads)

lemma leaf_ok: "skeys a \<Longrightarrow> en_pager E = demo_pager \<Longrightarrow> loom_ok E (leaf_loom a f)"
  using leaf_commit [of a E f] leaf_heads
  by (auto simp: loom_ok_def refs_wf_def demo_refs0_def REFS_FORMAT_VERSION_def less_list_code split: if_splits)

lemma mem_holds: "holds mem_env (mem_loom f) ''s1'' mem_before"
  by (simp add: leaf_holds mem_before_keys)

lemma mem_ok: "loom_ok mem_env (mem_loom f)"
  by (simp add: leaf_ok mem_before_keys)

lemma mem_walk:
  "nodes_of mem_codec mem_before = [(demo_id, demo_origin)]" "seeds_of demo_page mem_before = [demo_id]"
proof -
  have "node_of_entry mem_codec w = node_of_entry demo_taint_codec w" for w
    by (cases "blob_of (snd w)") (simp_all add: node_of_entry_def)
  then have "node_of_entry mem_codec = node_of_entry demo_taint_codec" by blast
  moreover have "node_of_entry demo_taint_codec (index_key ''k'', RValue (Blob ''x'')) = None" by (simp add: node_of_entry_def PROV_PREFIX_def index_defs)
  ultimately show "nodes_of mem_codec mem_before = [(demo_id, demo_origin)]"
    using demo_walk(1) by (simp add: nodes_of_def mem_before_def map_filter_simps)
  have "seed_of_entry demo_page (index_key ''k'', RValue (Blob ''x'')) = None" by (simp add: seed_of_entry_def source_index_prefix_def SRC_PREFIX_def index_defs)
  then show "seeds_of demo_page mem_before = [demo_id]" using demo_walk(2) by (simp add: seeds_of_def mem_before_def map_filter_simps)
qed

lemma mem_contaminated: "contaminated_keys_on mem_env (mem_loom f) ''s1'' demo_page = Inr [''k'']"
  using contaminated_keys_holds [OF mem_holds, of f demo_page] mem_walk demo_walk(3)
  by (simp add: contaminated_key_def demo_origin_def map_filter_simps sort_dedup_def is_provenance_def key_space_defs)

section \<open>Committing a leaf\<close>

text \<open>Whatever a transaction makes of the leaf, it commits when the serializer knows the result.\<close>

lemma leaf_transact:
  assumes E: "en_pager E = demo_pager" "en_store E = mem_io"
    and "body ''r'' (leaf_db a f) (leaf_start a) = Inr (t, x)" and "at_leaf a B f t"
  shows "\<exists>l'. transact E ''s1'' body (leaf_loom a f\<lparr>lm_reads := m\<rparr>) = (l', Inr (''r+'', x))"
proof -
  obtain ws where ws: "tree_flush (leaf_db a f) t = Inr ws" using at_leaf_flush [OF assms(4)] by blast
  have b: "map_of (rf_branches demo_refs0) ''s1'' = Some ''r''" "rf_commits demo_refs0 = []" by (simp_all add: demo_refs0_def)
  show ?thesis
    using b assms(3) ws
    by (simp add: transact_def bind_s_def leaf_db_open demo_pager_def commit_txn_def record_commit_def Let_def head_def
        push_edit_def with_commits_def set_head_def with_branches_def persist_def mem_io_def mem_apply_def E)
qed

lemma mem_reads_self: "mem_loom f\<lparr>lm_reads := [''s1'' \<mapsto> mem_capture]\<rparr> = mem_loom f"
  by (simp add: leaf_loom_def)

text \<open>A write of the claim, with a hint, by the session that read something untrusted.\<close>

definition mem_written :: "(key \<times> record_t) list" where
  "mem_written = put (history_key ''user'' ''is'' 0) (RValue (Blob ''v'')) (put (index_key ''k'') (RValue (Blob ''y''))
     (put (prov_seq_key ''s1'') (RValue (Counter 2)) (put (latest_node_key ''k'') (RValue (Blob (dn_id demo_derived)))
        (put (node_storage_key ''s1'' 1) (RValue (Blob ''m'')) (put ''k'' demo_stale mem_before)))))"

lemma mem_entry_for: "entry_for mem_hints Untrusted (''k'', demo_stale) = Some mem_rewritten"
  by (simp add: entry_for_def mem_hints_def index_entry_new_def demo_claim_def mem_rewritten_def most_restrictive_def least_restrictive_def
      less_eq_trust_class_def max_def)

lemma leaf_write_claim:
  assumes sk: "skeys a" and seq: "map_of a (prov_seq_key ''s1'') = Some (RValue (Counter 1))"
    and E: "en_pager E = demo_pager" "en_store E = mem_io" "en_issuer E = demo_issuer" "en_codec E = K"
    and K: "lc_node_encode K demo_derived = Some ''m''"
    and e4: "e4 = put (prov_seq_key ''s1'') (RValue (Counter 2)) (put (latest_node_key ''k'') (RValue (Blob (dn_id demo_derived)))
        (put (node_storage_key ''s1'' 1) (RValue (Blob ''m'')) (put ''k'' (RClaim c) a)))"
    and idx: "\<And>t. at_leaf a 401 e4 t \<Longrightarrow>
      \<exists>t'. write_index K (leaf_db a f) hints (rs_min_label mem_capture) (''k'', RClaim c) t = Inr t' \<and> at_leaf a 501 e5 t'"
    and hist: "\<And>t. at_leaf a 501 e5 t \<Longrightarrow> \<exists>t'. append_claim_version K (leaf_db a f) c t = Inr t' \<and> at_leaf a 1000 f t'"
  shows "\<exists>l'. write_indexed_many E demo_token ''s1'' [(''k'', RClaim c)] hints demo_envelope 5 (leaf_loom a f) = (l', Inr ''r+'')"
proof -
  have crypto: "is_crypto (en_issuer E) = demo_crypto" by (simp add: E(3))
  obtain t where t: "write_body E (leaf_db a f) ''s1'' ''r'' [(''k'', RClaim c)] demo_envelope mem_capture Map.empty hints (leaf_start a) = Inr t"
    "at_leaf a 1000 f t"
    using demo_write_claim [OF sk seq E(4) _ K _ _ e4 idx hist] crypto by (auto simp: mem_capture_def demo_capture_def)
  have e: "e_session demo_envelope = ''s1''" by (simp add: demo_envelope_def envelope_new_def)
  have s: "session_reads ''s1'' (leaf_loom a f) = mem_capture" by (simp add: session_reads_def)
  have "\<exists>l'. transact E ''s1'' (\<lambda>h T t. bind_r (write_body E T ''s1'' h [(''k'', RClaim c)] demo_envelope mem_capture Map.empty hints t)
        (\<lambda>t. Inr (t, ()))) (leaf_loom a f\<lparr>lm_reads := (lm_reads (leaf_loom a f))(''s1'' := None)\<rparr>) = (l', Inr (''r+'', ()))"
    by (rule leaf_transact [OF E(1,2) _ t(2)]) (simp add: t(1))
  then show ?thesis
    using demo_checks demo_envelope_valid s e E(3)
    by (auto simp: write_indexed_many_def write_all_def check_envelope_def take_read_set_def bind_s_def authenticate_def)
qed

lemma mem_write:
  "\<exists>l'. write_indexed_many mem_env demo_token ''s1'' [(''k'', demo_stale)] mem_hints demo_envelope 5 (mem_loom mem_written) = (l', Inr ''r+'')"
proof (rule leaf_write_claim [OF mem_before_keys mem_before_lookup(2), of mem_env mem_codec _ _ mem_written mem_hints, OF _ _ _ _ _ refl])
  show "\<exists>t'. write_index mem_codec (leaf_db mem_before mem_written) mem_hints (rs_min_label mem_capture) (''k'', demo_stale) t = Inr t'
      \<and> at_leaf mem_before 501 (put (index_key ''k'') (RValue (Blob ''y'')) (put (prov_seq_key ''s1'') (RValue (Counter 2))
          (put (latest_node_key ''k'') (RValue (Blob (dn_id demo_derived))) (put (node_storage_key ''s1'' 1) (RValue (Blob ''m'')) (put ''k'' demo_stale mem_before))))) t'"
    if leaf: "at_leaf mem_before 401 (put (prov_seq_key ''s1'') (RValue (Counter 2)) (put (latest_node_key ''k'') (RValue (Blob (dn_id demo_derived)))
        (put (node_storage_key ''s1'' 1) (RValue (Blob ''m'')) (put ''k'' demo_stale mem_before)))) t" for t
  proof -
    have len: "length (index_key ''k'') \<le> 76" by (simp add: index_defs)
    have "lc_index_encode mem_codec mem_rewritten = Some ''y''" by (simp add: mem_codec_def mem_entry_def mem_rewritten_def)
    then show ?thesis using mem_entry_for at_leaf_step [OF leaf len, of mem_written "RValue (Blob ''y'')"]
      by (auto simp: write_index_def entry_for_def mem_hints_def mem_capture_def index_encode_def put_blob_def)
  qed
  show "\<exists>t'. append_claim_version mem_codec (leaf_db mem_before mem_written) (demo_claim\<lparr>c_status := Stale\<rparr>) t = Inr t' \<and> at_leaf mem_before 1000 mem_written t'"
    if leaf: "at_leaf mem_before 501 (put (index_key ''k'') (RValue (Blob ''y'')) (put (prov_seq_key ''s1'') (RValue (Counter 2))
          (put (latest_node_key ''k'') (RValue (Blob (dn_id demo_derived))) (put (node_storage_key ''s1'' 1) (RValue (Blob ''m'')) (put ''k'' demo_stale mem_before))))) t" for t
    using stale_version [OF leaf, of mem_codec "''v''"] by (simp add: mem_written_def demo_taint_codec_def mem_codec_def no_versions)
qed (use demo_nodes_differ in \<open>simp_all add: demo_taint_codec_def mem_codec_def\<close>)

section \<open>Forgetting the page\<close>

definition mem_forgotten :: "(key \<times> record_t) list" where
  "mem_forgotten = put ''k'' (RClaim (demo_claim\<lparr>c_status := Invalidated\<rparr>)) (del (index_key ''k'') mem_before)"

lemma mem_forget:
  "\<exists>l' rep. forget mem_env demo_token ''s1'' demo_page demo_envelope 5 (mem_loom mem_forgotten) = (l', Inr rep)"
proof -
  have tl: "del (index_key ''k'') mem_before = tl mem_before"
    using mem_before_keys by (auto simp: mem_before_def del_def intro!: filter_True)
  have "index_key ''k'' \<in> fst ` set mem_before" by (simp add: mem_before_def)
  then obtain t1 where t1: "tree_remove (leaf_db mem_before mem_forgotten) (leaf_start mem_before) (index_key ''k'') = Inr (t1, True)"
    "at_leaf mem_before 1 (del (index_key ''k'') mem_before) t1"
    using at_leaf_remove [OF at_leaf_start [OF mem_before_keys] tl] unfolding tl by blast
  have look: "map_of (del (index_key ''k'') mem_before) ''k'' = Some (RClaim demo_claim)"
    using mem_before_lookup(1) by (simp add: map_of_del index_defs)
  obtain t2 where t2: "tree_get (leaf_db mem_before mem_forgotten) t1 ''k'' = Inr (t2, Some (RClaim demo_claim))"
    "at_leaf mem_before 1 (del (index_key ''k'') mem_before) t2"
    using at_leaf_read [OF t1(2), of mem_forgotten "''k''"] look by metis
  obtain t3 where t3: "tree_insert (leaf_db mem_before mem_forgotten) t2 ''k'' (RClaim (demo_claim\<lparr>c_status := Invalidated\<rparr>)) = Inr t3"
    "at_leaf mem_before 101 mem_forgotten t3"
    using at_leaf_step [OF t2(2), of "''k''"] unfolding mem_forgotten_def by auto
  have a: "c_status demo_claim = Asserted" by (simp add: demo_claim_def)
  obtain d where "fold_r (forget_key (leaf_db mem_before mem_forgotten)) [''k''] (leaf_start mem_before, 0, 0) = Inr (t3, 1, d)"
    using t1(1) t2(1) t3(1) a by (simp add: forget_key_def Let_def)
  then have "\<exists>l'. transact mem_env ''s1'' (\<lambda>h T t. fold_r (forget_key T) [''k''] (t, 0, 0)) (mem_loom mem_forgotten\<lparr>lm_reads := [''s1'' \<mapsto> mem_capture]\<rparr>)
     = (l', Inr (''r+'', (1, d)))"
    by (intro leaf_transact [OF _ _ _ t3(2)]) (simp_all del: fold_r.simps)
  then obtain l' where "transact mem_env ''s1'' (\<lambda>h T t. fold_r (forget_key T) [''k''] (t, 0, 0)) (mem_loom mem_forgotten) = (l', Inr (''r+'', (1, d)))"
    unfolding mem_reads_self by blast
  then have "invalidate_and_deindex mem_env demo_token ''s1'' [''k''] demo_envelope 5 (mem_loom mem_forgotten) = (l', Inr (1, d))"
    using demo_checks demo_envelope_valid
    by (simp add: invalidate_and_deindex_def check_envelope_def bind_s_def authenticate_def del: fold_r.simps)
  then show ?thesis by (auto simp: forget_def bind_s_def mem_contaminated)
qed

end
