(* ===== verification/LoomRecallLaws.thy ===== *)
theory LoomRecallLaws
  imports LoomAppendOnly
begin

text \<open>
  What a recall plan should contain, stated over the stored records and not over the walk: the nodes
  contaminated by a source, the writes they made, and the two sections of the plan against them.
\<close>

section \<open>Contamination\<close>

text \<open>A node is recorded when it is the one the branch keeps under its id.\<close>

definition recorded :: "loom_codec \<Rightarrow> (key \<times> record_t) list \<Rightarrow> der_node \<Rightarrow> bool" where
  "recorded K es n \<longleftrightarrow> map_of (nodes_of K es) (dn_id n) = Some n"

lemma node_lookup: "map_of (nodes_of K es) i = Some n \<longleftrightarrow> recorded K es n \<and> dn_id n = i"
  using nodes_of_lookup(1) [of K es i n] by (auto simp: recorded_def)

lemma recorded_iff: "recorded K es n \<longleftrightarrow> n \<in> snd ` set (nodes_of K es)"
proof
  show "recorded K es n \<Longrightarrow> n \<in> snd ` set (nodes_of K es)" unfolding recorded_def by (force dest: map_of_SomeD)
  assume "n \<in> snd ` set (nodes_of K es)"
  then obtain j where "map_of (nodes_of K es) j = Some n" using map_of_skeys_Some [OF nodes_of_skeys] by fastforce
  then show "recorded K es n" using node_lookup by blast
qed

text \<open>A node is contaminated when an index entry of the source names it, or when it derives from a
  contaminated node; a contaminated write is what a contaminated node recorded of a caller's key.\<close>

inductive contaminated_node :: "loom_codec \<Rightarrow> (key \<times> record_t) list \<Rightarrow> source_ref \<Rightarrow> bytes \<Rightarrow> bool"
  for K :: loom_codec and es :: "(key \<times> record_t) list" and s :: source_ref where
  cites: "(k, RValue (Blob v)) \<in> set es \<Longrightarrow> prefix (source_index_prefix s) k \<Longrightarrow> node_from_index_value v = Some i
     \<Longrightarrow> contaminated_node K es s i"
| derives: "contaminated_node K es s p \<Longrightarrow> recorded K es n \<Longrightarrow> p \<in> set (dn_derived_from n)
     \<Longrightarrow> contaminated_node K es s (dn_id n)"

definition contaminated_write :: "loom_codec \<Rightarrow> (key \<times> record_t) list \<Rightarrow> source_ref \<Rightarrow> der_node \<Rightarrow> bool" where
  "contaminated_write K es s n \<longleftrightarrow> recorded K es n \<and> contaminated_node K es s (dn_id n) \<and> \<not> is_provenance (dn_key n)"

text \<open>An executed action rests on contamination when a contaminated write of some branch wrote a key it was
  justified by.\<close>

definition tainted_action :: "loom_codec \<Rightarrow> bytes list \<Rightarrow> (bytes \<Rightarrow> (key \<times> record_t) list) \<Rightarrow> source_ref \<Rightarrow> executed_action \<Rightarrow> bool" where
  "tainted_action K bs es s a \<longleftrightarrow> (\<exists>b\<in>set bs. \<exists>n. contaminated_write K (es b) s n \<and> dn_key n \<in> set (ea_justified_by a))"

lemma seed_iff:
  "i \<in> set (seeds_of s es) \<longleftrightarrow> (\<exists>k v. (k, RValue (Blob v)) \<in> set es \<and> prefix (source_index_prefix s) k \<and> node_from_index_value v = Some i)"
proof -
  have "seed_of_entry s w = Some i \<longleftrightarrow> (\<exists>v. snd w = RValue (Blob v) \<and> prefix (source_index_prefix s) (fst w) \<and> node_from_index_value v = Some i)" for w
    by (auto simp: seed_of_entry_def blob_of_def split: record_t.splits val.splits)
  then show ?thesis by (force simp: seeds_of_def)
qed

lemma contaminated_node_iff: "contaminated_node K es s i \<longleftrightarrow> i \<in> downstream_of K es s"
proof
  show "contaminated_node K es s i \<Longrightarrow> i \<in> downstream_of K es s"
  proof (induction rule: contaminated_node.induct)
    case (cites k v i)
    then have "i \<in> set (seeds_of s es)" unfolding seed_iff by blast
    then show ?case unfolding downstream_of_def by (rule downstream_seed)
  next
    case (derives p n)
    then have "dn_id n \<in> set (children_of (nodes_of K es) p)" unfolding set_children_of recorded_iff by blast
    with derives.IH show ?case unfolding downstream_of_def by (rule downstream_step)
  qed
  have "downstream_of K es s \<subseteq> Collect (contaminated_node K es s)"
    unfolding downstream_of_def
  proof (rule downstream_closed)
    show "set (seeds_of s es) \<subseteq> Collect (contaminated_node K es s)" unfolding subset_iff seed_iff by (auto intro: contaminated_node.cites)
    show "\<forall>x\<in>Collect (contaminated_node K es s). set (children_of (nodes_of K es) x) \<subseteq> Collect (contaminated_node K es s)"
      unfolding set_children_of using contaminated_node.derives recorded_iff by fastforce
  qed
  then show "i \<in> downstream_of K es s \<Longrightarrow> contaminated_node K es s i" by blast
qed

lemma recorded_ex: "(\<exists>n. recorded K es n \<and> dn_id n = i \<and> P n) \<longleftrightarrow> (\<exists>n. map_of (nodes_of K es) i = Some n \<and> P n)"
  using node_lookup by blast

lemma contaminated_key_iff:
  "contaminated_key (nodes_of K es) i = Some k \<longleftrightarrow> (\<exists>n. recorded K es n \<and> dn_id n = i \<and> \<not> is_provenance (dn_key n) \<and> dn_key n = k)"
  unfolding recorded_ex by (auto simp: contaminated_key_def split: option.splits)

lemma contaminated_keys_writes:
  assumes h: "holds E l b es" and r: "contaminated_keys_on E l b s = Inr ks"
  shows "k \<in> set ks \<longleftrightarrow> (\<exists>n. contaminated_write (en_codec E) es s n \<and> dn_key n = k)"
proof -
  obtain ids where ids: "flood_downstream (nodes_of (en_codec E) es) (seeds_of s es) = Inr ids"
    and ks: "ks = sort_dedup (List.map_filter (contaminated_key (nodes_of (en_codec E) es)) ids)"
    using r unfolding contaminated_keys_holds [OF h] by (auto simp: bind_r_Inr_iff)
  have "i \<in> set ids \<longleftrightarrow> contaminated_node (en_codec E) es s i" for i
    using flood_downstream_Inr [OF ids] unfolding contaminated_node_iff downstream_of_def by blast
  then show ?thesis unfolding ks by (auto simp: contaminated_key_iff contaminated_write_def)
qed

text \<open>Over every branch.\<close>

lemma map_r_member: "map_r f xs = Inr ys \<Longrightarrow> y \<in> set ys \<Longrightarrow> \<exists>x\<in>set xs. f x = Inr y"
  by (induction xs arbitrary: ys) (auto simp: bind_r_Inr_iff)

lemma map_r_each: "map_r f xs = Inr ys \<Longrightarrow> x \<in> set xs \<Longrightarrow> \<exists>y\<in>set ys. f x = Inr y"
  by (induction xs arbitrary: ys) (auto simp: bind_r_Inr_iff)

lemma contaminated_anywhere_writes:
  assumes "\<And>b. b \<in> set (branch_names l) \<Longrightarrow> holds E l b (es b)" and "contaminated_anywhere E l s = Inr keys"
  shows "k \<in> set keys \<longleftrightarrow> (\<exists>b\<in>set (branch_names l). \<exists>n. contaminated_write (en_codec E) (es b) s n \<and> dn_key n = k)"
proof -
  obtain kss where kss: "map_r (\<lambda>b. contaminated_keys_on E l b s) (branch_names l) = Inr kss" "keys = concat kss"
    using assms(2) by (auto simp: contaminated_anywhere_def bind_r_Inr_iff)
  have "\<exists>ks. contaminated_keys_on E l b s = Inr ks \<and> ks \<in> set kss" if "b \<in> set (branch_names l)" for b
    using map_r_each [OF kss(1) that] by blast
  moreover have "\<exists>b\<in>set (branch_names l). contaminated_keys_on E l b s = Inr ks" if "ks \<in> set kss" for ks
    using map_r_member [OF kss(1) that] by blast
  ultimately show ?thesis
    unfolding kss(2) using contaminated_keys_writes [OF assms(1)] by (fastforce simp: set_concat)
qed

section \<open>The reversible section\<close>

definition item_of :: "(bytes \<Rightarrow> bytes) \<Rightarrow> node_map \<Rightarrow> source_ref \<Rightarrow> der_node \<Rightarrow> node_line \<Rightarrow> reversible_item" where
  "item_of dbg nodes s n d = \<lparr>rv_branch = dn_branch n, rv_commit = dn_commit n, rv_actor = dn_actor n, rv_description = node_text dbg d,
     rv_derived_via = path_to_source nodes (dn_id n) s, rv_compensation = Tombstone (dn_branch n) []\<rparr>"

lemma reversible_of_result:
  assumes r: "reversible_of dbg (nodes_of K es) s i = Inr rs"
  shows "x \<in> set rs \<longleftrightarrow> (\<exists>n. recorded K es n \<and> dn_id n = i \<and> \<not> is_provenance (dn_key n)
      \<and> (\<exists>d. describe_node n = Some d \<and> x = item_of dbg (nodes_of K es) s n d))"
    and "\<not> (\<exists>n. recorded K es n \<and> dn_id n = i \<and> \<not> is_provenance (dn_key n) \<and> describe_node n = None)"
proof -
  have "dn_id n = i" if "map_of (nodes_of K es) i = Some n" for n using that node_lookup by blast
  then show "x \<in> set rs \<longleftrightarrow> (\<exists>n. recorded K es n \<and> dn_id n = i \<and> \<not> is_provenance (dn_key n)
      \<and> (\<exists>d. describe_node n = Some d \<and> x = item_of dbg (nodes_of K es) s n d))"
    unfolding recorded_ex using r by (auto simp: reversible_of_def item_of_def split: option.splits if_splits)
  show "\<not> (\<exists>n. recorded K es n \<and> dn_id n = i \<and> \<not> is_provenance (dn_key n) \<and> describe_node n = None)"
    unfolding recorded_ex using r by (auto simp: reversible_of_def split: option.splits if_splits)
qed

text \<open>What one branch adds to the plan.\<close>

definition branch_item :: "loom_codec \<Rightarrow> (bytes \<Rightarrow> bytes) \<Rightarrow> (key \<times> record_t) list \<Rightarrow> source_ref \<Rightarrow> reversible_item \<Rightarrow> bool" where
  "branch_item K dbg es s r \<longleftrightarrow> (\<exists>n d. contaminated_write K es s n \<and> describe_node n = Some d \<and> r = item_of dbg (nodes_of K es) s n d)"

lemma taint_branch_result:
  assumes h: "holds E l b es" and r: "taint_branch E dbg l s b (items, st) = Inr (items', st')"
  shows "set items' = set items \<union> Collect (branch_item (en_codec E) dbg es s) \<and> (\<forall>n. contaminated_write (en_codec E) es s n \<longrightarrow> describe_node n \<noteq> None)"
proof (cases "seeds_of s es = []")
  case True
  then have "downstream_of (en_codec E) es s = {}" by (simp add: downstream_of_def downstream_def)
  then have "\<not> contaminated_write (en_codec E) es s n" for n by (simp add: contaminated_write_def contaminated_node_iff)
  moreover have "items' = items" using r nodes_on_holds [OF h] seeds_on_holds [OF h, of s] True by (simp add: taint_branch_def Let_def)
  ultimately show ?thesis by (auto simp: branch_item_def)
next
  case False
  let ?N = "nodes_of (en_codec E) es"
  obtain ids found where ids: "flood_downstream ?N (seeds_of s es) = Inr ids" and found: "map_r (reversible_of dbg ?N s) ids = Inr found"
    and items: "items' = items @ concat found"
    using r nodes_on_holds [OF h] seeds_on_holds [OF h, of s] False by (auto simp: taint_branch_def Let_def bind_r_Inr_iff)
  have mem: "i \<in> set ids \<longleftrightarrow> contaminated_node (en_codec E) es s i" for i
    using flood_downstream_Inr [OF ids] unfolding contaminated_node_iff downstream_of_def by blast
  have each: "\<exists>rs. reversible_of dbg ?N s i = Inr rs \<and> rs \<in> set found" if "i \<in> set ids" for i
    using map_r_each [OF found that] by blast
  have "r \<in> set (concat found) \<longleftrightarrow> branch_item (en_codec E) dbg es s r" for r
  proof
    assume "r \<in> set (concat found)"
    then obtain rs where rs: "rs \<in> set found" "r \<in> set rs" by auto
    then obtain i where "i \<in> set ids" "reversible_of dbg ?N s i = Inr rs" using map_r_member [OF found] by blast
    with rs(2) show "branch_item (en_codec E) dbg es s r"
      using reversible_of_result(1) mem unfolding branch_item_def contaminated_write_def by blast
  next
    assume "branch_item (en_codec E) dbg es s r"
    then obtain n d where n: "contaminated_write (en_codec E) es s n" "describe_node n = Some d" "r = item_of dbg ?N s n d" by (auto simp: branch_item_def)
    then obtain rs where rs: "reversible_of dbg ?N s (dn_id n) = Inr rs" "rs \<in> set found" using each mem by (auto simp: contaminated_write_def)
    then have "r \<in> set rs" using reversible_of_result(1) [OF rs(1)] n by (auto simp: contaminated_write_def)
    then show "r \<in> set (concat found)" using rs(2) by auto
  qed
  moreover have "describe_node n \<noteq> None" if "contaminated_write (en_codec E) es s n" for n
  proof -
    have n: "recorded (en_codec E) es n" "dn_id n \<in> set ids" "\<not> is_provenance (dn_key n)" using that mem by (simp_all add: contaminated_write_def)
    obtain rs where "reversible_of dbg ?N s (dn_id n) = Inr rs" using each [OF n(2)] by blast
    from reversible_of_result(2) [OF this] n(1,3) show ?thesis by auto
  qed
  ultimately show ?thesis unfolding items by auto
qed

lemma taint_branches_result:
  assumes "fold_r (taint_branch E dbg l s) bs (items, st) = Inr (items', st')" and "\<And>b. b \<in> set bs \<Longrightarrow> holds E l b (es b)"
  shows "set items' = set items \<union> {r. \<exists>b\<in>set bs. branch_item (en_codec E) dbg (es b) s r}
    \<and> (\<forall>b\<in>set bs. \<forall>n. contaminated_write (en_codec E) (es b) s n \<longrightarrow> describe_node n \<noteq> None)"
  using assms
proof (induction bs arbitrary: items st)
  case (Cons b bs)
  obtain mid smid where m: "taint_branch E dbg l s b (items, st) = Inr (mid, smid)" "fold_r (taint_branch E dbg l s) bs (mid, smid) = Inr (items', st')"
    using Cons.prems(1) by (auto simp: bind_r_Inr_iff)
  have hb: "holds E l b (es b)" using Cons.prems(2) by simp
  note t = taint_branch_result [OF hb m(1)]
  have i: "set items' = set mid \<union> {r. \<exists>b\<in>set bs. branch_item (en_codec E) dbg (es b) s r}
    \<and> (\<forall>b\<in>set bs. \<forall>n. contaminated_write (en_codec E) (es b) s n \<longrightarrow> describe_node n \<noteq> None)"
    by (rule Cons.IH [OF m(2)]) (use Cons.prems(2) in simp)
  show ?case using t i by auto
qed simp

lemma dedup_by_subset: "set (dedup_by same xs) \<subseteq> set xs"
  by (induction same xs rule: dedup_by.induct) auto

lemma dedup_by_keeps:
  assumes "\<And>x. same x x" and "\<And>x y. same x y \<Longrightarrow> same y x" and trans: "\<And>x y z. same x y \<Longrightarrow> same y z \<Longrightarrow> same x z"
  shows "x \<in> set xs \<Longrightarrow> \<exists>y\<in>set (dedup_by same xs). same x y"
proof (induction "length xs" arbitrary: x xs rule: less_induct)
  case less
  show ?case
  proof (cases "\<exists>a b r. xs = a # b # r")
    case False
    then have "dedup_by same xs = xs" by (cases xs; cases "tl xs") auto
    then show ?thesis using less.prems assms(1) by auto
  next
    case True
    then obtain a b r where xs: "xs = a # b # r" by blast
    show ?thesis
    proof (cases "same b a")
      case True
      then obtain z where z: "z \<in> set (a # r)" "same x z" using less.prems assms(1) unfolding xs by (cases "x = b") auto
      obtain y where "y \<in> set (dedup_by same (a # r))" "same z y" using less.hyps [OF _ z(1)] unfolding xs by auto
      then show ?thesis using trans [OF z(2)] True unfolding xs by auto
    next
      case False
      then show ?thesis using less.prems less.hyps [of "b # r" x] assms(1) unfolding xs by (cases "x = a") auto
    qed
  qed
qed

lemma taint_result:
  assumes h: "\<And>b. b \<in> set (branch_names l) \<Longrightarrow> holds E l b (es b)" and r: "taint E dbg l s = Inr (plan, stats)"
  shows "(\<forall>i\<in>set (rp_reversible plan). \<exists>b\<in>set (branch_names l). branch_item (en_codec E) dbg (es b) s i)
    \<and> (\<forall>b\<in>set (branch_names l). \<forall>n. contaminated_write (en_codec E) (es b) s n \<longrightarrow> (\<exists>d. describe_node n = Some d
         \<and> (\<exists>i\<in>set (rp_reversible plan). rv_branch i = dn_branch n \<and> rv_commit i = dn_commit n \<and> rv_description i = node_text dbg d)))"
proof -
  let ?zero = "\<lparr>ts_branches = 0, ts_nodes_examined = 0, ts_contaminated = 0\<rparr>"
  obtain items where items: "fold_r (taint_branch E dbg l s) (branch_names l) ([], ?zero) = Inr (items, stats)"
    and plan: "rp_reversible plan = dedup_by same_item (sort_key (\<lambda>i. (rv_branch i, rv_description i)) items)"
    using r by (auto simp: taint_def bind_r_Inr_iff)
  note t = taint_branches_result [where es = es, OF items h]
  have keeps: "\<exists>j\<in>set (rp_reversible plan). same_item i j" if "i \<in> set items" for i
    unfolding plan by (rule dedup_by_keeps) (use that in \<open>auto simp: same_item_def\<close>)
  have "\<exists>d. describe_node n = Some d
      \<and> (\<exists>i\<in>set (rp_reversible plan). rv_branch i = dn_branch n \<and> rv_commit i = dn_commit n \<and> rv_description i = node_text dbg d)"
    if b: "b \<in> set (branch_names l)" "contaminated_write (en_codec E) (es b) s n" for b n
  proof -
    obtain d where d: "describe_node n = Some d" using t b by blast
    then have "branch_item (en_codec E) dbg (es b) s (item_of dbg (nodes_of (en_codec E) (es b)) s n d)" using b(2) by (auto simp: branch_item_def)
    then have "item_of dbg (nodes_of (en_codec E) (es b)) s n d \<in> set items" using t b(1) by auto
    from keeps [OF this] show ?thesis using d by (auto simp: same_item_def item_of_def)
  qed
  moreover have "set (rp_reversible plan) \<subseteq> set items" unfolding plan using dedup_by_subset by fastforce
  ultimately show ?thesis using t by auto
qed

section \<open>The irreversible section\<close>

lemma escalation_names: "case ea_compensating a of Some undo \<Rightarrow> sublist undo (escalation_of a) | None \<Rightarrow> sublist ''A human must decide'' (escalation_of a)"
proof (cases "ea_compensating a")
  case None
  have e: "escalation_of a = (''there is NO registered compensating action for '' @ ea_action_type a @ '' on '' @ ea_target a @ ''. '') @ ''A human must decide''
     @ '' how to make this right '' @ EM_DASH @ '' rewinding the branch will not un-'' @ after_last CHR ''.'' (ea_action_type a) @ '' it.''"
    using None by (simp add: escalation_of_def)
  have "sublist ''A human must decide'' (escalation_of a)" unfolding e by (rule sublist_appendI)
  then show ?thesis using None by simp
next
  case (Some undo)
  have e: "escalation_of a = ''run the registered compensating action ('' @ undo @ '') for '' @ ea_action_type a @ '' on ''
                     @ ea_target a @ '', then confirm with the affected party.''"
    using Some by (simp add: escalation_of_def)
  have "sublist undo (escalation_of a)" unfolding e by (rule sublist_appendI)
  then show ?thesis using Some by simp
qed

end
