(* ===== verification/LoomTaintProps.thy ===== *)
theory LoomTaintProps
  imports LoomMemoryDemo LoomRecallLaws
begin

text \<open>
  The properties of the taint walk (\<open>crates/loom-provenance/src/taint.rs\<close>): what the flood names, that
  every write is found from its sources, what marking stale does, and what the plan lists.
\<close>

section \<open>The flood\<close>

text \<open>C9: the taint walk always ends, and it names exactly the nodes reachable from the seeds along the
  derivation edges, each once and in order: never more, never fewer.  The only other outcome is the
  refusal at depth 64, and then there is a chain of more than 64 distinct derivation nodes from a seed;
  a branch with fewer than 64 nodes is never refused, whatever its edges.\<close>

theorem flood_names_exactly_downstream:
  "((\<exists>A. flood_downstream nodes seeds = Inr A \<and> set A = downstream (children_of nodes) (set seeds) \<and> sorted A \<and> distinct A)
     \<or> (flood_downstream nodes seeds = Inl (DerivationCycle 64)
        \<and> (\<exists>p. derivation_chain (children_of nodes) (set seeds) p \<and> 64 < length p)))
   \<and> (length nodes < 64 \<longrightarrow> (\<exists>A. flood_downstream nodes seeds = Inr A))"
proof -
  have "(\<exists>A. flood_downstream nodes seeds = Inr A)" if l: "length nodes < 64"
  proof (rule ccontr)
    assume "\<nexists>A. flood_downstream nodes seeds = Inr A"
    then obtain p where p: "derivation_chain (children_of nodes) (set seeds) p" "64 < length p"
      using flood_downstream_result [of nodes seeds] by (auto simp: MAX_DERIVATION_DEPTH_def)
    have "card (dn_id ` snd ` set nodes) \<le> length nodes"
      by (metis card_image_le card_length finite_imageI le_trans List.finite_set)
    then show False using chain_nodes [OF p(1)] p(2) l by simp
  qed
  then show ?thesis using flood_downstream_result [of nodes seeds] by (simp add: MAX_DERIVATION_DEPTH_def)
qed

text \<open>A cycle of derivations is walked, not refused, as long as it is short.\<close>

definition demo_der :: "bytes \<Rightarrow> bytes list \<Rightarrow> der_node" where
  "demo_der i ps = \<lparr>dn_id = i, dn_branch = ''main'', dn_commit = ''r'', dn_key = i, dn_actor = ''alice'', dn_delegation = [],
     dn_intent = ''x'', dn_derived_from = ps, dn_sources = []\<rparr>"

definition demo_cycle :: node_map where
  "demo_cycle = [(''a'', demo_der ''a'' [''b'']), (''b'', demo_der ''b'' [''a'']), (''c'', demo_der ''c'' [])]"

theorem flood_names_exactly_downstream_witness:
  "length demo_cycle < 64 \<and> (\<exists>A. flood_downstream demo_cycle [''a''] = Inr A) \<and> flood_downstream demo_cycle [''a''] = Inr [''a'', ''b'']"
proof -
  have l: "length demo_cycle < 64" by (simp add: demo_cycle_def)
  have "flood_downstream demo_cycle [''a''] = Inr [''a'', ''b'']" by code_simp
  then show ?thesis using flood_names_exactly_downstream [of demo_cycle "[''a'']"] l by blast
qed

section \<open>Every write is found from its sources\<close>



lemma demo_seq_ok: "seq_ok ''s1'' demo_before"
proof -
  have "q = 0" if "map_of demo_before (node_storage_key ''s1'' q) \<noteq> None \<or> map_of demo_before (source_index_key s ''s1'' q) \<noteq> None" for q s
    using that by (auto simp: demo_before_def key_defs branch_seq_def u64_be_inj split: if_splits dest: source_seq)
  then show ?thesis unfolding seq_ok_def using demo_before_lookup(2) by (simp add: read_counter_def) (metis unat_0 zero_less_one)
qed

text \<open>Nothing refuses a write to the log itself: of a batch of provenance keys only the records are inserted,
  no node is recorded for them, and what stood under those keys is replaced.\<close>

lemma write_body_replaces:
  assumes ok: "txn_ok T t" and res: "write_body E T b h records e captured extra hints t = Inr t'"
    and prov: "\<forall>w\<in>set records. is_provenance (fst w)" and k: "is_provenance k"
  shows "map_of (tree_entries T t') k = last_write records (tree_entries T t) k"
proof -
  obtain t1 t2 t3 where t1: "insert_records T records t = Inr t1"
    and t2: "write_provenance E T b h records e captured extra t1 = Inr t2"
    and t3: "fold_r (write_index (en_codec E) T hints (rs_min_label captured)) records t2 = Inr t3"
    and t4: "fold_r (write_history (en_codec E) T) records t3 = Inr t'"
    using res unfolding write_body_def by (auto simp: bind_r_Inr_iff)
  note i = insert_records_txn [OF ok t1]
  have "\<not> (\<exists>w\<in>set records. \<not> is_provenance (fst w) \<and> \<not> is_reserved (fst w))" using prov by blast
  from t2 [unfolded write_provenance_def if_not_P [OF this]] have "t2 = t1" by simp
  moreover have "touches aux_keys T t2 t3" by (rule idx_aux, rule fold_touches [OF _ t3]) (rule write_index_touches)
  moreover have "touches aux_keys T t3 t'" by (rule hist_aux, rule fold_touches [OF _ t4]) (rule write_history_touches)
  ultimately have aux: "touches aux_keys T t1 t'" using touches_trans by blast
  have "map_of (tree_entries T t') k = map_of (tree_entries T t1) k"
    by (rule touches_map [OF aux conjunct1 [OF i]]) (use provenance_not_book [OF k] in auto)
  moreover have "skeys (tree_entries T t)" using ok tree_inv_entries(1) by (auto simp: txn_ok_def)
  ultimately show ?thesis
    using i tree_store.map_of_fold_put [of "tree_entries T t" records] by (simp add: last_write_def map_add_def split: option.splits)
qed

lemma write_all_replaces:
  assumes P: "pager_ok (en_pager E)" and ok: "loom_ok E l"
    and res: "write_all E tok b records e extra hints now l = (l', Inr c)" and h: "holds E l b es"
    and prov: "\<forall>w\<in>set records. is_provenance (fst w)"
  shows "\<exists>es'. holds E l' b es' \<and> (\<forall>k. is_provenance k \<longrightarrow> map_of es' k = last_write records es k)"
proof -
  let ?cap = "session_reads (e_session e) l"
  obtain l1 where l1: "l1 = l\<lparr>lm_reads := (lm_reads l)(e_session e := None)\<rparr>"
    and tr: "transact E b (\<lambda>h T t. bind_r (write_body E T b h records e ?cap extra hints t) (\<lambda>t. Inr (t, ()))) l1 = (l', Inr (c, ()))"
    using write_all_checks [OF res] by blast
  have ok1: "loom_ok E l1" and h1: "holds E l1 b es" using ok h l1 by simp_all
  let ?Q = "\<lambda>es es' a. \<forall>k. is_provenance k \<longrightarrow> map_of es' k = last_write records es k"
  have body: "txn_ok T t' \<and> ?Q (tree_entries T t) (tree_entries T t') a"
    if "txn_ok T t" "bind_r (write_body E T b h records e ?cap extra hints t) (\<lambda>t. Inr (t, ())) = Inr (t', a)" for h T t t' a
  proof -
    have w: "write_body E T b h records e ?cap extra hints t = Inr t'" using that(2) by (auto simp: bind_r_Inr_iff)
    show ?thesis using write_body_result [OF that(1) w] write_body_replaces [OF that(1) w prov] by blast
  qed
  show ?thesis
  proof (rule transact_holds [of E l1 b _ ?Q, OF P ok1 body tr])
    fix es0 es' assume r: "holds E l1 b es0" "holds E l' b es'" "?Q es0 es' ()"
    moreover have "es0 = es" using r(1) h1 by (auto simp: holds_def dest: commit_good_unique)
    ultimately show ?thesis by blast
  qed assumption+
qed

text \<open>C12: for the caller's keys provenance is append-only, and only for those: a successful write whose keys
  all lie outside the reserved and the provenance space, however it is labelled and whatever the session
  had read, leaves every derivation record and every source index entry that was on the branch as it was,
  and keeps the branch's counter past every number in use, so the next write is again an append.  The write
  path does not check that scope: a batch of provenance keys is accepted too, and then the records
  under those keys are the batch's, so the log is overwritten.\<close>

theorem provenance_is_append_only:
  assumes P: "pager_ok (en_pager E)" and ok: "loom_ok E l"
    and res: "write_all E tok b records e extra hints now l = (l', Inr c)"
    and h: "holds E l b es" "seq_ok b es"
  shows "\<exists>es'. holds E l' b es'
     \<and> ((\<forall>w\<in>set records. caller_key (fst w)) \<longrightarrow>
          seq_ok b es' \<and> (\<forall>k r. is_provenance k \<longrightarrow> map_of es k = Some r \<longrightarrow> map_of es' k = Some r))
     \<and> ((\<forall>w\<in>set records. is_provenance (fst w)) \<longrightarrow>
          (\<forall>k. is_provenance k \<longrightarrow> map_of es' k = (case map_of (rev records) k of Some r \<Rightarrow> Some r | None \<Rightarrow> map_of es k)))"
proof -
  obtain es' where es': "holds E l' b es'" by (rule write_all_result [OF P ok res])
  have one: "es2 = es'" if "holds E l' b es2" for es2 using that es' by (auto simp: holds_def dest: commit_good_unique)
  have "seq_ok b es' \<and> prov_kept es es'" if "\<forall>w\<in>set records. caller_key (fst w)"
    using write_all_appends [OF P ok res h that] one by blast
  moreover have "\<forall>k. is_provenance k \<longrightarrow> map_of es' k = last_write records es k" if "\<forall>w\<in>set records. is_provenance (fst w)"
    using write_all_replaces [OF P ok res h(1) that] one by blast
  ultimately show ?thesis using es' unfolding prov_kept_def last_write_def by blast
qed

text \<open>The record of the first derivation on the branch, replaced by an ordinary write.\<close>

definition forged :: "key \<times> record_t" where
  "forged = (node_storage_key ''s1'' 0, RValue (Blob ''forged''))"

definition demo_forged :: "(key \<times> record_t) list" where
  "demo_forged = put (node_storage_key ''s1'' 0) (RValue (Blob ''forged'')) demo_before"

lemma forged_write:
  obtains l' where "write_many demo_tenv demo_token ''s1'' [forged] demo_envelope 5 (leaf_loom demo_before demo_forged) = (l', Inr ''r+'')"
proof -
  let ?l = "leaf_loom demo_before demo_forged"
  have len: "length (node_storage_key ''s1'' 0) \<le> 76" by (simp add: key_defs branch_seq_def)
  obtain t where t: "tree_insert (leaf_db demo_before demo_forged) (leaf_start demo_before) (node_storage_key ''s1'' 0) (RValue (Blob ''forged'')) = Inr t"
    "at_leaf demo_before 101 demo_forged t"
    using at_leaf_step [OF at_leaf_start [OF demo_before_keys] len, where b = demo_forged and v = "RValue (Blob ''forged'')"]
    by (auto simp: demo_forged_def)
  have "write_body demo_tenv (leaf_db demo_before demo_forged) ''s1'' ''r'' [forged] demo_envelope mem_capture Map.empty Map.empty (leaf_start demo_before) = Inr t"
    using t(1) provenance_keys(1) by (simp add: write_body_def insert_records_def write_provenance_def write_index_def write_history_def forged_def)
  then have "\<exists>l'. transact demo_tenv ''s1'' (\<lambda>h T t. bind_r (write_body demo_tenv T ''s1'' h [forged] demo_envelope mem_capture Map.empty Map.empty t)
        (\<lambda>t. Inr (t, ()))) (?l\<lparr>lm_reads := (lm_reads ?l)(''s1'' := None)\<rparr>) = (l', Inr (''r+'', ()))"
    by (intro leaf_transact [OF _ _ _ t(2)]) simp_all
  moreover have "e_session demo_envelope = ''s1''" by (simp add: demo_envelope_def envelope_new_def)
  moreover have "session_reads ''s1'' ?l = mem_capture" by (simp add: session_reads_def)
  ultimately show thesis
    using that demo_checks demo_envelope_valid
    by (auto simp: write_many_def write_many_derived_def write_all_def check_envelope_def take_read_set_def bind_s_def authenticate_def)
qed

theorem provenance_is_append_only_witness:
  "(\<exists>l' es'. write_many demo_tenv demo_token ''s1'' [(''k'', demo_stale)] demo_envelope 5 demo_tainted = (l', Inr ''r+'')
     \<and> holds demo_tenv l' ''s1'' es' \<and> map_of es' (node_storage_key ''s1'' 0) = Some (RValue (Blob ''n'')))
   \<and> (\<exists>l' es'. write_many demo_tenv demo_token ''s1'' [forged] demo_envelope 5 (leaf_loom demo_before demo_forged) = (l', Inr ''r+'')
     \<and> holds demo_tenv l' ''s1'' es' \<and> map_of es' (node_storage_key ''s1'' 0) = Some (RValue (Blob ''forged'')))"
proof
  have P: "pager_ok (en_pager demo_tenv)" by (simp add: demo_pager_ok)
  have old: "map_of demo_before (node_storage_key ''s1'' 0) = Some (RValue (Blob ''n''))" by (simp add: demo_before_def key_defs)
  show "\<exists>l' es'. write_many demo_tenv demo_token ''s1'' [(''k'', demo_stale)] demo_envelope 5 demo_tainted = (l', Inr ''r+'')
     \<and> holds demo_tenv l' ''s1'' es' \<and> map_of es' (node_storage_key ''s1'' 0) = Some (RValue (Blob ''n''))"
  proof -
    obtain l' where w: "write_many demo_tenv demo_token ''s1'' [(''k'', demo_stale)] demo_envelope 5 demo_tainted = (l', Inr ''r+'')"
      by (rule demo_tainted_write)
    then have wa: "write_all demo_tenv demo_token ''s1'' [(''k'', demo_stale)] demo_envelope Map.empty Map.empty 5 demo_tainted = (l', Inr ''r+'')"
      by (simp add: write_many_def write_many_derived_def)
    have c: "\<forall>w\<in>set [(''k'', demo_stale)]. caller_key (fst w)" by (simp add: caller_key_def is_reserved_def is_provenance_def key_space_defs)
    obtain es' where es': "holds demo_tenv l' ''s1'' es'"
      "\<forall>k r. is_provenance k \<longrightarrow> map_of demo_before k = Some r \<longrightarrow> map_of es' k = Some r"
      using provenance_is_append_only [OF P demo_tainted_ok wa demo_tainted_holds demo_seq_ok] c by blast
    then show ?thesis using w old provenance_keys(1) by blast
  qed
  show "\<exists>l' es'. write_many demo_tenv demo_token ''s1'' [forged] demo_envelope 5 (leaf_loom demo_before demo_forged) = (l', Inr ''r+'')
     \<and> holds demo_tenv l' ''s1'' es' \<and> map_of es' (node_storage_key ''s1'' 0) = Some (RValue (Blob ''forged''))"
  proof -
    obtain l' where w: "write_many demo_tenv demo_token ''s1'' [forged] demo_envelope 5 (leaf_loom demo_before demo_forged) = (l', Inr ''r+'')"
      by (rule forged_write)
    then have wa: "write_all demo_tenv demo_token ''s1'' [forged] demo_envelope Map.empty Map.empty 5 (leaf_loom demo_before demo_forged) = (l', Inr ''r+'')"
      by (simp add: write_many_def write_many_derived_def)
    have ok: "loom_ok demo_tenv (leaf_loom demo_before demo_forged)" "holds demo_tenv (leaf_loom demo_before demo_forged) ''s1'' demo_before"
      by (simp_all add: leaf_ok leaf_holds demo_before_keys)
    have "\<forall>w\<in>set [forged]. is_provenance (fst w)" using provenance_keys(1) by (simp add: forged_def)
    then obtain es' where es': "holds demo_tenv l' ''s1'' es'"
      "\<forall>k. is_provenance k \<longrightarrow> map_of es' k = (case map_of (rev [forged]) k of Some r \<Rightarrow> Some r | None \<Rightarrow> map_of demo_before k)"
      using provenance_is_append_only [OF P ok(1) wa ok(2) demo_seq_ok] by blast
    have "map_of es' (node_storage_key ''s1'' 0) = Some (RValue (Blob ''forged''))" using es'(2) provenance_keys(1) by (simp add: forged_def)
    then show ?thesis using w es'(1) by blast
  qed
qed



section \<open>Marking stale\<close>

definition stale_write :: "node_map \<Rightarrow> (key \<times> record_t) list \<Rightarrow> bytes \<Rightarrow> (key \<times> record_t) option" where
  "stale_write nodes es i =
     (case contaminated_key nodes i of
        None \<Rightarrow> None
      | Some k \<Rightarrow> (case map_of es k of
            Some (RClaim c) \<Rightarrow> if c_status c = Asserted then Some (k, RClaim (c\<lparr>c_status := Stale\<rparr>)) else None
          | _ \<Rightarrow> None))"

lemma stale_write_iff:
  "stale_write nodes es i = Some (k, v) \<longleftrightarrow> contaminated_key nodes i = Some k
     \<and> (\<exists>c. map_of es k = Some (RClaim c) \<and> c_status c = Asserted \<and> v = RClaim (c\<lparr>c_status := Stale\<rparr>))"
  by (auto simp: stale_write_def split: option.splits record_t.splits)

lemma mark_nodes_result:
  assumes "tree_inv T t" and "tree_entries T t = es" and "fold_r (mark_node T nodes) ids (t, ws) = Inr (t', ws')"
  shows "ws' = ws @ List.map_filter (stale_write nodes es) ids"
  using assms
proof (induction ids arbitrary: t ws)
  case (Cons i ids)
  obtain u vs where u: "mark_node T nodes i (t, ws) = Inr (u, vs)" "fold_r (mark_node T nodes) ids (u, vs) = Inr (t', ws')"
    using Cons.prems(3) by (auto simp: bind_r_Inr_iff)
  show ?case
  proof (cases "contaminated_key nodes i")
    case None
    then have "(u, vs) = (t, ws)" using u(1) by (auto simp: mark_node_def contaminated_key_def split: option.splits if_splits)
    then show ?thesis using Cons.IH [of t ws] Cons.prems(1,2) u(2) None by (simp add: stale_write_def map_filter_simps)
  next
    case (Some k)
    obtain t1 where t1: "tree_get T t k = Inr (t1, map_of es k)" "cached t t1"
      using tree_get_inv [OF Cons.prems(1)] Cons.prems(2) by blast
    have t1': "tree_inv T t1" "tree_entries T t1 = es"
      using cached_tree_inv [OF t1(2)] Cons.prems(1,2) by blast+
    have "u = t1 \<and> vs = ws @ (case stale_write nodes es i of None \<Rightarrow> [] | Some w \<Rightarrow> [w])"
      using u(1) Some t1(1)
      by (auto simp: mark_node_def stale_write_def contaminated_key_def split: option.splits if_splits record_t.splits)
    then have "fold_r (mark_node T nodes) ids (t1, vs) = Inr (t', ws')" "vs = ws @ (case stale_write nodes es i of None \<Rightarrow> [] | Some w \<Rightarrow> [w])"
      using u(2) by simp_all
    with Cons.IH [OF t1' this(1)] show ?thesis by (cases "stale_write nodes es i") (simp_all add: map_filter_simps)
  qed
qed (simp add: map_filter_simps)

lemma stale_writes_result:
  assumes "holds E l b es" and "stale_writes E l b s = Inr ws"
  obtains ids where "flood_downstream (nodes_of (en_codec E) es) (seeds_of s es) = Inr ids"
    "ws = List.map_filter (stale_write (nodes_of (en_codec E) es) es) ids"
proof -
  obtain h T t where h: "head b l = Inr h" "pg_fork (en_pager E) (lm_pager l) h = Inr T" "tree_open T = Inr t" "tree_inv T t" "tree_entries T t = es"
    using assms(1) by (auto simp: holds_def commit_good_def)
  then obtain ids t' where "flood_downstream (nodes_of (en_codec E) es) (seeds_of s es) = Inr ids"
    "fold_r (mark_node T (nodes_of (en_codec E) es)) ids (t, []) = Inr (t', ws)"
    using assms(2) nodes_on_holds [OF assms(1)] seeds_on_holds [OF assms(1)] by (auto simp: stale_writes_def bind_r_Inr_iff)
  then show thesis using that mark_nodes_result [OF h(4,5)] by fastforce
qed

lemma map_of_rev_uniform: "(k, v) \<in> set ws \<Longrightarrow> (\<And>v'. (k, v') \<in> set ws \<Longrightarrow> v' = v) \<Longrightarrow> map_of (rev ws) k = Some v"
  by (metis map_of_SomeD map_of_eq_None_iff not_Some_eq set_rev fst_conv image_eqI)

text \<open>C10: marking stale is a scalpel: when it succeeds, every asserted claim downstream of the source, and
  nothing else, is rewritten, with its status and only its status changed, so that it can no longer
  justify an action; the keys returned are those claims; every other key of the caller on the branch
  and every other branch reads as before.\<close>

theorem mark_stale_is_exact:
  assumes P: "pager_ok (en_pager E)" and ok: "loom_ok E l" and h: "holds E l b es"
    and res: "mark_stale E tok b s e now l = (l', Inr marked)"
  shows "\<exists>ks. contaminated_keys_on E l b s = Inr ks
    \<and> (\<forall>k. caller_key k \<longrightarrow> (k \<in> set marked \<longleftrightarrow> k \<in> set ks \<and> (\<exists>c. map_of es k = Some (RClaim c) \<and> c_status c = Asserted)))
    \<and> (\<forall>k. caller_key k \<longrightarrow> read_branch E l' b k =
          (if k \<in> set marked then map_sum id (map_option (\<lambda>r. case r of RClaim c \<Rightarrow> RClaim (c\<lparr>c_status := Stale\<rparr>) | _ \<Rightarrow> r)) (read_branch E l b k)
           else read_branch E l b k))
    \<and> (\<forall>k c. caller_key k \<longrightarrow> k \<in> set ks \<longrightarrow> read_branch E l' b k = Inr (Some (RClaim c)) \<longrightarrow> \<not> is_action_eligible c)
    \<and> (\<forall>d. d \<noteq> b \<longrightarrow> (\<forall>k. read_branch E l' d k = read_branch E l d k))"
proof -
  let ?K = "en_codec E"
  let ?N = "nodes_of ?K es"
  obtain ws where ws: "stale_writes E l b s = Inr ws" and marked: "marked = map fst ws"
    and run: "(ws \<noteq> [] \<and> (\<exists>c. write_many E tok b ws e now l = (l', Inr c))) \<or> (ws = [] \<and> l' = l)"
    using res unfolding mark_stale_def by (auto simp: bind_s_def split: sum.splits prod.splits if_splits)
  obtain ids where ids: "flood_downstream ?N (seeds_of s es) = Inr ids" and w: "ws = List.map_filter (stale_write ?N es) ids"
    by (rule stale_writes_result [OF h ws])
  define ks where "ks = sort_dedup (List.map_filter (contaminated_key ?N) ids)"
  have ks: "contaminated_keys_on E l b s = Inr ks" by (simp add: contaminated_keys_holds [OF h] ids ks_def)
  have inks: "k \<in> set ks \<longleftrightarrow> (\<exists>i\<in>set ids. contaminated_key ?N i = Some k)" for k by (auto simp: ks_def)
  have mem: "(k, v) \<in> set ws \<longleftrightarrow> k \<in> set ks \<and> (\<exists>c. map_of es k = Some (RClaim c) \<and> c_status c = Asserted \<and> v = RClaim (c\<lparr>c_status := Stale\<rparr>))" for k v
    unfolding w inks set_map_filter stale_write_iff by blast
  have m: "k \<in> set marked \<longleftrightarrow> k \<in> set ks \<and> (\<exists>c. map_of es k = Some (RClaim c) \<and> c_status c = Asserted)" for k
    unfolding marked using mem [of k] by (force simp: image_iff)
  have last: "last_write ws es k = (if k \<in> set marked then map_option (\<lambda>r. case r of RClaim c \<Rightarrow> RClaim (c\<lparr>c_status := Stale\<rparr>) | _ \<Rightarrow> r) (map_of es k) else map_of es k)" for k
  proof (cases "k \<in> set marked")
    case True
    then obtain c where c: "map_of es k = Some (RClaim c)" "(k, RClaim (c\<lparr>c_status := Stale\<rparr>)) \<in> set ws" using m mem by auto
    have "map_of (rev ws) k = Some (RClaim (c\<lparr>c_status := Stale\<rparr>))"
      by (rule map_of_rev_uniform [OF c(2)]) (use mem c(1) in auto)
    then show ?thesis using True c(1) by (simp add: last_write_def)
  next
    case False
    then have "map_of (rev ws) k = None" unfolding map_of_eq_None_iff marked by simp
    then show ?thesis using False by (simp add: last_write_def)
  qed
  have rd: "(\<forall>k. caller_key k \<longrightarrow> read_branch E l' b k = Inr (last_write ws es k)) \<and> (\<forall>d. d \<noteq> b \<longrightarrow> (\<forall>k. read_branch E l' d k = read_branch E l d k))"
    using run
  proof
    assume "ws \<noteq> [] \<and> (\<exists>c. write_many E tok b ws e now l = (l', Inr c))"
    then obtain c where "write_all E tok b ws e Map.empty Map.empty now l = (l', Inr c)" by (auto simp: write_many_def write_many_derived_def)
    from write_all_reads [OF P ok this h] show ?thesis by blast
  next
    assume "ws = [] \<and> l' = l"
    then show ?thesis using holds_read [OF h] by (simp add: last_write_def)
  qed
  have elig: "\<not> is_action_eligible c" if k: "caller_key k" "k \<in> set ks" "read_branch E l' b k = Inr (Some (RClaim c))" for k c
  proof -
    have "last_write ws es k = Some (RClaim c)" using rd k(1,3) by simp
    then have "c_status c \<noteq> Asserted" using last [of k] m [of k] k(2) by (auto split: if_splits record_t.splits)
    then show ?thesis by (simp add: is_action_eligible_def)
  qed
  show ?thesis
    using ks m rd last elig holds_read [OF h] by (intro exI [of _ ks]) (auto simp: if_distrib)
qed

theorem mark_stale_is_exact_witness:
  "\<exists>l'. mark_stale demo_tenv demo_token ''s1'' demo_page demo_envelope 5 demo_tainted = (l', Inr [''k''])
     \<and> read_branch demo_tenv l' ''s1'' ''k'' = Inr (Some demo_stale)"
proof -
  obtain l' where w: "write_many demo_tenv demo_token ''s1'' [(''k'', demo_stale)] demo_envelope 5 demo_tainted = (l', Inr ''r+'')"
    by (rule demo_tainted_write)
  have m: "mark_stale demo_tenv demo_token ''s1'' demo_page demo_envelope 5 demo_tainted = (l', Inr [''k''])"
    by (simp add: mark_stale_def bind_s_def demo_stale_writes w)
  have P: "pager_ok (en_pager demo_tenv)" by (simp add: demo_pager_ok)
  have k: "caller_key ''k''" by (simp add: caller_key_def is_reserved_def is_provenance_def key_space_defs)
  have "read_branch demo_tenv demo_tainted ''s1'' ''k'' = Inr (Some (RClaim demo_claim))"
    using holds_read [OF demo_tainted_holds] demo_before_lookup(1) by simp
  then have "read_branch demo_tenv l' ''s1'' ''k'' = Inr (Some demo_stale)"
    using mark_stale_is_exact [OF P demo_tainted_ok demo_tainted_holds m] k by (auto simp: demo_claim_def)
  then show ?thesis using m by blast
qed

section \<open>The actions\<close>

text \<open>C11: a recall plan leaves nothing out and adds nothing.  Call a write contaminated when the node that
  recorded it, on some branch, has an index entry of the source or derives, over any number of nodes, from
  one that has.  The irreversible section lists, each once and in a fixed order, exactly the executed
  actions justified by a key that a contaminated write of some branch wrote, with the action's id, type,
  target, actor, receipt and registered compensation, and each tells the operator what to do: it names that
  compensation, or says that a human must decide.  The reversible section has an item for every
  contaminated write of every branch, with its branch, commit and description, and only items of such
  writes.  The plan asks for a human exactly when one of the listed actions has no compensation.\<close>

theorem recall_lists_every_action:
  assumes h: "\<And>b. b \<in> set (branch_names l) \<Longrightarrow> holds E l b (es b)"
    and res: "taint_with_actions E dbg l s actions = Inr (plan, stats)"
  shows "mset (map (\<lambda>i. (ir_action_id i, ir_action_type i, ir_target i, ir_actor i, ir_receipt i, ir_compensating i)) (rp_irreversible plan))
        = mset (map (\<lambda>a. (ea_action_id a, ea_action_type a, ea_target a, ea_actor a, ea_receipt a, ea_compensating a)) (filter (tainted_action (en_codec E) (branch_names l) es s) actions))
    \<and> sorted (map (\<lambda>i. (ir_action_type i, ir_target i, ir_action_id i)) (rp_irreversible plan))
    \<and> (\<forall>i\<in>set (rp_irreversible plan). case ir_compensating i of Some undo \<Rightarrow> sublist undo (ir_escalation i)
         | None \<Rightarrow> sublist ''A human must decide'' (ir_escalation i))
    \<and> (needs_human plan \<longleftrightarrow> (\<exists>a\<in>set actions. tainted_action (en_codec E) (branch_names l) es s a \<and> ea_compensating a = None))
    \<and> (\<forall>b\<in>set (branch_names l). \<forall>n. contaminated_write (en_codec E) (es b) s n \<longrightarrow> (\<exists>d. describe_node n = Some d
         \<and> (\<exists>i\<in>set (rp_reversible plan). rv_branch i = dn_branch n \<and> rv_commit i = dn_commit n \<and> rv_description i = node_text dbg d)))
    \<and> (\<forall>i\<in>set (rp_reversible plan). \<exists>b\<in>set (branch_names l). \<exists>n d. contaminated_write (en_codec E) (es b) s n \<and> describe_node n = Some d
         \<and> rv_branch i = dn_branch n \<and> rv_commit i = dn_commit n \<and> rv_actor i = dn_actor n \<and> rv_description i = node_text dbg d)"
proof -
  let ?hit = "tainted_action (en_codec E) (branch_names l) es s"
  obtain keys plan0 where k: "contaminated_anywhere E l s = Inr keys" "taint E dbg l s = Inr (plan0, stats)"
    "mset (rp_irreversible plan) = mset (map irreversible_of (filter (\<lambda>a. set (ea_justified_by a) \<inter> set keys \<noteq> {}) actions))"
    "sorted (map action_order (rp_irreversible plan))" "rp_reversible plan = rp_reversible plan0"
    "needs_human plan \<longleftrightarrow> (\<exists>a\<in>set actions. set (ea_justified_by a) \<inter> set keys \<noteq> {} \<and> ea_compensating a = None)"
    using recall_actions [OF res] by blast
  have every: "x \<in> set keys \<longleftrightarrow> (\<exists>b\<in>set (branch_names l). \<exists>n. contaminated_write (en_codec E) (es b) s n \<and> dn_key n = x)" for x
    by (rule contaminated_anywhere_writes [OF h k(1)])
  have keys: "set (ea_justified_by a) \<inter> set keys \<noteq> {} \<longleftrightarrow> ?hit a" for a
    by (auto simp: tainted_action_def disjoint_iff every)
  let ?f = "\<lambda>i. (ir_action_id i, ir_action_type i, ir_target i, ir_actor i, ir_receipt i, ir_compensating i)"
  have m: "mset (rp_irreversible plan) = mset (map irreversible_of (filter ?hit actions))" using k(3) unfolding keys .
  have "?f \<circ> irreversible_of = (\<lambda>a. (ea_action_id a, ea_action_type a, ea_target a, ea_actor a, ea_receipt a, ea_compensating a))"
    by (simp add: fun_eq_iff irreversible_of_def)
  then have fields: "mset (map ?f (rp_irreversible plan))
      = mset (map (\<lambda>a. (ea_action_id a, ea_action_type a, ea_target a, ea_actor a, ea_receipt a, ea_compensating a)) (filter ?hit actions))"
    using arg_cong [OF m, of "image_mset ?f"] by (metis (no_types, lifting) list.map_comp mset_map)
  have esc: "case ir_compensating i of Some undo \<Rightarrow> sublist undo (ir_escalation i) | None \<Rightarrow> sublist ''A human must decide'' (ir_escalation i)"
    if i: "i \<in> set (rp_irreversible plan)" for i
  proof -
    obtain a where a: "i = irreversible_of a" using i arg_cong [OF m, of set_mset] by auto
    show ?thesis unfolding a using escalation_names [of a] by (cases "ea_compensating a") (simp_all add: irreversible_of_def)
  qed
  have rev: "(\<forall>i\<in>set (rp_reversible plan). \<exists>b\<in>set (branch_names l). branch_item (en_codec E) dbg (es b) s i)"
    "(\<forall>b\<in>set (branch_names l). \<forall>n. contaminated_write (en_codec E) (es b) s n \<longrightarrow> (\<exists>d. describe_node n = Some d
         \<and> (\<exists>i\<in>set (rp_reversible plan). rv_branch i = dn_branch n \<and> rv_commit i = dn_commit n \<and> rv_description i = node_text dbg d)))"
    using taint_result [of l E es, OF h k(2)] unfolding k(5) by blast+
  have items: "\<exists>b\<in>set (branch_names l). \<exists>n d. contaminated_write (en_codec E) (es b) s n \<and> describe_node n = Some d
         \<and> rv_branch i = dn_branch n \<and> rv_commit i = dn_commit n \<and> rv_actor i = dn_actor n \<and> rv_description i = node_text dbg d"
    if "i \<in> set (rp_reversible plan)" for i
    using rev(1) that by (fastforce simp: branch_item_def item_of_def)
  have order: "sorted (map (\<lambda>i. (ir_action_type i, ir_target i, ir_action_id i)) (rp_irreversible plan))"
    using k(4) by (simp add: action_order_def [abs_def])
  show ?thesis using k(6) unfolding keys by (intro conjI ballI fields order rev(2)) (erule esc, assumption, erule items)
qed

text \<open>No item says which claims it rests on, so the report counts none for every action.\<close>

lemma recall_counts_no_claims:
  assumes "taint_with_actions E dbg l s actions = Inr (plan, stats)" and "i \<in> set (rp_irreversible plan)"
  shows "ir_justified_by i = []"
proof -
  obtain keys where "mset (rp_irreversible plan) = mset (map irreversible_of (filter (\<lambda>a. set (ea_justified_by a) \<inter> set keys \<noteq> {}) actions))"
    using recall_actions [OF assms(1)] by blast
  from arg_cong [OF this, of set_mset] assms(2) obtain a where a: "i = irreversible_of a" by auto
  show ?thesis unfolding a by (simp add: irreversible_of_def)
qed

definition demo_action :: executed_action where
  "demo_action = \<lparr>ea_action_id = ''a1'', ea_action_type = ''mail.send'', ea_target = ''bob'', ea_actor = ''alice'', ea_justified_by = [''k''],
     ea_receipt = Some ''ok'', ea_compensating = None\<rparr>"

lemma demo_contaminated_write: "contaminated_write demo_taint_codec demo_before demo_page demo_origin"
proof -
  have "demo_id \<in> set (seeds_of demo_page demo_before)" by (simp add: demo_walk(2))
  then have "contaminated_node demo_taint_codec demo_before demo_page demo_id"
    unfolding contaminated_node_iff downstream_of_def by (rule downstream_seed)
  then show ?thesis
    using demo_walk(1) by (simp add: contaminated_write_def recorded_def demo_origin_def is_provenance_def key_space_defs)
qed

theorem recall_lists_every_action_witness:
  "\<exists>plan stats. taint_with_actions demo_tenv (\<lambda>x. x) demo_tainted demo_page [demo_action] = Inr (plan, stats)
     \<and> map ir_receipt (rp_irreversible plan) = [Some ''ok''] \<and> map ir_action_id (rp_irreversible plan) = [''a1''] \<and> needs_human plan
     \<and> (\<exists>i\<in>set (rp_reversible plan). rv_branch i = ''s1'' \<and> rv_commit i = ''r'')"
proof -
  obtain plan stats where w: "taint_with_actions demo_tenv (\<lambda>x. x) demo_tainted demo_page [demo_action] = Inr (plan, stats)"
    using demo_recall by blast
  have h: "b \<in> set (branch_names demo_tainted) \<Longrightarrow> holds demo_tenv demo_tainted b demo_before" for b
    using demo_main_holds demo_tainted_holds by (auto simp: demo_names)
  have n: "''s1'' \<in> set (branch_names demo_tainted)" "dn_key demo_origin \<in> set (ea_justified_by demo_action)"
    by (simp_all add: demo_names demo_origin_def demo_action_def)
  have yes: "tainted_action (en_codec demo_tenv) (branch_names demo_tainted) (\<lambda>_. demo_before) demo_page demo_action"
    unfolding tainted_action_def using demo_contaminated_write n by auto
  note r = recall_lists_every_action [where es = "\<lambda>_. demo_before", OF h w]
  have m: "mset (map (\<lambda>i. (ir_action_id i, ir_action_type i, ir_target i, ir_actor i, ir_receipt i, ir_compensating i)) (rp_irreversible plan))
      = {#(''a1'', ''mail.send'', ''bob'', ''alice'', Some ''ok'', None)#}"
    using conjunct1 [OF r] yes by (simp add: demo_action_def)
  have "needs_human plan" using r yes by (simp add: demo_action_def)
  moreover have "\<exists>i\<in>set (rp_reversible plan). rv_branch i = dn_branch demo_origin \<and> rv_commit i = dn_commit demo_origin"
    using r n(1) demo_contaminated_write by fastforce
  moreover have "map ir_receipt (rp_irreversible plan) = [Some ''ok''] \<and> map ir_action_id (rp_irreversible plan) = [''a1'']"
    using m by (cases "rp_irreversible plan") auto
  ultimately show ?thesis using w by (simp add: demo_origin_def)
qed

end
