(* ===== verification/LoomAction.thy ===== *)
theory LoomAction
  imports LoomPolicy LoomRecall
begin

text \<open>
  Actions on the outside world (\<open>crates/loom-action/src/\<close>): proposals, the kill switch, and the gateway,
  which decides a proposal once and keeps its record.  A connector is outside the repository: its
  \<open>execute\<close> is a parameter, a function of the state \<open>'w\<close> of the world.  The reasons of a refusal are
  kept as data; each constructor is one of the texts the gateway formats.
\<close>

section \<open>Records (\<open>record.rs\<close>, \<open>connector.rs\<close>)\<close>

definition blake3_hex :: "crypto \<Rightarrow> bytes \<Rightarrow> bytes" where
  "blake3_hex C bs = take 16 (to_hex (cr_hash C bs))"

definition action_id_of :: "crypto \<Rightarrow> bytes \<Rightarrow> bytes" where
  "action_id_of C idempotency_key = ''act_'' @ blake3_hex C idempotency_key"

datatype refusal =
  ActionsDisabled
| NotEligible "ineligibility option"
| NoEvidence
| PolicyRefused rationale trust_class bytes
| NoConnector bytes
| SimulationOnly bytes

datatype action_status = Refused refusal | Succeeded bytes | Failed bytes | Indeterminate bytes

definition is_success :: "action_status \<Rightarrow> bool" where
  "is_success s \<longleftrightarrow> (case s of Succeeded _ \<Rightarrow> True | _ \<Rightarrow> False)"

record action_record =
  ar_id :: bytes
  ar_action_type :: bytes
  ar_target :: bytes
  ar_actor :: bytes
  ar_branch :: bytes
  ar_policy_version :: bytes
  ar_justified_by :: "key list"
  ar_compensating :: "bytes option"
  ar_status :: action_status

definition receipt :: "action_record \<Rightarrow> bytes option" where
  "receipt r = (case ar_status r of Succeeded x \<Rightarrow> Some x | _ \<Rightarrow> None)"

definition to_executed :: "action_record \<Rightarrow> executed_action option" where
  "to_executed r =
     (if \<not> is_success (ar_status r) then None
      else Some \<lparr>ea_action_id = ar_id r, ea_action_type = ar_action_type r, ea_target = ar_target r, ea_actor = ar_actor r,
                 ea_justified_by = ar_justified_by r, ea_receipt = receipt r, ea_compensating = ar_compensating r\<rparr>)"

datatype connector_outcome = Happened bytes | HappenedWithoutReceipt | DidNotHappen bytes | Unknown bytes

record 'w connector =
  cn_action_type :: bytes
  cn_simulated :: bool
  cn_compensating :: "bytes option"
  cn_execute :: "bytes \<Rightarrow> bytes \<Rightarrow> 'w \<Rightarrow> 'w \<times> connector_outcome"

section \<open>Proposals (\<open>gateway.rs\<close>)\<close>

record proposal =
  pp_action_type :: bytes
  pp_target :: bytes
  pp_idempotency_key :: bytes
  pp_actor :: bytes
  pp_branch :: bytes
  pp_simulation :: bool
  pp_evidence :: "claim list"
  pp_evidence_keys :: "key list"
  pp_evidence_label :: trust_class

record agent_store =
  as_actor :: bytes
  as_branch :: bytes
  as_simulation :: bool

definition agent_new :: "bytes \<Rightarrow> bytes \<Rightarrow> bool \<Rightarrow> agent_store" where
  "agent_new actor branch simulation = \<lparr>as_actor = actor, as_branch = branch, as_simulation = simulation\<rparr>"

definition propose :: "agent_store \<Rightarrow> bytes \<Rightarrow> bytes \<Rightarrow> bytes \<Rightarrow> claim list \<Rightarrow> key list \<Rightarrow> trust_class \<Rightarrow> proposal" where
  "propose a action_type target idempotency_key evidence evidence_keys evidence_label =
     \<lparr>pp_action_type = action_type, pp_target = target, pp_idempotency_key = idempotency_key, pp_actor = as_actor a,
      pp_branch = as_branch a, pp_simulation = as_simulation a, pp_evidence = evidence, pp_evidence_keys = evidence_keys,
      pp_evidence_label = evidence_label\<rparr>"

section \<open>The kill switch\<close>

record kill_switch =
  ks_global :: bool
  ks_disabled_tenants :: "bytes list"

definition kill_new :: kill_switch where
  "kill_new = \<lparr>ks_global = False, ks_disabled_tenants = []\<rparr>"

definition disable_all :: "kill_switch \<Rightarrow> kill_switch" where "disable_all k = k\<lparr>ks_global := True\<rparr>"
definition enable_all :: "kill_switch \<Rightarrow> kill_switch" where "enable_all k = k\<lparr>ks_global := False\<rparr>"

definition disable_tenant :: "bytes \<Rightarrow> kill_switch \<Rightarrow> kill_switch" where
  "disable_tenant tenant k = k\<lparr>ks_disabled_tenants := insert_node tenant (ks_disabled_tenants k)\<rparr>"

definition is_disabled :: "kill_switch \<Rightarrow> bytes \<Rightarrow> bool" where
  "is_disabled k tenant \<longleftrightarrow> ks_global k \<or> tenant \<in> set (ks_disabled_tenants k)"

section \<open>The gateway\<close>

record 'w gateway =
  gw_tenant :: bytes
  gw_connectors :: "(bytes \<times> 'w connector) list"
  gw_policy :: engine
  gw_kill :: kill_switch
  gw_done :: "(bytes \<times> action_record) list"

definition gateway_new :: "bytes \<Rightarrow> engine \<Rightarrow> 'w gateway" where
  "gateway_new tenant policy =
     \<lparr>gw_tenant = tenant, gw_connectors = [], gw_policy = policy, gw_kill = kill_new, gw_done = []\<rparr>"

definition with_connector :: "'w connector \<Rightarrow> 'w gateway \<Rightarrow> 'w gateway" where
  "with_connector c g = g\<lparr>gw_connectors := put (cn_action_type c) c (gw_connectors g)\<rparr>"

definition records :: "'w gateway \<Rightarrow> action_record list" where
  "records g = map snd (gw_done g)"

definition record_for :: "bytes \<Rightarrow> proposal \<Rightarrow> bytes \<Rightarrow> bytes option \<Rightarrow> action_status \<Rightarrow> action_record" where
  "record_for aid p version compensating status =
     \<lparr>ar_id = aid, ar_action_type = pp_action_type p, ar_target = pp_target p, ar_actor = pp_actor p, ar_branch = pp_branch p,
      ar_policy_version = version, ar_justified_by = pp_evidence_keys p, ar_compensating = compensating, ar_status = status\<rparr>"

definition refuse :: "bytes \<Rightarrow> proposal \<Rightarrow> refusal \<Rightarrow> action_record" where
  "refuse aid p reason = record_for aid p [] None (Refused reason)"

text \<open>The first claim of the evidence that may not justify an action, or the lack of any.\<close>

definition evidence_refusal :: "claim list \<Rightarrow> refusal option" where
  "evidence_refusal cs =
     (case find (\<lambda>c. \<not> is_action_eligible c) cs of
        Some c \<Rightarrow> Some (NotEligible (ineligibility_reason c))
      | None \<Rightarrow> if cs = [] then Some NoEvidence else None)"

definition status_of :: "connector_outcome \<Rightarrow> action_status" where
  "status_of out =
     (case out of
        Happened r \<Rightarrow> Succeeded r
      | HappenedWithoutReceipt \<Rightarrow> Indeterminate (''the connector reported success but returned no receipt, so the action is not ''
           @ ''confirmed. Treat as unknown until a receipt is obtained.'')
      | DidNotHappen r \<Rightarrow> Failed r
      | Unknown d \<Rightarrow> Indeterminate d)"

definition run_connector :: "bytes \<Rightarrow> proposal \<Rightarrow> bytes \<Rightarrow> 'w connector \<Rightarrow> 'w \<Rightarrow> 'w \<times> action_record" where
  "run_connector aid p version c w =
     (case cn_execute c (pp_target p) (pp_idempotency_key p) w of
        (w', out) \<Rightarrow> (w', record_for aid p version (cn_compensating c) (status_of out)))"

definition decide_and_run :: "'w gateway \<Rightarrow> bytes \<Rightarrow> proposal \<Rightarrow> 'w \<Rightarrow> 'w \<times> action_record" where
  "decide_and_run g aid p w =
     (if is_disabled (gw_kill g) (gw_tenant g) then (w, refuse aid p ActionsDisabled)
      else case evidence_refusal (pp_evidence p) of
        Some why \<Rightarrow> (w, refuse aid p why)
      | None \<Rightarrow>
          let d = may_authorize_action (gw_policy g) (pp_actor p) (pp_action_type p) (pp_evidence_label p)
          in if \<not> is_allowed (pd_decision d)
             then (w, record_for aid p (pd_version d) None
                        (Refused (PolicyRefused (pd_rationale d) (pp_evidence_label p) (pp_action_type p))))
             else case map_of (gw_connectors g) (pp_action_type p) of
               None \<Rightarrow> (w, refuse aid p (NoConnector (pp_action_type p)))
             | Some c \<Rightarrow>
                 if pp_simulation p \<and> \<not> cn_simulated c then (w, refuse aid p (SimulationOnly (pp_action_type p)))
                 else run_connector aid p (pd_version d) c w)"

definition gateway_execute :: "crypto \<Rightarrow> proposal \<Rightarrow> 'w gateway \<times> 'w \<Rightarrow> ('w gateway \<times> 'w) \<times> action_record" where
  "gateway_execute C p s =
     (case s of (g, w) \<Rightarrow>
        let aid = action_id_of C (pp_idempotency_key p)
        in case map_of (gw_done g) aid of
             Some r \<Rightarrow> ((g, w), r)
           | None \<Rightarrow> (case decide_and_run g aid p w of
                 (w', r) \<Rightarrow> ((g\<lparr>gw_done := put aid r (gw_done g)\<rparr>, w'), r)))"

end
