(* ===== verification/LoomActionProps.thy ===== *)
theory LoomActionProps
  imports LoomAction LoomTaintDemo
begin

text \<open>
  The properties of the policy engine (\<open>crates/loom-policy\<close>) and of the action gateway
  (\<open>crates/loom-action\<close>): what the index decides, when the world is touched, how often, and what of it a
  later taint reports.
\<close>

section \<open>The policy\<close>

text \<open>C15: the indexed engine is the deny-overrides policy of its rules: a request is allowed exactly when
  some rule allows it and none denies it, whatever the order of the rules; no rule and no permitting
  rule mean no; the decision names the version, the request as asked, and an applicable denying
  rule when there is one.\<close>

theorem engine_decides_deny_overrides:
  "(is_allowed (pd_decision (decide_policy (engine_new ps) q)) \<longleftrightarrow>
      (\<exists>r\<in>set (ps_rules ps). applies_to r q \<and> pr_effect r = Allow) \<and> \<not> (\<exists>r\<in>set (ps_rules ps). applies_to r q \<and> pr_effect r = Deny))
   \<and> pd_version (decide_policy (engine_new ps) q) = ps_version ps \<and> pd_request (decide_policy (engine_new ps) q) = q
   \<and> ((\<exists>r\<in>set (ps_rules ps). applies_to r q \<and> pr_effect r = Deny) \<longleftrightarrow>
      (\<exists>r\<in>set (ps_rules ps). applies_to r q \<and> pr_effect r = Deny \<and> pd_rationale (decide_policy (engine_new ps) q) = DeniedBy r))"
proof -
  have "\<exists>r\<in>set (ps_rules ps). applies_to r q \<and> pr_effect r = Deny \<and> pd_rationale (decide_policy (engine_new ps) q) = DeniedBy r"
    if r: "r \<in> set (ps_rules ps)" "applies_to r q" "pr_effect r = Deny" for r
  proof -
    have "r \<in> set (applicable (engine_new ps) q)" using r(1,2) by (simp add: set_applicable)
    then have "find (\<lambda>r. pr_effect r = Deny) (applicable (engine_new ps) q) \<noteq> None"
      unfolding find_None_iff using r(3) by blast
    then obtain d where d: "find (\<lambda>r. pr_effect r = Deny) (applicable (engine_new ps) q) = Some d" by blast
    have "d \<in> set (ps_rules ps)" "applies_to d q" "pr_effect d = Deny" using find_set [OF d] by (simp_all add: set_applicable)
    moreover have "pd_rationale (decide_policy (engine_new ps) q) = DeniedBy d" by (simp add: decide_policy_def decision_of_def d)
    ultimately show ?thesis by blast
  qed
  then have d: "(\<exists>r\<in>set (ps_rules ps). applies_to r q \<and> pr_effect r = Deny) \<longleftrightarrow>
      (\<exists>r\<in>set (ps_rules ps). applies_to r q \<and> pr_effect r = Deny \<and> pd_rationale (decide_policy (engine_new ps) q) = DeniedBy r)"
    by blast
  show ?thesis using decide_policy_allows [of ps q] d by (simp add: policy_allows_def)
qed

section \<open>Every check, every time\<close>

definition cleared :: "policy_set \<Rightarrow> 'w gateway \<Rightarrow> proposal \<Rightarrow> 'w connector \<Rightarrow> bool" where
  "cleared ps g p c \<longleftrightarrow> \<not> is_disabled (gw_kill g) (gw_tenant g) \<and> pp_evidence p \<noteq> [] \<and> (\<forall>x\<in>set (pp_evidence p). is_action_eligible x)
     \<and> policy_allows (set (ps_rules ps)) \<lparr>rq_actor = pp_actor p, rq_label = pp_evidence_label p, rq_purpose = PURPOSE_AUTHORIZE,
          rq_action = pp_action_type p\<rparr>
     \<and> map_of (gw_connectors g) (pp_action_type p) = Some c \<and> (pp_simulation p \<longrightarrow> cn_simulated c)"

definition refused :: "action_record \<Rightarrow> bool" where
  "refused r \<longleftrightarrow> (\<exists>why. ar_status r = Refused why)"

lemma evidence_refusal_None: "evidence_refusal cs = None \<longleftrightarrow> cs \<noteq> [] \<and> (\<forall>c\<in>set cs. is_action_eligible c)"
  by (auto simp: evidence_refusal_def find_None_iff split: option.splits dest!: find_set)

lemma cleared_iff:
  "cleared ps g p c \<longleftrightarrow> \<not> is_disabled (gw_kill g) (gw_tenant g) \<and> evidence_refusal (pp_evidence p) = None
     \<and> policy_allows (set (ps_rules ps)) \<lparr>rq_actor = pp_actor p, rq_label = pp_evidence_label p, rq_purpose = PURPOSE_AUTHORIZE,
          rq_action = pp_action_type p\<rparr>
     \<and> map_of (gw_connectors g) (pp_action_type p) = Some c \<and> (pp_simulation p \<longrightarrow> cn_simulated c)"
  by (auto simp: cleared_def evidence_refusal_None)

lemma decide_and_run_cases:
  assumes "gw_policy g = engine_new ps" and "decide_and_run g aid p w = (w', r)"
  shows "(\<exists>c. cleared ps g p c \<and> run_connector aid p (ps_version ps) c w = (w', r))
    \<or> ((\<nexists>c. cleared ps g p c) \<and> w' = w \<and> refused r)"
  using assms decide_policy_allows [of ps]
  by (auto simp: decide_and_run_def cleared_iff Let_def refuse_def record_for_def refused_def
      may_authorize_action_def permitted_def split: if_splits option.splits)

lemma decide_and_run_record:
  assumes "decide_and_run g aid p w = (w', r)"
  shows "ar_id r = aid" "ar_target r = pp_target p" "ar_action_type r = pp_action_type p" "ar_justified_by r = pp_evidence_keys p"
  using assms
  by (auto simp: decide_and_run_def Let_def refuse_def record_for_def run_connector_def split: if_splits option.splits prod.splits)

lemma run_connector_status:
  "run_connector aid p v c w = (w', r) \<Longrightarrow> \<exists>out. cn_execute c (pp_target p) (pp_idempotency_key p) w = (w', out) \<and> ar_status r = status_of out"
  by (auto simp: run_connector_def record_for_def split: prod.splits)

lemma success_iff: "is_success (status_of out) \<longleftrightarrow> (\<exists>x. out = Happened x)"
  by (cases out) (simp_all add: status_of_def is_success_def)

lemma run_connector_not_refused: "run_connector aid p v c w = (w', r) \<Longrightarrow> \<not> refused r"
  by (auto simp: run_connector_def record_for_def refused_def status_of_def split: prod.splits connector_outcome.splits)

text \<open>C13: no effect without every check: executing a proposal whose key was decided before returns that
  record and touches nothing; otherwise the connector registered for the action is called once, with the
  proposal's target and key, exactly when the kill switch is off, the evidence is nonempty and every
  claim of it may justify an action, the policy's rules allow the actor the action on the
  evidence's label, and a simulation has a simulated connector; in every other case the world is as
  it was and the record is a refusal.  Only a receipt is a success.\<close>

theorem no_effect_without_every_check:
  assumes "gw_policy g = engine_new ps" and "gateway_execute C p (g, w) = ((g', w'), r)"
  shows "(case map_of (gw_done g) (action_id_of C (pp_idempotency_key p)) of
      Some r0 \<Rightarrow> g' = g \<and> w' = w \<and> r = r0
    | None \<Rightarrow> g' = g\<lparr>gw_done := put (action_id_of C (pp_idempotency_key p)) r (gw_done g)\<rparr>
        \<and> ((\<exists>c out. cleared ps g p c \<and> cn_execute c (pp_target p) (pp_idempotency_key p) w = (w', out) \<and> ar_status r = status_of out
               \<and> (is_success (ar_status r) \<longleftrightarrow> (\<exists>x. out = Happened x)))
           \<or> ((\<nexists>c. cleared ps g p c) \<and> w' = w \<and> refused r)))"
proof (cases "map_of (gw_done g) (action_id_of C (pp_idempotency_key p))")
  case None
  then have d: "decide_and_run g (action_id_of C (pp_idempotency_key p)) p w = (w', r)"
    and g': "g' = g\<lparr>gw_done := put (action_id_of C (pp_idempotency_key p)) r (gw_done g)\<rparr>"
    using assms(2) by (auto simp: gateway_execute_def Let_def split: prod.splits)
  from decide_and_run_cases [OF assms(1) d]
  have "(\<exists>c out. cleared ps g p c \<and> cn_execute c (pp_target p) (pp_idempotency_key p) w = (w', out) \<and> ar_status r = status_of out
       \<and> (is_success (ar_status r) \<longleftrightarrow> (\<exists>x. out = Happened x)))
     \<or> ((\<nexists>c. cleared ps g p c) \<and> w' = w \<and> refused r)"
    using run_connector_status success_iff by metis
  then show ?thesis using None g' by simp
qed (use assms(2) in \<open>simp add: gateway_execute_def Let_def\<close>)

text \<open>A gateway with one connector; the world is the number of mails sent.\<close>

definition mail_connector :: "nat connector" where
  "mail_connector = \<lparr>cn_action_type = ''mail.send'', cn_simulated = False, cn_compensating = None,
     cn_execute = (\<lambda>_ _ n. (Suc n, Happened ''r1''))\<rparr>"

definition mail_rules :: policy_set where
  "mail_rules = policy_new ''v1''
     [\<lparr>pr_actor = Anything, pr_label = Anything, pr_purpose = Anything, pr_action = Is ''mail.send'', pr_effect = Allow\<rparr>,
      \<lparr>pr_actor = Anything, pr_label = Is Untrusted, pr_purpose = Anything, pr_action = Anything, pr_effect = Deny\<rparr>]"

definition mail_gateway :: "nat gateway" where
  "mail_gateway = with_connector mail_connector (gateway_new ''acme'' (engine_new mail_rules))"

definition mail_proposal :: "trust_class \<Rightarrow> proposal" where
  "mail_proposal label = propose (agent_new ''alice'' ''main'' False) ''mail.send'' ''bob'' ''k1'' [demo_claim] [''k''] label"

lemma mail_gateway_sel [simp]:
  "gw_policy mail_gateway = engine_new mail_rules" "gw_done mail_gateway = []" "gw_kill mail_gateway = kill_new"
  "gw_connectors mail_gateway = [(''mail.send'', mail_connector)]"
  by (simp_all add: mail_gateway_def with_connector_def gateway_new_def mail_connector_def)

lemma mail_proposal_sel [simp]:
  "pp_idempotency_key (mail_proposal b) = ''k1''" "pp_action_type (mail_proposal b) = ''mail.send''" "pp_target (mail_proposal b) = ''bob''"
  "pp_simulation (mail_proposal b) = False" "pp_evidence (mail_proposal b) = [demo_claim]" "pp_evidence_label (mail_proposal b) = b"
  by (simp_all add: mail_proposal_def propose_def agent_new_def)

lemma mail_policy: "policy_allows (set (ps_rules mail_rules)) \<lparr>rq_actor = a, rq_label = b, rq_purpose = u, rq_action = ''mail.send''\<rparr> \<longleftrightarrow> b \<noteq> Untrusted"
  by (auto simp: mail_rules_def policy_new_def policy_allows_def applies_to_def)

lemma mail_cleared: "cleared mail_rules mail_gateway (mail_proposal b) c \<longleftrightarrow> c = mail_connector \<and> b \<noteq> Untrusted"
  by (auto simp: cleared_def mail_policy is_disabled_def kill_new_def is_action_eligible_def demo_claim_def)

lemma mail_run:
  obtains g where "gateway_execute demo_crypto (mail_proposal ThirdParty) (mail_gateway, 0)
     = ((g, 1), record_for (action_id_of demo_crypto ''k1'') (mail_proposal ThirdParty) ''v1'' None (Succeeded ''r1''))"
    "records g = [record_for (action_id_of demo_crypto ''k1'') (mail_proposal ThirdParty) ''v1'' None (Succeeded ''r1'')]"
proof -
  have "is_allowed (pd_decision (may_authorize_action (engine_new mail_rules) (pp_actor (mail_proposal ThirdParty)) ''mail.send'' ThirdParty))"
    unfolding may_authorize_action_def decide_policy_allows mail_policy by simp
  moreover have "evidence_refusal [demo_claim] = None" by (simp add: evidence_refusal_None is_action_eligible_def demo_claim_def)
  ultimately have "decide_and_run mail_gateway (action_id_of demo_crypto ''k1'') (mail_proposal ThirdParty) 0
     = (1, record_for (action_id_of demo_crypto ''k1'') (mail_proposal ThirdParty) ''v1'' None (Succeeded ''r1''))"
    by (simp add: decide_and_run_def is_disabled_def kill_new_def run_connector_def mail_connector_def Let_def may_authorize_action_def
        mail_rules_def policy_new_def status_of_def)
  then show thesis
    by (intro that [of "mail_gateway\<lparr>gw_done := [(action_id_of demo_crypto ''k1'',
          record_for (action_id_of demo_crypto ''k1'') (mail_proposal ThirdParty) ''v1'' None (Succeeded ''r1''))]\<rparr>"])
      (simp_all add: gateway_execute_def Let_def records_def)
qed

theorem no_effect_without_every_check_witness:
  "(\<exists>g r. gateway_execute demo_crypto (mail_proposal ThirdParty) (mail_gateway, 0) = ((g, 1), r) \<and> is_success (ar_status r))
   \<and> (\<exists>g r. gateway_execute demo_crypto (mail_proposal Untrusted) (mail_gateway, 0) = ((g, 0), r) \<and> refused r)"
proof -
  have "\<exists>g w r. gateway_execute demo_crypto (mail_proposal b) (mail_gateway, 0) = ((g, w), r)
     \<and> (if b = Untrusted then w = 0 \<and> refused r else w = 1 \<and> is_success (ar_status r))" for b
  proof -
    obtain g w r where e: "gateway_execute demo_crypto (mail_proposal b) (mail_gateway, 0) = ((g, w), r)" by (metis prod.exhaust)
    from no_effect_without_every_check [OF mail_gateway_sel(1) e]
    have "if b = Untrusted then w = 0 \<and> refused r else w = 1 \<and> is_success (ar_status r)"
      by (auto simp: mail_cleared) (simp_all add: mail_connector_def)
    then show ?thesis using e by blast
  qed
  from this [of ThirdParty] this [of Untrusted] show ?thesis by auto
qed

section \<open>At most once\<close>

type_synonym call = "bytes \<times> bytes \<times> bytes"

text \<open>The connector with its calls written down: action type, target and idempotency key.\<close>

definition logged :: "'w connector \<Rightarrow> ('w \<times> call list) connector" where
  "logged c = \<lparr>cn_action_type = cn_action_type c, cn_simulated = cn_simulated c, cn_compensating = cn_compensating c,
     cn_execute = (\<lambda>t k (w, calls). case cn_execute c t k w of (w', out) \<Rightarrow> ((w', calls @ [(cn_action_type c, t, k)]), out))\<rparr>"

definition all_logged :: "('w \<times> call list) gateway \<Rightarrow> bool" where
  "all_logged g \<longleftrightarrow> (\<forall>a c. map_of (gw_connectors g) a = Some c \<longrightarrow> (\<exists>d. c = logged d \<and> cn_action_type d = a))"

text \<open>What callers and operators may do with a gateway, in any order.\<close>

inductive gateway_step :: "crypto \<Rightarrow> 'w gateway \<times> 'w \<Rightarrow> 'w gateway \<times> 'w \<Rightarrow> bool" for C where
  execute: "gateway_execute C p s = (s', r) \<Longrightarrow> gateway_step C s s'"
| disable_all: "gateway_step C (g, w) (g\<lparr>gw_kill := disable_all (gw_kill g)\<rparr>, w)"
| enable_all: "gateway_step C (g, w) (g\<lparr>gw_kill := enable_all (gw_kill g)\<rparr>, w)"
| disable_tenant: "gateway_step C (g, w) (g\<lparr>gw_kill := disable_tenant tenant (gw_kill g)\<rparr>, w)"

definition call_id :: "crypto \<Rightarrow> call \<Rightarrow> bytes" where
  "call_id C x = action_id_of C (snd (snd x))"

lemma call_id_simp [simp]: "call_id C (a, t, k) = action_id_of C k"
  by (simp add: call_id_def)

definition calls_match :: "crypto \<Rightarrow> (bytes \<times> action_record) list \<Rightarrow> call list \<Rightarrow> bool" where
  "calls_match C ds calls \<longleftrightarrow> distinct (map (call_id C) calls)
     \<and> (\<forall>x\<in>set calls. \<exists>r. map_of ds (call_id C x) = Some r \<and> \<not> refused r \<and> ar_action_type r = fst x \<and> ar_target r = fst (snd x))
     \<and> (\<forall>aid r. map_of ds aid = Some r \<longrightarrow> \<not> refused r \<longrightarrow> aid \<in> call_id C ` set calls)"

definition once_inv :: "crypto \<Rightarrow> ('w \<times> call list) gateway \<times> ('w \<times> call list) \<Rightarrow> bool" where
  "once_inv C s \<longleftrightarrow> skeys (gw_done (fst s)) \<and> all_logged (fst s) \<and> calls_match C (gw_done (fst s)) (snd (snd s))"

lemma decide_and_run_either:
  assumes "decide_and_run g aid p w = (w', r)"
  shows "(w' = w \<and> refused r) \<or> (\<exists>c v. map_of (gw_connectors g) (pp_action_type p) = Some c \<and> run_connector aid p v c w = (w', r))"
  using assms by (auto simp: decide_and_run_def Let_def refuse_def record_for_def refused_def split: if_splits option.splits)

lemma calls_match_put:
  assumes m: "calls_match C d calls" and sk: "skeys d" and new: "map_of d (action_id_of C k) = None"
    and r: "(refused r \<and> calls' = calls) \<or> (\<not> refused r \<and> calls' = calls @ [(ar_action_type r, ar_target r, k)])"
  shows "calls_match C (put (action_id_of C k) r d) calls'"
proof -
  have old: "call_id C x \<noteq> action_id_of C k" if "x \<in> set calls" for x
    using m that new unfolding calls_match_def by fastforce
  show ?thesis
    using r
  proof (elim disjE conjE)
    assume "refused r" "calls' = calls"
    then show ?thesis using m old unfolding calls_match_def map_of_put [OF sk] by auto
  next
    assume n: "\<not> refused r" "calls' = calls @ [(ar_action_type r, ar_target r, k)]"
    have "distinct (map (call_id C) calls')" using m old n(2) unfolding calls_match_def by fastforce
    then show ?thesis using m old n unfolding calls_match_def map_of_put [OF sk] by auto
  qed
qed

lemma execute_once:
  assumes "gateway_execute C p s = (s', r)" and "once_inv C s"
  shows "once_inv C s'"
proof -
  obtain g w where s: "s = (g, w)" by (cases s)
  let ?aid = "action_id_of C (pp_idempotency_key p)"
  show ?thesis
  proof (cases "map_of (gw_done g) ?aid")
    case None
    obtain w' where w': "decide_and_run g ?aid p w = (w', r)" "s' = (g\<lparr>gw_done := put ?aid r (gw_done g)\<rparr>, w')"
      using assms(1) None by (auto simp: gateway_execute_def Let_def s split: prod.splits)
    have inv: "skeys (gw_done g)" "all_logged g" "calls_match C (gw_done g) (snd w)" using assms(2) by (simp_all add: once_inv_def s)
    have "(refused r \<and> snd w' = snd w) \<or> (\<not> refused r \<and> snd w' = snd w @ [(ar_action_type r, ar_target r, pp_idempotency_key p)])"
      using decide_and_run_either [OF w'(1)]
    proof (elim disjE exE conjE)
      fix c v assume c: "map_of (gw_connectors g) (pp_action_type p) = Some c" "run_connector ?aid p v c w = (w', r)"
      obtain d where d: "c = logged d" "cn_action_type d = pp_action_type p" using inv(2) c(1) unfolding all_logged_def by blast
      have "snd w' = snd w @ [(pp_action_type p, pp_target p, pp_idempotency_key p)]"
        using c(2) by (auto simp: run_connector_def d(1) logged_def d(2) split: prod.splits)
      then show ?thesis using run_connector_not_refused [OF c(2)] decide_and_run_record [OF w'(1)] by simp
    qed simp
    from calls_match_put [OF inv(3,1) None this]
    have "calls_match C (put ?aid r (gw_done g)) (snd w')" .
    moreover have "all_logged (g\<lparr>gw_done := put ?aid r (gw_done g)\<rparr>)" using inv(2) by (simp add: all_logged_def)
    ultimately show ?thesis using skeys_put [OF inv(1)] by (simp add: once_inv_def w'(2))
  qed (use assms in \<open>auto simp: gateway_execute_def Let_def s\<close>)
qed

lemma step_once: "gateway_step C s s' \<Longrightarrow> once_inv C s \<Longrightarrow> once_inv C s'"
  by (induction rule: gateway_step.induct) (auto simp: execute_once, auto simp: once_inv_def all_logged_def)

text \<open>C14: at most one effect per key: from a gateway that has decided nothing, however callers retry and
  operators flip the kill switch, every connector call has an action id of its own; each call has its
  record, of that action on that target and not a refusal, and each record that is not a refusal has
  its one call.\<close>

theorem one_effect_per_key:
  assumes "(gateway_step C)\<^sup>*\<^sup>* (g0, (w0, [])) (g, (w, calls))" and "gw_done g0 = []" and "all_logged g0"
  shows "distinct (map (call_id C) calls)
    \<and> (\<forall>x\<in>set calls. \<exists>r. map_of (gw_done g) (call_id C x) = Some r \<and> \<not> refused r \<and> ar_action_type r = fst x \<and> ar_target r = fst (snd x))
    \<and> (\<forall>aid r. map_of (gw_done g) aid = Some r \<longrightarrow> \<not> refused r \<longrightarrow> (\<exists>x\<in>set calls. aid = call_id C x))"
proof -
  have "once_inv C (g0, (w0, []))" using assms(2,3) by (simp add: once_inv_def calls_match_def)
  with assms(1) have "once_inv C (g, (w, calls))"
    by (induction rule: rtranclp_induct) (blast intro: step_once)+
  then show ?thesis by (simp add: once_inv_def calls_match_def image_iff)
qed

definition mail_log_gateway :: "(nat \<times> call list) gateway" where
  "mail_log_gateway = with_connector (logged mail_connector) (gateway_new ''acme'' (engine_new mail_rules))"

lemma mail_log_sel [simp]:
  "gw_policy mail_log_gateway = engine_new mail_rules" "gw_done mail_log_gateway = []" "gw_kill mail_log_gateway = kill_new"
  "gw_connectors mail_log_gateway = [(''mail.send'', logged mail_connector)]"
  by (simp_all add: mail_log_gateway_def with_connector_def gateway_new_def mail_connector_def logged_def)

lemma mail_log_logged: "all_logged mail_log_gateway"
  by (auto simp: all_logged_def mail_connector_def)

theorem one_effect_per_key_witness:
  "\<exists>g calls. (gateway_step demo_crypto)\<^sup>*\<^sup>* (mail_log_gateway, (0, [])) (g, (1, calls))
     \<and> calls = [(''mail.send'', ''bob'', ''k1'')] \<and> distinct (map (call_id demo_crypto) calls)"
proof -
  let ?p = "mail_proposal ThirdParty"
  have pol: "is_allowed (pd_decision (may_authorize_action (engine_new mail_rules) (pp_actor ?p) ''mail.send'' ThirdParty))"
    unfolding may_authorize_action_def decide_policy_allows mail_policy by simp
  have "evidence_refusal [demo_claim] = None" by (simp add: evidence_refusal_None is_action_eligible_def demo_claim_def)
  then obtain r where d: "decide_and_run mail_log_gateway (action_id_of demo_crypto ''k1'') ?p (0, []) = ((1, [(''mail.send'', ''bob'', ''k1'')]), r)"
    using pol by (simp add: decide_and_run_def is_disabled_def kill_new_def run_connector_def logged_def mail_connector_def Let_def)
  define g where "g = mail_log_gateway\<lparr>gw_done := put (action_id_of demo_crypto ''k1'') r (gw_done mail_log_gateway)\<rparr>"
  have e1: "gateway_execute demo_crypto ?p (mail_log_gateway, (0, [])) = ((g, (1, [(''mail.send'', ''bob'', ''k1'')])), r)"
    using d by (simp add: gateway_execute_def Let_def g_def)
  have e2: "gateway_execute demo_crypto ?p (g, (1, [(''mail.send'', ''bob'', ''k1'')])) = ((g, (1, [(''mail.send'', ''bob'', ''k1'')])), r)"
    by (simp add: gateway_execute_def Let_def g_def)
  have steps: "(gateway_step demo_crypto)\<^sup>*\<^sup>* (mail_log_gateway, (0, [])) (g, (1, [(''mail.send'', ''bob'', ''k1'')]))"
    by (meson gateway_step.execute e1 e2 rtranclp.rtrancl_into_rtrancl rtranclp.rtrancl_refl)
  from one_effect_per_key [OF steps _ mail_log_logged] show ?thesis using steps by auto
qed

text \<open>A refusal is final: once the kill switch has refused a key, switching actions on again does not help.\<close>

lemma refusal_is_final:
  assumes "gateway_execute C p (g\<lparr>gw_kill := disable_all (gw_kill g)\<rparr>, w) = ((g1, w1), r1)" and "map_of (gw_done g) (action_id_of C (pp_idempotency_key p)) = None"
    and "skeys (gw_done g)"
  shows "refused r1 \<and> w1 = w \<and> gateway_execute C p (g1\<lparr>gw_kill := k\<rparr>, w) = ((g1\<lparr>gw_kill := k\<rparr>, w), r1)"
  using assms
  by (auto simp: gateway_execute_def Let_def decide_and_run_def is_disabled_def disable_all_def refuse_def record_for_def refused_def
      map_of_put split: option.splits)

section \<open>What a later taint says of them\<close>

text \<open>Nothing that provably happened is left out of a recall: for the records of a gateway, the
  irreversible section of the plan has an item for a record exactly when the record carries a receipt
  and one of the keys it was justified by is contaminated on some branch, with the action's id,
  target and receipt; refused, failed and indeterminate actions never appear.\<close>

theorem recall_names_every_receipt:
  assumes "taint_with_actions E dbg l s (List.map_filter to_executed (records g)) = Inr (plan, stats)"
  shows "\<exists>keys. contaminated_anywhere E l s = Inr keys
    \<and> (\<forall>i. i \<in> set (rp_irreversible plan) \<longleftrightarrow>
         (\<exists>r\<in>set (records g). \<exists>x. ar_status r = Succeeded x \<and> set (ar_justified_by r) \<inter> set keys \<noteq> {}
            \<and> i = irreversible_of \<lparr>ea_action_id = ar_id r, ea_action_type = ar_action_type r, ea_target = ar_target r, ea_actor = ar_actor r,
                    ea_justified_by = ar_justified_by r, ea_receipt = Some x, ea_compensating = ar_compensating r\<rparr>))"
proof -
  obtain keys plan0 where k: "contaminated_anywhere E l s = Inr keys"
    "mset (rp_irreversible plan) = mset (map irreversible_of
        (filter (\<lambda>a. set (ea_justified_by a) \<inter> set keys \<noteq> {}) (List.map_filter to_executed (records g))))"
    using recall_actions [OF assms] by blast
  have e: "to_executed r = Some a \<longleftrightarrow> (\<exists>x. ar_status r = Succeeded x
      \<and> a = \<lparr>ea_action_id = ar_id r, ea_action_type = ar_action_type r, ea_target = ar_target r, ea_actor = ar_actor r,
             ea_justified_by = ar_justified_by r, ea_receipt = Some x, ea_compensating = ar_compensating r\<rparr>)" for r a
    by (auto simp: to_executed_def is_success_def receipt_def split: action_status.splits)
  have "i \<in> set (rp_irreversible plan) \<longleftrightarrow> (\<exists>r\<in>set (records g). \<exists>a. to_executed r = Some a \<and> set (ea_justified_by a) \<inter> set keys \<noteq> {} \<and> i = irreversible_of a)" for i
    using arg_cong [OF k(2), of set_mset] by auto
  then show ?thesis unfolding e by (intro exI [of _ keys] conjI k(1) allI) fastforce
qed

theorem recall_names_every_receipt_witness:
  "\<exists>g r plan stats. gateway_execute demo_crypto (mail_proposal ThirdParty) (mail_gateway, 0) = ((g, 1), r)
     \<and> taint_with_actions demo_tenv (\<lambda>x. x) demo_tainted demo_page (List.map_filter to_executed (records g)) = Inr (plan, stats)
     \<and> map ir_receipt (rp_irreversible plan) \<noteq> []"
proof -
  obtain g where g: "gateway_execute demo_crypto (mail_proposal ThirdParty) (mail_gateway, 0)
       = ((g, 1), record_for (action_id_of demo_crypto ''k1'') (mail_proposal ThirdParty) ''v1'' None (Succeeded ''r1''))"
    "records g = [record_for (action_id_of demo_crypto ''k1'') (mail_proposal ThirdParty) ''v1'' None (Succeeded ''r1'')]" by (rule mail_run)
  obtain plan stats where p: "taint_with_actions demo_tenv (\<lambda>x. x) demo_tainted demo_page (List.map_filter to_executed (records g)) = Inr (plan, stats)"
    using demo_recall by blast
  have "pp_evidence_keys (mail_proposal ThirdParty) = [''k'']" by (simp add: mail_proposal_def propose_def)
  then have "rp_irreversible plan \<noteq> []"
    using recall_names_every_receipt [OF p] demo_anywhere by (fastforce simp: g(2) record_for_def)
  then show ?thesis using g(1) p by auto
qed

end
