(* ===== verification/LoomMemoryProps.thy ===== *)
theory LoomMemoryProps
  imports LoomMemoryDemo
begin

text \<open>
  The properties of retrieval and forgetting (\<open>crates/loom-memory\<close>): what the packer puts in the
  window, what may enter it, that restricted information stays out however it was derived, and what
  forgetting a source withdraws.
\<close>

text \<open>What the standard sort still promises when the comparison is not an order.\<close>

definition permutes :: "('a list \<Rightarrow> 'a list option) \<Rightarrow> bool" where
  "permutes srt \<longleftrightarrow> (\<forall>xs ys. srt xs = Some ys \<longrightarrow> mset ys = mset xs)"

definition scores_ordered :: "scored_candidate list \<Rightarrow> bool" where
  "scores_ordered cs \<longleftrightarrow> (\<forall>c\<in>set cs. \<not> f32_nan (sc_score c))"

lemma sorted_subseq: "subseq xs ys \<Longrightarrow> sorted ys \<Longrightarrow> sorted xs" for xs :: "'a::linorder list"
  by (induction rule: list_emb.induct) (auto dest: list_emb_set)

lemma best_first_mset: "permutes srt \<Longrightarrow> best_first srt cs = Inr ds \<Longrightarrow> mset ds = mset cs"
  by (auto simp: best_first_def permutes_def split: if_splits option.splits)

lemma best_first_ordered:
  "scores_ordered cs \<Longrightarrow> best_first srt cs = Inr (sort_key (\<lambda>c. (- f32_key (sc_score c), ix_key (sc_entry c))) cs)"
  by (auto simp: best_first_def scores_ordered_def list_ex_iff)

lemma pack_result:
  assumes "permutes srt" and "pack srt cs limit = Inr ctx"
  obtains ds ps rest where "best_first srt cs = Inr ds" "mset ds = mset cs" "subseq ps ds" "pc_items ctx = map packed_of ps"
    "mset cs = mset ps + mset rest" "pc_dropped ctx = length rest" "pc_considered ctx = length cs" "pc_budget ctx = limit"
    "unat (pc_used_tokens ctx) = (\<Sum>c\<leftarrow>ps. cost c)" "unat (pc_used_tokens ctx) \<le> unat limit"
    "\<forall>c\<in>set rest. unat limit < unat (pc_used_tokens ctx) + cost c"
proof -
  obtain ds b items dropped where d: "best_first srt cs = Inr ds" "fold_r pack_step ds (budget_new limit, [], 0) = Inr (b, items, dropped)"
    "ctx = \<lparr>pc_items = items, pc_budget = limit, pc_used_tokens = bg_spent b, pc_considered = length cs, pc_dropped = dropped\<rparr>"
    using assms(2) by (auto simp: pack_def bind_r_Inr_iff)
  have m: "mset ds = mset cs" by (rule best_first_mset [OF assms(1) d(1)])
  from pack_loop_result [OF d(2)] obtain ps rest where "items = [] @ map packed_of ps" "mset ds = mset ps + mset rest" "subseq ps ds" "dropped = 0 + length rest"
    "unat (bg_spent b) = unat (bg_spent (budget_new limit)) + (\<Sum>c\<leftarrow>ps. cost c)" "unat (bg_spent b) \<le> unat (bg_total (budget_new limit))"
    "\<forall>c\<in>set rest. unat (bg_total (budget_new limit)) < unat (bg_spent b) + cost c"
    by (auto simp: budget_new_def)
  then show thesis using that [OF d(1) m, of ps rest] d(3) m by (simp add: budget_new_def)
qed

lemma pack_total: "best_first srt cs = Inr ds \<Longrightarrow> unat limit < 2 ^ 32 - 1 \<Longrightarrow> \<exists>ctx. pack srt cs limit = Inr ctx"
  using pack_loop_total [of "budget_new limit" ds "[]" 0] by (auto simp: pack_def budget_new_def)

section \<open>The window\<close>

text \<open>C25: packing is exact and greedy: the packed items are whole candidates, each at most once, best score
  first with the record key as the tie-break, and cost together exactly the tokens reported, never more
  than the budget; every candidate is packed or counted as dropped, and none that was dropped would
  still fit.  With comparable scores and a budget below the largest \<open>u32\<close> packing always
  returns.\<close>

theorem pack_fills_budget:
  assumes srt: "permutes srt"
  shows "(scores_ordered cs \<longrightarrow> unat limit < 2 ^ 32 - 1 \<longrightarrow> (\<exists>ctx. pack srt cs limit = Inr ctx))
    \<and> (\<forall>ctx. pack srt cs limit = Inr ctx \<longrightarrow>
        (\<exists>ps rest. mset cs = mset ps + mset rest \<and> pc_items ctx = map packed_of ps
          \<and> (scores_ordered cs \<longrightarrow> sorted (map (\<lambda>c. (- f32_key (sc_score c), ix_key (sc_entry c))) ps))
          \<and> unat (pc_used_tokens ctx) = (\<Sum>i\<leftarrow>pc_items ctx. unat (pk_tokens i)) \<and> unat (pc_used_tokens ctx) \<le> unat limit
          \<and> pc_considered ctx = length cs \<and> length (pc_items ctx) + pc_dropped ctx = length cs
          \<and> (\<forall>c\<in>set rest. unat limit < unat (pc_used_tokens ctx) + unat (estimate (ix_text (sc_entry c))))))"
proof (intro conjI impI allI)
  assume "scores_ordered cs" "unat limit < 2 ^ 32 - 1"
  then show "\<exists>ctx. pack srt cs limit = Inr ctx" using pack_total [OF best_first_ordered] by blast
next
  fix ctx assume r: "pack srt cs limit = Inr ctx"
  obtain ds ps rest where p: "best_first srt cs = Inr ds" "mset ds = mset cs" "subseq ps ds" "pc_items ctx = map packed_of ps"
    "mset cs = mset ps + mset rest" "pc_dropped ctx = length rest" "pc_considered ctx = length cs"
    "unat (pc_used_tokens ctx) = (\<Sum>c\<leftarrow>ps. cost c)" "unat (pc_used_tokens ctx) \<le> unat limit"
    "\<forall>c\<in>set rest. unat limit < unat (pc_used_tokens ctx) + cost c" by (rule pack_result [OF srt r]) blast
  have len: "length cs = length ps + length rest" using p(5) by (metis size_mset size_union)
  have sorted: "sorted (map (\<lambda>c. (- f32_key (sc_score c), ix_key (sc_entry c))) ps)" if "scores_ordered cs"
  proof -
    have "sorted (map (\<lambda>c. (- f32_key (sc_score c), ix_key (sc_entry c))) ds)"
      using p(1) best_first_ordered [OF that, of srt] by (metis sorted_sort_key sum.inject(2))
    moreover have "subseq (map (\<lambda>c. (- f32_key (sc_score c), ix_key (sc_entry c))) ps) (map (\<lambda>c. (- f32_key (sc_score c), ix_key (sc_entry c))) ds)"
      using p(3) by (rule subseq_map)
    ultimately show ?thesis by (rule sorted_subseq [rotated])
  qed
  show "\<exists>ps rest. mset cs = mset ps + mset rest \<and> pc_items ctx = map packed_of ps
          \<and> (scores_ordered cs \<longrightarrow> sorted (map (\<lambda>c. (- f32_key (sc_score c), ix_key (sc_entry c))) ps))
          \<and> unat (pc_used_tokens ctx) = (\<Sum>i\<leftarrow>pc_items ctx. unat (pk_tokens i)) \<and> unat (pc_used_tokens ctx) \<le> unat limit
          \<and> pc_considered ctx = length cs \<and> length (pc_items ctx) + pc_dropped ctx = length cs
          \<and> (\<forall>c\<in>set rest. unat limit < unat (pc_used_tokens ctx) + unat (estimate (ix_text (sc_entry c))))"
    using p(4-10) len sorted by (intro exI [of _ ps] exI [of _ rest]) (simp add: cost_def packed_of_def comp_def)
qed

definition demo_candidate :: "bytes \<Rightarrow> f32 \<Rightarrow> scored_candidate" where
  "demo_candidate text score = \<lparr>sc_entry = mem_entry\<lparr>ix_text := text, ix_key := text\<rparr>, sc_score = score\<rparr>"

definition demo_candidates :: "scored_candidate list" where
  "demo_candidates = [demo_candidate ''abcd'' f32_one, demo_candidate ''abcdefgh'' f32_two, demo_candidate ''ab'' f32_quarter]"

theorem pack_fills_budget_witness:
  "permutes (\<lambda>xs. Some xs) \<and> (\<exists>ctx. pack (\<lambda>xs. Some xs) demo_candidates 5 = Inr ctx \<and> unat (pc_used_tokens ctx) \<le> 5
     \<and> length (pc_items ctx) + pc_dropped ctx = 3)"
proof -
  have p: "permutes (\<lambda>xs. Some xs)" by (simp add: permutes_def)
  have o: "scores_ordered demo_candidates"
    by (simp add: scores_ordered_def demo_candidates_def demo_candidate_def f32_nan_def f32_bits_def f32_one_def f32_two_def f32_quarter_def)
  obtain ctx where c: "pack (\<lambda>xs. Some xs) demo_candidates 5 = Inr ctx" using pack_fills_budget [OF p, of demo_candidates 5] o by auto
  then have "unat (pc_used_tokens ctx) \<le> unat (5 :: u32) \<and> length (pc_items ctx) + pc_dropped ctx = length demo_candidates"
    using pack_fills_budget [OF p, of demo_candidates 5] by blast
  then show ?thesis using p c by (auto simp: demo_candidates_def)
qed

section \<open>What may enter it\<close>

lemma retrieve_items:
  assumes h: "holds E l b es" and srt: "permutes srt" and r: "retrieve_filtered E U srt l tok b q allow now = Inr ctx"
  shows "authorize (en_issuer E) tok b now = Inr ()"
    and "i \<in> set (pc_items ctx) \<Longrightarrow> \<exists>x blob e. map_of es x = Some (RValue (Blob blob)) \<and> prefix INDEX_PREFIX x
      \<and> lc_index_decode (en_codec E) blob = Some e \<and> allow e \<and> pk_key i = ix_key e \<and> pk_text i = ix_text e \<and> pk_citations i = ix_citations e
      \<and> pk_stale i = ix_stale e"
proof -
  obtain out where out: "entries_on E l tok b now = Inr out"
    "pack srt (map (\<lambda>e. \<lparr>sc_entry = e, sc_score = score_candidate U q e\<rparr>) (filter allow out)) (qy_budget q) = Inr ctx"
    using r by (auto simp: retrieve_filtered_def bind_r_Inr_iff)
  show "authorize (en_issuer E) tok b now = Inr ()" by (rule entries_on_holds(1) [OF h out(1)])
  assume i: "i \<in> set (pc_items ctx)"
  obtain ps rest where p: "pc_items ctx = map packed_of ps"
    "mset (map (\<lambda>e. \<lparr>sc_entry = e, sc_score = score_candidate U q e\<rparr>) (filter allow out)) = mset ps + mset rest"
    by (rule pack_result [OF srt out(2)]) blast
  obtain c where c: "c \<in> set ps" "i = packed_of c" using i p(1) by auto
  have "c \<in> set (map (\<lambda>e. \<lparr>sc_entry = e, sc_score = score_candidate U q e\<rparr>) (filter allow out))"
    using c(1) p(2) by (metis UnCI set_mset_mset set_mset_union)
  then obtain e where e: "e \<in> set out" "allow e" "sc_entry c = e" by auto
  then show "\<exists>x blob e. map_of es x = Some (RValue (Blob blob)) \<and> prefix INDEX_PREFIX x
      \<and> lc_index_decode (en_codec E) blob = Some e \<and> allow e \<and> pk_key i = ix_key e \<and> pk_text i = ix_text e \<and> pk_citations i = ix_citations e
      \<and> pk_stale i = ix_stale e"
    using entries_on_holds(2) [OF h out(1) e(1)] c(2) by (auto simp: packed_of_def)
qed

lemma retrieve_total:
  assumes h: "holds E l b es" and auth: "authorize (en_issuer E) tok b now = Inr ()"
    and dec: "\<forall>x blob. map_of es x = Some (RValue (Blob blob)) \<longrightarrow> prefix INDEX_PREFIX x \<longrightarrow> lc_index_decode (en_codec E) blob \<noteq> None"
    and lim: "unat (qy_budget q) < 2 ^ 32 - 1"
  shows "\<exists>ctx. retrieve_filtered E U (\<lambda>xs. Some xs) l tok b q allow now = Inr ctx"
proof -
  have "\<exists>out. fold_r (entry_of_record (en_codec E)) ws acc = Inr out" if "set ws \<subseteq> set es" for ws acc
    using that
  proof (induction ws arbitrary: acc)
    case (Cons w ws)
    have "\<exists>u. entry_of_record (en_codec E) w acc = Inr u"
    proof (cases "prefix INDEX_PREFIX (fst w)")
      case True
      show ?thesis
      proof (cases "blob_of (snd w)")
        case (Some blob)
        then have "w = (fst w, RValue (Blob blob))" by (cases w) (auto simp: blob_of_def split: record_t.splits val.splits)
        then have "map_of es (fst w) = Some (RValue (Blob blob))" using Cons.prems map_of_skeys_Some [OF holds_skeys [OF h]] by auto
        then have "lc_index_decode (en_codec E) blob \<noteq> None" using dec True by blast
        then show ?thesis using Some by (auto simp: entry_of_record_def index_decode_def split: option.splits)
      qed (simp add: entry_of_record_def)
    qed (simp add: entry_of_record_def)
    then show ?case using Cons by auto
  qed simp
  then obtain out where "entries_on E l tok b now = Inr out"
    using auth branch_entries_holds [OF h] by (fastforce simp: entries_on_def authorize_read_def)
  moreover have "\<exists>ds. best_first (\<lambda>xs. Some xs) cs = Inr ds" for cs by (simp add: best_first_def)
  ultimately show ?thesis using pack_total lim by (fastforce simp: retrieve_filtered_def)
qed

text \<open>C26: nothing enters the window that may not: a retrieval behind the policy succeeds only with a token
  for the branch, and every packed item is the text and citations of an index entry of that branch
  whose label the policy's rules allow the actor to pack for the purpose; in a well-formed index every
  item cites at least one source.\<close>

theorem retrieval_packs_only_permitted:
  assumes h: "holds E l b es" and ix: "index_ok (en_codec E) (map_of es)" and srt: "permutes srt"
    and r: "retrieve_filtered E U srt l tok b q (may_pack (engine_new ps) actor purpose) now = Inr ctx"
  shows "authorize (en_issuer E) tok b now = Inr ()
    \<and> (\<forall>i\<in>set (pc_items ctx). pk_citations i \<noteq> [] \<and> (\<exists>blob e. map_of es (index_key (pk_key i)) = Some (RValue (Blob blob))
        \<and> lc_index_decode (en_codec E) blob = Some e \<and> pk_text i = ix_text e \<and> pk_citations i = ix_citations e \<and> pk_stale i = ix_stale e
        \<and> policy_allows (set (ps_rules ps)) \<lparr>rq_actor = actor, rq_label = ix_label e, rq_purpose = purpose, rq_action = ACTION_PACK\<rparr>))"
proof (intro conjI ballI)
  show "authorize (en_issuer E) tok b now = Inr ()" by (rule retrieve_items(1) [OF h srt r])
next
  fix i assume i: "i \<in> set (pc_items ctx)"
  obtain x blob e where e: "map_of es x = Some (RValue (Blob blob))" "prefix INDEX_PREFIX x" "lc_index_decode (en_codec E) blob = Some e"
    "may_pack (engine_new ps) actor purpose e" "pk_key i = ix_key e" "pk_text i = ix_text e" "pk_citations i = ix_citations e" "pk_stale i = ix_stale e"
    using retrieve_items(2) [OF h srt r i] by blast
  have x: "x = index_key (ix_key e)" "ix_citations e \<noteq> []" using ix e(1-3) unfolding index_ok_def by blast+
  show "pk_citations i \<noteq> []" using x(2) e(7) by simp
  show "\<exists>blob e. map_of es (index_key (pk_key i)) = Some (RValue (Blob blob))
        \<and> lc_index_decode (en_codec E) blob = Some e \<and> pk_text i = ix_text e \<and> pk_citations i = ix_citations e \<and> pk_stale i = ix_stale e
        \<and> policy_allows (set (ps_rules ps)) \<lparr>rq_actor = actor, rq_label = ix_label e, rq_purpose = purpose, rq_action = ACTION_PACK\<rparr>"
    using e x by (auto simp: may_pack_def decide_policy_allows)
qed

definition open_rules :: policy_set where
  "open_rules = policy_new ''v1'' [\<lparr>pr_actor = Anything, pr_label = Anything, pr_purpose = Anything, pr_action = Anything, pr_effect = Allow\<rparr>]"

definition demo_unicode :: unicode where
  "demo_unicode = \<lparr>uc_lowercase = (\<lambda>x. x), uc_alphanumeric = (\<lambda>x. True)\<rparr>"

theorem retrieval_packs_only_permitted_witness:
  "\<exists>ctx. retrieve_filtered mem_env demo_unicode (\<lambda>xs. Some xs) (mem_loom []) demo_token ''s1'' (query_text ''note'' 50)
      (may_pack (engine_new open_rules) ''alice'' ''answer'') 5 = Inr ctx \<and> (\<forall>i\<in>set (pc_items ctx). pk_citations i \<noteq> [])"
proof -
  have dec: "lc_index_decode (en_codec mem_env) blob \<noteq> None" if "map_of mem_before x = Some (RValue (Blob blob))" "prefix INDEX_PREFIX x" for x blob
    using mem_index [OF map_of_SomeD [OF that(1)]] that(2) by (simp add: mem_codec_def)
  have auth: "authorize (en_issuer mem_env) demo_token ''s1'' 5 = Inr ()" using demo_checks by simp
  have lim: "unat (qy_budget (query_text ''note'' 50)) < 2 ^ 32 - 1" by (simp add: query_text_def)
  obtain ctx where c: "retrieve_filtered mem_env demo_unicode (\<lambda>xs. Some xs) (mem_loom []) demo_token ''s1'' (query_text ''note'' 50)
      (may_pack (engine_new open_rules) ''alice'' ''answer'') 5 = Inr ctx"
    using retrieve_total [OF mem_holds auth _ lim] dec by blast
  have "index_ok (en_codec mem_env) (map_of mem_before)" using mem_index_ok by simp
  from retrieval_packs_only_permitted [OF mem_holds this _ c] show ?thesis using c by (auto simp: permutes_def)
qed

section \<open>Labels follow the information\<close>

text \<open>C23: restricted information is not laundered by rewriting it: what a session writes, with a hint and
  something to cite, after it has read something labelled at least \<open>L\<close>, is indexed with a label at least \<open>L\<close>; so when the
  policy denies packing for every label from \<open>L\<close> up, no retrieval of the branch behind that policy packs
  it.  The index stays well formed.\<close>

theorem restricted_reads_never_packed:
  assumes P: "pager_ok (en_pager E)" and ok: "loom_ok E l" and K: "index_codec_ok (en_codec E)"
    and w: "write_all E tok b records e extra hints now l = (l', Inr c)"
    and h: "holds E l b es" "index_ok (en_codec E) (map_of es)" and caller: "\<forall>w\<in>set records. caller_key (fst w)"
    and L: "L \<le> rs_min_label (session_reads (e_session e) l)"
    and deny: "\<forall>t. L \<le> t \<longrightarrow> \<not> policy_allows (set (ps_rules ps)) \<lparr>rq_actor = actor, rq_label = t, rq_purpose = purpose, rq_action = ACTION_PACK\<rparr>"
    and srt: "permutes srt"
    and r: "retrieve_filtered E U srt l' tok' b q (may_pack (engine_new ps) actor purpose) now' = Inr ctx"
  shows "(\<forall>w\<in>set records. hints (fst w) \<noteq> None \<and> citations_of (snd w) \<noteq> [] \<longrightarrow> fst w \<notin> pk_key ` set (pc_items ctx))
    \<and> (\<exists>es'. holds E l' b es' \<and> index_ok (en_codec E) (map_of es'))"
proof -
  let ?m = "rs_min_label (session_reads (e_session e) l)"
  obtain es' where es': "holds E l' b es'"
    and wr: "\<And>x. prefix INDEX_PREFIX x \<Longrightarrow> index_written (en_codec E) hints ?m records (map_of es) (map_of es') x"
    using write_all_index [OF P ok w h(1) caller] by blast
  have ix: "index_ok (en_codec E) (map_of es')" by (rule index_written_ok [OF wr h(2) K])
  have "fst w0 \<notin> pk_key ` set (pc_items ctx)" if w0: "w0 \<in> set records" "hints (fst w0) \<noteq> None" "citations_of (snd w0) \<noteq> []" for w0
  proof
    assume "fst w0 \<in> pk_key ` set (pc_items ctx)"
    then obtain i where i: "i \<in> set (pc_items ctx)" "pk_key i = fst w0" by auto
    obtain x blob en where en: "map_of es' x = Some (RValue (Blob blob))" "prefix INDEX_PREFIX x" "lc_index_decode (en_codec E) blob = Some en"
      "may_pack (engine_new ps) actor purpose en" "pk_key i = ix_key en"
      using retrieve_items(2) [OF es' srt r i(1)] by blast
    have x: "x = index_key (fst w0)" using ix en i(2) unfolding index_ok_def by metis
    have "entry_for hints ?m w0 \<noteq> None" using w0 by (auto simp: entry_for_def index_entry_new_def)
    then obtain w1 e1 b1 where w1: "entry_for hints ?m w1 = Some e1" "lc_index_encode (en_codec E) e1 = Some b1" "map_of es' x = Some (RValue (Blob b1))"
      by (rule index_written_hinted [OF wr [OF en(2)] w0(1) x])
    have "en = e1" using K w1 en(1,3) by (auto simp: index_codec_ok_def)
    then have "?m \<le> ix_label en" using entry_for_facts(5) [OF w1(1)] by (simp add: most_restrictive_def)
    then have "\<not> policy_allows (set (ps_rules ps)) \<lparr>rq_actor = actor, rq_label = ix_label en, rq_purpose = purpose, rq_action = ACTION_PACK\<rparr>"
      using deny L by (meson order_trans)
    then show False using en(4) by (simp add: may_pack_def decide_policy_allows)
  qed
  then show ?thesis using es' ix by blast
qed

definition closed_rules :: policy_set where
  "closed_rules = policy_new ''v2''
     [\<lparr>pr_actor = Anything, pr_label = Anything, pr_purpose = Anything, pr_action = Anything, pr_effect = Allow\<rparr>,
      \<lparr>pr_actor = Anything, pr_label = Is Untrusted, pr_purpose = Is ''answer'', pr_action = Is ACTION_PACK, pr_effect = Deny\<rparr>]"

theorem restricted_reads_never_packed_witness:
  "\<exists>l' ctx. write_indexed_many mem_env demo_token ''s1'' [(''k'', demo_stale)] mem_hints demo_envelope 5 (mem_loom mem_written) = (l', Inr ''r+'')
     \<and> retrieve_filtered mem_env demo_unicode (\<lambda>xs. Some xs) l' demo_token ''s1'' (query_text ''note'' 50)
         (may_pack (engine_new closed_rules) ''alice'' ''answer'') 5 = Inr ctx
     \<and> ''k'' \<notin> pk_key ` set (pc_items ctx)"
proof -
  obtain l' where w: "write_indexed_many mem_env demo_token ''s1'' [(''k'', demo_stale)] mem_hints demo_envelope 5 (mem_loom mem_written) = (l', Inr ''r+'')"
    using mem_write by blast
  then have wa: "write_all mem_env demo_token ''s1'' [(''k'', demo_stale)] demo_envelope Map.empty mem_hints 5 (mem_loom mem_written) = (l', Inr ''r+'')"
    by (simp add: write_indexed_many_def)
  have P: "pager_ok (en_pager mem_env)" by (simp add: demo_pager_ok)
  have K: "index_codec_ok (en_codec mem_env)" and ix: "index_ok (en_codec mem_env) (map_of mem_before)" using mem_codec_ok mem_index_ok by simp_all
  have ck: "\<forall>w\<in>set [(''k'', demo_stale)]. caller_key (fst w)" by (simp add: caller_key_def is_reserved_def is_provenance_def key_space_defs)
  have L: "Untrusted \<le> rs_min_label (session_reads (e_session demo_envelope) (mem_loom mem_written))"
    by (simp add: session_reads_def demo_envelope_def envelope_new_def mem_capture_def)
  have "t = Untrusted" if "Untrusted \<le> t" for t using that by (cases t) (simp_all add: less_eq_trust_class_def)
  then have deny: "\<forall>t. Untrusted \<le> t \<longrightarrow> \<not> policy_allows (set (ps_rules closed_rules)) \<lparr>rq_actor = ''alice'', rq_label = t, rq_purpose = ''answer'', rq_action = ACTION_PACK\<rparr>"
    by (auto simp: closed_rules_def policy_new_def policy_allows_def applies_to_def)
  obtain es' where es': "holds mem_env l' ''s1'' es'"
    and wr: "\<And>x. prefix INDEX_PREFIX x \<Longrightarrow> index_written (en_codec mem_env) mem_hints Untrusted [(''k'', demo_stale)] (map_of mem_before) (map_of es') x"
    using write_all_index [OF P mem_ok wa mem_holds ck] by (auto simp: session_reads_def demo_envelope_def envelope_new_def mem_capture_def)
  have dec: "lc_index_decode (en_codec mem_env) blob \<noteq> None" if x: "map_of es' x = Some (RValue (Blob blob))" "prefix INDEX_PREFIX x" for x blob
    using wr [OF x(2)] unfolding index_written_def
  proof (elim disjE conjE bexE exE)
    assume "map_of es' x = map_of mem_before x"
    then show ?thesis using x mem_index [OF map_of_SomeD, of x "RValue (Blob blob)"] by (simp add: mem_codec_def)
  next
    fix w en b assume "lc_index_encode (en_codec mem_env) en = Some b" "map_of es' x = Some (RValue (Blob b))"
    then show ?thesis using K x(1) by (auto simp: index_codec_ok_def)
  qed
  have auth: "authorize (en_issuer mem_env) demo_token ''s1'' 5 = Inr ()" using demo_checks by simp
  have lim: "unat (qy_budget (query_text ''note'' 50)) < 2 ^ 32 - 1" by (simp add: query_text_def)
  obtain ctx where c: "retrieve_filtered mem_env demo_unicode (\<lambda>xs. Some xs) l' demo_token ''s1'' (query_text ''note'' 50)
      (may_pack (engine_new closed_rules) ''alice'' ''answer'') 5 = Inr ctx"
    using retrieve_total [OF es' auth _ lim] dec by blast
  have "permutes (\<lambda>xs. Some xs)" by (simp add: permutes_def)
  from restricted_reads_never_packed [OF P mem_ok K wa mem_holds ix ck L deny this c]
  have "''k'' \<notin> pk_key ` set (pc_items ctx)" by (simp add: mem_hints_def demo_claim_def)
  then show ?thesis using w c by blast
qed

section \<open>Forgetting\<close>

text \<open>C24: forgetting reaches everything downstream of the source and nothing else: a successful
  \<open>forget\<close> was signed and authorized; every contaminated record is out of the index, every claim among
  them that still stood is invalidated and can no longer justify an action; everything else on the branch,
  its derivation records included, and every other branch and commit read as before; the report
  names the set and the exact counts.\<close>

theorem forget_withdraws_downstream:
  assumes P: "pager_ok (en_pager E)" and ok: "loom_ok E l" and h: "holds E l b es"
    and res: "forget E tok b s e now l = (l', Inr rep)"
    and caller: "\<forall>ks. contaminated_keys_on E l b s = Inr ks \<longrightarrow> (\<forall>k\<in>set ks. caller_key k)"
  shows "envelope_is_valid e \<and> authenticate E l e = Inr () \<and> authorize (en_issuer E) tok b now = Inr ()
    \<and> contaminated_keys_on E l b s = Inr (fr_reached rep)
    \<and> (\<forall>k. read_branch E l' b k = Inr (forgotten (set (fr_reached rep)) (map_of es) k))
    \<and> (\<forall>k\<in>set (fr_reached rep). read_branch E l' b (index_key k) = Inr None
          \<and> (\<forall>c. read_branch E l' b k = Inr (Some (RClaim c)) \<longrightarrow> \<not> is_action_eligible c))
    \<and> fr_deindexed rep = card {k \<in> set (fr_reached rep). map_of es (index_key k) \<noteq> None}
    \<and> fr_invalidated rep = card {k \<in> set (fr_reached rep). standing (map_of es k)}
    \<and> (\<forall>d. d \<noteq> b \<longrightarrow> head d l' = head d l) \<and> (\<forall>d fs. commit_good E l d fs \<longrightarrow> commit_good E l' d fs)"
proof (rule forget_result [OF P ok h res caller])
  fix ks es'
  assume a: "contaminated_keys_on E l b s = Inr ks" "holds E l' b es'" "map_of es' = forgotten (set ks) (map_of es)" "distinct ks"
    "rep = \<lparr>fr_source = Some s, fr_irreversible = [], fr_deindexed = length (filter (\<lambda>k. map_of es (index_key k) \<noteq> None) ks),
            fr_invalidated = length (filter (\<lambda>k. standing (map_of es k)) ks), fr_reached = ks\<rparr>"
    "envelope_is_valid e" "authenticate E l e = Inr ()" "authorize (en_issuer E) tok b now = Inr ()"
    "\<And>d. d \<noteq> b \<Longrightarrow> head d l' = head d l" "\<And>d fs. commit_good E l d fs \<Longrightarrow> commit_good E l' d fs"
  have rd: "read_branch E l' b k = Inr (forgotten (set ks) (map_of es) k)" for k using holds_read [OF a(2)] a(3) by simp
  have gone: "read_branch E l' b (index_key k) = Inr None" if "k \<in> set ks" for k using that by (simp add: rd forgotten_def)
  have elig: "\<not> is_action_eligible c" if k: "k \<in> set ks" "read_branch E l' b k = Inr (Some (RClaim c))" for k c
  proof -
    have "withdrawn (map_of es k) = Some (RClaim c)" using k by (auto simp: rd forgotten_def split: if_splits)
    then have "c_status c \<noteq> Asserted"
      by (auto simp: withdrawn_def standing_def split: option.splits record_t.splits if_splits)
    then show ?thesis by (simp add: is_action_eligible_def)
  qed
  have count: "length (filter Q ks) = card {k \<in> set ks. Q k}" for Q
    using distinct_card [OF distinct_filter [OF a(4)], of Q] by simp
  show ?thesis using a rd gone elig count by auto
qed

theorem forget_withdraws_downstream_witness:
  "\<exists>l' rep. forget mem_env demo_token ''s1'' demo_page demo_envelope 5 (mem_loom mem_forgotten) = (l', Inr rep)
     \<and> fr_reached rep = [''k''] \<and> fr_deindexed rep = 1 \<and> fr_invalidated rep = 1 \<and> read_branch mem_env l' ''s1'' (index_key ''k'') = Inr None"
proof -
  obtain l' rep where f: "forget mem_env demo_token ''s1'' demo_page demo_envelope 5 (mem_loom mem_forgotten) = (l', Inr rep)"
    using mem_forget by blast
  have P: "pager_ok (en_pager mem_env)" by (simp add: demo_pager_ok)
  have c: "\<forall>ks. contaminated_keys_on mem_env (mem_loom mem_forgotten) ''s1'' demo_page = Inr ks \<longrightarrow> (\<forall>k\<in>set ks. caller_key k)"
    by (simp add: mem_contaminated caller_key_def is_reserved_def is_provenance_def key_space_defs)
  note w = forget_withdraws_downstream [OF P mem_ok mem_holds f c]
  have r: "fr_reached rep = [''k'']" using w by (simp add: mem_contaminated)
  have "{k \<in> set [''k'']. map_of mem_before (index_key k) \<noteq> None} = {''k''}" "{k \<in> set [''k'']. standing (map_of mem_before k)} = {''k''}"
    using mem_before_lookup by (auto simp: standing_def demo_claim_def)
  then have "fr_deindexed rep = 1" "fr_invalidated rep = 1" using w r by simp_all
  moreover have "read_branch mem_env l' ''s1'' (index_key ''k'') = Inr None" using w r by auto
  ultimately show ?thesis using f r by blast
qed

end
