(* ===== verification/LoomKeys.thy ===== *)
theory LoomKeys
  imports LoomText
begin

text \<open>
  Trust-root custody (\<open>crates/loom-keys/src/\<close>): the register of trust roots and its validation, the
  rotation steps, the verifier's directory, and the software signer.  Ed25519, JSON and the file
  system are parameters.
\<close>

section \<open>Roles, algorithms, backends, statuses (\<open>lib.rs\<close>)\<close>

datatype key_role = ActorGovernance | Release | BackupRoot

fun role_str :: "key_role \<Rightarrow> bytes" where
  "role_str ActorGovernance = ''actor-governance''"
| "role_str Release = ''release''"
| "role_str BackupRoot = ''backup-root''"

datatype algorithm = Ed25519

fun algorithm_str :: "algorithm \<Rightarrow> bytes" where
  "algorithm_str Ed25519 = ''ed25519''"

datatype backend = Software | AwsKms

fun backend_str :: "backend \<Rightarrow> bytes" where
  "backend_str Software = ''software''"
| "backend_str AwsKms = ''aws-kms''"

datatype key_status = Pending | Active | Retired | Revoked

definition verifies :: "key_status \<Rightarrow> bool" where
  "verifies s \<longleftrightarrow> s = Active \<or> s = Retired"

definition signs :: "key_status \<Rightarrow> bool" where
  "signs s \<longleftrightarrow> s = Active"

fun status_str :: "key_status \<Rightarrow> bytes" where
  "status_str Pending = ''pending''"
| "status_str Active = ''active''"
| "status_str Retired = ''retired''"
| "status_str Revoked = ''revoked''"

section \<open>Refusals (\<open>error.rs\<close>)\<close>

text \<open>The \<open>detail\<close> texts are data.\<close>

datatype register_fault =
    BadPublicKey bytes
  | OffCurve bytes bytes
  | SchemaVersion nat
  | NoRoots
  | BadKeyId bytes
  | KeyIdTwice bytes key_role
  | NoReference bytes
  | NoReason bytes
  | StaleReason bytes key_status
  | ManyActive key_role "bytes list"
  | AlreadyRegistered bytes key_role
  | GenerationTooLow u64 key_role u64
  | BlankReason bytes
  | Unencodable bytes

datatype file_fault = NotRegular | TooLarge | WritableByOthers | NotARegister bytes | ReadableByOthers nat

datatype transition_fault = NotStaged | GenerationBehind u64 bytes u64 | NotActive | AlreadyRevoked | LastKey

datatype signature_fault = WrongLength nat | Refused bytes | NotHex

datatype signing_key_fault = KeyFile file_fault | KeyFileNotHex | KeyMismatch

datatype key_error =
    KeyIo bytes bytes
  | RegisterUnusable bytes file_fault
  | RegisterInvalid register_fault
  | UnknownKeyId bytes key_role
  | RoleMismatch bytes key_role key_role
  | KeyRevoked bytes u64 bytes
  | KeyNotTrusted bytes key_status
  | AlgorithmMismatch bytes algorithm bytes
  | SignatureInvalid bytes signature_fault
  | NoTrustedKey key_role nat
  | NoActiveSigner key_role
  | DualControlRequired bytes key_status nat nat
  | InvalidTransition bytes key_status key_status transition_fault
  | SigningKeyUnusable bytes signing_key_fault
  | BackendUnavailable bytes backend

section \<open>Hex and white space\<close>

text \<open>A text as its characters; \<open>str::trim\<close> drops the white ones at both ends.\<close>

function text_chars :: "bytes \<Rightarrow> bytes list" where
  "text_chars [] = []"
| "text_chars (a # r) = (a # takeWhile tail_byte r) # text_chars (dropWhile tail_byte r)"
  by pat_completeness auto
termination
  by (relation "measure length") (auto simp: less_Suc_eq_le length_dropWhile_le)

definition trim :: "bytes \<Rightarrow> bytes" where
  "trim s = concat (rev (dropWhile blank (rev (dropWhile blank (text_chars s)))))"

definition hex_value :: "char \<Rightarrow> nat option" where
  "hex_value c =
     (let n = nat_of_byte c
      in if 48 \<le> n \<and> n \<le> 57 then Some (n - 48) else if 97 \<le> n \<and> n \<le> 102 then Some (n - 87)
         else if 65 \<le> n \<and> n \<le> 70 then Some (n - 55) else None)"

fun hex_pairs :: "bytes \<Rightarrow> bytes option" where
  "hex_pairs [] = Some []"
| "hex_pairs [c] = None"
| "hex_pairs (a # b # r) =
     (case (hex_value a, hex_value b, hex_pairs r) of
        (Some x, Some y, Some bs) \<Rightarrow> Some (byte_of (16 * x + y) # bs)
      | _ \<Rightarrow> None)"

definition decode_hex :: "nat \<Rightarrow> bytes \<Rightarrow> bytes option" where
  "decode_hex n text = (let t = trim text in if length t \<noteq> 2 * n then None else hex_pairs t)"

section \<open>The register (\<open>register.rs\<close>)\<close>

definition REGISTER_SCHEMA_VERSION :: nat where "REGISTER_SCHEMA_VERSION = 1"
definition MAX_REGISTER_BYTES :: nat where "MAX_REGISTER_BYTES = 256 * 1024"
definition DUAL_CONTROL :: nat where "DUAL_CONTROL = 2"

record approval =
  ap_approver :: bytes
  ap_at :: u64

record ceremony =
  cm_reference :: bytes
  cm_approvals :: "approval list"

text \<open>A \<open>BTreeSet\<close>, as the sorted list of its elements.\<close>

definition approvers :: "ceremony \<Rightarrow> bytes list" where
  "approvers c = sort_dedup (map ap_approver (cm_approvals c))"

record trust_root =
  tr_key_id :: bytes
  tr_role :: key_role
  tr_algorithm :: algorithm
  tr_public_key :: bytes
  tr_backend :: backend
  tr_status :: key_status
  tr_generation :: u64
  tr_ceremony :: ceremony
  tr_reason :: "bytes option"

text \<open>Ed25519: \<open>VerifyingKey::from_bytes\<close> (the error of a point off the curve), \<open>verify\<close> (the error of a
  refused signature), the public half of a private key, and signing.\<close>

record ed25519 =
  ed_point :: "bytes \<Rightarrow> bytes option"
  ed_verify :: "bytes \<Rightarrow> bytes \<Rightarrow> bytes \<Rightarrow> bytes option"
  ed_public :: "bytes \<Rightarrow> bytes"
  ed_sign :: "bytes \<Rightarrow> bytes \<Rightarrow> bytes"

definition verifying_key :: "ed25519 \<Rightarrow> trust_root \<Rightarrow> key_error + bytes" where
  "verifying_key L r =
     (case decode_hex 32 (tr_public_key r) of
        None \<Rightarrow> Inl (RegisterInvalid (BadPublicKey (tr_key_id r)))
      | Some b \<Rightarrow> (case ed_point L b of
          Some err \<Rightarrow> Inl (RegisterInvalid (OffCurve (tr_key_id r) err))
        | None \<Rightarrow> Inr b))"

definition dual_control_satisfied :: "trust_root \<Rightarrow> bool" where
  "dual_control_satisfied r \<longleftrightarrow> DUAL_CONTROL \<le> length (approvers (tr_ceremony r))"

record register =
  rg_schema :: nat
  rg_roots :: "trust_root list"

definition register_empty :: register where
  "register_empty = \<lparr>rg_schema = REGISTER_SCHEMA_VERSION, rg_roots = []\<rparr>"

definition check_reason :: "trust_root \<Rightarrow> key_error + unit" where
  "check_reason r =
     (case (tr_status r, tr_reason r) of
        (Revoked, None) \<Rightarrow> Inl (RegisterInvalid (NoReason (tr_key_id r)))
      | (s, Some _) \<Rightarrow> if s \<noteq> Revoked then Inl (RegisterInvalid (StaleReason (tr_key_id r) s)) else Inr ()
      | _ \<Rightarrow> Inr ())"

definition check_root :: "ed25519 \<Rightarrow> trust_root \<Rightarrow> (key_role \<times> bytes) list \<Rightarrow> key_error + (key_role \<times> bytes) list" where
  "check_root L r seen =
     (if blank (tr_key_id r) \<or> 128 < length (tr_key_id r) then Inl (RegisterInvalid (BadKeyId (tr_key_id r)))
      else if (tr_role r, tr_key_id r) \<in> set seen then Inl (RegisterInvalid (KeyIdTwice (tr_key_id r) (tr_role r)))
      else bind_r (verifying_key L r) (\<lambda>_.
        if blank (cm_reference (tr_ceremony r)) then Inl (RegisterInvalid (NoReference (tr_key_id r)))
        else if (tr_status r = Active \<or> tr_status r = Revoked) \<and> \<not> dual_control_satisfied r
          then Inl (DualControlRequired (tr_key_id r) (tr_status r) (length (approvers (tr_ceremony r))) DUAL_CONTROL)
        else bind_r (check_reason r) (\<lambda>_. Inr ((tr_role r, tr_key_id r) # seen))))"

definition check_active :: "register \<Rightarrow> key_role \<Rightarrow> unit \<Rightarrow> key_error + unit" where
  "check_active g role u =
     (let active = filter (\<lambda>r. tr_role r = role \<and> tr_status r = Active) (rg_roots g)
      in if 1 < length active then Inl (RegisterInvalid (ManyActive role (map tr_key_id active))) else Inr ())"

definition validate :: "ed25519 \<Rightarrow> register \<Rightarrow> key_error + unit" where
  "validate L g =
     (if rg_schema g \<noteq> REGISTER_SCHEMA_VERSION then Inl (RegisterInvalid (SchemaVersion (rg_schema g)))
      else if rg_roots g = [] then Inl (RegisterInvalid NoRoots)
      else bind_r (fold_r (check_root L) (rg_roots g) []) (\<lambda>_.
           fold_r (check_active g) [ActorGovernance, Release, BackupRoot] ()))"

definition in_role :: "register \<Rightarrow> key_role \<Rightarrow> trust_root list" where
  "in_role g role = filter (\<lambda>r. tr_role r = role) (rg_roots g)"

definition find_root :: "register \<Rightarrow> key_role \<Rightarrow> bytes \<Rightarrow> trust_root option" where
  "find_root g role k = List.find (\<lambda>r. tr_key_id r = k) (in_role g role)"

section \<open>Rotation (\<open>rotation.rs\<close>)\<close>

definition checked :: "ed25519 \<Rightarrow> register \<Rightarrow> key_error + register" where
  "checked L g = bind_r (validate L g) (\<lambda>_. Inr g)"

definition highest_generation :: "register \<Rightarrow> key_role \<Rightarrow> u64" where
  "highest_generation g role = fold max (map tr_generation (in_role g role)) 0"

definition expand :: "ed25519 \<Rightarrow> register \<Rightarrow> trust_root \<Rightarrow> key_error + register" where
  "expand L g n =
     (if find_root g (tr_role n) (tr_key_id n) \<noteq> None
        then Inl (RegisterInvalid (AlreadyRegistered (tr_key_id n) (tr_role n)))
      else if tr_generation n \<le> highest_generation g (tr_role n)
        then Inl (RegisterInvalid (GenerationTooLow (tr_generation n) (tr_role n) (highest_generation g (tr_role n))))
      else checked L (g\<lparr>rg_roots := rg_roots g @ [n\<lparr>tr_status := Pending, tr_reason := None\<rparr>]\<rparr>))"

definition activate_root :: "key_role \<Rightarrow> bytes \<Rightarrow> u64 \<Rightarrow> trust_root \<Rightarrow> key_error + trust_root" where
  "activate_root role k generation r =
     (if tr_role r \<noteq> role then Inr r
      else if tr_key_id r = k then Inr (r\<lparr>tr_status := Active\<rparr>)
      else if tr_status r = Active
        then (if generation \<le> tr_generation r
              then Inl (InvalidTransition k Pending Active (GenerationBehind generation (tr_key_id r) (tr_generation r)))
              else Inr (r\<lparr>tr_status := Retired\<rparr>))
      else Inr r)"

definition activate :: "ed25519 \<Rightarrow> register \<Rightarrow> key_role \<Rightarrow> bytes \<Rightarrow> key_error + register" where
  "activate L g role k =
     (case find_root g role k of
        None \<Rightarrow> Inl (UnknownKeyId k role)
      | Some c \<Rightarrow>
          if tr_status c \<noteq> Pending then Inl (InvalidTransition k (tr_status c) Active NotStaged)
          else if \<not> dual_control_satisfied c
            then Inl (DualControlRequired k Active (length (approvers (tr_ceremony c))) 2)
          else bind_r (map_r (activate_root role k (tr_generation c)) (rg_roots g)) (\<lambda>rs. checked L (g\<lparr>rg_roots := rs\<rparr>)))"

definition set_status :: "key_role \<Rightarrow> bytes \<Rightarrow> (trust_root \<Rightarrow> trust_root) \<Rightarrow> register \<Rightarrow> register" where
  "set_status role k f g = g\<lparr>rg_roots := map (\<lambda>r. if tr_role r = role \<and> tr_key_id r = k then f r else r) (rg_roots g)\<rparr>"

definition retire :: "ed25519 \<Rightarrow> register \<Rightarrow> key_role \<Rightarrow> bytes \<Rightarrow> key_error + register" where
  "retire L g role k =
     (case find_root g role k of
        None \<Rightarrow> Inl (UnknownKeyId k role)
      | Some c \<Rightarrow>
          if tr_status c \<noteq> Active then Inl (InvalidTransition k (tr_status c) Retired NotActive)
          else checked L (set_status role k (\<lambda>r. r\<lparr>tr_status := Retired\<rparr>) g))"

definition survivors :: "register \<Rightarrow> key_role \<Rightarrow> bytes \<Rightarrow> nat" where
  "survivors g role k = length (filter (\<lambda>r. tr_key_id r \<noteq> k \<and> verifies (tr_status r)) (in_role g role))"

definition revoke :: "ed25519 \<Rightarrow> register \<Rightarrow> key_role \<Rightarrow> bytes \<Rightarrow> bytes \<Rightarrow> bool \<Rightarrow> key_error + register" where
  "revoke L g role k reason allow_seal =
     (if blank reason then Inl (RegisterInvalid (BlankReason k))
      else case find_root g role k of
        None \<Rightarrow> Inl (UnknownKeyId k role)
      | Some c \<Rightarrow>
          if tr_status c = Revoked then Inl (InvalidTransition k Revoked Revoked AlreadyRevoked)
          else if \<not> dual_control_satisfied c
            then Inl (DualControlRequired k Revoked (length (approvers (tr_ceremony c))) 2)
          else if survivors g role k = 0 \<and> \<not> allow_seal then Inl (InvalidTransition k (tr_status c) Revoked LastKey)
          else checked L (set_status role k (\<lambda>r. r\<lparr>tr_status := Revoked, tr_reason := Some reason\<rparr>) g))"

section \<open>The directory (\<open>directory.rs\<close>)\<close>

record key_directory =
  kd_register :: register
  kd_role :: key_role

definition directory_new :: "ed25519 \<Rightarrow> register \<Rightarrow> key_role \<Rightarrow> key_error + key_directory" where
  "directory_new L g role = bind_r (validate L g) (\<lambda>_. Inr \<lparr>kd_register = g, kd_role = role\<rparr>)"

text \<open>\<open>sort_by_key(Reverse(generation))\<close>, a stable sort.\<close>

definition trusted :: "key_directory \<Rightarrow> trust_root list" where
  "trusted d = sort_key (\<lambda>r. - uint (tr_generation r)) (filter (\<lambda>r. verifies (tr_status r)) (in_role (kd_register d) (kd_role d)))"

definition signing_root :: "key_directory \<Rightarrow> key_error + trust_root" where
  "signing_root d =
     (case List.find (\<lambda>r. signs (tr_status r)) (in_role (kd_register d) (kd_role d)) of
        None \<Rightarrow> Inl (NoActiveSigner (kd_role d))
      | Some r \<Rightarrow> Inr r)"

definition resolve_key :: "key_directory \<Rightarrow> bytes \<Rightarrow> key_error + trust_root" where
  "resolve_key d k =
     (case find_root (kd_register d) (kd_role d) k of
        Some r \<Rightarrow>
          (case tr_status r of
             Revoked \<Rightarrow> Inl (KeyRevoked (tr_key_id r) (tr_generation r)
                               (case tr_reason r of Some t \<Rightarrow> t | None \<Rightarrow> ''no reason recorded''))
           | Pending \<Rightarrow> Inl (KeyNotTrusted (tr_key_id r) (tr_status r))
           | Active \<Rightarrow> Inr r
           | Retired \<Rightarrow> Inr r)
      | None \<Rightarrow>
          (case List.find (\<lambda>r. tr_key_id r = k) (rg_roots (kd_register d)) of
             Some r \<Rightarrow> Inl (RoleMismatch k (kd_role d) (tr_role r))
           | None \<Rightarrow> Inl (UnknownKeyId k (kd_role d))))"

definition verify_against :: "ed25519 \<Rightarrow> trust_root \<Rightarrow> bytes \<Rightarrow> bytes \<Rightarrow> key_error + unit" where
  "verify_against L r message signature =
     (case tr_algorithm r of Ed25519 \<Rightarrow>
        if length signature \<noteq> 64 then Inl (SignatureInvalid (tr_key_id r) (WrongLength (length signature)))
        else bind_r (verifying_key L r) (\<lambda>vk.
          case ed_verify L vk message signature of
            None \<Rightarrow> Inr ()
          | Some err \<Rightarrow> Inl (SignatureInvalid (tr_key_id r) (Refused err))))"

definition directory_verify :: "ed25519 \<Rightarrow> key_directory \<Rightarrow> bytes \<Rightarrow> bytes \<Rightarrow> bytes \<Rightarrow> bytes \<Rightarrow> key_error + trust_root" where
  "directory_verify L d k claimed message signature =
     bind_r (resolve_key d k) (\<lambda>r.
       if claimed \<noteq> algorithm_str (tr_algorithm r) then Inl (AlgorithmMismatch (tr_key_id r) (tr_algorithm r) claimed)
       else bind_r (verify_against L r message signature) (\<lambda>_. Inr r))"

definition verify_any :: "ed25519 \<Rightarrow> key_directory \<Rightarrow> bytes \<Rightarrow> bytes \<Rightarrow> key_error + trust_root" where
  "verify_any L d message signature =
     (case List.find (\<lambda>r. verify_against L r message signature = Inr ()) (trusted d) of
        Some r \<Rightarrow> Inr r
      | None \<Rightarrow> Inl (NoTrustedKey (kd_role d) (length (trusted d))))"

section \<open>Files\<close>

datatype file_kind = Regular | Directory | Symlink | Device

record file_stat =
  fi_kind :: file_kind
  fi_length :: nat
  fi_mode :: nat

text \<open>\<open>symlink_metadata\<close>, \<open>read\<close>, \<open>write\<close> and \<open>rename\<close>; \<open>Path::with_extension\<close>; \<open>serde_json\<close> on the register.\<close>

record 'd host =
  ho_stat :: "'d \<Rightarrow> bytes \<Rightarrow> bytes + file_stat"
  ho_read :: "'d \<Rightarrow> bytes \<Rightarrow> bytes + bytes"
  ho_write :: "'d \<Rightarrow> bytes \<Rightarrow> bytes \<Rightarrow> 'd \<times> (bytes + unit)"
  ho_rename :: "'d \<Rightarrow> bytes \<Rightarrow> bytes \<Rightarrow> 'd \<times> (bytes + unit)"
  ho_with_extension :: "bytes \<Rightarrow> bytes \<Rightarrow> bytes"

record register_codec =
  rc_encode :: "register \<Rightarrow> bytes + bytes"
  rc_decode :: "bytes \<Rightarrow> bytes + register"

definition io_r :: "bytes \<Rightarrow> bytes + 'a \<Rightarrow> key_error + 'a" where
  "io_r path m = (case m of Inl err \<Rightarrow> Inl (KeyIo path err) | Inr a \<Rightarrow> Inr a)"

text \<open>\<open>mode & 0o022 != 0\<close>: the group or the others may write.\<close>

definition others_write :: "nat \<Rightarrow> bool" where
  "others_write mode \<longleftrightarrow> bit mode 4 \<or> bit mode 1"

definition register_load :: "'d host \<Rightarrow> register_codec \<Rightarrow> ed25519 \<Rightarrow> 'd \<Rightarrow> bytes \<Rightarrow> key_error + register" where
  "register_load H J L disk path =
     bind_r (io_r path (ho_stat H disk path)) (\<lambda>m.
       if fi_kind m \<noteq> Regular then Inl (RegisterUnusable path NotRegular)
       else if MAX_REGISTER_BYTES < fi_length m then Inl (RegisterUnusable path TooLarge)
       else if others_write (fi_mode m) then Inl (RegisterUnusable path WritableByOthers)
       else bind_r (io_r path (ho_read H disk path)) (\<lambda>b.
            case rc_decode J b of
              Inl err \<Rightarrow> Inl (RegisterUnusable path (NotARegister err))
            | Inr g \<Rightarrow> checked L g))"

definition register_write :: "'d host \<Rightarrow> register_codec \<Rightarrow> ed25519 \<Rightarrow> register \<Rightarrow> bytes \<Rightarrow> 'd \<Rightarrow> 'd \<times> (key_error + unit)" where
  "register_write H J L g path disk =
     (case validate L g of
        Inl err \<Rightarrow> (disk, Inl err)
      | Inr _ \<Rightarrow> (case rc_encode J g of
          Inl err \<Rightarrow> (disk, Inl (RegisterInvalid (Unencodable err)))
        | Inr body \<Rightarrow>
            (let partial = ho_with_extension H path ''partial''
             in case ho_write H disk partial body of
               (disk, Inl err) \<Rightarrow> (disk, Inl (KeyIo partial err))
             | (disk, Inr _) \<Rightarrow>
                 (case ho_rename H disk partial path of (disk, r) \<Rightarrow> (disk, io_r path r)))))"

definition directory_load :: "'d host \<Rightarrow> register_codec \<Rightarrow> ed25519 \<Rightarrow> 'd \<Rightarrow> bytes \<Rightarrow> key_role \<Rightarrow> key_error + key_directory" where
  "directory_load H J L disk path role =
     bind_r (register_load H J L disk path) (\<lambda>g. Inr \<lparr>kd_register = g, kd_role = role\<rparr>)"

section \<open>The software signer (\<open>signer.rs\<close>)\<close>

record software_signer =
  sw_key_id :: bytes
  sw_role :: key_role
  sw_algorithm :: algorithm
  sw_signing_key :: bytes

record signed_receipt =
  rs_key_id :: bytes
  rs_role :: key_role
  rs_algorithm :: algorithm
  rs_backend :: backend
  rs_signature :: bytes

definition signer_from_key :: "ed25519 \<Rightarrow> trust_root \<Rightarrow> bytes \<Rightarrow> key_error + software_signer" where
  "signer_from_key L r sk =
     (if tr_backend r \<noteq> Software then Inl (BackendUnavailable (tr_key_id r) (tr_backend r))
      else bind_r (verifying_key L r) (\<lambda>vk.
        if ed_public L sk \<noteq> vk then Inl (SigningKeyUnusable (tr_key_id r) KeyMismatch)
        else Inr \<lparr>sw_key_id = tr_key_id r, sw_role = tr_role r, sw_algorithm = tr_algorithm r, sw_signing_key = sk\<rparr>))"

text \<open>\<open>mode & 0o077 != 0\<close>.\<close>

definition signer_from_file :: "'d host \<Rightarrow> ed25519 \<Rightarrow> 'd \<Rightarrow> trust_root \<Rightarrow> bytes \<Rightarrow> key_error + software_signer" where
  "signer_from_file H L disk r path =
     (if tr_backend r \<noteq> Software then Inl (BackendUnavailable (tr_key_id r) (tr_backend r))
      else if \<not> signs (tr_status r) then Inl (KeyNotTrusted (tr_key_id r) (tr_status r))
      else bind_r (io_r path (ho_stat H disk path)) (\<lambda>m.
        if fi_kind m \<noteq> Regular then Inl (SigningKeyUnusable (tr_key_id r) (KeyFile NotRegular))
        else if fi_mode m mod 64 \<noteq> 0 then Inl (SigningKeyUnusable (tr_key_id r) (KeyFile (ReadableByOthers (fi_mode m mod 512))))
        else bind_r (io_r path (ho_read H disk path)) (\<lambda>text.
          if \<not> utf8_valid text then Inl (KeyIo path ''stream did not contain valid UTF-8'')
          else case decode_hex 32 text of
            None \<Rightarrow> Inl (SigningKeyUnusable (tr_key_id r) KeyFileNotHex)
          | Some seed \<Rightarrow> bind_r (verifying_key L r) (\<lambda>vk.
              if ed_public L seed \<noteq> vk then Inl (SigningKeyUnusable (tr_key_id r) KeyMismatch)
              else Inr \<lparr>sw_key_id = tr_key_id r, sw_role = tr_role r, sw_algorithm = tr_algorithm r, sw_signing_key = seed\<rparr>))))"

definition software_sign :: "ed25519 \<Rightarrow> software_signer \<Rightarrow> bytes \<Rightarrow> bytes" where
  "software_sign L w message = ed_sign L (sw_signing_key w) message"

definition sign_receipt :: "ed25519 \<Rightarrow> software_signer \<Rightarrow> bytes \<Rightarrow> signed_receipt" where
  "sign_receipt L w message =
     \<lparr>rs_key_id = sw_key_id w, rs_role = sw_role w, rs_algorithm = sw_algorithm w, rs_backend = Software,
      rs_signature = to_hex (software_sign L w message)\<rparr>"

definition decode_receipt_signature :: "signed_receipt \<Rightarrow> key_error + bytes" where
  "decode_receipt_signature r =
     (case decode_hex 64 (rs_signature r) of
        None \<Rightarrow> Inl (SignatureInvalid (rs_key_id r) NotHex)
      | Some b \<Rightarrow> Inr b)"

end
