(* ===== verification/LoomKeysLaws.thy ===== *)
theory LoomKeysLaws
  imports LoomKeys
begin

text \<open>
  The laws of custody: what a valid register is, that validation decides exactly that, the order in which
  a key's status may move, and the contract every rotation step keeps (locale \<open>custody_step\<close>).
\<close>

section \<open>Valid registers\<close>

definition root_ok :: "ed25519 \<Rightarrow> trust_root \<Rightarrow> bool" where
  "root_ok L r \<longleftrightarrow> \<not> blank (tr_key_id r) \<and> length (tr_key_id r) \<le> 128 \<and> (\<exists>vk. verifying_key L r = Inr vk)
     \<and> \<not> blank (cm_reference (tr_ceremony r)) \<and> (tr_status r = Active \<or> tr_status r = Revoked \<longrightarrow> dual_control_satisfied r)
     \<and> (tr_status r = Revoked \<longleftrightarrow> tr_reason r \<noteq> None)"

definition root_name :: "trust_root \<Rightarrow> key_role \<times> bytes" where
  "root_name r = (tr_role r, tr_key_id r)"

definition active_in :: "register \<Rightarrow> key_role \<Rightarrow> trust_root list" where
  "active_in g role = filter (\<lambda>r. tr_role r = role \<and> tr_status r = Active) (rg_roots g)"

definition register_ok :: "ed25519 \<Rightarrow> register \<Rightarrow> bool" where
  "register_ok L g \<longleftrightarrow> rg_schema g = REGISTER_SCHEMA_VERSION \<and> rg_roots g \<noteq> [] \<and> (\<forall>r\<in>set (rg_roots g). root_ok L r)
     \<and> distinct (map root_name (rg_roots g)) \<and> (\<forall>role. length (active_in g role) \<le> 1)"

lemma check_reason_iff: "check_reason r = Inr () \<longleftrightarrow> (tr_status r = Revoked \<longleftrightarrow> tr_reason r \<noteq> None)"
  by (auto simp: check_reason_def split: option.splits key_status.splits)

lemma check_root_iff: "check_root L r seen = Inr s \<longleftrightarrow> root_ok L r \<and> root_name r \<notin> set seen \<and> s = root_name r # seen"
proof -
  have "bind_r (check_reason r) (\<lambda>_. Inr (root_name r # seen)) = Inr s \<longleftrightarrow> check_reason r = Inr () \<and> s = root_name r # seen"
    by (auto simp: bind_r_Inr_iff)
  then show ?thesis
    by (auto simp: check_root_def root_ok_def root_name_def check_reason_iff bind_r_Inr_iff split: if_splits)
qed

lemma check_roots_iff:
  "fold_r (check_root L) rs seen = Inr s \<longleftrightarrow>
     (\<forall>r\<in>set rs. root_ok L r) \<and> distinct (map root_name rs) \<and> set (map root_name rs) \<inter> set seen = {} \<and> s = rev (map root_name rs) @ seen"
proof (induction rs arbitrary: seen)
  case (Cons r rs)
  have "fold_r (check_root L) (r # rs) seen = Inr s \<longleftrightarrow>
    root_ok L r \<and> root_name r \<notin> set seen \<and> fold_r (check_root L) rs (root_name r # seen) = Inr s"
    by (auto simp: bind_r_Inr_iff check_root_iff)
  then show ?case by (auto simp: Cons.IH)
qed auto

lemma check_active_iff: "check_active g role u = Inr v \<longleftrightarrow> length (active_in g role) \<le> 1"
  by (auto simp: check_active_def active_in_def Let_def)

lemma validate_iff: "validate L g = Inr () \<longleftrightarrow> register_ok L g"
proof -
  have "fold_r (check_active g) [ActorGovernance, Release, BackupRoot] () = Inr ()
      \<longleftrightarrow> (\<forall>role. length (active_in g role) \<le> 1)"
  proof -
    have "(\<forall>role. length (active_in g role) \<le> 1) \<longleftrightarrow> (\<forall>role\<in>set [ActorGovernance, Release, BackupRoot]. length (active_in g role) \<le> 1)"
      by (auto intro: key_role.induct)
    then show ?thesis by (auto simp: bind_r_Inr_iff check_active_iff)
  qed
  then show ?thesis by (auto simp: validate_def register_ok_def bind_r_Inr_iff check_roots_iff)
qed

lemma checked_iff: "checked L g = Inr g' \<longleftrightarrow> register_ok L g \<and> g' = g"
  by (auto simp: checked_def bind_r_Inr_iff simp flip: validate_iff)

lemma distinct_sort_dedup: "distinct (sort_dedup xs)"
  by (simp add: sort_dedup_def distinct_dedup)

lemma approvers_card: "length (approvers c) = card (ap_approver ` set (cm_approvals c))"
  using distinct_card [OF distinct_sort_dedup [of "map ap_approver (cm_approvals c)"]] by (simp add: approvers_def)

section \<open>Looking keys up\<close>

lemma find_root_Some: "find_root g role k = Some c \<Longrightarrow> c \<in> set (rg_roots g) \<and> tr_role c = role \<and> tr_key_id c = k"
  using nth_mem [of _ "filter (\<lambda>r. tr_role r = role) (rg_roots g)"] by (fastforce simp: find_root_def in_role_def find_Some_iff)

lemma find_root_None: "find_root g role k = None \<longleftrightarrow> (\<forall>r\<in>set (rg_roots g). root_name r \<noteq> (role, k))"
  by (auto simp: find_root_def in_role_def find_None_iff root_name_def)

lemma root_name_unique:
  "register_ok L g \<Longrightarrow> r \<in> set (rg_roots g) \<Longrightarrow> c \<in> set (rg_roots g) \<Longrightarrow> root_name r = root_name c \<Longrightarrow> r = c"
  by (auto simp: register_ok_def distinct_map inj_on_def)

lemma find_root_unique:
  assumes "register_ok L g" and "r \<in> set (rg_roots g)"
  shows "find_root g (tr_role r) (tr_key_id r) = Some r"
proof (cases "find_root g (tr_role r) (tr_key_id r)")
  case None
  then show ?thesis using assms(2) by (auto simp: find_root_None root_name_def)
next
  case (Some c)
  have "r = c" using find_root_Some [OF Some] by (intro root_name_unique [OF assms]) (simp_all add: root_name_def)
  then show ?thesis using Some by simp
qed

section \<open>How a key may move\<close>

text \<open>A status only moves forward: staged, active, retired, revoked.\<close>

fun status_rank :: "key_status \<Rightarrow> nat" where
  "status_rank Pending = 0"
| "status_rank Active = 1"
| "status_rank Retired = 2"
| "status_rank Revoked = 3"

lemma status_rank_inj: "status_rank s = status_rank t \<longleftrightarrow> s = t"
  by (cases s; cases t) simp_all

instantiation key_status :: linorder
begin

definition less_eq_key_status :: "key_status \<Rightarrow> key_status \<Rightarrow> bool" where
  "less_eq_key_status s t \<longleftrightarrow> status_rank s \<le> status_rank t"

definition less_key_status :: "key_status \<Rightarrow> key_status \<Rightarrow> bool" where
  "less_key_status s t \<longleftrightarrow> status_rank s < status_rank t"

instance
  by standard (auto simp: less_eq_key_status_def less_key_status_def status_rank_inj)

end

lemma Revoked_top [simp]: "s \<le> Revoked" "Revoked \<le> s \<longleftrightarrow> s = Revoked"
  by (cases s; simp add: less_eq_key_status_def)+

lemma verifies_until_revoked: "s \<le> t \<Longrightarrow> verifies s \<Longrightarrow> t \<noteq> Revoked \<Longrightarrow> verifies t"
  by (cases s; cases t) (simp_all add: verifies_def less_eq_key_status_def)

definition same_key :: "trust_root \<Rightarrow> trust_root \<Rightarrow> bool" where
  "same_key r r' \<longleftrightarrow> r' = r\<lparr>tr_status := tr_status r', tr_reason := tr_reason r'\<rparr>"

definition evolves :: "trust_root \<Rightarrow> trust_root \<Rightarrow> bool" where
  "evolves r r' \<longleftrightarrow> same_key r r' \<and> tr_status r \<le> tr_status r' \<and> (tr_status r' = tr_status r \<longrightarrow> tr_reason r' = tr_reason r)"

definition register_evolves :: "register \<Rightarrow> register \<Rightarrow> bool" where
  "register_evolves g g' \<longleftrightarrow> (\<forall>r\<in>set (rg_roots g). \<exists>r'\<in>set (rg_roots g'). evolves r r')"

lemma same_key_facts:
  "same_key r r' \<Longrightarrow> tr_role r' = tr_role r \<and> tr_key_id r' = tr_key_id r \<and> tr_algorithm r' = tr_algorithm r
     \<and> tr_public_key r' = tr_public_key r \<and> tr_generation r' = tr_generation r \<and> tr_backend r' = tr_backend r \<and> tr_ceremony r' = tr_ceremony r"
  by (cases r; cases r') (auto simp: same_key_def)

lemma same_key_name: "same_key r r' \<Longrightarrow> root_name r' = root_name r"
  by (drule same_key_facts) (auto simp: root_name_def)

lemma same_key_verifying: "same_key r r' \<Longrightarrow> verifying_key L r' = verifying_key L r"
  by (drule same_key_facts) (auto simp: verifying_key_def cong: option.case_cong)

lemma evolves_refl [simp]: "evolves r r"
  by (simp add: evolves_def same_key_def)

lemma evolves_trans:
  assumes "evolves r s" and "evolves s t"
  shows "evolves r t"
proof -
  have "same_key r t" using assms by (cases r; cases s; cases t) (auto simp: evolves_def same_key_def)
  moreover have "tr_reason t = tr_reason r" if e: "tr_status t = tr_status r"
  proof -
    have "tr_status s = tr_status r" using assms e by (auto simp: evolves_def)
    then show ?thesis using assms e by (auto simp: evolves_def)
  qed
  ultimately show ?thesis using assms by (auto simp: evolves_def)
qed

lemma register_evolves_refl [simp]: "register_evolves g g"
  unfolding register_evolves_def using evolves_refl by blast

lemma register_evolves_trans: "register_evolves g h \<Longrightarrow> register_evolves h i \<Longrightarrow> register_evolves g i"
  unfolding register_evolves_def using evolves_trans by meson

section \<open>The contract of a rotation step\<close>

locale custody_step =
  fixes L :: ed25519 and step :: "register \<Rightarrow> key_error + register" and touched :: "(key_role \<times> bytes) set"
  assumes valid: "register_ok L g \<Longrightarrow> step g = Inr g' \<Longrightarrow> register_ok L g'"
    and forward: "register_ok L g \<Longrightarrow> step g = Inr g' \<Longrightarrow> register_evolves g g'"
    and spares: "register_ok L g \<Longrightarrow> step g = Inr g' \<Longrightarrow> r \<in> set (rg_roots g') \<Longrightarrow> tr_status r = Revoked \<Longrightarrow> root_name r \<notin> touched
      \<Longrightarrow> r \<in> set (rg_roots g)"
begin

lemma revoked_stays:
  assumes "register_ok L g" and "step g = Inr g'" and "r \<in> set (rg_roots g)" and "tr_status r = Revoked"
  shows "r \<in> set (rg_roots g')"
proof -
  obtain r' where r: "r' \<in> set (rg_roots g')" "evolves r r'" using forward [OF assms(1,2)] assms(3) by (auto simp: register_evolves_def)
  then have "r' = r" using assms(4) by (cases r; cases r') (auto simp: evolves_def same_key_def)
  then show ?thesis using r by simp
qed

lemma keeps_verifying:
  assumes g: "register_ok L g" and s: "step g = Inr g'" and r: "r \<in> set (rg_roots g)" "verifies (tr_status r)" and n: "root_name r \<notin> touched"
  shows "\<exists>r'\<in>set (rg_roots g'). same_key r r' \<and> verifies (tr_status r')"
proof -
  obtain r' where r': "r' \<in> set (rg_roots g')" "evolves r r'" using forward [OF g s] r by (auto simp: register_evolves_def)
  have "tr_status r' \<noteq> Revoked"
  proof
    assume rev: "tr_status r' = Revoked"
    have nm: "root_name r' = root_name r" using r'(2) same_key_name by (auto simp: evolves_def)
    then have "r' \<in> set (rg_roots g)" using spares [OF g s r'(1) rev] n by simp
    then have "r' = r" using root_name_unique [OF g _ r(1)] nm by simp
    then show False using rev r(2) by (simp add: verifies_def)
  qed
  then show ?thesis using r' r(2) verifies_until_revoked by (auto simp: evolves_def)
qed

end

section \<open>The steps keep it\<close>

lemma expand_result:
  "expand L g n = Inr g' \<Longrightarrow> register_ok L g' \<and> rg_roots g' = rg_roots g @ [n\<lparr>tr_status := Pending, tr_reason := None\<rparr>]"
  by (auto simp: expand_def checked_iff split: if_splits)

definition activated :: "key_role \<Rightarrow> bytes \<Rightarrow> trust_root \<Rightarrow> trust_root" where
  "activated role k r =
     (if tr_role r \<noteq> role then r else if tr_key_id r = k then r\<lparr>tr_status := Active\<rparr>
      else if tr_status r = Active then r\<lparr>tr_status := Retired\<rparr> else r)"

lemma activate_roots:
  "map_r (activate_root role k n) rs = Inr rs' \<longleftrightarrow>
     rs' = map (activated role k) rs \<and> (\<forall>r\<in>set rs. tr_role r = role \<and> tr_key_id r \<noteq> k \<and> tr_status r = Active \<longrightarrow> tr_generation r < n)"
proof (induction rs arbitrary: rs')
  case (Cons r rs)
  have "activate_root role k n r = Inr x \<longleftrightarrow> x = activated role k r
      \<and> (tr_role r = role \<and> tr_key_id r \<noteq> k \<and> tr_status r = Active \<longrightarrow> tr_generation r < n)" for x
    by (auto simp: activate_root_def activated_def)
  then show ?case by (auto simp: bind_r_Inr_iff Cons.IH)
qed auto

lemma activate_result:
  assumes "activate L g role k = Inr g'"
  obtains c where "find_root g role k = Some c" "tr_status c = Pending" "dual_control_satisfied c" "register_ok L g'"
    "rg_roots g' = map (activated role k) (rg_roots g)"
  using assms by (auto simp: activate_def bind_r_Inr_iff activate_roots checked_iff split: option.splits if_splits)

lemma retire_result:
  assumes "retire L g role k = Inr g'"
  obtains c where "find_root g role k = Some c" "tr_status c = Active" "register_ok L g'" "g' = set_status role k (\<lambda>r. r\<lparr>tr_status := Retired\<rparr>) g"
  using assms by (auto simp: retire_def checked_iff split: option.splits if_splits)

lemma revoke_result:
  assumes "revoke L g role k reason seal = Inr g'"
  obtains c where "find_root g role k = Some c" "tr_status c \<noteq> Revoked" "register_ok L g'"
    "g' = set_status role k (\<lambda>r. r\<lparr>tr_status := Revoked, tr_reason := Some reason\<rparr>) g"
  using assms by (auto simp: revoke_def checked_iff split: option.splits if_splits)

text \<open>The only root a step changes on purpose is the one it names.\<close>

lemma named_root:
  assumes "register_ok L g" and "find_root g role k = Some c" and "r \<in> set (rg_roots g)" and "tr_role r = role" and "tr_key_id r = k"
  shows "r = c"
  using find_root_Some [OF assms(2)] root_name_unique [OF assms(1,3), of c] assms(4,5) by (simp add: root_name_def)

lemma set_status_evolves:
  assumes "register_ok L g" and "find_root g role k = Some c" and "evolves c (f c)"
  shows "register_evolves g (set_status role k f g)"
  unfolding register_evolves_def
proof
  fix r assume r: "r \<in> set (rg_roots g)"
  let ?r = "if tr_role r = role \<and> tr_key_id r = k then f r else r"
  have "evolves r ?r" using named_root [OF assms(1,2) r] assms(3) by auto
  moreover have "?r \<in> set (rg_roots (set_status role k f g))" using r by (auto simp: set_status_def)
  ultimately show "\<exists>r'\<in>set (rg_roots (set_status role k f g)). evolves r r'" by blast
qed

lemma activated_evolves:
  assumes "register_ok L g" and "find_root g role k = Some c" and "tr_status c = Pending" and "r \<in> set (rg_roots g)"
  shows "evolves r (activated role k r)"
proof -
  have "evolves r (r\<lparr>tr_status := Active\<rparr>)" if "tr_role r = role" "tr_key_id r = k"
    using named_root [OF assms(1,2,4) that] assms(3) by (simp add: evolves_def same_key_def less_eq_key_status_def)
  moreover have "evolves r (r\<lparr>tr_status := Retired\<rparr>)" if "tr_status r = Active"
    using that by (simp add: evolves_def same_key_def less_eq_key_status_def)
  ultimately show ?thesis by (simp add: activated_def)
qed

interpretation expand_step: custody_step L "\<lambda>g. expand L g n" "{}" for L n
proof unfold_locales
  fix g g' assume g: "register_ok L g" and e: "expand L g n = Inr g'"
  show "register_ok L g'" using expand_result [OF e] by simp
  show "register_evolves g g'" using expand_result [OF e] evolves_refl unfolding register_evolves_def by (metis Un_iff set_append)
  show "r \<in> set (rg_roots g)" if "r \<in> set (rg_roots g')" "tr_status r = Revoked" for r using that expand_result [OF e] by auto
qed

interpretation activate_step: custody_step L "\<lambda>g. activate L g role k" "{}" for L role k
proof unfold_locales
  fix g g' assume g: "register_ok L g" and e: "activate L g role k = Inr g'"
  obtain c where c: "find_root g role k = Some c" "tr_status c = Pending" "register_ok L g'" "rg_roots g' = map (activated role k) (rg_roots g)"
    by (rule activate_result [OF e])
  show "register_ok L g'" by (rule c)
  show "register_evolves g g'" using activated_evolves [OF g c(1,2)] c(4) by (auto simp: register_evolves_def)
  show "r \<in> set (rg_roots g)" if "r \<in> set (rg_roots g')" "tr_status r = Revoked" for r
    using that c(4) by (auto simp: activated_def split: if_splits)
qed

interpretation retire_step: custody_step L "\<lambda>g. retire L g role k" "{}" for L role k
proof unfold_locales
  fix g g' assume g: "register_ok L g" and e: "retire L g role k = Inr g'"
  obtain c where c: "find_root g role k = Some c" "tr_status c = Active" "register_ok L g'" "g' = set_status role k (\<lambda>r. r\<lparr>tr_status := Retired\<rparr>) g"
    by (rule retire_result [OF e])
  show "register_ok L g'" by (rule c)
  have "evolves c (c\<lparr>tr_status := Retired\<rparr>)" using c(2) by (simp add: evolves_def same_key_def less_eq_key_status_def)
  then show "register_evolves g g'" unfolding c(4) by (rule set_status_evolves [OF g c(1)])
  show "r \<in> set (rg_roots g)" if "r \<in> set (rg_roots g')" "tr_status r = Revoked" for r
    using that by (auto simp: c(4) set_status_def split: if_splits)
qed

interpretation revoke_step: custody_step L "\<lambda>g. revoke L g role k reason seal" "{(role, k)}" for L role k reason seal
proof unfold_locales
  fix g g' assume g: "register_ok L g" and e: "revoke L g role k reason seal = Inr g'"
  obtain c where c: "find_root g role k = Some c" "tr_status c \<noteq> Revoked" "register_ok L g'"
    "g' = set_status role k (\<lambda>r. r\<lparr>tr_status := Revoked, tr_reason := Some reason\<rparr>) g"
    by (rule revoke_result [OF e])
  show "register_ok L g'" by (rule c)
  have "evolves c (c\<lparr>tr_status := Revoked, tr_reason := Some reason\<rparr>)" using c(2) by (simp add: evolves_def same_key_def)
  then show "register_evolves g g'" unfolding c(4) by (rule set_status_evolves [OF g c(1)])
  show "r \<in> set (rg_roots g)" if "r \<in> set (rg_roots g')" "root_name r \<notin> {(role, k)}" for r
    using that by (auto simp: c(4) set_status_def root_name_def split: if_splits)
qed

section \<open>Sequences of operations\<close>

datatype custody_op =
    Expand trust_root
  | Activate key_role bytes
  | Retire key_role bytes
  | Revoke key_role bytes bytes bool

fun run_op :: "ed25519 \<Rightarrow> custody_op \<Rightarrow> register \<Rightarrow> key_error + register" where
  "run_op L (Expand n) g = expand L g n"
| "run_op L (Activate role k) g = activate L g role k"
| "run_op L (Retire role k) g = retire L g role k"
| "run_op L (Revoke role k reason seal) g = revoke L g role k reason seal"

fun revokes :: "custody_op \<Rightarrow> (key_role \<times> bytes) set" where
  "revokes (Revoke role k reason seal) = {(role, k)}"
| "revokes op = {}"

lemma run_op_eq:
  "run_op L (Expand n) = (\<lambda>g. expand L g n)" "run_op L (Activate role k) = (\<lambda>g. activate L g role k)"
  "run_op L (Retire role k) = (\<lambda>g. retire L g role k)" "run_op L (Revoke role k reason seal) = (\<lambda>g. revoke L g role k reason seal)"
  by (simp_all add: fun_eq_iff)

lemma run_op_step: "custody_step L (run_op L x) (revokes x)"
  by (cases x) (simp_all add: run_op_eq expand_step.custody_step_axioms activate_step.custody_step_axioms
    retire_step.custody_step_axioms revoke_step.custody_step_axioms del: run_op.simps)

text \<open>A sequence of steps is a step.\<close>

interpretation custody_ops: custody_step L "fold_r (run_op L) xs" "\<Union> (revokes ` set xs)" for L xs
proof unfold_locales
  fix g g' assume g: "register_ok L g" and e: "fold_r (run_op L) xs g = Inr g'"
  have "register_ok L g' \<and> register_evolves g g'
    \<and> (\<forall>r\<in>set (rg_roots g'). tr_status r = Revoked \<longrightarrow> root_name r \<notin> \<Union> (revokes ` set xs) \<longrightarrow> r \<in> set (rg_roots g))"
    using g e
  proof (induction xs arbitrary: g)
    case (Cons x xs)
    then obtain u where u: "run_op L x g = Inr u" "fold_r (run_op L) xs u = Inr g'" by (auto simp: bind_r_Inr_iff)
    note s = custody_step.valid [OF run_op_step Cons.prems(1) u(1)] custody_step.forward [OF run_op_step Cons.prems(1) u(1)]
      custody_step.spares [OF run_op_step Cons.prems(1) u(1)]
    have ih: "register_ok L g'" "register_evolves u g'"
      "\<forall>r\<in>set (rg_roots g'). tr_status r = Revoked \<longrightarrow> root_name r \<notin> \<Union> (revokes ` set xs) \<longrightarrow> r \<in> set (rg_roots u)"
      using Cons.IH [OF s(1) u(2)] by auto
    show ?case using ih s register_evolves_trans by auto
  qed simp
  then show "register_ok L g'" "register_evolves g g'"
    "\<And>r. r \<in> set (rg_roots g') \<Longrightarrow> tr_status r = Revoked \<Longrightarrow> root_name r \<notin> \<Union> (revokes ` set xs) \<Longrightarrow> r \<in> set (rg_roots g)"
    by auto
qed

section \<open>What a directory accepts\<close>

abbreviation directory :: "register \<Rightarrow> key_role \<Rightarrow> key_directory" where
  "directory g role \<equiv> \<lparr>kd_register = g, kd_role = role\<rparr>"

definition accepts :: "ed25519 \<Rightarrow> trust_root \<Rightarrow> bytes \<Rightarrow> bytes \<Rightarrow> bool" where
  "accepts L r message signature \<longleftrightarrow>
     length signature = 64 \<and> (\<exists>vk. verifying_key L r = Inr vk \<and> ed_verify L vk message signature = None)"

lemma verify_against_iff: "verify_against L r m s = Inr () \<longleftrightarrow> accepts L r m s"
  by (auto simp: verify_against_def accepts_def bind_r_Inr_iff split: algorithm.splits option.splits)

lemma accepts_same_key: "same_key r r' \<Longrightarrow> accepts L r' m s = accepts L r m s"
  by (simp add: accepts_def same_key_verifying)

lemma resolve_iff: "resolve_key (directory g role) k = Inr r \<longleftrightarrow> find_root g role k = Some r \<and> verifies (tr_status r)"
  by (auto simp: resolve_key_def verifies_def split: option.splits key_status.splits)

lemma directory_verify_iff:
  "directory_verify L (directory g role) k alg m s = Inr r \<longleftrightarrow>
     find_root g role k = Some r \<and> verifies (tr_status r) \<and> alg = algorithm_str (tr_algorithm r) \<and> accepts L r m s"
proof -
  have "directory_verify L (directory g role) k alg m s = Inr r \<longleftrightarrow>
      resolve_key (directory g role) k = Inr r \<and> alg = algorithm_str (tr_algorithm r) \<and> verify_against L r m s = Inr ()"
    by (auto simp: directory_verify_def bind_r_Inr_iff split: if_splits)
  then show ?thesis by (simp add: resolve_iff verify_against_iff)
qed

lemma set_trusted: "set (trusted (directory g role)) = {r \<in> set (rg_roots g). tr_role r = role \<and> verifies (tr_status r)}"
  by (auto simp: trusted_def in_role_def)

lemma verify_any_Inr:
  "verify_any L (directory g role) m s = Inr r \<Longrightarrow>
     r \<in> set (rg_roots g) \<and> tr_role r = role \<and> verifies (tr_status r) \<and> accepts L r m s"
proof -
  assume "verify_any L (directory g role) m s = Inr r"
  then have f: "List.find (\<lambda>r. verify_against L r m s = Inr ()) (trusted (directory g role)) = Some r"
    by (auto simp: verify_any_def split: option.splits)
  then have "r \<in> set (trusted (directory g role))" "accepts L r m s" by (auto simp: find_Some_iff verify_against_iff)
  then show ?thesis by (simp add: set_trusted)
qed

lemma verify_any_accepts:
  assumes "r \<in> set (rg_roots g)" and "tr_role r = role" and "verifies (tr_status r)" and "accepts L r m s"
  shows "\<exists>r'. verify_any L (directory g role) m s = Inr r'"
proof (cases "verify_any L (directory g role) m s")
  case (Inl e)
  then have "List.find (\<lambda>r. verify_against L r m s = Inr ()) (trusted (directory g role)) = None"
    by (auto simp: verify_any_def split: option.splits)
  then have "\<not> accepts L r m s" using assms(1-3) by (auto simp: find_None_iff verify_against_iff set_trusted)
  then show ?thesis using assms(4) by simp
qed simp

lemma signing_root_iff:
  assumes "register_ok L g"
  shows "signing_root (directory g role) = Inr r \<longleftrightarrow> r \<in> set (rg_roots g) \<and> tr_role r = role \<and> tr_status r = Active"
proof -
  let ?find = "List.find (\<lambda>r. signs (tr_status r)) (in_role g role)"
  have sound: "r \<in> set (rg_roots g) \<and> tr_role r = role \<and> tr_status r = Active" if "?find = Some r" for r
  proof -
    have "r \<in> set (in_role g role) \<and> signs (tr_status r)" using that by (auto simp: find_Some_iff)
    then show ?thesis by (simp add: in_role_def signs_def)
  qed
  have one: "r = c" if "r \<in> set (active_in g role)" "c \<in> set (active_in g role)" for r c
  proof -
    have "length (active_in g role) \<le> 1" using assms by (simp add: register_ok_def)
    then show ?thesis using that by (cases "active_in g role") auto
  qed
  show ?thesis
  proof (cases ?find)
    case None
    then have "\<not> (r \<in> set (rg_roots g) \<and> tr_role r = role \<and> tr_status r = Active)" by (auto simp: find_None_iff in_role_def signs_def)
    then show ?thesis using None by (simp add: signing_root_def)
  next
    case (Some c)
    then show ?thesis using sound [OF Some] one [of r c] by (auto simp: signing_root_def active_in_def)
  qed
qed

section \<open>Carrying a rotation through\<close>

lemma fold_max_bound: "(x :: u64) \<in> set xs \<or> x = a \<Longrightarrow> x \<le> fold max xs a"
proof (induction xs arbitrary: a x)
  case (Cons y ys)
  show ?case
  proof (cases "x \<in> set ys")
    case False
    then have "x \<le> max y a" using Cons.prems by auto
    also have "\<dots> \<le> fold max ys (max y a)" by (rule Cons.IH) simp
    finally show ?thesis by simp
  qed (use Cons.IH in simp)
qed auto

lemma highest_generation_bound: "r \<in> set (rg_roots g) \<Longrightarrow> tr_role r = role \<Longrightarrow> tr_generation r \<le> highest_generation g role"
  unfolding highest_generation_def by (rule fold_max_bound) (auto simp: in_role_def)

lemma highest_generation_less:
  assumes "\<And>r. r \<in> set (rg_roots g) \<Longrightarrow> tr_role r = role \<Longrightarrow> tr_generation r < n" and "0 < n"
  shows "highest_generation g role < n"
proof -
  have "fold max xs a < n" if "\<forall>x\<in>set xs. x < n" "a < n" for xs :: "u64 list" and a using that by (induction xs arbitrary: a) simp_all
  then show ?thesis using assms by (simp add: highest_generation_def in_role_def)
qed

lemma one_named:
  assumes "distinct (map f xs)"
  shows "length (filter (\<lambda>x. f x = y) xs) \<le> 1"
  using assms
proof (induction xs)
  case (Cons x xs)
  have "filter (\<lambda>z. f z = y) xs = []" if "f x = y" using that Cons.prems by (simp add: filter_empty_conv) (metis image_eqI)
  then show ?case using Cons by auto
qed simp

lemma expand_Inr:
  assumes g: "register_ok L g" and n: "root_ok L (n\<lparr>tr_status := Pending, tr_reason := None\<rparr>)"
    and fresh: "find_root g (tr_role n) (tr_key_id n) = None" and newer: "highest_generation g (tr_role n) < tr_generation n"
  shows "expand L g n = Inr (g\<lparr>rg_roots := rg_roots g @ [n\<lparr>tr_status := Pending, tr_reason := None\<rparr>]\<rparr>)"
proof -
  let ?g = "g\<lparr>rg_roots := rg_roots g @ [n\<lparr>tr_status := Pending, tr_reason := None\<rparr>]\<rparr>"
  have "distinct (map root_name (rg_roots ?g))"
    using g fresh by (auto simp: register_ok_def find_root_None root_name_def)
  moreover have "active_in ?g role = active_in g role" for role by (simp add: active_in_def)
  ultimately have "register_ok L ?g" using g n by (simp add: register_ok_def)
  then show ?thesis using fresh newer by (simp add: expand_def checked_iff)
qed

lemma activated_sel [simp]:
  "tr_role (activated role k r) = tr_role r" "tr_key_id (activated role k r) = tr_key_id r" "tr_reason (activated role k r) = tr_reason r"
  "tr_ceremony (activated role k r) = tr_ceremony r" "verifying_key L (activated role k r) = verifying_key L r"
  "root_name (activated role k r) = root_name r"
  by (auto simp: activated_def verifying_key_def root_name_def cong: option.case_cong)

lemma activate_Inr:
  assumes g: "register_ok L g" and c: "find_root g role k = Some c" "tr_status c = Pending" "dual_control_satisfied c"
    and newest: "\<And>r. r \<in> set (rg_roots g) \<Longrightarrow> tr_role r = role \<Longrightarrow> tr_status r = Active \<Longrightarrow> tr_generation r < tr_generation c"
  shows "activate L g role k = Inr (g\<lparr>rg_roots := map (activated role k) (rg_roots g)\<rparr>)"
proof -
  let ?g = "g\<lparr>rg_roots := map (activated role k) (rg_roots g)\<rparr>"
  have cand: "r = c" if "r \<in> set (rg_roots g)" "tr_role r = role" "tr_key_id r = k" for r
    using named_root [OF g c(1) that] .
  have ok: "root_ok L (activated role k r)" if r: "r \<in> set (rg_roots g)" for r
  proof -
    have "root_ok L r" using g r by (simp add: register_ok_def)
    then show ?thesis using cand [OF r] c(2,3) unfolding root_ok_def by (auto simp: activated_def dual_control_satisfied_def verifying_key_def cong: option.case_cong)
  qed
  have "map root_name (rg_roots ?g) = map root_name (rg_roots g)" by simp
  then have distinct: "distinct (map root_name (rg_roots ?g))" using g unfolding register_ok_def by metis
  have "length (active_in ?g role') \<le> 1" for role'
  proof (cases "role' = role")
    case True
    have "active_in ?g role = filter (\<lambda>r. root_name r = (role, k)) (rg_roots ?g)"
      unfolding active_in_def using cand c(2) by (intro filter_cong) (auto simp: activated_def root_name_def)
    then show ?thesis using one_named [OF distinct] True by simp
  next
    case False
    have "filter (\<lambda>r. tr_role r = role' \<and> tr_status r = Active) (map (activated role k) rs)
      = filter (\<lambda>r. tr_role r = role' \<and> tr_status r = Active) rs" for rs
      using False by (induction rs) (auto simp: activated_def)
    then have "active_in ?g role' = active_in g role'" by (simp add: active_in_def)
    then show ?thesis using g by (simp add: register_ok_def)
  qed
  then have "register_ok L ?g" using g ok distinct by (auto simp: register_ok_def)
  moreover have "map_r (activate_root role k (tr_generation c)) (rg_roots g) = Inr (map (activated role k) (rg_roots g))"
    using newest by (auto simp: activate_roots)
  ultimately show ?thesis using c by (simp add: activate_def checked_iff)
qed

lemma revoke_Inr:
  assumes g: "register_ok L g" and c: "find_root g role k = Some c" "tr_status c \<noteq> Revoked" "dual_control_satisfied c"
    and reason: "\<not> blank reason" and other: "s \<in> set (rg_roots g)" "tr_role s = role" "tr_key_id s \<noteq> k" "verifies (tr_status s)"
  shows "revoke L g role k reason seal = Inr (set_status role k (\<lambda>r. r\<lparr>tr_status := Revoked, tr_reason := Some reason\<rparr>) g)"
proof -
  let ?f = "\<lambda>r. r\<lparr>tr_status := Revoked, tr_reason := Some reason\<rparr>"
  let ?g = "set_status role k ?f g"
  have cand: "r = c" if "r \<in> set (rg_roots g)" "tr_role r = role" "tr_key_id r = k" for r
    using named_root [OF g c(1) that] .
  have ok: "root_ok L (if tr_role r = role \<and> tr_key_id r = k then ?f r else r)" if r: "r \<in> set (rg_roots g)" for r
  proof -
    have "root_ok L r" using g r by (simp add: register_ok_def)
    then show ?thesis using cand [OF r] c(3) unfolding root_ok_def by (auto simp: dual_control_satisfied_def verifying_key_def cong: option.case_cong)
  qed
  have names: "map root_name (rg_roots ?g) = map root_name (rg_roots g)" by (auto simp: set_status_def root_name_def)
  have "length (active_in ?g role') \<le> length (active_in g role')" for role'
  proof -
    have "length (filter (\<lambda>r. tr_role r = role' \<and> tr_status r = Active) (map (\<lambda>r. if tr_role r = role \<and> tr_key_id r = k then ?f r else r) rs))
      \<le> length (filter (\<lambda>r. tr_role r = role' \<and> tr_status r = Active) rs)" for rs
      by (induction rs) auto
    then show ?thesis by (simp add: active_in_def set_status_def)
  qed
  then have "length (active_in ?g role') \<le> 1" for role' using g le_trans unfolding register_ok_def by blast
  moreover have "distinct (map root_name (rg_roots ?g))" unfolding names using g by (simp add: register_ok_def)
  moreover have "\<forall>r\<in>set (rg_roots ?g). root_ok L r" using ok by (simp add: set_status_def del: if_image_distrib)
  ultimately have "register_ok L ?g" using g by (simp add: register_ok_def set_status_def)
  moreover have "survivors g role k \<noteq> 0" using other by (auto simp: survivors_def in_role_def filter_empty_conv)
  ultimately show ?thesis using c reason by (simp add: revoke_def checked_iff)
qed

section \<open>Hex\<close>

lemma hex_digit_value: "n < 16 \<Longrightarrow> hex_value (hex_digit n) = Some n"
  by (auto simp: hex_digit_def hex_value_def)

lemma hex_digit_plain:
  assumes "n < 16"
  shows "\<not> tail_byte (hex_digit n) \<and> \<not> blank [hex_digit n]"
  using assms by (auto simp: hex_digit_def tail_byte_def)

lemma nibbles [simp]: "nat_of_byte b div 16 < 16" "nat_of_byte b mod 16 < 16"
  using nat_of_byte_less [of b] by (simp_all add: less_mult_imp_div_less)

lemma byte_of_nat_of_byte [simp]: "byte_of (nat_of_byte b) = b"
  by (simp add: byte_of_def nat_of_byte_def)

lemma hex_pairs_to_hex: "hex_pairs (to_hex bs) = Some bs"
proof (induction bs)
  case (Cons b bs)
  show ?case using Cons by (simp add: to_hex_def hex_digit_value)
qed (simp add: to_hex_def)

lemma text_chars_plain: "\<forall>c\<in>set s. \<not> tail_byte c \<Longrightarrow> text_chars s = map (\<lambda>c. [c]) s"
proof (induction s)
  case (Cons c s)
  have "takeWhile tail_byte s = []" "dropWhile tail_byte s = s" using Cons.prems by (cases s; simp)+
  then show ?case using Cons by simp
qed simp

lemma trim_plain:
  assumes "\<forall>c\<in>set s. \<not> tail_byte c \<and> \<not> blank [c]"
  shows "trim s = s"
proof -
  have d: "dropWhile blank xs = xs" if "\<forall>x\<in>set xs. \<not> blank x" for xs using that by (cases xs) auto
  have c: "text_chars s = map (\<lambda>c. [c]) s" using assms by (intro text_chars_plain) simp
  have "\<forall>x\<in>set (text_chars s). \<not> blank x" using assms c by auto
  then have "trim s = concat (text_chars s)" by (simp add: trim_def d)
  then show ?thesis by (simp add: c)
qed

lemma to_hex_plain: "c \<in> set (to_hex bs) \<Longrightarrow> \<not> tail_byte c \<and> \<not> blank [c]"
proof -
  assume "c \<in> set (to_hex bs)"
  then obtain b where "c = hex_digit (nat_of_byte b div 16) \<or> c = hex_digit (nat_of_byte b mod 16)" by (auto simp: to_hex_def)
  then show ?thesis using hex_digit_plain nibbles by blast
qed

lemma decode_hex_to_hex: "length bs = n \<Longrightarrow> decode_hex n (to_hex bs) = Some bs"
proof -
  assume "length bs = n"
  moreover have "length (to_hex bs) = 2 * length bs" by (induction bs) (simp_all add: to_hex_def)
  moreover have "trim (to_hex bs) = to_hex bs" using to_hex_plain by (intro trim_plain) blast
  ultimately show ?thesis by (simp add: decode_hex_def hex_pairs_to_hex)
qed

end
