(* ===== verification/LoomKeysProps.thy ===== *)
theory LoomKeysProps
  imports LoomKeysLaws
begin

text \<open>
  The properties of custody (\<open>crates/loom-keys\<close>): every register a rotation can reach is valid and its
  keys only move forward, a revoked key stays refused, nothing but a revocation takes trust away, a rotation can
  always be carried through, and what a signer signs the directory accepts.
\<close>

section \<open>A concrete custody\<close>

text \<open>A signature scheme in which a signature is the key, padded to 64 bytes, and the register of the tests.\<close>

definition toy_ed25519 :: ed25519 where
  "toy_ed25519 = \<lparr>ed_point = (\<lambda>_. None), ed_verify = (\<lambda>vk m s. if s = vk @ vk then None else Some ''refused''),
     ed_public = (\<lambda>sk. sk), ed_sign = (\<lambda>sk m. sk @ sk)\<rparr>"

definition toy_root :: "bytes \<Rightarrow> key_status \<Rightarrow> u64 \<Rightarrow> char \<Rightarrow> trust_root" where
  "toy_root k s n c =
     \<lparr>tr_key_id = k, tr_role = BackupRoot, tr_algorithm = Ed25519, tr_public_key = replicate 64 c, tr_backend = Software, tr_status = s,
      tr_generation = n,
      tr_ceremony = \<lparr>cm_reference = ''C1'', cm_approvals = [\<lparr>ap_approver = ''a'', ap_at = 0\<rparr>, \<lparr>ap_approver = ''b'', ap_at = 0\<rparr>]\<rparr>,
      tr_reason = (if s = Revoked then Some ''lost'' else None)\<rparr>"

definition toy_register :: register where
  "toy_register = \<lparr>rg_schema = 1, rg_roots = [toy_root ''q3'' Active 1 (CHR ''1'')]\<rparr>"

lemma toy_chars: "c \<in> {CHR ''1'', CHR ''2''} \<Longrightarrow> text_chars (replicate n c) = replicate n [c]"
  by (induction n) (auto simp: tail_byte_def nat_of_byte_def)

lemma dropWhile_replicate_False: "\<not> P x \<Longrightarrow> dropWhile P (replicate n x) = replicate n x"
  by (cases n) simp_all

lemma toy_trim: "c \<in> {CHR ''1'', CHR ''2''} \<Longrightarrow> trim (replicate n c) = replicate n c"
  using toy_chars [of c n] by (auto simp: trim_def dropWhile_replicate_False nat_of_byte_def concat_replicate_single)

lemma toy_hex: "hex_value c = Some v \<Longrightarrow> hex_pairs (replicate (2 * n) c) = Some (replicate n (byte_of (17 * v)))"
  by (induction n) (simp_all add: numeral_2_eq_2)

lemma toy_verifying:
  assumes "c \<in> {CHR ''1'', CHR ''2''}"
  shows "\<exists>vk. length vk = 32 \<and> verifying_key toy_ed25519 (toy_root k s n c) = Inr vk"
proof -
  obtain v where "hex_value c = Some v" using assms by (auto simp: hex_value_def nat_of_byte_def)
  then have "decode_hex 32 (replicate 64 c) = Some (replicate 32 (byte_of (17 * v)))"
    using toy_hex [of c v 32] toy_trim [OF assms, of 64] by (simp add: decode_hex_def)
  then show ?thesis by (simp add: verifying_key_def toy_root_def toy_ed25519_def)
qed

lemma toy_root_ok:
  assumes "c \<in> {CHR ''1'', CHR ''2''}" and "k = ''q3'' \<or> k = ''q4''"
  shows "root_ok toy_ed25519 (toy_root k s n c)"
proof -
  obtain vk where "verifying_key toy_ed25519 (toy_root k s n c) = Inr vk" using toy_verifying [OF assms(1)] by blast
  moreover have "\<not> blank k \<and> length k \<le> 128" using assms(2) by (auto simp: nat_of_byte_def)
  moreover have "dual_control_satisfied (toy_root k s n c)"
    by (simp add: dual_control_satisfied_def DUAL_CONTROL_def approvers_def sort_dedup_def toy_root_def)
  ultimately show ?thesis by (simp add: root_ok_def) (simp add: toy_root_def nat_of_byte_def)
qed

lemma toy_ok: "register_ok toy_ed25519 toy_register"
  using toy_root_ok [of "CHR ''1''" "''q3''"]
  by (simp add: register_ok_def toy_register_def REGISTER_SCHEMA_VERSION_def active_in_def)

text \<open>The same custody after a rotation, and one signature of each key.\<close>

definition toy_rotated :: register where
  "toy_rotated = \<lparr>rg_schema = 1, rg_roots = [toy_root ''q3'' Retired 1 (CHR ''1''), toy_root ''q4'' Active 2 (CHR ''2'')]\<rparr>"

lemma toy_rotated_ok: "register_ok toy_ed25519 toy_rotated"
  using toy_root_ok [of "CHR ''1''" "''q3''"] toy_root_ok [of "CHR ''2''" "''q4''"]
  by (simp add: register_ok_def toy_rotated_def REGISTER_SCHEMA_VERSION_def active_in_def) (simp add: root_name_def toy_root_def)

lemma toy_dual: "dual_control_satisfied (toy_root k s n c)"
  by (simp add: dual_control_satisfied_def DUAL_CONTROL_def approvers_card toy_root_def)

lemma toy_revoke:
  "revoke toy_ed25519 toy_rotated BackupRoot ''q3'' ''lost'' False
    = Inr (set_status BackupRoot ''q3'' (\<lambda>r. r\<lparr>tr_status := Revoked, tr_reason := Some ''lost''\<rparr>) toy_rotated)"
proof (rule revoke_Inr [OF toy_rotated_ok])
  show "find_root toy_rotated BackupRoot ''q3'' = Some (toy_root ''q3'' Retired 1 (CHR ''1''))"
    by (simp add: find_root_def in_role_def toy_rotated_def toy_root_def)
  show "toy_root ''q4'' Active 2 (CHR ''2'') \<in> set (rg_roots toy_rotated)" by (simp add: toy_rotated_def)
qed (simp_all add: toy_dual, simp_all add: toy_root_def verifies_def nat_of_byte_def)

lemma toy_accepts: "c \<in> {CHR ''1'', CHR ''2''} \<Longrightarrow> \<exists>sig. accepts toy_ed25519 (toy_root k s n c) m sig"
proof -
  assume "c \<in> {CHR ''1'', CHR ''2''}"
  then obtain vk where "length vk = 32" "verifying_key toy_ed25519 (toy_root k s n c) = Inr vk" using toy_verifying by blast
  then have "accepts toy_ed25519 (toy_root k s n c) m (vk @ vk)" unfolding accepts_def by (simp add: toy_ed25519_def)
  then show ?thesis by blast
qed

section \<open>Registers\<close>

text \<open>C27: custody is well typed: from a register that validates, every sequence of rotation
  steps that goes through ends in one that validates: at most one active key per role, at least two
  distinct approvers behind every active or revoked key, a reason exactly for the revoked ones.  No key is lost,
  renamed or given other material, and its status only moves forward (staged, active, retired,
  revoked).\<close>

theorem rotation_keeps_register:
  assumes ok: "validate L g = Inr ()" and run: "fold_r (run_op L) xs g = Inr g'"
  shows "validate L g' = Inr ()
    \<and> (\<forall>role. length (filter (\<lambda>r. tr_role r = role \<and> tr_status r = Active) (rg_roots g')) \<le> 1)
    \<and> (\<forall>r\<in>set (rg_roots g'). (tr_status r = Active \<or> tr_status r = Revoked \<longrightarrow> 2 \<le> card (ap_approver ` set (cm_approvals (tr_ceremony r))))
          \<and> (tr_status r = Revoked \<longleftrightarrow> tr_reason r \<noteq> None))
    \<and> (\<forall>r\<in>set (rg_roots g). \<exists>r'\<in>set (rg_roots g'). same_key r r' \<and> tr_status r \<le> tr_status r')"
proof -
  have g: "register_ok L g" using ok by (simp add: validate_iff)
  have g': "register_ok L g'" by (rule custody_ops.valid [OF g run])
  have two: "2 \<le> card (ap_approver ` set (cm_approvals (tr_ceremony r)))" if "dual_control_satisfied r" for r
    using that by (simp add: dual_control_satisfied_def DUAL_CONTROL_def approvers_card)
  have "\<forall>r\<in>set (rg_roots g). \<exists>r'\<in>set (rg_roots g'). same_key r r' \<and> tr_status r \<le> tr_status r'"
    using custody_ops.forward [OF g run] by (auto simp: register_evolves_def evolves_def)
  moreover have "validate L g' = Inr ()" using g' by (simp add: validate_iff)
  ultimately show ?thesis using g' two by (auto simp: register_ok_def root_ok_def active_in_def)
qed

theorem rotation_keeps_register_witness:
  "\<exists>g'. fold_r (run_op toy_ed25519) [Expand (toy_root ''q4'' Pending 2 (CHR ''2''))] toy_register = Inr g'
     \<and> validate toy_ed25519 g' = Inr ()"
proof -
  have "expand toy_ed25519 toy_register (toy_root ''q4'' Pending 2 (CHR ''2''))
      = Inr (toy_register\<lparr>rg_roots := rg_roots toy_register @ [toy_root ''q4'' Pending 2 (CHR ''2'')\<lparr>tr_status := Pending, tr_reason := None\<rparr>]\<rparr>)"
  proof (rule expand_Inr [OF toy_ok])
    show "root_ok toy_ed25519 (toy_root ''q4'' Pending 2 (CHR ''2'')\<lparr>tr_status := Pending, tr_reason := None\<rparr>)"
      using toy_root_ok [of "CHR ''2''" "''q4''" Pending 2] by (simp add: toy_root_def)
  qed (simp_all add: toy_register_def toy_root_def find_root_def in_role_def highest_generation_def)
  then have run: "\<exists>g'. fold_r (run_op toy_ed25519) [Expand (toy_root ''q4'' Pending 2 (CHR ''2''))] toy_register = Inr g'" by simp
  have "validate toy_ed25519 toy_register = Inr ()" using toy_ok by (simp add: validate_iff)
  from rotation_keeps_register [OF this] run show ?thesis by blast
qed

lemma revoked_resolution:
  assumes rev: "revoke L g role k reason seal = Inr g1" and run: "fold_r (run_op L) xs g1 = Inr g2"
  shows "register_ok L g2 \<and> (\<exists>c. find_root g2 role k = Some c \<and> tr_status c = Revoked
    \<and> resolve_key (directory g2 role) k = Inl (KeyRevoked k (tr_generation c) reason))"
proof -
  obtain c where c: "find_root g role k = Some c" "register_ok L g1"
    "g1 = set_status role k (\<lambda>r. r\<lparr>tr_status := Revoked, tr_reason := Some reason\<rparr>) g" by (rule revoke_result [OF rev])
  let ?c = "c\<lparr>tr_status := Revoked, tr_reason := Some reason\<rparr>"
  have "?c \<in> set (rg_roots g1)" using find_root_Some [OF c(1)] by (force simp: c(3) set_status_def)
  then have in2: "?c \<in> set (rg_roots g2)" by (intro custody_ops.revoked_stays [OF c(2) run]) simp_all
  have g2: "register_ok L g2" by (rule custody_ops.valid [OF c(2) run])
  have f: "find_root g2 role k = Some ?c" using find_root_unique [OF g2 in2] find_root_Some [OF c(1)] by simp
  then have "resolve_key (directory g2 role) k = Inl (KeyRevoked k (tr_generation c) reason)"
    using find_root_Some [OF c(1)] by (simp add: resolve_key_def)
  then show ?thesis using g2 f by simp
qed

text \<open>C28: a revoked key stays refused: once a revocation has gone through, no sequence of further steps
  makes the key verify again: the directory of its role answers every signature that names it with the
  revocation and its recorded reason, and the search over unnamed keys never offers it.\<close>

theorem revoked_key_stays_refused:
  assumes rev: "revoke L g role k reason seal = Inr g1" and run: "fold_r (run_op L) xs g1 = Inr g2"
  shows "(\<exists>n. resolve_key (directory g2 role) k = Inl (KeyRevoked k n reason)
        \<and> (\<forall>alg m s. directory_verify L (directory g2 role) k alg m s = Inl (KeyRevoked k n reason)))
    \<and> (\<forall>m s r. verify_any L (directory g2 role) m s = Inr r \<longrightarrow> tr_key_id r \<noteq> k)"
proof -
  obtain c where c: "register_ok L g2" "find_root g2 role k = Some c" "tr_status c = Revoked"
    "resolve_key (directory g2 role) k = Inl (KeyRevoked k (tr_generation c) reason)" using revoked_resolution [OF rev run] by blast
  have "tr_key_id r \<noteq> k" if v: "verify_any L (directory g2 role) m s = Inr r" for m s r
  proof
    assume "tr_key_id r = k"
    then have "find_root g2 role k = Some r" using verify_any_Inr [OF v] find_root_unique [OF c(1), of r] by simp
    then show False using c(2,3) verify_any_Inr [OF v] by (auto simp: verifies_def)
  qed
  then show ?thesis using c(4) by (auto simp: directory_verify_def)
qed

theorem revoked_key_stays_refused_witness:
  "\<exists>g1 n. revoke toy_ed25519 toy_rotated BackupRoot ''q3'' ''lost'' False = Inr g1
     \<and> resolve_key (directory g1 BackupRoot) ''q3'' = Inl (KeyRevoked ''q3'' n ''lost'')"
proof -
  have "fold_r (run_op toy_ed25519) [] g = Inr g" for g by simp
  from revoked_key_stays_refused [OF toy_revoke this] show ?thesis using toy_revoke by blast
qed

section \<open>Trust is only taken by a revocation\<close>

text \<open>C29: a rotation invalidates nothing: a signature a role accepts, whether it names its key or not, is still
  accepted after any sequence of steps in which that key is not revoked, under the same key
  material.\<close>

theorem only_revocation_invalidates:
  assumes ok: "validate L g = Inr ()" and run: "fold_r (run_op L) xs g = Inr g'"
    and kept: "\<forall>x\<in>set xs. root_name r \<notin> revokes x"
    and acc: "directory_verify L (directory g role) k alg m s = Inr r \<or> verify_any L (directory g role) m s = Inr r"
  shows "(\<exists>r'. directory_verify L (directory g' role) (tr_key_id r) (algorithm_str (tr_algorithm r)) m s = Inr r' \<and> same_key r r')
    \<and> (\<exists>r'. verify_any L (directory g' role) m s = Inr r')"
proof -
  have g: "register_ok L g" using ok by (simp add: validate_iff)
  have r: "r \<in> set (rg_roots g)" "tr_role r = role" "verifies (tr_status r)" "accepts L r m s"
    using acc verify_any_Inr [of L g role m s r] find_root_Some [of g role k r] by (auto simp: directory_verify_iff)
  obtain r' where r': "r' \<in> set (rg_roots g')" "same_key r r'" "verifies (tr_status r')"
    using custody_ops.keeps_verifying [OF g run r(1,3)] kept by blast
  note same = same_key_facts [OF r'(2)]
  have g': "register_ok L g'" by (rule custody_ops.valid [OF g run])
  have a: "accepts L r' m s" using r(4) accepts_same_key [OF r'(2)] by simp
  have "directory_verify L (directory g' role) (tr_key_id r) (algorithm_str (tr_algorithm r)) m s = Inr r'"
    using find_root_unique [OF g' r'(1)] same r(2) r'(3) a by (simp add: directory_verify_iff)
  moreover have "\<exists>r'. verify_any L (directory g' role) m s = Inr r'"
    using verify_any_accepts [OF r'(1) _ r'(3) a] same r(2) by simp
  ultimately show ?thesis using r'(2) by blast
qed

theorem only_revocation_invalidates_witness:
  "\<exists>sig g'. run_op toy_ed25519 (Revoke BackupRoot ''q3'' ''lost'' False) toy_rotated = Inr g'
     \<and> (\<exists>r'. directory_verify toy_ed25519 (directory g' BackupRoot) ''q4'' ''ed25519'' ''m'' sig = Inr r')"
proof -
  let ?r = "toy_root ''q4'' Active 2 (CHR ''2'')"
  have ok: "validate toy_ed25519 toy_rotated = Inr ()" using toy_rotated_ok by (simp add: validate_iff)
  obtain sig where sig: "accepts toy_ed25519 ?r ''m'' sig" using toy_accepts by blast
  obtain g' where run: "fold_r (run_op toy_ed25519) [Revoke BackupRoot ''q3'' ''lost'' False] toy_rotated = Inr g'" using toy_revoke by simp
  have kept: "\<forall>x\<in>set [Revoke BackupRoot ''q3'' ''lost'' False]. root_name ?r \<notin> revokes x" by (simp add: root_name_def toy_root_def)
  have "find_root toy_rotated BackupRoot ''q4'' = Some ?r" by (simp add: find_root_def in_role_def toy_rotated_def toy_root_def)
  then have acc: "directory_verify toy_ed25519 (directory toy_rotated BackupRoot) ''q4'' ''ed25519'' ''m'' sig = Inr ?r"
    using sig by (simp add: directory_verify_iff) (simp add: toy_root_def verifies_def)
  have "tr_key_id ?r = ''q4''" "algorithm_str (tr_algorithm ?r) = ''ed25519''" by (simp_all add: toy_root_def)
  then have "\<exists>r'. directory_verify toy_ed25519 (directory g' BackupRoot) ''q4'' ''ed25519'' ''m'' sig = Inr r'"
    using only_revocation_invalidates [OF ok run kept disjI1 [OF acc]] by auto
  moreover have "run_op toy_ed25519 (Revoke BackupRoot ''q3'' ''lost'' False) toy_rotated = Inr g'" using run by (auto simp: bind_r_Inr_iff)
  ultimately show ?thesis by blast
qed

section \<open>Rotation\<close>

text \<open>C30: a rotation can always be carried through: from a valid register, a usable new key with a higher
  generation expands and activates; before it is activated it authorizes nothing and signing has not
  moved, afterwards it is the one that signs, the key it replaces still verifies as retired, and revoking that
  key then goes through without sealing the role.\<close>

theorem rotation_completes:
  assumes ok: "validate L g = Inr ()" and name: "\<not> blank (tr_key_id n)" "length (tr_key_id n) \<le> 128" and key: "verifying_key L n = Inr vk"
    and ceremony: "\<not> blank (cm_reference (tr_ceremony n))" "2 \<le> card (ap_approver ` set (cm_approvals (tr_ceremony n)))"
    and fresh: "find_root g (tr_role n) (tr_key_id n) = None"
    and newer: "0 < tr_generation n" "\<forall>r\<in>set (rg_roots g). tr_role r = tr_role n \<longrightarrow> tr_generation r < tr_generation n"
    and reason: "\<not> blank reason"
  shows "\<exists>g1 g2 n'. expand L g n = Inr g1 \<and> activate L g1 (tr_role n) (tr_key_id n) = Inr g2
    \<and> resolve_key (directory g1 (tr_role n)) (tr_key_id n) = Inl (KeyNotTrusted (tr_key_id n) Pending)
    \<and> (\<forall>r. signing_root (directory g1 (tr_role n)) = Inr r \<longleftrightarrow> signing_root (directory g (tr_role n)) = Inr r)
    \<and> signing_root (directory g2 (tr_role n)) = Inr n' \<and> same_key n n'
    \<and> (\<forall>r. signing_root (directory g (tr_role n)) = Inr r \<longrightarrow>
          resolve_key (directory g2 (tr_role n)) (tr_key_id r) = Inr (r\<lparr>tr_status := Retired\<rparr>)
          \<and> (\<exists>g3. revoke L g2 (tr_role n) (tr_key_id r) reason False = Inr g3))"
proof -
  let ?role = "tr_role n" and ?k = "tr_key_id n"
  define n1 where "n1 = n\<lparr>tr_status := Pending, tr_reason := None\<rparr>"
  have n1: "tr_role n1 = ?role" "tr_key_id n1 = ?k" "tr_status n1 = Pending" "tr_generation n1 = tr_generation n" "dual_control_satisfied n1"
    using ceremony(2) by (simp_all add: n1_def dual_control_satisfied_def DUAL_CONTROL_def approvers_card)
  have g: "register_ok L g" using ok by (simp add: validate_iff)
  have "root_ok L n1" using name key ceremony n1 by (auto simp: root_ok_def n1_def verifying_key_def cong: option.case_cong)
  moreover have "highest_generation g ?role < tr_generation n" using newer by (intro highest_generation_less) auto
  ultimately have ex: "expand L g n = Inr (g\<lparr>rg_roots := rg_roots g @ [n1]\<rparr>)"
    using expand_Inr [OF g _ fresh] by (simp add: n1_def)
  define g1 where "g1 = g\<lparr>rg_roots := rg_roots g @ [n1]\<rparr>"
  have g1: "register_ok L g1" using expand_step.valid [OF g ex] by (simp add: g1_def)
  have f1: "find_root g1 ?role ?k = Some n1" using find_root_unique [OF g1, of n1] n1 by (simp add: g1_def)
  have ac: "activate L g1 ?role ?k = Inr (g1\<lparr>rg_roots := map (activated ?role ?k) (rg_roots g1)\<rparr>)"
    using newer(2) n1 by (intro activate_Inr [OF g1 f1]) (auto simp: g1_def)
  define g2 where "g2 = g1\<lparr>rg_roots := map (activated ?role ?k) (rg_roots g1)\<rparr>"
  have g2: "register_ok L g2" using activate_step.valid [OF g1 ac] by (simp add: g2_def)
  have in2: "activated ?role ?k r \<in> set (rg_roots g2)" if "r = n1 \<or> r \<in> set (rg_roots g)" for r using that by (auto simp: g2_def g1_def)
  have n2: "activated ?role ?k n1 = n1\<lparr>tr_status := Active\<rparr>" using n1 by (simp add: activated_def)
  have sign2: "signing_root (directory g2 ?role) = Inr (n1\<lparr>tr_status := Active\<rparr>)"
    using in2 [of n1] n1(1) by (simp add: signing_root_iff [OF g2] n2)
  have old: "resolve_key (directory g2 ?role) (tr_key_id r) = Inr (r\<lparr>tr_status := Retired\<rparr>)
      \<and> (\<exists>g3. revoke L g2 ?role (tr_key_id r) reason False = Inr g3)" if s: "signing_root (directory g ?role) = Inr r" for r
  proof -
    have r: "r \<in> set (rg_roots g)" "tr_role r = ?role" "tr_status r = Active" using s signing_root_iff [OF g] by auto
    have k: "tr_key_id r \<noteq> ?k" using fresh r by (auto simp: find_root_None root_name_def)
    have a: "activated ?role ?k r = r\<lparr>tr_status := Retired\<rparr>" using r k by (simp add: activated_def)
    have f: "find_root g2 ?role (tr_key_id r) = Some (r\<lparr>tr_status := Retired\<rparr>)"
      using find_root_unique [OF g2, of "r\<lparr>tr_status := Retired\<rparr>"] in2 [of r] r a by simp
    have d: "dual_control_satisfied (r\<lparr>tr_status := Retired\<rparr>)"
      using g r by (simp add: register_ok_def root_ok_def dual_control_satisfied_def)
    have "\<exists>g3. revoke L g2 ?role (tr_key_id r) reason False = Inr g3"
      using revoke_Inr [OF g2 f _ d reason in2 [of n1]] n1 n2 k by (simp add: verifies_def)
    then show ?thesis using f by (simp add: resolve_iff verifies_def)
  qed
  have "resolve_key (directory g1 ?role) ?k = Inl (KeyNotTrusted ?k Pending)" using f1 n1 by (simp add: resolve_key_def)
  moreover have "signing_root (directory g1 ?role) = Inr r \<longleftrightarrow> signing_root (directory g ?role) = Inr r" for r
    using n1(3) unfolding signing_root_iff [OF g] signing_root_iff [OF g1] by (auto simp: g1_def)
  moreover have "same_key n (n1\<lparr>tr_status := Active\<rparr>)" by (simp add: same_key_def n1_def)
  ultimately show ?thesis using ex ac sign2 old unfolding g1_def [symmetric] g2_def [symmetric] by blast
qed

theorem rotation_completes_witness:
  "\<exists>g1 g2. expand toy_ed25519 toy_register (toy_root ''q4'' Pending 2 (CHR ''2'')) = Inr g1
     \<and> activate toy_ed25519 g1 BackupRoot ''q4'' = Inr g2"
proof -
  let ?n = "toy_root ''q4'' Pending 2 (CHR ''2'')"
  have n: "tr_key_id ?n = ''q4''" "tr_role ?n = BackupRoot" by (simp_all add: toy_root_def)
  have ok: "validate toy_ed25519 toy_register = Inr ()" using toy_ok by (simp add: validate_iff)
  obtain vk where vk: "verifying_key toy_ed25519 ?n = Inr vk" using toy_verifying by blast
  have r: "root_ok toy_ed25519 ?n" by (rule toy_root_ok) simp_all
  have c: "2 \<le> card (ap_approver ` set (cm_approvals (tr_ceremony ?n)))" using toy_dual [of "''q4''" Pending 2 "CHR ''2''"]
    by (simp add: dual_control_satisfied_def DUAL_CONTROL_def approvers_card)
  have f: "find_root toy_register (tr_role ?n) (tr_key_id ?n) = None" by (simp add: find_root_def in_role_def toy_register_def toy_root_def)
  have g: "0 < tr_generation ?n" "\<forall>r\<in>set (rg_roots toy_register). tr_role r = tr_role ?n \<longrightarrow> tr_generation r < tr_generation ?n"
    by (simp_all add: toy_register_def toy_root_def)
  have b: "\<not> blank ''old''" by (simp add: nat_of_byte_def)
  have names: "\<not> blank (tr_key_id ?n)" "length (tr_key_id ?n) \<le> 128" "\<not> blank (cm_reference (tr_ceremony ?n))" using r by (simp_all add: root_ok_def)
  from rotation_completes [OF ok names(1,2) vk names(3) c f g b] show ?thesis unfolding n by blast
qed

section \<open>Signer and directory\<close>

definition ed25519_ok :: "ed25519 \<Rightarrow> bool" where
  "ed25519_ok L \<longleftrightarrow> (\<forall>sk m. length (ed_sign L sk m) = 64) \<and> (\<forall>sk m. ed_verify L (ed_public L sk) m (ed_sign L sk m) = None)"

lemma signer_facts:
  "signer_from_key L r sk = Inr w \<or> signer_from_file H L disk r path = Inr w \<Longrightarrow>
     tr_backend r = Software \<and> verifying_key L r = Inr (ed_public L (sw_signing_key w)) \<and> sw_key_id w = tr_key_id r
     \<and> sw_role w = tr_role r \<and> sw_algorithm w = tr_algorithm r"
  by (auto simp: signer_from_key_def signer_from_file_def bind_r_Inr_iff split: if_splits option.splits)

text \<open>C31: a signer and the directory agree: a software signer made from a register's active key, from a key file or from key
  material, signs exactly the bytes it is given, the role's directory accepts that signature under
  the signer's name, role and algorithm, and its receipt decodes to the signature and
  claims software custody.\<close>

theorem signer_and_directory_agree:
  assumes L: "ed25519_ok L" and ok: "validate L g = Inr ()" and s: "signing_root (directory g role) = Inr r"
    and w: "signer_from_key L r sk = Inr w \<or> signer_from_file H L disk r path = Inr w"
  shows "directory_verify L (directory g role) (sw_key_id w) (algorithm_str (sw_algorithm w)) m (software_sign L w m) = Inr r
    \<and> (\<exists>r'. verify_any L (directory g role) m (software_sign L w m) = Inr r')
    \<and> decode_receipt_signature (sign_receipt L w m) = Inr (software_sign L w m)
    \<and> rs_key_id (sign_receipt L w m) = tr_key_id r \<and> rs_role (sign_receipt L w m) = role \<and> rs_backend (sign_receipt L w m) = tr_backend r"
proof -
  have g: "register_ok L g" using ok by (simp add: validate_iff)
  have r: "r \<in> set (rg_roots g)" "tr_role r = role" "verifies (tr_status r)"
    using s signing_root_iff [OF g] by (auto simp: verifies_def)
  note f = signer_facts [OF w]
  have len: "length (software_sign L w m) = 64" using L by (simp add: ed25519_ok_def software_sign_def)
  then have a: "accepts L r m (software_sign L w m)" using L f by (simp add: accepts_def ed25519_ok_def software_sign_def)
  have "find_root g role (tr_key_id r) = Some r" using find_root_unique [OF g r(1)] r(2) by simp
  then have "directory_verify L (directory g role) (sw_key_id w) (algorithm_str (sw_algorithm w)) m (software_sign L w m) = Inr r"
    using f r(3) a by (simp add: directory_verify_iff)
  moreover have "decode_receipt_signature (sign_receipt L w m) = Inr (software_sign L w m)"
    using decode_hex_to_hex [OF len] by (simp add: decode_receipt_signature_def sign_receipt_def)
  ultimately show ?thesis using verify_any_accepts [OF r a] f r(2) by (simp add: sign_receipt_def)
qed

definition padded :: ed25519 where
  "padded = toy_ed25519\<lparr>ed_sign := \<lambda>sk m. take 64 (sk @ sk @ replicate 64 (CHR ''x'')),
     ed_verify := \<lambda>vk m s. if s = take 64 (vk @ vk @ replicate 64 (CHR ''x'')) then None else Some ''refused''\<rparr>"

theorem signer_and_directory_agree_witness:
  "\<exists>w. signer_from_key padded (toy_root ''q3'' Active 1 (CHR ''1'')) (replicate 32 (byte_of 17)) = Inr w
     \<and> directory_verify padded (directory toy_register BackupRoot) ''q3'' ''ed25519'' ''m'' (software_sign padded w ''m'')
         = Inr (toy_root ''q3'' Active 1 (CHR ''1''))"
proof -
  let ?r = "toy_root ''q3'' Active 1 (CHR ''1'')"
  have vk0: "verifying_key L = verifying_key toy_ed25519" if "ed_point L = (\<lambda>_. None)" for L
    using that by (auto simp: fun_eq_iff verifying_key_def toy_ed25519_def split: option.splits)
  have vk: "verifying_key padded = verifying_key toy_ed25519" by (rule vk0) (simp add: padded_def toy_ed25519_def)
  have "hex_value (CHR ''1'') = Some 1" by (simp add: hex_value_def nat_of_byte_def)
  then have "decode_hex 32 (replicate 64 (CHR ''1'')) = Some (replicate 32 (byte_of 17))"
    using toy_hex [of "CHR ''1''" 1 32] toy_trim [of "CHR ''1''" 64] by (simp add: decode_hex_def)
  then have k: "verifying_key padded ?r = Inr (replicate 32 (byte_of 17))" unfolding vk by (simp add: verifying_key_def toy_root_def toy_ed25519_def)
  have ok: "register_ok padded toy_register" using toy_ok by (simp add: register_ok_def root_ok_def vk)
  then have v: "validate padded toy_register = Inr ()" by (simp add: validate_iff)
  have s: "signing_root (directory toy_register BackupRoot) = Inr ?r"
    by (simp add: signing_root_iff [OF ok]) (simp add: toy_register_def toy_root_def)
  obtain w where w: "signer_from_key padded ?r (replicate 32 (byte_of 17)) = Inr w"
    using k by (simp add: signer_from_key_def) (simp add: toy_root_def padded_def toy_ed25519_def)
  have L: "ed25519_ok padded" by (auto simp: ed25519_ok_def padded_def toy_ed25519_def min_def)
  have n: "sw_key_id w = ''q3''" "algorithm_str (sw_algorithm w) = ''ed25519''" using signer_facts [OF disjI1 [OF w]] by (simp_all add: toy_root_def)
  from signer_and_directory_agree [OF L v s disjI1 [OF w], of "''m''"] show ?thesis using w unfolding n by blast
qed

end
