(* ===== verification/LoomAsOf.thy ===== *)
theory LoomAsOf
  imports LoomTaint
begin

text \<open>
  As-of queries (\<open>crates/loom-query/src/lib.rs\<close>): what was believed about a subject and a predicate, at a
  point of valid time as of a point of known time.
\<close>

record as_of_point =
  ao_valid :: timestamp
  ao_known :: timestamp

definition as_of_at :: "timestamp \<Rightarrow> as_of_point" where
  "as_of_at now = \<lparr>ao_valid = now, ao_known = now\<rparr>"

record as_of_answer =
  aa_claim :: "claim option"
  aa_as_of :: as_of_point

definition matches_point :: "as_of_point \<Rightarrow> claim_version \<Rightarrow> bool" where
  "matches_point a v \<longleftrightarrow> contains (c_known (cv_claim v)) (ao_known a) \<and> contains (c_valid (cv_claim v)) (ao_valid a)"

definition as_of_step :: "as_of_point \<Rightarrow> key \<times> claim_version \<Rightarrow> claim_version option \<Rightarrow> claim_version option" where
  "as_of_step a kv best =
     (if matches_point a (snd kv)
      then Some (case best of Some prev \<Rightarrow> if cv_seq (snd kv) \<le> cv_seq prev then prev else snd kv | None \<Rightarrow> snd kv)
      else best)"

definition as_of :: "('p, 's) loom_env \<Rightarrow> ('p, 's) loom \<Rightarrow> token \<Rightarrow> bytes \<Rightarrow> bytes \<Rightarrow> bytes \<Rightarrow> as_of_point \<Rightarrow> u64
    \<Rightarrow> loom_error + as_of_answer" where
  "as_of E l tok branch subject predicate a now =
     bind_r (authorize_read E tok branch now) (\<lambda>_.
     bind_r (branch_entries E l branch) (\<lambda>es.
       let best = fold (as_of_step a) (history_versions (en_codec E) (history_prefix subject predicate) es) None
       in Inr \<lparr>aa_claim = map_option cv_claim best, aa_as_of = a\<rparr>))"

end
