(* ===== verification/LoomAsOfLaws.thy ===== *)
theory LoomAsOfLaws
  imports LoomAsOf LoomAppendOnly
begin

text \<open>
  The claim history: the invariant that every version stands at its own key, what asserting a claim does
  to the versions of its subject and predicate, and what an as-of query picks among them.
\<close>

section \<open>The history as a map\<close>

definition version_at :: "loom_codec \<Rightarrow> (key \<rightharpoonup> record_t) \<Rightarrow> key \<Rightarrow> claim_version option" where
  "version_at K m k = (case m k of Some (RValue (Blob b)) \<Rightarrow> lc_version_decode K b | _ \<Rightarrow> None)"

lemma version_at_Some: "version_at K m k = Some v \<longleftrightarrow> (\<exists>b. m k = Some (RValue (Blob b)) \<and> lc_version_decode K b = Some v)"
  by (auto simp: version_at_def split: option.splits record_t.splits val.splits)

definition version_codec_ok :: "loom_codec \<Rightarrow> bool" where
  "version_codec_ok K \<longleftrightarrow> (\<forall>v b. lc_version_encode K v = Some b \<longrightarrow> lc_version_decode K b = Some v)"

definition plain :: "bytes \<Rightarrow> bool" where
  "plain s \<longleftrightarrow> CHR 0x00 \<notin> set s"

definition home :: "claim_version \<Rightarrow> key" where
  "home v = history_key (c_subject (cv_claim v)) (c_predicate (cv_claim v)) (cv_seq v)"

definition plain_claim :: "claim \<Rightarrow> bool" where
  "plain_claim c \<longleftrightarrow> plain (c_subject c) \<and> plain (c_predicate c)"

definition history_ok :: "loom_codec \<Rightarrow> (key \<rightharpoonup> record_t) \<Rightarrow> bool" where
  "history_ok K m \<longleftrightarrow> (\<forall>k v. prefix HISTORY_PREFIX k \<longrightarrow> version_at K m k = Some v \<longrightarrow> k = home v \<and> plain_claim (cv_claim v))"

definition versions :: "loom_codec \<Rightarrow> (key \<rightharpoonup> record_t) \<Rightarrow> bytes \<Rightarrow> bytes \<Rightarrow> claim_version set" where
  "versions K m s p = {v. \<exists>k. prefix (history_prefix s p) k \<and> version_at K m k = Some v}"

lemma history_prefixes: "prefix HISTORY_PREFIX (history_prefix s p)" "prefix (history_prefix s p) (history_key s p q)"
  by (simp_all add: history_prefix_def history_key_def)

lemma history_prefix_key:
  assumes "prefix (history_prefix s p) (history_key s' p' q)" and "plain s" and "plain p" and "plain s'" and "plain p'"
  shows "s = s' \<and> p = p'"
proof -
  have cut: "xs = ys \<and> prefix r r'" if "prefix (xs @ CHR 0x00 # r) (ys @ CHR 0x00 # r')" "plain xs" "plain ys" for xs ys r r' :: bytes
    using that
  proof (induction xs arbitrary: ys)
    case Nil
    then show ?case by (cases ys) (auto simp: plain_def)
  next
    case (Cons x xs)
    then show ?case by (cases ys) (auto simp: plain_def)
  qed
  have "prefix (s @ CHR 0x00 # (p @ [CHR 0x00])) (s' @ CHR 0x00 # (p' @ CHR 0x00 # u64_be q))"
    using assms(1) by (simp add: history_prefix_def history_key_def)
  from cut [OF this assms(2,4)] have "s = s'" "prefix (p @ CHR 0x00 # []) (p' @ CHR 0x00 # u64_be q)" by simp_all
  then show ?thesis using cut [of p "[]" p' "u64_be q"] assms(3,5) by simp
qed

lemma versions_iff:
  assumes "history_ok K m" and "plain s" and "plain p"
  shows "v \<in> versions K m s p \<longleftrightarrow> c_subject (cv_claim v) = s \<and> c_predicate (cv_claim v) = p \<and> version_at K m (history_key s p (cv_seq v)) = Some v"
proof
  assume "v \<in> versions K m s p"
  then obtain k where k: "prefix (history_prefix s p) k" "version_at K m k = Some v" by (auto simp: versions_def)
  have "prefix HISTORY_PREFIX k" using history_prefixes(1) k(1) by (rule prefix_order.trans)
  then have h: "k = home v" "plain_claim (cv_claim v)" using assms(1) k(2) by (auto simp: history_ok_def)
  then have "s = c_subject (cv_claim v) \<and> p = c_predicate (cv_claim v)"
    using history_prefix_key [OF k(1) [unfolded h(1) home_def] assms(2,3)] by (simp add: plain_claim_def)
  then show "c_subject (cv_claim v) = s \<and> c_predicate (cv_claim v) = p \<and> version_at K m (history_key s p (cv_seq v)) = Some v"
    using h k(2) by (simp add: home_def)
next
  assume "c_subject (cv_claim v) = s \<and> c_predicate (cv_claim v) = p \<and> version_at K m (history_key s p (cv_seq v)) = Some v"
  then show "v \<in> versions K m s p" using history_prefixes(2) unfolding versions_def by blast
qed

lemma history_versions_iff:
  assumes "skeys es"
  shows "(k, v) \<in> set (history_versions K pre es) \<longleftrightarrow> prefix pre k \<and> version_at K (map_of es) k = Some v"
proof -
  have e: "history_entry K pre w = Some (k, v) \<longleftrightarrow> prefix pre k \<and> (\<exists>b. w = (k, RValue (Blob b)) \<and> lc_version_decode K b = Some v)" for w
    by (cases w) (auto simp: history_entry_def split: record_t.splits val.splits)
  have "(k, v) \<in> set (history_versions K pre es) \<longleftrightarrow> (\<exists>w\<in>set es. history_entry K pre w = Some (k, v))"
    unfolding history_versions_def List.map_filter_def by (auto simp: image_iff) (metis option.sel)
  also have "\<dots> \<longleftrightarrow> prefix pre k \<and> (\<exists>b. (k, RValue (Blob b)) \<in> set es \<and> lc_version_decode K b = Some v)"
    unfolding e by blast
  also have "\<dots> \<longleftrightarrow> prefix pre k \<and> version_at K (map_of es) k = Some v"
    using map_of_skeys_Some [OF assms] by (auto simp: version_at_Some)
  finally show ?thesis .
qed

lemma version_set:
  assumes "skeys es"
  shows "snd ` set (history_versions K (history_prefix s p) es) = versions K (map_of es) s p"
proof -
  have "v \<in> snd ` set (history_versions K (history_prefix s p) es) \<longleftrightarrow> (\<exists>k. (k, v) \<in> set (history_versions K (history_prefix s p) es))" for v
    by force
  then show ?thesis by (auto simp: versions_def history_versions_iff [OF assms])
qed

section \<open>What a query picks\<close>

definition best_of :: "as_of_point \<Rightarrow> claim_version set \<Rightarrow> claim_version option \<Rightarrow> bool" where
  "best_of a V r \<longleftrightarrow> (case r of None \<Rightarrow> \<forall>v\<in>V. \<not> matches_point a v
     | Some v \<Rightarrow> v \<in> V \<and> matches_point a v \<and> (\<forall>u\<in>V. matches_point a u \<longrightarrow> cv_seq u \<le> cv_seq v))"

lemma as_of_fold:
  "best_of a V best \<Longrightarrow> best_of a (V \<union> snd ` set kvs) (fold (as_of_step a) kvs best)"
proof (induction kvs arbitrary: V best)
  case (Cons kv kvs)
  have "best_of a (insert (snd kv) V) (as_of_step a kv best)"
    using Cons.prems by (auto simp: best_of_def as_of_step_def split: option.splits intro: order_trans less_imp_le)
  from Cons.IH [OF this] show ?case by simp
qed simp

lemma as_of_holds:
  assumes h: "holds E l b es" and r: "as_of E l tok b s p a now = Inr ans"
  shows "authorize (en_issuer E) tok b now = Inr () \<and> aa_as_of ans = a
    \<and> (\<exists>best. best_of a (versions (en_codec E) (map_of es) s p) best \<and> aa_claim ans = map_option cv_claim best)"
proof -
  let ?vs = "history_versions (en_codec E) (history_prefix s p) es"
  have "best_of a ({} \<union> snd ` set ?vs) (fold (as_of_step a) ?vs None)" by (rule as_of_fold) (simp add: best_of_def)
  then have "best_of a (versions (en_codec E) (map_of es) s p) (fold (as_of_step a) ?vs None)"
    using version_set [OF holds_skeys [OF h]] by simp
  moreover have "authorize (en_issuer E) tok b now = Inr ()" "ans = \<lparr>aa_claim = map_option cv_claim (fold (as_of_step a) ?vs None), aa_as_of = a\<rparr>"
    using r branch_entries_holds [OF h] by (auto simp: as_of_def bind_r_Inr_iff authorize_read_def Let_def)
  ultimately show ?thesis by auto
qed

lemma as_of_total:
  "holds E l b es \<Longrightarrow> authorize (en_issuer E) tok b now = Inr () \<Longrightarrow> \<exists>ans. as_of E l tok b s p a now = Inr ans"
  using branch_entries_holds by (fastforce simp: as_of_def authorize_read_def Let_def)

section \<open>Asserting a claim\<close>

lemma txn_skeys: "txn_ok T t \<Longrightarrow> skeys (tree_entries T t)"
  using tree_inv_entries(1) by (auto simp: txn_ok_def)

lemma put_version_result:
  assumes "txn_ok T t" and "put_version K T k v t = Inr t'" and "version_codec_ok K"
  shows "txn_ok T t' \<and> version_at K (map_of (tree_entries T t')) = (version_at K (map_of (tree_entries T t)))(k \<mapsto> v)"
proof -
  obtain b where b: "lc_version_encode K v = Some b" "tree_insert T t k (RValue (Blob b)) = Inr t'"
    using assms(2) by (auto simp: put_version_def version_encode_def put_blob_def bind_r_Inr_iff split: option.splits)
  note i = insert_txn [OF assms(1) b(2)]
  have "lc_version_decode K b = Some v" using assms(3) b(1) by (simp add: version_codec_ok_def)
  then show ?thesis using i txn_skeys [OF assms(1)] by (simp add: fun_eq_iff version_at_def map_of_put)
qed

lemma put_versions_result:
  assumes "txn_ok T t" and "fold_r (\<lambda>(k, v). put_version K T k (f v)) kvs t = Inr t'" and "version_codec_ok K" and "distinct (map fst kvs)"
  shows "txn_ok T t' \<and> version_at K (map_of (tree_entries T t')) x
     = (case map_of kvs x of Some v \<Rightarrow> Some (f v) | None \<Rightarrow> version_at K (map_of (tree_entries T t)) x)"
  using assms
proof (induction kvs arbitrary: t)
  case (Cons kv kvs)
  obtain k v where kv: "kv = (k, v)" by (cases kv)
  obtain u where u: "put_version K T k (f v) t = Inr u" "fold_r (\<lambda>(k, v). put_version K T k (f v)) kvs u = Inr t'"
    using Cons.prems(2) kv by (auto simp: bind_r_Inr_iff)
  note p = put_version_result [OF Cons.prems(1) u(1) Cons.prems(3)]
  have "map_of kvs k = None" using Cons.prems(4) kv by (simp add: map_of_eq_None_iff)
  then show ?case using Cons.IH [OF conjunct1 [OF p] u(2) Cons.prems(3)] Cons.prems(4) p kv by (auto split: option.splits)
qed simp

text \<open>The version a later belief leaves behind.\<close>

definition closing :: "timestamp option \<Rightarrow> claim_version \<Rightarrow> claim_version" where
  "closing now v = (if i_end (c_known (cv_claim v)) = None then close_version now v else v)"

lemma history_entry_key: "history_entry K pre w = Some kv \<Longrightarrow> fst kv = fst w"
  by (cases w) (auto simp: history_entry_def split: if_splits record_t.splits val.splits)

lemma history_versions_distinct:
  assumes "skeys es"
  shows "distinct (map fst (history_versions K pre es))"
proof -
  have "map fst (history_versions K pre es) = map fst (filter (\<lambda>w. history_entry K pre w \<noteq> None) es)" for es
    unfolding history_versions_def by (induction es) (auto simp: map_filter_simps history_entry_key split: option.splits)
  moreover have "distinct (map fst es)" using assms by (simp add: strict_sorted_iff)
  ultimately show ?thesis by (simp add: distinct_map_filter)
qed

lemma max_version_fold:
  "\<exists>m. fold (\<lambda>(_ :: key, v) m. Some (case m of None \<Rightarrow> cv_seq v | Some x \<Rightarrow> max x (cv_seq v))) vs (Some a) = Some m
     \<and> a \<le> m \<and> (\<forall>kv\<in>set vs. cv_seq (snd kv) \<le> m)"
proof (induction vs arbitrary: a)
  case (Cons kv vs)
  obtain m where "fold (\<lambda>(_ :: key, v) m. Some (case m of None \<Rightarrow> cv_seq v | Some x \<Rightarrow> max x (cv_seq v))) vs (Some (max a (cv_seq (snd kv)))) = Some m"
    "max a (cv_seq (snd kv)) \<le> m" "\<forall>kv\<in>set vs. cv_seq (snd kv) \<le> m"
    using Cons.IH by blast
  then show ?case by (cases kv) auto
qed simp

lemma max_version_bound: "(case max_version vs of None \<Rightarrow> vs = [] | Some m \<Rightarrow> \<forall>kv\<in>set vs. cv_seq (snd kv) \<le> m)"
proof (cases vs)
  case (Cons kv ws)
  then show ?thesis using max_version_fold [of ws "cv_seq (snd kv)"] by (cases kv) (auto simp: max_version_def)
qed (simp add: max_version_def)

lemma append_result:
  assumes ok: "txn_ok T t" and r: "append_claim_version K T c t = Inr t'" and K: "version_codec_ok K"
    and h: "history_ok K (map_of (tree_entries T t))"
  shows "\<exists>q. txn_ok T t' \<and> (\<forall>v\<in>versions K (map_of (tree_entries T t)) (c_subject c) (c_predicate c). cv_seq v < q)
    \<and> (\<forall>x. version_at K (map_of (tree_entries T t')) x =
         (if x = history_key (c_subject c) (c_predicate c) q then Some \<lparr>cv_claim = c, cv_seq = q\<rparr>
          else map_option (if prefix (history_prefix (c_subject c) (c_predicate c)) x then closing (i_start (c_known c)) else (\<lambda>v. v))
                 (version_at K (map_of (tree_entries T t)) x)))"
proof -
  define pre where "pre = history_prefix (c_subject c) (c_predicate c)"
  obtain t1 where t1: "tree_scan T t = Inr (t1, tree_entries T t)" "txn_ok T t1" "tree_entries T t1 = tree_entries T t" by (rule scan_value [OF ok])
  define vs where "vs = history_versions K pre (tree_entries T t)"
  define os where "os = filter (\<lambda>(k, v). i_end (c_known (cv_claim v)) = None) vs"
  obtain t2 q where t2: "fold_r (\<lambda>(k, v). put_version K T k (close_version (i_start (c_known c)) v)) os t1 = Inr t2"
    and q: "(case max_version vs of None \<Rightarrow> Inr 0 | Some m \<Rightarrow> next_seq m) = Inr q"
    and t3: "put_version K T (history_key (c_subject c) (c_predicate c) q) \<lparr>cv_claim = c, cv_seq = q\<rparr> t2 = Inr t'"
    using r t1(1) unfolding append_claim_version_def pre_def vs_def os_def by (auto simp: Let_def bind_r_Inr_iff)
  note sk = txn_skeys [OF ok]
  have dvs: "distinct (map fst vs)" unfolding vs_def by (rule history_versions_distinct [OF sk])
  then have dos: "distinct (map fst os)" unfolding os_def by (rule distinct_map_filter)
  have vs_iff: "(k, v) \<in> set vs \<longleftrightarrow> prefix pre k \<and> version_at K (map_of (tree_entries T t)) k = Some v" for k v
    unfolding vs_def by (rule history_versions_iff [OF sk])
  have os_iff: "map_of os k = Some v \<longleftrightarrow> prefix pre k \<and> version_at K (map_of (tree_entries T t)) k = Some v \<and> i_end (c_known (cv_claim v)) = None" for k v
    using map_of_eq_Some_iff [OF dos, of k v] vs_iff by (auto simp: os_def)
  note p2 = put_versions_result [OF t1(2) t2 K dos]
  have closed: "version_at K (map_of (tree_entries T t2)) x
      = map_option (if prefix pre x then closing (i_start (c_known c)) else (\<lambda>v. v)) (version_at K (map_of (tree_entries T t)) x)" for x
  proof (cases "map_of os x")
    case None
    have "closing (i_start (c_known c)) v = v" if "prefix pre x" "version_at K (map_of (tree_entries T t)) x = Some v" for v
      using None os_iff [of x v] that by (auto simp: closing_def)
    then show ?thesis using p2 None t1(3) by (cases "version_at K (map_of (tree_entries T t)) x") auto
  next
    case (Some v)
    then show ?thesis using p2 os_iff [of x v] by (simp add: closing_def)
  qed
  have below: "cv_seq v < q" if "v \<in> versions K (map_of (tree_entries T t)) (c_subject c) (c_predicate c)" for v
  proof -
    have "\<exists>k. prefix pre k \<and> version_at K (map_of (tree_entries T t)) k = Some v" using that by (simp add: versions_def pre_def)
    then obtain k where k: "(k, v) \<in> set vs" using vs_iff by meson
    obtain m where m: "max_version vs = Some m" "cv_seq v \<le> m"
    proof (cases "max_version vs")
      case None
      then show thesis using k max_version_bound [of vs] by simp
    next
      case (Some m)
      then have "\<forall>kv\<in>set vs. cv_seq (snd kv) \<le> m" using max_version_bound [of vs] by simp
      then show thesis using Some k by (intro that [of m]) auto
    qed
    then have "unat q = unat m + 1" using q unat_u64_add [of m 1 q] by (auto simp: next_seq_def split: option.splits)
    then show ?thesis using m(2) by (simp add: word_less_nat_alt word_le_nat_alt)
  qed
  show ?thesis
    using put_version_result [OF conjunct1 [OF p2] t3 K] closed below unfolding pre_def by auto
qed

lemma closing_facts [simp]:
  "cv_seq (closing n v) = cv_seq v" "c_subject (cv_claim (closing n v)) = c_subject (cv_claim v)"
  "c_predicate (cv_claim (closing n v)) = c_predicate (cv_claim v)" "home (closing n v) = home v"
  "plain_claim (cv_claim (closing n v)) = plain_claim (cv_claim v)"
  by (simp_all add: closing_def close_version_def home_def plain_claim_def Let_def)

lemma append_history:
  assumes ok: "txn_ok T t" and r: "append_claim_version K T c t = Inr t'" and K: "version_codec_ok K"
    and h: "history_ok K (map_of (tree_entries T t))" and c: "plain_claim c"
  shows "txn_ok T t' \<and> history_ok K (map_of (tree_entries T t'))
    \<and> (\<exists>q. (\<forall>v\<in>versions K (map_of (tree_entries T t)) (c_subject c) (c_predicate c). cv_seq v < q)
         \<and> (\<forall>s p. plain s \<longrightarrow> plain p \<longrightarrow> versions K (map_of (tree_entries T t')) s p =
              (if s = c_subject c \<and> p = c_predicate c
               then insert \<lparr>cv_claim = c, cv_seq = q\<rparr> (closing (i_start (c_known c)) ` versions K (map_of (tree_entries T t)) s p)
               else versions K (map_of (tree_entries T t)) s p)))"
proof -
  let ?m = "map_of (tree_entries T t)" and ?m' = "map_of (tree_entries T t')"
  let ?new = "history_key (c_subject c) (c_predicate c)" and ?pre = "history_prefix (c_subject c) (c_predicate c)"
  obtain q where q: "txn_ok T t'" "\<forall>v\<in>versions K ?m (c_subject c) (c_predicate c). cv_seq v < q"
    and at: "\<And>x. version_at K ?m' x = (if x = ?new q then Some \<lparr>cv_claim = c, cv_seq = q\<rparr>
          else map_option (if prefix ?pre x then closing (i_start (c_known c)) else (\<lambda>v. v)) (version_at K ?m x))"
    using append_result [OF ok r K h] by blast
  have h': "history_ok K ?m'" unfolding history_ok_def
  proof (intro allI impI)
    fix x v assume x: "prefix HISTORY_PREFIX x" "version_at K ?m' x = Some v"
    show "x = home v \<and> plain_claim (cv_claim v)"
    proof (cases "x = ?new q")
      case True
      then show ?thesis using x(2) c by (auto simp: at home_def)
    next
      case False
      then obtain u where u: "version_at K ?m x = Some u" "v = (if prefix ?pre x then closing (i_start (c_known c)) else (\<lambda>v. v)) u"
        using x(2) by (auto simp: at)
      then have "x = home u \<and> plain_claim (cv_claim u)" using h x(1) by (simp add: history_ok_def)
      then show ?thesis using u(2) by simp
    qed
  qed
  have pc: "plain (c_subject c)" "plain (c_predicate c)" using c by (simp_all add: plain_claim_def)
  have nul: "CHR 0x00 \<notin> set a \<union> set b" if "plain a" "plain b" for a b using that by (simp add: plain_def)
  have v': "versions K ?m' s p =
      (if s = c_subject c \<and> p = c_predicate c then insert \<lparr>cv_claim = c, cv_seq = q\<rparr> (closing (i_start (c_known c)) ` versions K ?m s p)
       else versions K ?m s p)" if sp: "plain s" "plain p" for s p
  proof (cases "s = c_subject c \<and> p = c_predicate c")
    case True
    have key: "?new a = ?new b \<longleftrightarrow> a = b" for a b using history_key_inj [OF nul [OF pc] nul [OF pc]] by simp
    have "v \<in> versions K ?m' s p \<longleftrightarrow> v = \<lparr>cv_claim = c, cv_seq = q\<rparr> \<or> (\<exists>u\<in>versions K ?m s p. v = closing (i_start (c_known c)) u)" for v
    proof (cases "cv_seq v = q")
      case s: True
      have "\<not> (\<exists>u\<in>versions K ?m s p. v = closing (i_start (c_known c)) u)" using q(2) s True by auto
      then show ?thesis using s True unfolding versions_iff [OF h' sp] by (cases v) (auto simp: at)
    next
      case s: False
      have "v \<in> versions K ?m' s p \<longleftrightarrow> c_subject (cv_claim v) = s \<and> c_predicate (cv_claim v) = p
          \<and> (\<exists>u. version_at K ?m (?new (cv_seq v)) = Some u \<and> v = closing (i_start (c_known c)) u)"
        using s True history_prefixes(2) unfolding versions_iff [OF h' sp] by (auto simp: at key)
      also have "\<dots> \<longleftrightarrow> (\<exists>u\<in>versions K ?m s p. v = closing (i_start (c_known c)) u)"
        using True unfolding Bex_def versions_iff [OF h sp] by (metis closing_facts(1-3))
      finally show ?thesis using s by auto
    qed
    then show ?thesis using True by auto
  next
    case False
    have "?new q \<noteq> history_key s p i" for i using history_key_inj [OF nul [OF pc] nul [OF sp]] False by auto
    then have ne: "history_key s p i \<noteq> ?new q" for i by metis
    have "\<not> prefix ?pre (history_key s p i)" for i using history_prefix_key [OF _ pc sp] False by blast
    then have "version_at K ?m' (history_key s p i) = version_at K ?m (history_key s p i)" for i
      using at [of "history_key s p i"] unfolding if_not_P [OF ne] by (simp add: option.map_ident)
    then have "versions K ?m' s p = versions K ?m s p" unfolding set_eq_iff versions_iff [OF h' sp] versions_iff [OF h sp] by simp
    then show ?thesis unfolding if_not_P [OF False] .
  qed
  show ?thesis using q h' v' by blast
qed

section \<open>What a write leaves of the past\<close>

text \<open>The same belief: the claim as it was, or, when it was still believed, the claim marked superseded
  with its known interval ended after the point that is asked about.\<close>

definition same_belief :: "as_of_point \<Rightarrow> claim \<Rightarrow> claim \<Rightarrow> bool" where
  "same_belief a c c' \<longleftrightarrow> c' = c \<or> (i_end (c_known c) = None
     \<and> (\<exists>t. ao_known a < t \<and> c' = c\<lparr>c_known := (c_known c)\<lparr>i_end := Some t\<rparr>, c_status := Superseded\<rparr>))"

definition answers_kept :: "as_of_point \<Rightarrow> claim_version set \<Rightarrow> claim_version set \<Rightarrow> bool" where
  "answers_kept a V V' \<longleftrightarrow> (\<exists>f. (\<forall>v. cv_seq (f v) = cv_seq v \<and> same_belief a (cv_claim v) (cv_claim (f v)))
     \<and> {v \<in> V'. matches_point a v} = f ` {v \<in> V. matches_point a v})"

lemma same_belief_refl [simp]: "same_belief a c c"
  by (simp add: same_belief_def)

lemma same_belief_trans: "same_belief a c d \<Longrightarrow> same_belief a d e \<Longrightarrow> same_belief a c e"
  by (auto simp: same_belief_def)

lemma answers_kept_refl [simp]: "answers_kept a V V"
  unfolding answers_kept_def by (rule exI [of _ "\<lambda>v. v"]) simp

lemma answers_kept_trans:
  assumes "answers_kept a V W" and "answers_kept a W X"
  shows "answers_kept a V X"
proof -
  obtain f g where f: "\<forall>v. cv_seq (f v) = cv_seq v \<and> same_belief a (cv_claim v) (cv_claim (f v))" "{v \<in> W. matches_point a v} = f ` {v \<in> V. matches_point a v}"
    and g: "\<forall>v. cv_seq (g v) = cv_seq v \<and> same_belief a (cv_claim v) (cv_claim (g v))" "{v \<in> X. matches_point a v} = g ` {v \<in> W. matches_point a v}"
    using assms unfolding answers_kept_def by blast
  have "\<forall>v. cv_seq (g (f v)) = cv_seq v \<and> same_belief a (cv_claim v) (cv_claim (g (f v)))" using f(1) g(1) same_belief_trans by metis
  moreover have "{v \<in> X. matches_point a v} = (\<lambda>v. g (f v)) ` {v \<in> V. matches_point a v}" unfolding g(2) f(2) image_image ..
  ultimately show ?thesis unfolding answers_kept_def by (intro exI [of _ "\<lambda>v. g (f v)"]) simp
qed

lemma closing_belief: "ao_known a < t \<Longrightarrow> same_belief a (cv_claim v) (cv_claim (closing (Some t) v))"
  by (auto simp: closing_def close_version_def same_belief_def Let_def closed_at_def)

lemma closing_matches: "ao_known a < t \<Longrightarrow> matches_point a (closing (Some t) v) = matches_point a v"
  by (auto simp: closing_def close_version_def matches_point_def contains_def closed_at_def Let_def)

lemma closing_answers:
  assumes "ao_known a < t" and "\<not> matches_point a n"
  shows "answers_kept a V (insert n (closing (Some t) ` V))"
  unfolding answers_kept_def
proof (rule exI [of _ "closing (Some t)"], intro conjI allI)
  show "{v \<in> insert n (closing (Some t) ` V). matches_point a v} = closing (Some t) ` {v \<in> V. matches_point a v}"
    using assms(2) closing_matches [OF assms(1)] by auto
qed (simp_all add: closing_belief assms(1))

text \<open>The claims of a batch about \<open>s\<close> and \<open>p\<close> are all believed from after the point that is asked about.\<close>

definition later_claim :: "as_of_point \<Rightarrow> bytes \<Rightarrow> bytes \<Rightarrow> record_t \<Rightarrow> bool" where
  "later_claim a s p r \<longleftrightarrow>
     (\<forall>c. r = RClaim c \<longrightarrow> c_subject c = s \<longrightarrow> c_predicate c = p \<longrightarrow> (\<exists>t. i_start (c_known c) = Some t \<and> ao_known a < t))"

definition plain_record :: "record_t \<Rightarrow> bool" where
  "plain_record r \<longleftrightarrow> (\<forall>c. r = RClaim c \<longrightarrow> plain_claim c)"

lemma write_history_beliefs:
  assumes ok: "txn_ok T t" and K: "version_codec_ok K" and sp: "plain s" "plain p"
  shows "fold_r (write_history K T) ws t = Inr t' \<Longrightarrow> history_ok K (map_of (tree_entries T t)) \<Longrightarrow>
     \<forall>w\<in>set ws. plain_record (snd w) \<and> later_claim a s p (snd w) \<Longrightarrow>
     history_ok K (map_of (tree_entries T t')) \<and> answers_kept a (versions K (map_of (tree_entries T t)) s p) (versions K (map_of (tree_entries T t')) s p)"
  using ok
proof (induction ws arbitrary: t)
  case (Cons w ws)
  obtain u where u: "write_history K T w t = Inr u" "fold_r (write_history K T) ws u = Inr t'" using Cons.prems(1) by (auto simp: bind_r_Inr_iff)
  have step: "txn_ok T u \<and> history_ok K (map_of (tree_entries T u))
    \<and> answers_kept a (versions K (map_of (tree_entries T t)) s p) (versions K (map_of (tree_entries T u)) s p)"
  proof (cases "\<exists>c. snd w = RClaim c")
    case True
    then obtain c where c: "snd w = RClaim c" by blast
    have r: "append_claim_version K T c t = Inr u" using u(1) c by (simp add: write_history_def)
    have pc: "plain_claim c" using Cons.prems(3) c by (simp add: plain_record_def)
    obtain q where q: "txn_ok T u" "history_ok K (map_of (tree_entries T u))"
      "versions K (map_of (tree_entries T u)) s p = (if s = c_subject c \<and> p = c_predicate c
         then insert \<lparr>cv_claim = c, cv_seq = q\<rparr> (closing (i_start (c_known c)) ` versions K (map_of (tree_entries T t)) s p)
         else versions K (map_of (tree_entries T t)) s p)"
      using append_history [OF Cons.prems(4) r K Cons.prems(2) pc] sp by blast
    show ?thesis
    proof (cases "s = c_subject c \<and> p = c_predicate c")
      case same: True
      then obtain st where st: "i_start (c_known c) = Some st" "ao_known a < st" using Cons.prems(3) c by (auto simp: later_claim_def)
      have "\<not> matches_point a \<lparr>cv_claim = c, cv_seq = q\<rparr>" using st by (auto simp: matches_point_def contains_def)
      from closing_answers [OF st(2) this] show ?thesis using q same st(1) by simp
    next
      case False
      then show ?thesis using q(1,2) unfolding q(3) if_not_P [OF False] by simp
    qed
  next
    case False
    then have "u = t" using u(1) by (auto simp: write_history_def split: record_t.splits)
    then show ?thesis using Cons.prems by simp
  qed
  have "history_ok K (map_of (tree_entries T t')) \<and> answers_kept a (versions K (map_of (tree_entries T u)) s p) (versions K (map_of (tree_entries T t')) s p)"
    using Cons.IH [OF u(2)] step Cons.prems(3) by auto
  then show ?case using step answers_kept_trans by blast
qed simp

section \<open>The write path\<close>

lemma history_cong:
  assumes "\<And>x. prefix HISTORY_PREFIX x \<Longrightarrow> m' x = m x"
  shows "history_ok K m' = history_ok K m" and "versions K m' s p = versions K m s p"
proof -
  have e: "version_at K m' x = version_at K m x" if "prefix HISTORY_PREFIX x" for x using assms [OF that] by (simp add: version_at_def)
  then show "history_ok K m' = history_ok K m" by (auto simp: history_ok_def)
  have "prefix HISTORY_PREFIX x" if "prefix (history_prefix s p) x" for x using history_prefixes(1) that by (rule prefix_order.trans)
  then show "versions K m' s p = versions K m s p" using e unfolding versions_def by (intro Collect_cong ex_cong) auto
qed

lemma history_outside:
  assumes "prefix HISTORY_PREFIX x"
  shows "\<not> caller_key x" and "x \<notin> prov_keys" and "x \<notin> idx_keys"
proof -
  obtain y where x: "x = HISTORY_PREFIX @ y" using assms by (auto simp: prefix_def)
  show "\<not> caller_key x" by (simp add: x caller_key_def is_reserved_def key_space_defs)
  show "x \<notin> prov_keys"
    by (auto simp: x prov_keys_def node_storage_key_def latest_node_key_def source_index_key_def prov_seq_key_def key_space_defs)
  show "x \<notin> idx_keys" by (auto simp: x idx_keys_def index_key_def ann_buffer_key_def key_space_defs)
qed

lemma write_body_beliefs:
  assumes ok: "txn_ok T t" and res: "write_body E T b h records e captured extra hints t = Inr t'"
    and K: "version_codec_ok (en_codec E)" and sp: "plain s" "plain p" and hist: "history_ok (en_codec E) (map_of (tree_entries T t))"
    and recs: "\<forall>w\<in>set records. caller_key (fst w) \<and> plain_record (snd w) \<and> later_claim a s p (snd w)"
  shows "history_ok (en_codec E) (map_of (tree_entries T t'))
    \<and> answers_kept a (versions (en_codec E) (map_of (tree_entries T t)) s p) (versions (en_codec E) (map_of (tree_entries T t')) s p)"
proof -
  obtain t1 t2 t3 where t1: "insert_records T records t = Inr t1"
    and t2: "write_provenance E T b h records e captured extra t1 = Inr t2"
    and t3: "fold_r (write_index (en_codec E) T hints (rs_min_label captured)) records t2 = Inr t3"
    and t4: "fold_r (write_history (en_codec E) T) records t3 = Inr t'"
    using res unfolding write_body_def by (auto simp: bind_r_Inr_iff)
  note i = insert_records_txn [OF ok t1]
  have p: "touches prov_keys T t1 t2" by (rule write_provenance_touches [OF t2])
  have ok2: "txn_ok T t2" using p i by (simp add: touches_def)
  have x: "touches idx_keys T t2 t3" by (rule fold_touches [OF _ t3]) (rule write_index_touches)
  have ok3: "txn_ok T t3" using x ok2 by (simp add: touches_def)
  have same: "map_of (tree_entries T t3) k = map_of (tree_entries T t) k" if k: "prefix HISTORY_PREFIX k" for k
  proof -
    have "map_of (rev records) k = None" unfolding map_of_eq_None_iff using recs history_outside(1) [OF k] by auto
    then have "map_of (tree_entries T t1) k = map_of (tree_entries T t) k"
      using tree_store.map_of_fold_put [OF txn_skeys [OF ok], of records] i by (simp add: map_add_def)
    then show ?thesis
      using touches_map [OF p conjunct1 [OF i] history_outside(2) [OF k]] touches_map [OF x ok2 history_outside(3) [OF k]] by simp
  qed
  have "history_ok (en_codec E) (map_of (tree_entries T t3))" using hist history_cong(1) [OF same] by simp
  from write_history_beliefs [OF ok3 K sp t4 this, of a] recs show ?thesis using history_cong(2) [OF same] by simp
qed

lemma write_all_beliefs:
  assumes P: "pager_ok (en_pager E)" and ok: "loom_ok E l"
    and res: "write_all E tok b records e extra hints now l = (l', Inr c)" and h: "holds E l b es"
    and K: "version_codec_ok (en_codec E)" and sp: "plain s" "plain p" and hist: "history_ok (en_codec E) (map_of es)"
    and recs: "\<forall>w\<in>set records. caller_key (fst w) \<and> plain_record (snd w) \<and> later_claim a s p (snd w)"
  shows "\<exists>es'. holds E l' b es' \<and> history_ok (en_codec E) (map_of es')
    \<and> answers_kept a (versions (en_codec E) (map_of es) s p) (versions (en_codec E) (map_of es') s p)"
proof -
  let ?cap = "session_reads (e_session e) l"
  obtain l1 where l1: "l1 = l\<lparr>lm_reads := (lm_reads l)(e_session e := None)\<rparr>"
    and tr: "transact E b (\<lambda>h T t. bind_r (write_body E T b h records e ?cap extra hints t) (\<lambda>t. Inr (t, ()))) l1 = (l', Inr (c, ()))"
    using write_all_checks [OF res] by blast
  have ok1: "loom_ok E l1" and h1: "holds E l1 b es" using ok h l1 by simp_all
  let ?Q = "\<lambda>es es' a'. history_ok (en_codec E) (map_of es) \<longrightarrow> history_ok (en_codec E) (map_of es')
    \<and> answers_kept a (versions (en_codec E) (map_of es) s p) (versions (en_codec E) (map_of es') s p)"
  have body: "txn_ok T t' \<and> ?Q (tree_entries T t) (tree_entries T t') a'"
    if "txn_ok T t" "bind_r (write_body E T b h records e ?cap extra hints t) (\<lambda>t. Inr (t, ())) = Inr (t', a')" for h T t t' a'
  proof -
    have w: "write_body E T b h records e ?cap extra hints t = Inr t'" using that(2) by (auto simp: bind_r_Inr_iff)
    show ?thesis using write_body_result [OF that(1) w] write_body_beliefs [OF that(1) w K sp _ recs] by blast
  qed
  show ?thesis
  proof (rule transact_holds [of E l1 b _ ?Q, OF P ok1 body tr])
    fix es0 es' assume r: "holds E l1 b es0" "holds E l' b es'" "?Q es0 es' ()"
    moreover have "es0 = es" using r(1) h1 by (auto simp: holds_def dest: commit_good_unique)
    ultimately show ?thesis using hist by blast
  qed assumption+
qed

lemma best_of_kept:
  assumes k: "answers_kept a V V'" and b: "best_of a V r" and b': "best_of a V' r'"
    and one: "\<And>u v. u \<in> V' \<Longrightarrow> v \<in> V' \<Longrightarrow> cv_seq u = cv_seq v \<Longrightarrow> u = v"
  shows "rel_option (same_belief a) (map_option cv_claim r) (map_option cv_claim r')"
proof -
  obtain f where f: "\<forall>v. cv_seq (f v) = cv_seq v \<and> same_belief a (cv_claim v) (cv_claim (f v))"
    "{v \<in> V'. matches_point a v} = f ` {v \<in> V. matches_point a v}" using k by (auto simp: answers_kept_def)
  show ?thesis
  proof (cases r)
    case None
    then have "{v \<in> V. matches_point a v} = {}" using b by (simp add: best_of_def)
    then have "{v \<in> V'. matches_point a v} = {}" using f(2) by simp
    then have "r' = None" using b' by (cases r') (auto simp: best_of_def)
    then show ?thesis using None by simp
  next
    case (Some v)
    then have v: "v \<in> V" "matches_point a v" "\<forall>u\<in>V. matches_point a u \<longrightarrow> cv_seq u \<le> cv_seq v" using b by (simp_all add: best_of_def)
    have fv: "f v \<in> V'" "matches_point a (f v)" using f(2) v(1,2) by blast+
    then obtain w where w: "r' = Some w" "w \<in> V'" "matches_point a w" "\<forall>u\<in>V'. matches_point a u \<longrightarrow> cv_seq u \<le> cv_seq w"
      using b' by (cases r') (auto simp: best_of_def)
    then obtain u where u: "u \<in> V" "matches_point a u" "w = f u" using f(2) by blast
    have "cv_seq w \<le> cv_seq (f v)" using u v(3) f(1) by simp
    then have "cv_seq w = cv_seq (f v)" using w(4) fv by (simp add: order_antisym)
    then have "w = f v" using one w(2) fv(1) by blast
    then show ?thesis using w(1) Some f(1) by simp
  qed
qed

lemma version_unique:
  assumes "history_ok K m" and "plain s" and "plain p" and "u \<in> versions K m s p" and "v \<in> versions K m s p" and "cv_seq u = cv_seq v"
  shows "u = v"
proof -
  have u: "version_at K m (history_key s p (cv_seq u)) = Some u" using iffD1 [OF versions_iff [OF assms(1-3)] assms(4)] by (elim conjE)
  have v: "version_at K m (history_key s p (cv_seq v)) = Some v" using iffD1 [OF versions_iff [OF assms(1-3)] assms(5)] by (elim conjE)
  have "Some u = Some v" by (rule trans [OF u [unfolded assms(6), symmetric] v])
  then show ?thesis by (rule option.inject [THEN iffD1])
qed

end
