(* ===== verification/LoomAsOfProps.thy ===== *)
theory LoomAsOfProps
  imports LoomAsOfLaws LoomMemoryDemo
begin

text \<open>
  The properties of as-of queries: what an answer is, and that writing never changes what was believed
  before.
\<close>

text \<open>C32: an as-of answer is the latest belief there was: the query needs a token for the branch, states the
  point it answered at, and gives the claim of a recorded version whose known and valid intervals both contain
  the point, of the highest sequence number among those; it gives nothing exactly when no recorded
  version contains the point.  With a token it always answers.\<close>

theorem as_of_answers_latest:
  assumes h: "holds E l b es"
  shows "(authorize (en_issuer E) tok b now = Inr () \<longrightarrow> (\<exists>ans. as_of E l tok b s p a now = Inr ans))
    \<and> (\<forall>ans. as_of E l tok b s p a now = Inr ans \<longrightarrow> authorize (en_issuer E) tok b now = Inr () \<and> aa_as_of ans = a
        \<and> (case aa_claim ans of
             None \<Rightarrow> \<forall>v\<in>versions (en_codec E) (map_of es) s p. \<not> (contains (c_known (cv_claim v)) (ao_known a) \<and> contains (c_valid (cv_claim v)) (ao_valid a))
           | Some c \<Rightarrow> contains (c_known c) (ao_known a) \<and> contains (c_valid c) (ao_valid a)
               \<and> (\<exists>n. \<lparr>cv_claim = c, cv_seq = n\<rparr> \<in> versions (en_codec E) (map_of es) s p
                   \<and> (\<forall>v\<in>versions (en_codec E) (map_of es) s p.
                         contains (c_known (cv_claim v)) (ao_known a) \<longrightarrow> contains (c_valid (cv_claim v)) (ao_valid a) \<longrightarrow> cv_seq v \<le> n))))"
proof (intro conjI allI impI)
  show "\<exists>ans. as_of E l tok b s p a now = Inr ans" if "authorize (en_issuer E) tok b now = Inr ()" by (rule as_of_total [OF h that])
next
  fix ans assume r: "as_of E l tok b s p a now = Inr ans"
  obtain best where best: "authorize (en_issuer E) tok b now = Inr ()" "aa_as_of ans = a"
    "best_of a (versions (en_codec E) (map_of es) s p) best" "aa_claim ans = map_option cv_claim best"
    using as_of_holds [OF h r] by blast
  show "authorize (en_issuer E) tok b now = Inr ()" "aa_as_of ans = a" by (rule best)+
  show "case aa_claim ans of
             None \<Rightarrow> \<forall>v\<in>versions (en_codec E) (map_of es) s p. \<not> (contains (c_known (cv_claim v)) (ao_known a) \<and> contains (c_valid (cv_claim v)) (ao_valid a))
           | Some c \<Rightarrow> contains (c_known c) (ao_known a) \<and> contains (c_valid c) (ao_valid a)
               \<and> (\<exists>n. \<lparr>cv_claim = c, cv_seq = n\<rparr> \<in> versions (en_codec E) (map_of es) s p
                   \<and> (\<forall>v\<in>versions (en_codec E) (map_of es) s p.
                         contains (c_known (cv_claim v)) (ao_known a) \<longrightarrow> contains (c_valid (cv_claim v)) (ao_valid a) \<longrightarrow> cv_seq v \<le> n))"
  proof (cases best)
    case None
    then show ?thesis using best(3,4) by (simp add: best_of_def matches_point_def)
  next
    case (Some v)
    have e: "\<lparr>cv_claim = cv_claim v, cv_seq = cv_seq v\<rparr> = v" by simp
    have "\<exists>n. \<lparr>cv_claim = cv_claim v, cv_seq = n\<rparr> \<in> versions (en_codec E) (map_of es) s p
                   \<and> (\<forall>u\<in>versions (en_codec E) (map_of es) s p.
                         contains (c_known (cv_claim u)) (ao_known a) \<longrightarrow> contains (c_valid (cv_claim u)) (ao_valid a) \<longrightarrow> cv_seq u \<le> n)"
      using best(3) Some by (intro exI [of _ "cv_seq v"], unfold e) (simp add: best_of_def matches_point_def)
    then show ?thesis using best(3,4) Some by (simp add: best_of_def matches_point_def)
  qed
qed

text \<open>C33: what was believed is not rewritten: after any successful write of the caller's keys whose claims on
  a subject and a predicate are all believed from after a known time, every as-of question about them at
  that known time gets the claim it got before: the same one in every field, unless it was still believed
  (its known interval was open); then it may have been closed, and exactly two of its fields are
  different, its status, now superseded, and the end of its known interval, a time after the one asked
  about.  The answer is therefore not the same bytes after a supersession.  Nothing is lost: every version
  stays at its own key, so the history stays well formed.\<close>

theorem writes_keep_past_beliefs:
  assumes P: "pager_ok (en_pager E)" and ok: "loom_ok E l"
    and w: "write_all E tok b records e extra hints now l = (l', Inr c)" and h: "holds E l b es"
    and K: "version_codec_ok (en_codec E)" and sp: "CHR 0x00 \<notin> set s" "CHR 0x00 \<notin> set p" and hist: "history_ok (en_codec E) (map_of es)"
    and recs: "\<forall>w\<in>set records. caller_key (fst w) \<and> (\<forall>c. snd w = RClaim c \<longrightarrow> CHR 0x00 \<notin> set (c_subject c) \<and> CHR 0x00 \<notin> set (c_predicate c)
        \<and> (c_subject c = s \<and> c_predicate c = p \<longrightarrow> (\<exists>t. i_start (c_known c) = Some t \<and> ao_known a < t)))"
    and q: "as_of E l tok' b s p a now' = Inr ans"
  shows "\<exists>ans'. as_of E l' tok' b s p a now' = Inr ans' \<and> aa_as_of ans' = aa_as_of ans
    \<and> rel_option (\<lambda>c c'. c' = c \<or> (i_end (c_known c) = None
           \<and> (\<exists>t. ao_known a < t \<and> c' = c\<lparr>c_known := (c_known c)\<lparr>i_end := Some t\<rparr>, c_status := Superseded\<rparr>)))
         (aa_claim ans) (aa_claim ans')
    \<and> (\<exists>es'. holds E l' b es' \<and> history_ok (en_codec E) (map_of es'))"
proof -
  let ?K = "en_codec E"
  have pl: "plain s" "plain p" using sp by (simp_all add: plain_def)
  have "\<forall>w\<in>set records. caller_key (fst w) \<and> plain_record (snd w) \<and> later_claim a s p (snd w)"
    using recs by (auto simp: plain_record_def plain_claim_def plain_def later_claim_def)
  then obtain es' where es': "holds E l' b es'" "history_ok ?K (map_of es')"
    "answers_kept a (versions ?K (map_of es) s p) (versions ?K (map_of es') s p)"
    using write_all_beliefs [OF P ok w h K pl hist] by blast
  obtain best where best: "authorize (en_issuer E) tok' b now' = Inr ()" "aa_as_of ans = a" "best_of a (versions ?K (map_of es) s p) best"
    "aa_claim ans = map_option cv_claim best" using as_of_holds [OF h q] by blast
  obtain ans' where ans': "as_of E l' tok' b s p a now' = Inr ans'" using as_of_total [OF es'(1) best(1)] by blast
  obtain best' where best': "aa_as_of ans' = a" "best_of a (versions ?K (map_of es') s p) best'" "aa_claim ans' = map_option cv_claim best'"
    using as_of_holds [OF es'(1) ans'] by blast
  have "rel_option (same_belief a) (aa_claim ans) (aa_claim ans')"
    unfolding best(4) best'(3) by (rule best_of_kept [OF es'(3) best(3) best'(2) version_unique [OF es'(2) pl]])
  then show ?thesis using ans' best(2) best'(1) es'(1,2) unfolding same_belief_def by auto
qed

section \<open>A history\<close>

text \<open>A branch on which something is believed of the user since time three, and a write of the opposite, believed
  from time seven: the write closes the first version and appends the second.\<close>

definition old_belief :: claim_version where
  "old_belief = \<lparr>cv_claim = demo_claim\<lparr>c_known := interval_from 3\<rparr>, cv_seq = 0\<rparr>"

definition new_claim :: claim where
  "new_claim = demo_claim\<lparr>c_object := BoolV False, c_known := interval_from 7\<rparr>"

definition new_belief :: claim_version where
  "new_belief = \<lparr>cv_claim = new_claim, cv_seq = 1\<rparr>"

definition closed_belief :: claim_version where
  "closed_belief = close_version (Some 7) old_belief"

definition as_codec :: loom_codec where
  "as_codec = mem_codec\<lparr>lc_version_encode := (\<lambda>v. if v = new_belief then Some ''v'' else if v = old_belief then Some ''h''
                                               else if v = closed_belief then Some ''c'' else None),
     lc_version_decode := (\<lambda>b. if b = ''v'' then Some new_belief else if b = ''h'' then Some old_belief
                               else if b = ''c'' then Some closed_belief else None)\<rparr>"

definition as_env :: "(demo_pages, refs option) loom_env" where
  "as_env = mem_env\<lparr>en_codec := as_codec\<rparr>"

definition as_before :: "(key \<times> record_t) list" where
  "as_before = (history_key ''user'' ''is'' 0, RValue (Blob ''h'')) # demo_before"

lemma as_env_sel [simp]:
  "en_pager as_env = demo_pager" "en_store as_env = mem_io" "en_issuer as_env = demo_issuer" "en_codec as_env = as_codec"
  by (simp_all add: as_env_def)

lemma as_before_keys: "skeys as_before"
  using demo_before_keys by (simp add: as_before_def demo_before_def key_defs history_key_def less_list_code less_char_def)

lemma as_seq: "map_of as_before (prov_seq_key ''s1'') = Some (RValue (Counter 1))"
  using demo_before_lookup by (simp add: as_before_def key_defs history_key_def)

lemma as_versions: "version_at as_codec (map_of as_before) x = Some v \<Longrightarrow> prefix HISTORY_PREFIX x \<Longrightarrow> x = history_key ''user'' ''is'' 0 \<and> v = old_belief"
  by (auto simp: version_at_Some as_before_def demo_before_def key_defs as_codec_def split: if_splits)

lemma as_history_ok: "history_ok as_codec (map_of as_before)"
  using as_versions by (fastforce simp: history_ok_def home_def old_belief_def demo_claim_def plain_claim_def plain_def)

lemma belief_sel [simp]:
  "cv_seq old_belief = 0" "i_end (c_known (cv_claim old_belief)) = None" "c_subject new_claim = ''user''" "c_predicate new_claim = ''is''"
  "i_start (c_known new_claim) = Some 7"
  by (simp_all add: old_belief_def new_claim_def demo_claim_def interval_from_def)

definition as_body :: "(key \<times> record_t) list" where
  "as_body = put (prov_seq_key ''s1'') (RValue (Counter 2)) (put (latest_node_key ''k'') (RValue (Blob (dn_id demo_derived)))
     (put (node_storage_key ''s1'' 1) (RValue (Blob ''m'')) (put ''k'' (RClaim new_claim) as_before)))"

definition as_written :: "(key \<times> record_t) list" where
  "as_written = put (history_key ''user'' ''is'' 1) (RValue (Blob ''v'')) (put (history_key ''user'' ''is'' 0) (RValue (Blob ''c'')) as_body)"

lemma as_body_keys: "skeys as_body"
  unfolding as_body_def by (intro skeys_put as_before_keys)

lemma as_body_history:
  assumes "prefix HISTORY_PREFIX x"
  shows "map_of as_body x = map_of as_before x"
proof -
  have "x \<noteq> prov_seq_key ''s1''" "x \<noteq> latest_node_key ''k''" "x \<noteq> node_storage_key ''s1'' 1" "x \<noteq> ''k''"
    using assms by (auto simp: key_defs)
  then show ?thesis by (simp add: as_body_def map_of_put as_before_keys skeys_put)
qed

lemma as_versions_differ: "closed_belief \<noteq> new_belief" "closed_belief \<noteq> old_belief" "new_belief \<noteq> old_belief"
  by (simp_all add: closed_belief_def close_version_def closed_at_def old_belief_def new_belief_def interval_from_def demo_claim_def Let_def)

lemma singleton_list: "set xs = {x} \<Longrightarrow> distinct xs \<Longrightarrow> xs = [x]"
  by (cases xs; cases "tl xs") auto

lemma as_one_version: "history_versions as_codec (history_prefix ''user'' ''is'') as_body = [(history_key ''user'' ''is'' 0, old_belief)]"
proof -
  let ?vs = "history_versions as_codec (history_prefix ''user'' ''is'') as_body"
  have same: "version_at as_codec (map_of as_body) k = version_at as_codec (map_of as_before) k" if "prefix HISTORY_PREFIX k" for k
    using as_body_history [OF that] by (simp add: version_at_def)
  have up: "prefix HISTORY_PREFIX k" if "prefix (history_prefix ''user'' ''is'') k" for k
    using history_prefixes(1) that by (rule prefix_order.trans)
  have first: "version_at as_codec (map_of as_before) (history_key ''user'' ''is'' 0) = Some old_belief"
    using as_versions_differ(3) by (simp add: version_at_Some as_before_def as_codec_def)
  have "(k, v) \<in> set ?vs \<longleftrightarrow> k = history_key ''user'' ''is'' 0 \<and> v = old_belief" for k v
    unfolding history_versions_iff [OF as_body_keys]
    using same up as_versions first history_prefixes by metis
  then have "set ?vs = {(history_key ''user'' ''is'' 0, old_belief)}" by auto
  moreover have "distinct ?vs" using history_versions_distinct [OF as_body_keys] by (auto simp: distinct_map)
  ultimately show ?thesis by (rule singleton_list)
qed

lemma as_codec_ok: "version_codec_ok as_codec"
  using as_versions_differ by (auto simp: version_codec_ok_def as_codec_def)

lemma as_append:
  assumes leaf: "at_leaf as_before 501 as_body t"
  shows "\<exists>t'. append_claim_version as_codec (leaf_db as_before as_written) new_claim t = Inr t' \<and> at_leaf as_before 1000 as_written t'"
proof -
  have len: "length (history_key ''user'' ''is'' q) \<le> 76" for q by (simp add: history_key_def history_prefix_def key_space_defs)
  have enc: "lc_version_encode as_codec closed_belief = Some ''c''" "lc_version_encode as_codec new_belief = Some ''v''"
    using as_versions_differ by (simp_all add: as_codec_def)
  obtain u where u: "tree_scan (leaf_db as_before as_written) t = Inr (u, as_body)" "at_leaf as_before 501 as_body u" by (rule at_leaf_scan [OF leaf])
  obtain v where v: "tree_insert (leaf_db as_before as_written) u (history_key ''user'' ''is'' 0) (RValue (Blob ''c'')) = Inr v"
    "at_leaf as_before 601 (put (history_key ''user'' ''is'' 0) (RValue (Blob ''c'')) as_body) v"
    using at_leaf_step [OF u(2) len [of 0], where b = as_written and v = "RValue (Blob ''c'')"] by auto
  obtain w where w: "tree_insert (leaf_db as_before as_written) v (history_key ''user'' ''is'' 1) (RValue (Blob ''v'')) = Inr w"
    "at_leaf as_before 701 as_written w"
    using at_leaf_step [OF v(2) len [of 1], where b = as_written and v = "RValue (Blob ''v'')"] by (auto simp: as_written_def)
  have "append_claim_version as_codec (leaf_db as_before as_written) new_claim t = Inr w"
    using u(1) v(1) w(1) enc by (simp add: append_claim_version_def as_one_version max_version_def put_version_def version_encode_def put_blob_def
        next_seq_def u64_add_def new_belief_def closed_belief_def)
  then show ?thesis using at_leaf_mono [OF w(2), of 1000] by auto
qed

lemma as_write: "\<exists>l'. write_indexed_many as_env demo_token ''s1'' [(''k'', RClaim new_claim)] Map.empty demo_envelope 5 (leaf_loom as_before as_written) = (l', Inr ''r+'')"
proof (rule leaf_write_claim [OF as_before_keys as_seq, of as_env as_codec as_body, OF _ _ _ _ _ as_body_def _ as_append])
  show "\<exists>t'. write_index as_codec (leaf_db as_before as_written) Map.empty (rs_min_label mem_capture) (''k'', RClaim new_claim) t = Inr t'
      \<and> at_leaf as_before 501 as_body t'" if "at_leaf as_before 401 as_body t" for t
    using at_leaf_mono [OF that, of 501] by (auto simp: write_index_def)
qed (use demo_nodes_differ in \<open>simp_all add: demo_taint_codec_def mem_codec_def as_codec_def\<close>)

text \<open>What was believed at time four.\<close>

abbreviation past_point :: as_of_point where
  "past_point \<equiv> \<lparr>ao_valid = 4, ao_known = 4\<rparr>"

lemma as_holds: "holds as_env (leaf_loom as_before f) ''s1'' as_before"
  by (simp add: leaf_holds as_before_keys)

lemma past_answer:
  "as_of as_env (leaf_loom as_before f) demo_token ''s1'' ''user'' ''is'' past_point 5 = Inr \<lparr>aa_claim = Some (cv_claim old_belief), aa_as_of = past_point\<rparr>"
proof -
  have pl: "plain ''user''" "plain ''is''" by (simp_all add: plain_def)
  have m: "matches_point past_point old_belief" by (simp add: matches_point_def old_belief_def demo_claim_def contains_def interval_from_def)
  obtain ans where ans: "as_of as_env (leaf_loom as_before f) demo_token ''s1'' ''user'' ''is'' past_point 5 = Inr ans"
    using as_of_total [OF as_holds [of f], of demo_token 5 "''user''" "''is''" past_point] demo_checks by auto
  obtain best where best: "aa_as_of ans = past_point" "best_of past_point (versions as_codec (map_of as_before) ''user'' ''is'') best"
    "aa_claim ans = map_option cv_claim best" using as_of_holds [OF as_holds ans] by auto
  have old: "old_belief \<in> versions as_codec (map_of as_before) ''user'' ''is''"
    unfolding versions_iff [OF as_history_ok pl]
    by (auto simp: version_at_Some as_before_def as_codec_def old_belief_def new_belief_def new_claim_def demo_claim_def)
  have one: "v = old_belief" if "v \<in> versions as_codec (map_of as_before) ''user'' ''is''" for v
  proof -
    have "version_at as_codec (map_of as_before) (history_key ''user'' ''is'' (cv_seq v)) = Some v"
      using iffD1 [OF versions_iff [OF as_history_ok pl] that] by (elim conjE)
    moreover have "prefix HISTORY_PREFIX (history_key ''user'' ''is'' (cv_seq v))" by (simp add: history_key_def history_prefix_def)
    ultimately show ?thesis using as_versions by blast
  qed
  have "best = Some old_belief"
  proof (cases best)
    case None
    then show ?thesis using best(2) old m by (auto simp: best_of_def)
  next
    case (Some v)
    then have "v \<in> versions as_codec (map_of as_before) ''user'' ''is''" using best(2) by (simp add: best_of_def)
    then show ?thesis using one Some by blast
  qed
  then show ?thesis using ans best(1,3) by simp
qed

theorem as_of_answers_latest_witness:
  "contains (c_known (cv_claim old_belief)) 4 \<and> (\<exists>n. \<lparr>cv_claim = cv_claim old_belief, cv_seq = n\<rparr> \<in> versions as_codec (map_of as_before) ''user'' ''is'')"
  using as_of_answers_latest [OF as_holds, where tok = demo_token and now = 5 and s = "''user''" and p = "''is''" and a = past_point] past_answer by auto

theorem writes_keep_past_beliefs_witness:
  "\<exists>l' ans c. write_indexed_many as_env demo_token ''s1'' [(''k'', RClaim new_claim)] Map.empty demo_envelope 5 (leaf_loom as_before as_written) = (l', Inr ''r+'')
    \<and> as_of as_env l' demo_token ''s1'' ''user'' ''is'' past_point 5 = Inr ans
    \<and> aa_claim ans = Some c \<and> c_object c = c_object demo_claim \<and> c_object c \<noteq> c_object new_claim \<and> i_start (c_known c) = Some 3"
proof -
  obtain l' where w: "write_indexed_many as_env demo_token ''s1'' [(''k'', RClaim new_claim)] Map.empty demo_envelope 5 (leaf_loom as_before as_written) = (l', Inr ''r+'')"
    using as_write by blast
  then have w': "write_all as_env demo_token ''s1'' [(''k'', RClaim new_claim)] demo_envelope Map.empty Map.empty 5 (leaf_loom as_before as_written) = (l', Inr ''r+'')"
    by (simp add: write_indexed_many_def)
  have recs: "\<forall>w\<in>set [(''k'', RClaim new_claim)]. caller_key (fst w) \<and> (\<forall>c. snd w = RClaim c \<longrightarrow> CHR 0x00 \<notin> set (c_subject c) \<and> CHR 0x00 \<notin> set (c_predicate c)
        \<and> (c_subject c = ''user'' \<and> c_predicate c = ''is'' \<longrightarrow> (\<exists>t. i_start (c_known c) = Some t \<and> ao_known past_point < t)))"
    by (auto simp: caller_key_def is_reserved_def is_provenance_def key_space_defs)
  have "\<exists>ans'. as_of as_env l' demo_token ''s1'' ''user'' ''is'' past_point 5 = Inr ans' \<and> aa_as_of ans' = past_point
    \<and> rel_option (\<lambda>c c'. c' = c \<or> (i_end (c_known c) = None
           \<and> (\<exists>t. ao_known past_point < t \<and> c' = c\<lparr>c_known := (c_known c)\<lparr>i_end := Some t\<rparr>, c_status := Superseded\<rparr>)))
         (Some (cv_claim old_belief)) (aa_claim ans')"
    using writes_keep_past_beliefs [of as_env "leaf_loom as_before as_written", OF _ _ w' as_holds _ _ _ _ recs past_answer] as_codec_ok as_history_ok
      demo_pager_ok leaf_ok [OF as_before_keys, of as_env] by auto
  then obtain ans' c where a: "as_of as_env l' demo_token ''s1'' ''user'' ''is'' past_point 5 = Inr ans'" "aa_claim ans' = Some c"
    "c = cv_claim old_belief \<or> (\<exists>t. c = (cv_claim old_belief)\<lparr>c_known := (c_known (cv_claim old_belief))\<lparr>i_end := Some t\<rparr>, c_status := Superseded\<rparr>)"
    by (auto simp: option_rel_Some1)
  then have "c_object c = c_object demo_claim \<and> c_object c \<noteq> c_object new_claim \<and> i_start (c_known c) = Some 3"
    by (auto simp: old_belief_def new_claim_def demo_claim_def interval_from_def)
  then show ?thesis using w a(1,2) by blast
qed

text \<open>A claim asserted again with an unchanged start of its known interval leaves the version before it with an
  empty interval: no question about the past sees that version any more.\<close>

lemma reassertion_erases:
  "i_start (c_known (cv_claim v)) = Some t \<Longrightarrow> \<not> matches_point a (close_version (Some t) v)"
  by (auto simp: matches_point_def close_version_def contains_def closed_at_def Let_def)

end
