(* ===== verification/LoomFiles.thy ===== *)
theory LoomFiles
  imports LoomState
begin

text \<open>
  The file system as \<open>std::fs\<close> shows it to the code.  A path is absolute and canonical, the list of its
  components; the tree is an association list from paths to nodes; a symbolic link names an absolute
  path and is followed where the library follows it.  The operating system may refuse any
  call: \<open>os_fault\<close> says which error it then reports.
\<close>

type_synonym path = "bytes list"

text \<open>A file has its content and its permission bits.\<close>

datatype fnode = File bytes nat | Folder | Link path | Special

type_synonym disk = "(path \<times> fnode) list"

datatype os_error = ENOENT | EEXIST | ENOTDIR | EISDIR | OsError bytes

datatype syscall = ReadDir | DirEntry | Lstat | Stat | Open | Read | Create | Write | Sync | Chmod | Mkdir | Rename | RemoveAll | Realpath

record os =
  os_fault :: "syscall \<Rightarrow> path \<Rightarrow> os_error option"
  os_pid :: nat
  os_umode :: nat

definition sys :: "os \<Rightarrow> syscall \<Rightarrow> path \<Rightarrow> os_error + unit" where
  "sys S c p = (case os_fault S c p of None \<Rightarrow> Inr () | Some e \<Rightarrow> Inl e)"

section \<open>Reading\<close>

text \<open>At most forty links are followed, then the system gives up (\<open>ELOOP\<close>).\<close>

fun canon :: "nat \<Rightarrow> disk \<Rightarrow> path \<Rightarrow> path option" where
  "canon 0 d p = None"
| "canon (Suc n) d p = (case map_of d p of None \<Rightarrow> None | Some (Link t) \<Rightarrow> canon n d t | Some _ \<Rightarrow> Some p)"

definition follow :: "disk \<Rightarrow> path \<Rightarrow> fnode option" where
  "follow d p = (case canon 40 d p of None \<Rightarrow> None | Some q \<Rightarrow> map_of d q)"

definition std_lstat :: "os \<Rightarrow> path \<Rightarrow> disk \<Rightarrow> os_error + fnode" where
  "std_lstat S p d = bind_r (sys S Lstat p) (\<lambda>_. case map_of d p of None \<Rightarrow> Inl ENOENT | Some n \<Rightarrow> Inr n)"

definition std_stat :: "os \<Rightarrow> path \<Rightarrow> disk \<Rightarrow> os_error + fnode" where
  "std_stat S p d = bind_r (sys S Stat p) (\<lambda>_. case follow d p of None \<Rightarrow> Inl ENOENT | Some n \<Rightarrow> Inr n)"

definition path_exists :: "os \<Rightarrow> path \<Rightarrow> disk \<Rightarrow> bool" where
  "path_exists S p d = (case std_stat S p d of Inl _ \<Rightarrow> False | Inr _ \<Rightarrow> True)"

definition path_is_dir :: "os \<Rightarrow> path \<Rightarrow> disk \<Rightarrow> bool" where
  "path_is_dir S p d = (std_stat S p d = Inr Folder)"

definition std_canonicalize :: "os \<Rightarrow> path \<Rightarrow> disk \<Rightarrow> os_error + path" where
  "std_canonicalize S p d = bind_r (sys S Realpath p) (\<lambda>_. case canon 40 d p of None \<Rightarrow> Inl ENOENT | Some q \<Rightarrow> Inr q)"

text \<open>The names in a directory, sorted by \<open>file_name\<close>.\<close>

definition names_in :: "disk \<Rightarrow> path \<Rightarrow> bytes list" where
  "names_in d p = sort_dedup (List.map_filter (\<lambda>w. if fst w \<noteq> [] \<and> butlast (fst w) = p then Some (last (fst w)) else None) d)"

definition std_read_dir :: "os \<Rightarrow> path \<Rightarrow> disk \<Rightarrow> os_error + bytes list" where
  "std_read_dir S p d = bind_r (sys S ReadDir p) (\<lambda>_.
     case follow d p of None \<Rightarrow> Inl ENOENT | Some Folder \<Rightarrow> Inr (names_in d p) | Some _ \<Rightarrow> Inl ENOTDIR)"

definition std_open :: "os \<Rightarrow> path \<Rightarrow> disk \<Rightarrow> os_error + bytes" where
  "std_open S p d = bind_r (sys S Open p) (\<lambda>_.
     case follow d p of None \<Rightarrow> Inl ENOENT | Some (File b m) \<Rightarrow> Inr b | Some Folder \<Rightarrow> Inl EISDIR | Some _ \<Rightarrow> Inr [])"

definition std_read :: "os \<Rightarrow> path \<Rightarrow> disk \<Rightarrow> os_error + bytes" where
  "std_read S p d = bind_r (std_open S p d) (\<lambda>b. bind_r (sys S Read p) (\<lambda>_. Inr b))"

section \<open>Writing\<close>

definition put_node :: "path \<Rightarrow> fnode \<Rightarrow> disk \<Rightarrow> disk" where
  "put_node p n d = (p, n) # filter (\<lambda>w. fst w \<noteq> p) d"

definition std_mkdir :: "os \<Rightarrow> path \<Rightarrow> (disk, os_error, unit) fallible" where
  "std_mkdir S p d =
     (case sys S Mkdir p of Inl e \<Rightarrow> (d, Inl e)
      | Inr _ \<Rightarrow> if map_of d p \<noteq> None then (d, Inl EEXIST)
          else if follow d (butlast p) \<noteq> Some Folder then (d, Inl ENOENT)
          else (put_node p Folder d, Inr ()))"

text \<open>\<open>create_dir_all\<close>: the ancestors, from the top, that are not directories yet.\<close>

fun std_mkdirs :: "os \<Rightarrow> path \<Rightarrow> path \<Rightarrow> (disk, os_error, unit) fallible" where
  "std_mkdirs S p [] d = (d, Inr ())"
| "std_mkdirs S p (c # cs) d =
     (if follow d (p @ [c]) = Some Folder then std_mkdirs S (p @ [c]) cs d
      else bind_s (std_mkdir S (p @ [c])) (\<lambda>_. std_mkdirs S (p @ [c]) cs) d)"

definition std_create_new :: "os \<Rightarrow> path \<Rightarrow> (disk, os_error, unit) fallible" where
  "std_create_new S p d =
     (case sys S Create p of Inl e \<Rightarrow> (d, Inl e)
      | Inr _ \<Rightarrow> if map_of d p \<noteq> None then (d, Inl EEXIST)
          else if follow d (butlast p) \<noteq> Some Folder then (d, Inl ENOENT)
          else (put_node p (File [] (os_umode S)) d, Inr ()))"

definition std_write_all :: "os \<Rightarrow> path \<Rightarrow> bytes \<Rightarrow> (disk, os_error, unit) fallible" where
  "std_write_all S p b d =
     (case sys S Write p of Inl e \<Rightarrow> (d, Inl e)
      | Inr _ \<Rightarrow> (case map_of d p of Some (File c m) \<Rightarrow> (put_node p (File (c @ b) m) d, Inr ()) | _ \<Rightarrow> (d, Inl ENOENT)))"

definition std_sync :: "os \<Rightarrow> path \<Rightarrow> (disk, os_error, unit) fallible" where
  "std_sync S p d = (d, sys S Sync p)"

definition std_chmod :: "os \<Rightarrow> path \<Rightarrow> nat \<Rightarrow> (disk, os_error, unit) fallible" where
  "std_chmod S p m d =
     (case sys S Chmod p of Inl e \<Rightarrow> (d, Inl e)
      | Inr _ \<Rightarrow> (case map_of d p of Some (File c _) \<Rightarrow> (put_node p (File c m) d, Inr ()) | _ \<Rightarrow> (d, Inl ENOENT)))"

definition move_path :: "path \<Rightarrow> path \<Rightarrow> path \<Rightarrow> path" where
  "move_path a b p = (if prefix a p then b @ drop (length a) p else p)"

text \<open>The rename of a directory, in one step; onto something that exists it fails.\<close>

definition std_rename :: "os \<Rightarrow> path \<Rightarrow> path \<Rightarrow> (disk, os_error, unit) fallible" where
  "std_rename S a b d =
     (case sys S Rename b of Inl e \<Rightarrow> (d, Inl e)
      | Inr _ \<Rightarrow> if map_of d a = None then (d, Inl ENOENT) else if map_of d b \<noteq> None then (d, Inl EEXIST)
          else (map (\<lambda>w. (move_path a b (fst w), snd w)) d, Inr ()))"

definition std_remove_all :: "os \<Rightarrow> path \<Rightarrow> disk \<Rightarrow> disk" where
  "std_remove_all S p d = (case sys S RemoveAll p of Inl e \<Rightarrow> d | Inr _ \<Rightarrow> filter (\<lambda>w. \<not> prefix p (fst w)) d)"

end
