(* ===== verification/LoomBackup.thy ===== *)
theory LoomBackup
  imports LoomFiles LoomKeys LoomSession
begin

text \<open>
  Backup and restore (\<open>crates/loom-branch/src/backup.rs\<close>, and \<open>Loom::backup_to\<close> of \<open>session.rs\<close>).
  A backup is a directory with the files of a database, a manifest that lists each of them with its
  length and digest, and, when it is signed, a detached signature.  BLAKE3, JSON and Ed25519 are
  parameters; the texts of errors are data.
\<close>

section \<open>Constants, records, refusals\<close>

definition BACKUP_FORMAT_VERSION :: nat where "BACKUP_FORMAT_VERSION = 1"
definition BACKUP_MANIFEST_FILE :: bytes where "BACKUP_MANIFEST_FILE = ''loom-backup-manifest.json''"
definition BACKUP_SIGNATURE_FILE :: bytes where "BACKUP_SIGNATURE_FILE = ''loom-backup-manifest.sig.json''"
definition BACKUP_SIGNATURE_VERSION :: nat where "BACKUP_SIGNATURE_VERSION = 1"
definition BACKUP_SIGNATURE_VERSION_V2 :: nat where "BACKUP_SIGNATURE_VERSION_V2 = 2"
definition PROCESS_LOCK_RELATIVE :: bytes where "PROCESS_LOCK_RELATIVE = ''loom/store.lock''"
definition MAX_MANIFEST_BYTES :: nat where "MAX_MANIFEST_BYTES = 16 * 1024 * 1024"
definition MAX_SIGNATURE_BYTES :: nat where "MAX_SIGNATURE_BYTES = 16 * 1024"
definition MAX_BACKUP_FILES :: nat where "MAX_BACKUP_FILES = 1000000"
definition SIGNATURE_DOMAIN :: bytes where "SIGNATURE_DOMAIN = ''loomdb-backup-manifest-signature-v1'' @ [CHR 0x00]"
definition SIGNATURE_DOMAIN_V2 :: bytes where "SIGNATURE_DOMAIN_V2 = ''loomdb-backup-manifest-signature-v2'' @ [CHR 0x00]"

record backup_file =
  bf_path :: bytes
  bf_bytes :: u64
  bf_blake3 :: bytes

record backup_manifest =
  bm_format_version :: nat
  bm_tenant :: bytes
  bm_files :: "backup_file list"

record backup_signature =
  bs_format_version :: nat
  bs_algorithm :: bytes
  bs_key_id :: bytes
  bs_manifest_blake3 :: bytes
  bs_ed25519 :: bytes

datatype integrity_fault =
    OutsideRoot path path
  | NotPortable bytes
  | EscapesRoot bytes
  | SymlinkFound path
  | TooManyFiles
  | OddNode path
  | LengthOverflow path
  | ManifestNotRegular
  | ManifestTooLarge nat
  | ManifestFormat nat
  | EmptyTenant
  | TooManyDeclared
  | DeclaredTwice bytes
  | FileSetMismatch "bytes list" "bytes list"
  | RecordNotRegular bytes
  | FileChanged bytes u64 bytes u64 bytes
  | ChangedDuringRestore bytes

datatype unsupported_fault = NameNotUtf8 path | NoDestinationParent path | NoPortableName path | NestedDestination path path | NoStoreRoot

datatype authenticity_fault =
    NotHexOf bytes nat
  | BadSigningKeyId
  | CannotWriteFormat nat
  | SignatureMissing
  | SignatureNotRegular
  | SignatureTooLarge nat
  | RecordInvalid bytes
  | SignatureFormat nat
  | ManifestDigest bytes bytes
  | AlgorithmUnsupported bytes
  | SignedByOther bytes bytes
  | SignatureRefused bytes bytes
  | KeyRefused key_error

datatype backup_error =
    BackupIo bytes path os_error
  | ManifestDecode bytes
  | Integrity integrity_fault
  | Unsupported unsupported_fault
  | DestinationExists path
  | Engine loom_error
  | Authenticity authenticity_fault

text \<open>\<open>blake3::Hasher\<close> and JSON.\<close>

record 'h blake3 =
  b3_new :: 'h
  b3_update :: "'h \<Rightarrow> bytes \<Rightarrow> 'h"
  b3_finalize :: "'h \<Rightarrow> bytes"

record backup_codec =
  bc_manifest :: "backup_manifest \<Rightarrow> bytes + bytes"
  bc_manifest_of :: "bytes \<Rightarrow> bytes + backup_manifest"
  bc_signature :: "backup_signature \<Rightarrow> bytes + bytes"
  bc_signature_of :: "bytes \<Rightarrow> bytes + backup_signature"

record 'h backup_env =
  be_os :: os
  be_hash :: "'h blake3"
  be_json :: backup_codec
  be_ed :: ed25519

definition b3 :: "'h blake3 \<Rightarrow> bytes \<Rightarrow> bytes" where
  "b3 H b = b3_finalize H (b3_update H (b3_new H) b)"

definition io :: "bytes \<Rightarrow> path \<Rightarrow> os_error + 'a \<Rightarrow> backup_error + 'a" where
  "io oper p r = (case r of Inl e \<Rightarrow> Inl (BackupIo oper p e) | Inr a \<Rightarrow> Inr a)"

definition io_s :: "bytes \<Rightarrow> path \<Rightarrow> (disk, os_error, 'a) fallible \<Rightarrow> (disk, backup_error, 'a) fallible" where
  "io_s oper p m d = (case m d of (d', r) \<Rightarrow> (d', io oper p r))"

section \<open>Paths\<close>

fun replace_char :: "char \<Rightarrow> char \<Rightarrow> bytes \<Rightarrow> bytes" where
  "replace_char a b s = map (\<lambda>c. if c = a then b else c) s"

definition relative_string :: "path \<Rightarrow> path \<Rightarrow> backup_error + bytes" where
  "relative_string root p =
     (if \<not> prefix root p then Inl (Integrity (OutsideRoot p root))
      else let value = join ''/'' (drop (length root) p)
           in if \<not> utf8_valid value then Inl (Unsupported (NameNotUtf8 (drop (length root) p)))
              else Inr (replace_char (CHR 0x5C) (CHR ''/'') value))"

text \<open>\<open>Path::components\<close> of a Unix path.\<close>

datatype path_part = RootDir | CurDir | ParentDir | Normal bytes

fun slash_parts :: "bytes \<Rightarrow> bytes list" where
  "slash_parts [] = [[]]"
| "slash_parts (c # s) =
     (if c = CHR ''/'' then [] # slash_parts s
      else case slash_parts s of p # ps \<Rightarrow> (c # p) # ps | [] \<Rightarrow> [[c]])"

definition path_part_of :: "bytes \<Rightarrow> path_part" where
  "path_part_of s = (if s = ''..'' then ParentDir else Normal s)"

definition path_components :: "bytes \<Rightarrow> path_part list" where
  "path_components s =
     (let parts = slash_parts s
      in (if prefix ''/'' s then [RootDir] else if hd parts = ''.'' then [CurDir] else [])
         @ map path_part_of (filter (\<lambda>p. p \<noteq> [] \<and> p \<noteq> ''.'') parts))"

definition normal_part :: "path_part \<Rightarrow> bytes option" where
  "normal_part c = (case c of Normal s \<Rightarrow> Some s | _ \<Rightarrow> None)"

definition checked_relative :: "bytes \<Rightarrow> backup_error + path" where
  "checked_relative value =
     (if value = [] \<or> CHR 0x5C \<in> set value then Inl (Integrity (NotPortable value))
      else if prefix ''/'' value \<or> (\<exists>c\<in>set (path_components value). normal_part c = None) then Inl (Integrity (EscapesRoot value))
      else Inr (List.map_filter normal_part (path_components value)))"

section \<open>Walking a tree\<close>

definition excluded :: "bool \<Rightarrow> bool \<Rightarrow> bytes \<Rightarrow> bool" where
  "excluded exclude_manifest exclude_lock relative \<longleftrightarrow>
     exclude_manifest \<and> (relative = BACKUP_MANIFEST_FILE \<or> relative = BACKUP_SIGNATURE_FILE) \<or> exclude_lock \<and> relative = PROCESS_LOCK_RELATIVE"

definition list_dir :: "os \<Rightarrow> path \<Rightarrow> disk \<Rightarrow> backup_error + bytes list" where
  "list_dir S dir d =
     bind_r (io ''read directory'' dir (std_read_dir S dir d)) (\<lambda>ns.
     bind_r (io ''read directory entry'' dir (sys S DirEntry dir)) (\<lambda>_. Inr ns))"

definition deepest :: "disk \<Rightarrow> nat" where
  "deepest d = Max (insert 0 (length ` fst ` set d))"

lemma stat_deepest: "io oper p (std_lstat S p d) = Inr n \<Longrightarrow> length p \<le> deepest d"
proof -
  assume "io oper p (std_lstat S p d) = Inr n"
  then have "map_of d p \<noteq> None" by (auto simp: io_def std_lstat_def bind_r_def sys_def split: option.splits sum.splits)
  then have "length p \<in> insert 0 (length ` fst ` set d)" by (metis imageI insertCI map_of_eq_None_iff)
  then show ?thesis unfolding deepest_def by (intro Max_ge) simp_all
qed

text \<open>The walk over the entries of a directory.\<close>

function walk :: "os \<Rightarrow> bool \<Rightarrow> bool \<Rightarrow> path \<Rightarrow> disk \<Rightarrow> path \<Rightarrow> bytes list \<Rightarrow> path list \<Rightarrow> backup_error + path list" where
  "walk S xm xl root d dir [] out = Inr out"
| "walk S xm xl root d dir (n # ns) out =
     (case io ''stat'' (dir @ [n]) (std_lstat S (dir @ [n]) d) of
        Inl e \<Rightarrow> Inl e
      | Inr (Link _) \<Rightarrow> Inl (Integrity (SymlinkFound (dir @ [n])))
      | Inr Folder \<Rightarrow>
          (case list_dir S (dir @ [n]) d of
             Inl e \<Rightarrow> Inl e
           | Inr ms \<Rightarrow> (case walk S xm xl root d (dir @ [n]) ms out of
               Inl e \<Rightarrow> Inl e
             | Inr out \<Rightarrow> walk S xm xl root d dir ns out))
      | Inr (File _ _) \<Rightarrow>
          (case relative_string root (dir @ [n]) of
             Inl e \<Rightarrow> Inl e
           | Inr relative \<Rightarrow>
               if excluded xm xl relative then walk S xm xl root d dir ns out
               else if MAX_BACKUP_FILES < length (out @ [dir @ [n]]) then Inl (Integrity TooManyFiles)
               else walk S xm xl root d dir ns (out @ [dir @ [n]]))
      | Inr Special \<Rightarrow> Inl (Integrity (OddNode (dir @ [n]))))"
  by pat_completeness auto
termination
  by (relation "measures [\<lambda>(S, xm, xl, root, d, dir, ns, out). Suc (deepest d) - length dir, \<lambda>(S, xm, xl, root, d, dir, ns, out). length ns]") (auto dest!: stat_deepest)

definition walk_files :: "os \<Rightarrow> bool \<Rightarrow> bool \<Rightarrow> path \<Rightarrow> path \<Rightarrow> disk \<Rightarrow> backup_error + path list" where
  "walk_files S xm xl root dir d = bind_r (list_dir S dir d) (\<lambda>ns. walk S xm xl root d dir ns [])"

section \<open>Copying and hashing\<close>

text \<open>What the reads of a file give: the buffer is filled while it can be.\<close>

fun chunks :: "bytes \<Rightarrow> bytes list" where
  "chunks b = (if b = [] then [] else take 65536 b # chunks (drop 65536 b))"

declare chunks.simps [simp del]

fun copy_loop :: "'h blake3 \<Rightarrow> os \<Rightarrow> path \<Rightarrow> path \<Rightarrow> bytes list \<Rightarrow> 'h \<Rightarrow> u64 \<Rightarrow> (disk, backup_error, 'h \<times> u64) fallible" where
  "copy_loop H S src dst [] h n = bind_s (lift_r (io ''read source'' src (sys S Read src))) (\<lambda>_. ret (h, n))"
| "copy_loop H S src dst (c # cs) h n =
     bind_s (lift_r (io ''read source'' src (sys S Read src))) (\<lambda>_.
     bind_s (io_s ''write destination'' dst (std_write_all S dst c)) (\<lambda>_.
       case u64_add n (of_nat (length c)) of
         None \<Rightarrow> fail (Integrity (LengthOverflow src))
       | Some n \<Rightarrow> copy_loop H S src dst cs (b3_update H h c) n))"

text \<open>The permissions are read last, from the source.\<close>

definition mode_of :: "os \<Rightarrow> path \<Rightarrow> disk \<Rightarrow> os_error + nat" where
  "mode_of S p d = bind_r (std_stat S p d) (\<lambda>n. case n of File _ m \<Rightarrow> Inr m | _ \<Rightarrow> Inr 0)"

definition copy_hashed :: "'h blake3 \<Rightarrow> os \<Rightarrow> path \<Rightarrow> path \<Rightarrow> (disk, backup_error, backup_file) fallible" where
  "copy_hashed H S src dst =
     bind_s (io_s ''create directory'' (butlast dst) (std_mkdirs S [] (butlast dst))) (\<lambda>_.
     bind_s (ask (\<lambda>d. io ''open source'' src (std_open S src d))) (\<lambda>content.
     bind_s (io_s ''create destination'' dst (std_create_new S dst)) (\<lambda>_.
     bind_s (copy_loop H S src dst (chunks content) (b3_new H) 0) (\<lambda>(h, n).
     bind_s (io_s ''sync destination'' dst (std_sync S dst)) (\<lambda>_.
     bind_s (ask (\<lambda>d. io ''stat source'' src (mode_of S src d))) (\<lambda>m.
     bind_s (io_s ''set permissions'' dst (std_chmod S dst m)) (\<lambda>_.
     ret \<lparr>bf_path = [], bf_bytes = n, bf_blake3 = to_hex (b3_finalize H h)\<rparr>)))))))"

fun hash_loop :: "'h blake3 \<Rightarrow> path \<Rightarrow> bytes list \<Rightarrow> 'h \<Rightarrow> u64 \<Rightarrow> backup_error + 'h \<times> u64" where
  "hash_loop H p [] h n = Inr (h, n)"
| "hash_loop H p (c # cs) h n =
     (case u64_add n (of_nat (length c)) of
        None \<Rightarrow> Inl (Integrity (LengthOverflow p))
      | Some n \<Rightarrow> hash_loop H p cs (b3_update H h c) n)"

definition hash_file :: "'h blake3 \<Rightarrow> os \<Rightarrow> path \<Rightarrow> disk \<Rightarrow> backup_error + u64 \<times> bytes" where
  "hash_file H S p d =
     bind_r (io ''open backup file'' p (std_open S p d)) (\<lambda>content.
     bind_r (io ''read backup file'' p (sys S Read p)) (\<lambda>_.
     bind_r (hash_loop H p (chunks content) (b3_new H) 0) (\<lambda>(h, n). Inr (n, to_hex (b3_finalize H h)))))"

section \<open>The manifest and its signature\<close>

definition backup_decode_hex :: "nat \<Rightarrow> bytes \<Rightarrow> bytes \<Rightarrow> backup_error + bytes" where
  "backup_decode_hex n value what =
     (if length value \<noteq> 2 * n then Inl (Authenticity (NotHexOf what (2 * n)))
      else case hex_pairs value of None \<Rightarrow> Inl (Authenticity (NotHexOf what (2 * n))) | Some b \<Rightarrow> Inr b)"

text \<open>\<open>serde_json\<close>'s error becomes the error of the operation.\<close>

definition json_r :: "(bytes \<Rightarrow> backup_error) \<Rightarrow> bytes + 'a \<Rightarrow> backup_error + 'a" where
  "json_r f r = (case r of Inl e \<Rightarrow> Inl (f e) | Inr a \<Rightarrow> Inr a)"

definition manifest_bytes :: "backup_codec \<Rightarrow> backup_manifest \<Rightarrow> backup_error + bytes" where
  "manifest_bytes J m = bind_r (json_r ManifestDecode (bc_manifest J m)) (\<lambda>b. Inr (b @ newline))"

definition write_synced :: "os \<Rightarrow> bytes \<Rightarrow> path \<Rightarrow> bytes \<Rightarrow> (disk, backup_error, unit) fallible" where
  "write_synced S what p b =
     bind_s (io_s (''create '' @ what) p (std_create_new S p)) (\<lambda>_.
     bind_s (io_s (''write '' @ what) p (std_write_all S p b)) (\<lambda>_.
     io_s (''sync '' @ what) p (std_sync S p)))"

definition write_manifest :: "'h backup_env \<Rightarrow> path \<Rightarrow> backup_manifest \<Rightarrow> (disk, backup_error, bytes) fallible" where
  "write_manifest V root m =
     bind_s (lift_r (manifest_bytes (be_json V) m)) (\<lambda>b.
     bind_s (write_synced (be_os V) ''manifest'' (root @ [BACKUP_MANIFEST_FILE]) b) (\<lambda>_. ret b))"

definition signature_payload_v2 :: "bytes \<Rightarrow> bytes \<Rightarrow> bytes" where
  "signature_payload_v2 key_id digest = SIGNATURE_DOMAIN_V2 @ u64_le (of_nat (length key_id)) @ key_id @ digest"

definition signature_payload :: "bytes \<Rightarrow> bytes \<Rightarrow> bytes" where
  "signature_payload key_id manifest = SIGNATURE_DOMAIN @ key_id @ [CHR 0x00] @ manifest"

definition payload_to_sign :: "'h blake3 \<Rightarrow> nat \<Rightarrow> bytes \<Rightarrow> bytes \<Rightarrow> backup_error + bytes" where
  "payload_to_sign H version key_id manifest =
     (if version = BACKUP_SIGNATURE_VERSION then Inr (signature_payload key_id manifest)
      else if version = BACKUP_SIGNATURE_VERSION_V2 then Inr (signature_payload_v2 key_id (b3 H manifest))
      else Inl (Authenticity (CannotWriteFormat version)))"

definition write_signature :: "'h backup_env \<Rightarrow> path \<Rightarrow> bytes \<Rightarrow> bytes \<Rightarrow> bytes \<Rightarrow> nat \<Rightarrow> (disk, backup_error, backup_signature) fallible" where
  "write_signature V root key_id key manifest version =
     (if blank key_id \<or> 256 < length key_id \<or> CHR 0x00 \<in> set key_id then fail (Authenticity BadSigningKeyId)
      else bind_s (lift_r (payload_to_sign (be_hash V) version key_id manifest)) (\<lambda>payload.
        let sig = \<lparr>bs_format_version = version, bs_algorithm = ''ed25519'', bs_key_id = key_id,
              bs_manifest_blake3 = to_hex (b3 (be_hash V) manifest), bs_ed25519 = to_hex (ed_sign (be_ed V) key payload)\<rparr>
        in bind_s (lift_r (json_r ManifestDecode (bc_signature (be_json V) sig))) (\<lambda>b.
           bind_s (write_synced (be_os V) ''signature'' (root @ [BACKUP_SIGNATURE_FILE]) (b @ newline)) (\<lambda>_. ret sig))))"

definition load_manifest_bytes :: "os \<Rightarrow> path \<Rightarrow> disk \<Rightarrow> backup_error + bytes" where
  "load_manifest_bytes S root d =
     (let p = root @ [BACKUP_MANIFEST_FILE]
      in bind_r (io ''stat manifest'' p (std_lstat S p d)) (\<lambda>n.
         case n of
           File b m \<Rightarrow> if MAX_MANIFEST_BYTES < length b then Inl (Integrity (ManifestTooLarge (length b)))
                       else io ''read manifest'' p (std_read S p d)
         | _ \<Rightarrow> Inl (Integrity ManifestNotRegular)))"

definition decode_manifest :: "backup_codec \<Rightarrow> bytes \<Rightarrow> backup_error + backup_manifest" where
  "decode_manifest J b =
     bind_r (json_r ManifestDecode (bc_manifest_of J b)) (\<lambda>m.
       if bm_format_version m \<noteq> BACKUP_FORMAT_VERSION then Inl (Integrity (ManifestFormat (bm_format_version m)))
       else if bm_tenant m = [] then Inl (Integrity EmptyTenant)
       else if MAX_BACKUP_FILES < length (bm_files m) then Inl (Integrity TooManyDeclared)
       else Inr m)"

definition load_manifest :: "backup_codec \<Rightarrow> os \<Rightarrow> path \<Rightarrow> disk \<Rightarrow> backup_error + backup_manifest" where
  "load_manifest J S root d = bind_r (load_manifest_bytes S root d) (decode_manifest J)"

definition load_signature :: "backup_codec \<Rightarrow> os \<Rightarrow> path \<Rightarrow> disk \<Rightarrow> backup_error + backup_signature" where
  "load_signature J S root d =
     (let p = root @ [BACKUP_SIGNATURE_FILE]
      in case std_lstat S p d of
        Inl ENOENT \<Rightarrow> Inl (Authenticity SignatureMissing)
      | Inl e \<Rightarrow> Inl (BackupIo ''stat signature'' p e)
      | Inr (File b m) \<Rightarrow>
          if MAX_SIGNATURE_BYTES < length b then Inl (Authenticity (SignatureTooLarge (length b)))
          else bind_r (io ''read signature'' p (std_read S p d)) (\<lambda>b. json_r (\<lambda>e. Authenticity (RecordInvalid e)) (bc_signature_of J b))
      | Inr _ \<Rightarrow> Inl (Authenticity SignatureNotRegular))"

definition verified_payload :: "'h blake3 \<Rightarrow> backup_signature \<Rightarrow> bytes \<Rightarrow> backup_error + bytes" where
  "verified_payload H r manifest =
     (if bs_format_version r = BACKUP_SIGNATURE_VERSION then Inr (signature_payload (bs_key_id r) manifest)
      else if bs_format_version r = BACKUP_SIGNATURE_VERSION_V2 then Inr (signature_payload_v2 (bs_key_id r) (b3 H manifest))
      else Inl (Authenticity (SignatureFormat (bs_format_version r))))"

definition check_signature_record :: "'h blake3 \<Rightarrow> backup_signature \<Rightarrow> bytes \<Rightarrow> backup_error + unit" where
  "check_signature_record H r manifest =
     (if bs_format_version r \<noteq> BACKUP_SIGNATURE_VERSION \<and> bs_format_version r \<noteq> BACKUP_SIGNATURE_VERSION_V2
        then Inl (Authenticity (SignatureFormat (bs_format_version r)))
      else if bs_manifest_blake3 r \<noteq> to_hex (b3 H manifest)
        then Inl (Authenticity (ManifestDigest (bs_manifest_blake3 r) (to_hex (b3 H manifest))))
      else Inr ())"

section \<open>Creating a backup\<close>

text \<open>The disk, and the counter the names of partial directories are drawn from.\<close>

record machine =
  mc_disk :: disk
  mc_nonce :: u64

text \<open>\<open>Path::parent\<close>; a destination without one is the root, which exists already.\<close>

definition parent_of :: "path \<Rightarrow> path" where
  "parent_of p = butlast p"

definition partial_path :: "os \<Rightarrow> path \<Rightarrow> (machine, backup_error, path) fallible" where
  "partial_path S dst M =
     (let parent = parent_of dst
      in if \<not> path_is_dir S parent (mc_disk M) then (M, Inl (Unsupported (NoDestinationParent parent)))
         else if dst = [] \<or> \<not> utf8_valid (last dst) then (M, Inl (Unsupported (NoPortableName dst)))
         else (M\<lparr>mc_nonce := mc_nonce M + 1\<rparr>,
               Inr (parent @ [''.'' @ last dst @ ''.partial-'' @ decimal (os_pid S) @ ''-'' @ decimal (unat (mc_nonce M))])))"

definition reject_nested_destination :: "os \<Rightarrow> path \<Rightarrow> path \<Rightarrow> disk \<Rightarrow> backup_error + unit" where
  "reject_nested_destination S src dst d =
     bind_r (io ''canonicalize source'' src (std_canonicalize S src d)) (\<lambda>source.
     bind_r (io ''canonicalize destination parent'' (parent_of dst) (std_canonicalize S (parent_of dst) d)) (\<lambda>parent.
       if prefix source parent then Inl (Unsupported (NestedDestination dst source)) else Inr ()))"

definition publish_partial :: "os \<Rightarrow> path \<Rightarrow> path \<Rightarrow> (disk, backup_error, unit) fallible" where
  "publish_partial S part dst =
     bind_s (io_s ''sync backup directory'' part (std_sync S part)) (\<lambda>_.
     bind_s (io_s ''publish backup'' dst (std_rename S part dst)) (\<lambda>_.
     io_s ''sync destination parent'' (parent_of dst) (std_sync S (parent_of dst))))"

text \<open>An operation on the disk inside a fresh partial directory, which a failure removes again.\<close>

definition in_partial :: "os \<Rightarrow> bytes \<Rightarrow> path \<Rightarrow> (path \<Rightarrow> (disk, backup_error, 'a) fallible) \<Rightarrow> (machine, backup_error, 'a) fallible" where
  "in_partial S what dst body =
     bind_s (partial_path S dst) (\<lambda>part M.
       case io_s (''create partial '' @ what) part (std_mkdir S part) (mc_disk M) of
         (d, Inl e) \<Rightarrow> (M\<lparr>mc_disk := d\<rparr>, Inl e)
       | (d, Inr _) \<Rightarrow> (case body part d of
           (d, Inr a) \<Rightarrow> (M\<lparr>mc_disk := d\<rparr>, Inr a)
         | (d, Inl e) \<Rightarrow> (M\<lparr>mc_disk := if path_exists S part d then std_remove_all S part d else d\<rparr>, Inl e)))"

fun copy_files :: "'h backup_env \<Rightarrow> path \<Rightarrow> path \<Rightarrow> path list \<Rightarrow> backup_file list \<Rightarrow> (disk, backup_error, backup_file list) fallible" where
  "copy_files V src part [] files = ret files"
| "copy_files V src part (p # ps) files =
     bind_s (lift_r (relative_string src p)) (\<lambda>relative.
     bind_s (lift_r (checked_relative relative)) (\<lambda>q.
     bind_s (copy_hashed (be_hash V) (be_os V) p (part @ q)) (\<lambda>f.
     copy_files V src part ps (files @ [f\<lparr>bf_path := relative\<rparr>]))))"

definition stage_backup :: "'h backup_env \<Rightarrow> path \<Rightarrow> bytes \<Rightarrow> (bytes \<times> bytes) option \<Rightarrow> nat \<Rightarrow> path
    \<Rightarrow> (disk, backup_error, backup_manifest) fallible" where
  "stage_backup V src tenant signer version part =
     bind_s (ask (walk_files (be_os V) True True src src)) (\<lambda>ps.
     bind_s (copy_files V src part ps []) (\<lambda>files.
       let m = \<lparr>bm_format_version = BACKUP_FORMAT_VERSION, bm_tenant = tenant, bm_files = sort_key bf_path files\<rparr>
       in bind_s (write_manifest V part m) (\<lambda>b.
          bind_s (case signer of None \<Rightarrow> ret () | Some (key_id, key) \<Rightarrow>
                    bind_s (write_signature V part key_id key b version) (\<lambda>_. ret ())) (\<lambda>_. ret m))))"

text \<open>What was staged in the partial directory is published with one rename.\<close>

definition published :: "os \<Rightarrow> path \<Rightarrow> (path \<Rightarrow> (disk, backup_error, 'a) fallible) \<Rightarrow> path \<Rightarrow> (disk, backup_error, 'a) fallible" where
  "published S dst work part = bind_s (work part) (\<lambda>a. bind_s (publish_partial S part dst) (\<lambda>_. ret a))"

definition create_backup_inner :: "'h backup_env \<Rightarrow> path \<Rightarrow> path \<Rightarrow> bytes \<Rightarrow> (bytes \<times> bytes) option \<Rightarrow> nat
    \<Rightarrow> (machine, backup_error, backup_manifest) fallible" where
  "create_backup_inner V src dst tenant signer version M =
     (if path_exists (be_os V) dst (mc_disk M) then (M, Inl (DestinationExists dst))
      else bind_s (ask (\<lambda>M. reject_nested_destination (be_os V) src dst (mc_disk M))) (\<lambda>_.
           in_partial (be_os V) ''backup'' dst (published (be_os V) dst (stage_backup V src tenant signer version))) M)"

definition create_backup :: "'h backup_env \<Rightarrow> path \<Rightarrow> path \<Rightarrow> bytes \<Rightarrow> (machine, backup_error, backup_manifest) fallible" where
  "create_backup V src dst tenant = create_backup_inner V src dst tenant None BACKUP_SIGNATURE_VERSION"

definition create_signed_backup :: "'h backup_env \<Rightarrow> path \<Rightarrow> path \<Rightarrow> bytes \<Rightarrow> bytes \<Rightarrow> bytes \<Rightarrow> nat
    \<Rightarrow> (machine, backup_error, backup_manifest) fallible" where
  "create_signed_backup V src dst tenant key_id key version = create_backup_inner V src dst tenant (Some (key_id, key)) version"

section \<open>Verifying\<close>

fun declare_paths :: "backup_file list \<Rightarrow> bytes list \<Rightarrow> backup_error + bytes list" where
  "declare_paths [] declared = Inr declared"
| "declare_paths (f # fs) declared =
     bind_r (checked_relative (bf_path f)) (\<lambda>_.
       if bf_path f \<in> set declared then Inl (Integrity (DeclaredTwice (bf_path f)))
       else declare_paths fs (sort_dedup (bf_path f # declared)))"

definition verify_record :: "'h backup_env \<Rightarrow> path \<Rightarrow> disk \<Rightarrow> backup_file \<Rightarrow> backup_error + unit" where
  "verify_record V root d f =
     bind_r (checked_relative (bf_path f)) (\<lambda>q.
     let p = root @ q
     in bind_r (io ''stat backup file'' p (std_lstat (be_os V) p d)) (\<lambda>n.
        case n of
          File _ _ \<Rightarrow>
            bind_r (hash_file (be_hash V) (be_os V) p d) (\<lambda>(n, digest).
              if n \<noteq> bf_bytes f \<or> digest \<noteq> bf_blake3 f
              then Inl (Integrity (FileChanged (bf_path f) (bf_bytes f) (bf_blake3 f) n digest)) else Inr ())
        | _ \<Rightarrow> Inl (Integrity (RecordNotRegular (bf_path f)))))"

definition verify_manifest_files :: "'h backup_env \<Rightarrow> path \<Rightarrow> disk \<Rightarrow> backup_manifest \<Rightarrow> backup_error + unit" where
  "verify_manifest_files V root d m =
     bind_r (declare_paths (bm_files m) []) (\<lambda>declared.
     bind_r (walk_files (be_os V) True False root root d) (\<lambda>ps.
     bind_r (map_r (relative_string root) ps) (\<lambda>actual_list.
       let actual = sort_dedup actual_list
       in if actual \<noteq> declared
          then Inl (Integrity (FileSetMismatch (filter (\<lambda>x. x \<notin> set actual) declared) (filter (\<lambda>x. x \<notin> set declared) actual)))
          else bind_r (map_r (verify_record V root d) (bm_files m)) (\<lambda>_. Inr ()))))"

definition verify_backup :: "'h backup_env \<Rightarrow> path \<Rightarrow> disk \<Rightarrow> backup_error + backup_manifest" where
  "verify_backup V root d =
     bind_r (load_manifest (be_json V) (be_os V) root d) (\<lambda>m.
     bind_r (verify_manifest_files V root d m) (\<lambda>_. Inr m))"

definition verify_signature :: "'h backup_env \<Rightarrow> path \<Rightarrow> disk \<Rightarrow> bytes \<Rightarrow> bytes \<Rightarrow> bytes \<Rightarrow> backup_error + backup_signature" where
  "verify_signature V root d manifest expected_key_id public_key =
     bind_r (load_signature (be_json V) (be_os V) root d) (\<lambda>r.
     bind_r (check_signature_record (be_hash V) r manifest) (\<lambda>_.
       if bs_algorithm r \<noteq> ''ed25519'' then Inl (Authenticity (AlgorithmUnsupported (bs_algorithm r)))
       else if bs_key_id r \<noteq> expected_key_id then Inl (Authenticity (SignedByOther (bs_key_id r) expected_key_id))
       else bind_r (backup_decode_hex 64 (bs_ed25519 r) ''Ed25519 signature'') (\<lambda>signature.
            bind_r (verified_payload (be_hash V) r manifest) (\<lambda>payload.
              case ed_verify (be_ed V) public_key payload signature of
                None \<Rightarrow> Inr r
              | Some err \<Rightarrow> Inl (Authenticity (SignatureRefused (bs_key_id r) err))))))"

definition verify_signed_backup :: "'h backup_env \<Rightarrow> path \<Rightarrow> bytes \<Rightarrow> bytes \<Rightarrow> disk \<Rightarrow> backup_error + backup_manifest" where
  "verify_signed_backup V root expected_key_id public_key d =
     bind_r (load_manifest_bytes (be_os V) root d) (\<lambda>b.
     bind_r (verify_signature V root d b expected_key_id public_key) (\<lambda>_.
     bind_r (decode_manifest (be_json V) b) (\<lambda>m.
     bind_r (verify_manifest_files V root d m) (\<lambda>_. Inr m))))"

definition verify_signed_backup_with :: "'h backup_env \<Rightarrow> path \<Rightarrow> key_directory \<Rightarrow> disk \<Rightarrow> backup_error + backup_manifest \<times> bytes" where
  "verify_signed_backup_with V root dir d =
     bind_r (load_manifest_bytes (be_os V) root d) (\<lambda>b.
     bind_r (load_signature (be_json V) (be_os V) root d) (\<lambda>r.
     bind_r (check_signature_record (be_hash V) r b) (\<lambda>_.
     bind_r (backup_decode_hex 64 (bs_ed25519 r) ''Ed25519 signature'') (\<lambda>signature.
     bind_r (verified_payload (be_hash V) r b) (\<lambda>payload.
       case directory_verify (be_ed V) dir (bs_key_id r) (bs_algorithm r) payload signature of
         Inl e \<Rightarrow> Inl (Authenticity (KeyRefused e))
       | Inr root_key \<Rightarrow>
           bind_r (decode_manifest (be_json V) b) (\<lambda>m.
           bind_r (verify_manifest_files V root d m) (\<lambda>_. Inr (m, tr_key_id root_key))))))))"

section \<open>Restoring\<close>

fun restore_files :: "'h backup_env \<Rightarrow> path \<Rightarrow> path \<Rightarrow> backup_file list \<Rightarrow> (disk, backup_error, unit) fallible" where
  "restore_files V backup part [] = ret ()"
| "restore_files V backup part (f # fs) =
     bind_s (lift_r (checked_relative (bf_path f))) (\<lambda>q.
     bind_s (copy_hashed (be_hash V) (be_os V) (backup @ q) (part @ q)) (\<lambda>c.
       if bf_bytes c \<noteq> bf_bytes f \<or> bf_blake3 c \<noteq> bf_blake3 f then fail (Integrity (ChangedDuringRestore (bf_path f)))
       else restore_files V backup part fs))"

definition restore_verified_backup :: "'h backup_env \<Rightarrow> path \<Rightarrow> path \<Rightarrow> backup_manifest \<Rightarrow> (machine, backup_error, backup_manifest) fallible" where
  "restore_verified_backup V backup dst m M =
     (if path_exists (be_os V) dst (mc_disk M) then (M, Inl (DestinationExists dst))
      else bind_s (ask (\<lambda>M. reject_nested_destination (be_os V) backup dst (mc_disk M))) (\<lambda>_.
           in_partial (be_os V) ''restore'' dst (published (be_os V) dst (\<lambda>part.
             bind_s (restore_files V backup part (bm_files m)) (\<lambda>_. ret m)))) M)"

definition restore_backup :: "'h backup_env \<Rightarrow> path \<Rightarrow> path \<Rightarrow> (machine, backup_error, backup_manifest) fallible" where
  "restore_backup V backup dst =
     bind_s (ask (\<lambda>M. verify_backup V backup (mc_disk M))) (restore_verified_backup V backup dst)"

definition restore_signed_backup :: "'h backup_env \<Rightarrow> path \<Rightarrow> path \<Rightarrow> bytes \<Rightarrow> bytes \<Rightarrow> (machine, backup_error, backup_manifest) fallible" where
  "restore_signed_backup V backup dst expected_key_id public_key =
     bind_s (ask (\<lambda>M. verify_signed_backup V backup expected_key_id public_key (mc_disk M))) (restore_verified_backup V backup dst)"

section \<open>Backing up an open database\<close>

text \<open>\<open>Loom::backup_to\<close> and \<open>Loom::backup_to_signed_as\<close>: the database flushes its refs first; \<open>root\<close> is
  \<open>store_root\<close>, set when the database was opened from a directory.\<close>

definition backup_with :: "('p, 's) loom_env \<Rightarrow> path option \<Rightarrow> (path \<Rightarrow> (machine, backup_error, backup_manifest) fallible)
    \<Rightarrow> (('p, 's) loom \<times> machine, backup_error, backup_manifest) fallible" where
  "backup_with E root create = (\<lambda>(l, M).
     case root of
       None \<Rightarrow> ((l, M), Inl (Unsupported NoStoreRoot))
     | Some src \<Rightarrow> (case persist E l of
         (l, Inl e) \<Rightarrow> ((l, M), Inl (Engine e))
       | (l, Inr _) \<Rightarrow> (case create src M of (M, r) \<Rightarrow> ((l, M), r))))"

definition backup_to :: "('p, 's) loom_env \<Rightarrow> 'h backup_env \<Rightarrow> path option \<Rightarrow> path
    \<Rightarrow> (('p, 's) loom \<times> machine, backup_error, backup_manifest) fallible" where
  "backup_to E V root dst = backup_with E root (\<lambda>src. create_backup V src dst (en_tenant E))"

definition backup_to_signed_as :: "('p, 's) loom_env \<Rightarrow> 'h backup_env \<Rightarrow> path option \<Rightarrow> path \<Rightarrow> bytes \<Rightarrow> bytes \<Rightarrow> nat
    \<Rightarrow> (('p, 's) loom \<times> machine, backup_error, backup_manifest) fallible" where
  "backup_to_signed_as E V root dst key_id key version =
     backup_with E root (\<lambda>src. create_signed_backup V src dst (en_tenant E) key_id key version)"

definition backup_to_signed :: "('p, 's) loom_env \<Rightarrow> 'h backup_env \<Rightarrow> path option \<Rightarrow> path \<Rightarrow> bytes \<Rightarrow> bytes
    \<Rightarrow> (('p, 's) loom \<times> machine, backup_error, backup_manifest) fallible" where
  "backup_to_signed E V root dst key_id key = backup_to_signed_as E V root dst key_id key BACKUP_SIGNATURE_VERSION"

end
