(* ===== verification/LoomFilesLaws.thy ===== *)
theory LoomFilesLaws
  imports LoomFiles LoomKeysLaws
begin

text \<open>
  Laws of the file system: what each call leaves of the tree, the operations that stay below a directory,
  and the tree that a sequence of them preserves.
\<close>

section \<open>The tree\<close>

lemma map_of_put_node [simp]: "map_of (put_node p n d) = (map_of d)(p \<mapsto> n)"
proof
  fix q
  have "map_of (filter (\<lambda>w. fst w \<noteq> p) d) q = (if q = p then None else map_of d q)" by (induction d) auto
  then show "map_of (put_node p n d) q = ((map_of d)(p \<mapsto> n)) q" by (auto simp: put_node_def)
qed

lemma map_of_remove_all: "map_of (filter (\<lambda>w. \<not> prefix p (fst w)) d) q = (if prefix p q then None else map_of d q)"
  by (induction d) auto

lemma set_names_in [simp]: "n \<in> set (names_in d p) \<longleftrightarrow> map_of d (p @ [n]) \<noteq> None"
proof -
  have "n \<in> set (names_in d p) \<longleftrightarrow> (\<exists>w\<in>set d. fst w \<noteq> [] \<and> butlast (fst w) = p \<and> last (fst w) = n)"
    by (auto simp: names_in_def List.map_filter_def)
  also have "\<dots> \<longleftrightarrow> (\<exists>w\<in>set d. fst w = p @ [n])" by (metis append_butlast_last_id butlast_snoc last_snoc snoc_eq_iff_butlast)
  also have "\<dots> \<longleftrightarrow> map_of d (p @ [n]) \<noteq> None" by (metis (no_types) imageE imageI map_of_eq_None_iff)
  finally show ?thesis .
qed

lemma distinct_names_in [simp]: "distinct (names_in d p)"
  by (simp add: names_in_def distinct_sort_dedup)

definition name_ok :: "bytes \<Rightarrow> bool" where
  "name_ok n \<longleftrightarrow> n \<noteq> [] \<and> n \<noteq> ''.'' \<and> n \<noteq> ''..'' \<and> CHR ''/'' \<notin> set n"

definition disk_ok :: "disk \<Rightarrow> bool" where
  "disk_ok d \<longleftrightarrow> map_of d [] = Some Folder \<and> (\<forall>p n. map_of d (p @ [n]) \<noteq> None \<longrightarrow> map_of d p = Some Folder \<and> name_ok n)"

lemma disk_ok_above:
  assumes "disk_ok d" and "map_of d p \<noteq> None" and "strict_prefix q p"
  shows "map_of d q = Some Folder"
  using assms(2,3)
proof (induction p rule: rev_induct)
  case (snoc n p)
  then have "map_of d p = Some Folder" using assms(1) by (auto simp: disk_ok_def)
  then show ?case using snoc by (metis option.distinct(1) prefix_snoc prefix_order.le_less strict_prefix_def)
qed simp

lemma disk_ok_above_eq: "disk_ok d \<Longrightarrow> map_of d p = Some Folder \<Longrightarrow> prefix q p \<Longrightarrow> map_of d q = Some Folder"
  using disk_ok_above [of d p q] by (metis option.distinct(1) strict_prefix_def)

lemma disk_ok_names: "disk_ok d \<Longrightarrow> map_of d p \<noteq> None \<Longrightarrow> n \<in> set p \<Longrightarrow> name_ok n"
proof (induction p rule: rev_induct)
  case (snoc m p)
  then show ?case by (auto simp: disk_ok_def)
qed simp

lemma disk_ok_nothing_below: "disk_ok d \<Longrightarrow> map_of d p = None \<Longrightarrow> prefix p q \<Longrightarrow> map_of d q = None"
  using disk_ok_above [of d q p] by (metis option.distinct(1) strict_prefix_def)

lemma disk_ok_put:
  assumes "disk_ok d" and "map_of d p = Some Folder" and "name_ok n" and "x = Folder \<or> map_of d (p @ [n]) \<noteq> Some Folder"
  shows "disk_ok (put_node (p @ [n]) x d)"
proof -
  let ?m = "(map_of d)(p @ [n] \<mapsto> x)"
  have "?m q = Some Folder \<and> name_ok k" if k: "?m (q @ [k]) \<noteq> None" for q k
  proof (cases "q @ [k] = p @ [n]")
    case True
    then show ?thesis using assms(2,3) by simp
  next
    case False
    then have "map_of d (q @ [k]) \<noteq> None" using k by (simp only: fun_upd_other not_False_eq_True)
    then have q: "map_of d q = Some Folder" "name_ok k" using assms(1) unfolding disk_ok_def by blast+
    then show ?thesis using assms(4) by (cases "q = p @ [n]") simp_all
  qed
  moreover have "map_of d [] = Some Folder" using assms(1) by (simp add: disk_ok_def)
  ultimately show ?thesis unfolding disk_ok_def by simp
qed

text \<open>Links are followed only where there are links.\<close>

lemma follow_plain: "map_of d p = Some n \<Longrightarrow> (\<forall>t. n \<noteq> Link t) \<Longrightarrow> follow d p = Some n"
  by (cases n) (auto simp: follow_def numeral_eq_Suc)

lemma canon_plain: "map_of d p = Some n \<Longrightarrow> (\<forall>t. n \<noteq> Link t) \<Longrightarrow> canon 40 d p = Some p"
  by (cases n) (auto simp: numeral_eq_Suc)

lemma follow_None: "map_of d p = None \<Longrightarrow> follow d p = None"
  by (simp add: follow_def numeral_eq_Suc)

definition file_at :: "disk \<Rightarrow> path \<Rightarrow> (bytes \<times> nat) option" where
  "file_at d p = (case map_of d p of Some (File b m) \<Rightarrow> Some (b, m) | _ \<Rightarrow> None)"

lemma file_at_Some: "file_at d p = Some (b, m) \<longleftrightarrow> map_of d p = Some (File b m)"
  by (auto simp: file_at_def split: option.splits fnode.splits)

section \<open>Staying below a directory\<close>

text \<open>A directory that holds only files and directories, in a well-formed tree.\<close>

definition workspace :: "path \<Rightarrow> disk \<Rightarrow> bool" where
  "workspace a d \<longleftrightarrow> disk_ok d \<and> map_of d a = Some Folder
     \<and> (\<forall>q n. prefix a q \<longrightarrow> map_of d q = Some n \<longrightarrow> n = Folder \<or> (\<exists>b m. n = File b m))"

definition only_below :: "path \<Rightarrow> disk \<Rightarrow> disk \<Rightarrow> bool" where
  "only_below a d d' \<longleftrightarrow> (\<forall>q. \<not> strict_prefix a q \<longrightarrow> map_of d' q = map_of d q)"

text \<open>Whatever a confined operation returns, it has changed nothing but what is below the directory.\<close>

definition confined :: "path \<Rightarrow> (disk, 'e, 'a) fallible \<Rightarrow> bool" where
  "confined a m \<longleftrightarrow> (\<forall>d d' r. m d = (d', r) \<longrightarrow> workspace a d \<longrightarrow> workspace a d' \<and> only_below a d d')"

lemma confinedD: "confined a m \<Longrightarrow> m d = (d', r) \<Longrightarrow> workspace a d \<Longrightarrow> workspace a d' \<and> only_below a d d'"
  unfolding confined_def by blast

lemma only_below_refl [simp]: "only_below a d d"
  by (simp add: only_below_def)

lemma only_below_trans: "only_below a d d' \<Longrightarrow> only_below a d' d'' \<Longrightarrow> only_below a d d''"
  by (simp add: only_below_def)

lemma confined_pure [simp]: "confined a (ret x)" "confined a (fail e)" "confined a (lift_r r)" "confined a (ask f)"
  by (simp_all add: confined_def)

lemma confined_bind:
  assumes "confined a m" and "\<And>x. confined a (f x)"
  shows "confined a (bind_s m f)"
  unfolding confined_def
proof (intro allI impI)
  fix d d' r assume *: "bind_s m f d = (d', r)" "workspace a d"
  obtain d1 r1 where m: "m d = (d1, r1)" by fastforce
  note 1 = confinedD [OF assms(1) m *(2)]
  show "workspace a d' \<and> only_below a d d'"
  proof (cases r1)
    case (Inl e)
    then show ?thesis using * m 1 by (simp add: bind_s_def)
  next
    case (Inr x)
    then have "f x d1 = (d', r)" using * m by (simp add: bind_s_def)
    then show ?thesis using confinedD [OF assms(2)] 1 only_below_trans by blast
  qed
qed

lemma strict_prefix_snoc: "strict_prefix a p \<Longrightarrow> p = butlast p @ [last p]"
  by (cases p rule: rev_cases) simp_all

lemma below_butlast: "strict_prefix a p \<Longrightarrow> prefix a (butlast p)"
  by (cases p rule: rev_cases) (auto simp: strict_prefix_def)

lemma workspace_put:
  assumes "workspace a d" and "strict_prefix a p" and "map_of d (butlast p) = Some Folder" and "name_ok (last p)"
    and "n = Folder \<or> (\<exists>b m. n = File b m) \<and> map_of d p \<noteq> Some Folder"
  shows "workspace a (put_node p n d) \<and> only_below a d (put_node p n d)"
proof -
  have p: "p = butlast p @ [last p]" "p \<noteq> a" using strict_prefix_snoc [OF assms(2)] assms(2) by (blast, auto simp: strict_prefix_def)
  have "disk_ok d" using assms(1) by (simp add: workspace_def)
  then have "disk_ok (put_node p n d)" using disk_ok_put [of d "butlast p" "last p" n] assms(3-5) p(1) by auto
  then show ?thesis using assms p(2) by (auto simp: workspace_def only_below_def)
qed

lemma workspace_follow: "workspace a d \<Longrightarrow> prefix a p \<Longrightarrow> follow d p = Some Folder \<longleftrightarrow> map_of d p = Some Folder"
proof (cases "map_of d p")
  case None
  then show ?thesis by (simp add: follow_None)
next
  case (Some n)
  moreover assume "workspace a d" "prefix a p"
  ultimately have "\<forall>t. n \<noteq> Link t" unfolding workspace_def by blast
  then show ?thesis using follow_plain [OF Some] Some by simp
qed


lemma confined_mkdir:
  assumes "strict_prefix a p" and "name_ok (last p)"
  shows "confined a (std_mkdir S p)"
  unfolding confined_def
proof (intro allI impI)
  fix d d' r assume *: "std_mkdir S p d = (d', r)" "workspace a d"
  have "workspace a (put_node p Folder d) \<and> only_below a d (put_node p Folder d)" if "follow d (butlast p) = Some Folder"
    using that workspace_put [OF *(2) assms(1) _ assms(2)] workspace_follow [OF *(2) below_butlast [OF assms(1)]] by simp
  then show "workspace a d' \<and> only_below a d d'" using * by (auto simp: std_mkdir_def split: sum.splits if_splits)
qed

lemma confined_create_new:
  assumes "strict_prefix a p" and "name_ok (last p)"
  shows "confined a (std_create_new S p)"
  unfolding confined_def
proof (intro allI impI)
  fix d d' r assume *: "std_create_new S p d = (d', r)" "workspace a d"
  have "workspace a (put_node p (File [] m) d) \<and> only_below a d (put_node p (File [] m) d)"
    if "map_of d p = None" "follow d (butlast p) = Some Folder" for m
    using that workspace_put [OF *(2) assms(1) _ assms(2)] workspace_follow [OF *(2) below_butlast [OF assms(1)]] by simp
  then show "workspace a d' \<and> only_below a d d'" using * by (auto simp: std_create_new_def split: sum.splits if_splits)
qed

lemma workspace_rewrite:
  assumes "workspace a d" and "strict_prefix a p" and "map_of d p = Some (File c m)"
  shows "workspace a (put_node p (File b m') d) \<and> only_below a d (put_node p (File b m') d)"
proof -
  have p: "p = butlast p @ [last p]" by (rule strict_prefix_snoc [OF assms(2)])
  have "map_of d (butlast p @ [last p]) \<noteq> None" using assms(3) p by simp
  then have "map_of d (butlast p) = Some Folder \<and> name_ok (last p)" using assms(1) unfolding workspace_def disk_ok_def by blast
  then show ?thesis using workspace_put [OF assms(1,2)] assms(3) by simp
qed

lemma confined_write: "strict_prefix a p \<Longrightarrow> confined a (std_write_all S p b)" "strict_prefix a p \<Longrightarrow> confined a (std_chmod S p m)"
  using workspace_rewrite unfolding confined_def std_write_all_def std_chmod_def
  by (auto split: sum.splits option.splits fnode.splits)

lemma confined_sync [simp]: "confined a (std_sync S p)"
  by (simp add: confined_def std_sync_def)

text \<open>Directories are only created below one that exists.\<close>

lemma confined_mkdirs:
  "(\<forall>n\<in>set cs. name_ok n) \<Longrightarrow> prefix a p \<or> prefix p a \<and> prefix a (p @ cs) \<Longrightarrow> confined a (std_mkdirs S p cs)"
proof (induction cs arbitrary: p)
  case Nil
  then show ?case by (simp add: confined_def)
next
  case (Cons c cs)
  have next_ok: "prefix a (p @ [c]) \<or> prefix (p @ [c]) a \<and> prefix a ((p @ [c]) @ cs)"
    using Cons.prems(2) by (metis append_Cons append_Nil append_assoc prefix_append prefix_order.trans prefix_same_cases prefixI)
  have rest: "confined a (std_mkdirs S (p @ [c]) cs)" by (rule Cons.IH) (use Cons.prems(1) next_ok in simp_all)
  show ?case
  proof (cases "strict_prefix a (p @ [c])")
    case True
    have "confined a (bind_s (std_mkdir S (p @ [c])) (\<lambda>_. std_mkdirs S (p @ [c]) cs))"
      by (intro confined_bind confined_mkdir rest True) (use Cons.prems(1) in simp)
    then show ?thesis using rest unfolding confined_def by (simp split: if_splits)
  next
    case False
    then have pa: "prefix (p @ [c]) a" using next_ok by (auto simp: strict_prefix_def)
    have "follow d (p @ [c]) = Some Folder" if "workspace a d" for d
      using that disk_ok_above_eq [OF _ _ pa] follow_plain by (fastforce simp: workspace_def)
    then have "std_mkdirs S p (c # cs) d = std_mkdirs S (p @ [c]) cs d" if "workspace a d" for d using that by simp
    then show ?thesis using rest unfolding confined_def by (metis (no_types))
  qed
qed

section \<open>What is written\<close>

text \<open>Directories do not change the files, and what a directory is made below stays.\<close>

definition same_files :: "disk \<Rightarrow> disk \<Rightarrow> bool" where
  "same_files d d' \<longleftrightarrow> (\<forall>p. file_at d' p = file_at d p) \<and> (\<forall>p n. map_of d p = Some n \<longrightarrow> map_of d' p = Some n)"

lemma same_files_refl [simp]: "same_files d d"
  by (simp add: same_files_def)

lemma same_files_trans: "same_files d d' \<Longrightarrow> same_files d' d'' \<Longrightarrow> same_files d d''"
  by (simp add: same_files_def)

lemma mkdir_same_files: "std_mkdir S p d = (d', r) \<Longrightarrow> same_files d d'"
  by (auto simp: std_mkdir_def same_files_def file_at_def split: sum.splits if_splits)

lemma mkdirs_same_files: "std_mkdirs S p cs d = (d', r) \<Longrightarrow> same_files d d'"
proof (induction cs arbitrary: p d)
  case (Cons c cs)
  show ?case
  proof (cases "follow d (p @ [c]) = Some Folder")
    case True
    then show ?thesis using Cons by simp
  next
    case False
    then have b: "bind_s (std_mkdir S (p @ [c])) (\<lambda>_. std_mkdirs S (p @ [c]) cs) d = (d', r)" using Cons.prems by simp
    obtain d1 r1 where m: "std_mkdir S (p @ [c]) d = (d1, r1)" by fastforce
    show ?thesis
      using b m Cons.IH [of "p @ [c]" d1] mkdir_same_files [OF m] same_files_trans by (cases r1) (auto simp: bind_s_def)
  qed
qed simp

lemma create_new_Inr:
  "std_create_new S p d = (d', Inr u) \<Longrightarrow> map_of d p = None \<and> d' = put_node p (File [] (os_umode S)) d"
  by (auto simp: std_create_new_def split: sum.splits if_splits)

lemma write_all_Inr:
  "std_write_all S p b d = (d', Inr u) \<Longrightarrow> \<exists>c m. map_of d p = Some (File c m) \<and> d' = put_node p (File (c @ b) m) d"
  by (auto simp: std_write_all_def split: sum.splits option.splits fnode.splits)

lemma chmod_Inr:
  "std_chmod S p m d = (d', Inr u) \<Longrightarrow> \<exists>c m'. map_of d p = Some (File c m') \<and> d' = put_node p (File c m) d"
  by (auto simp: std_chmod_def split: sum.splits option.splits fnode.splits)

section \<open>Renaming\<close>

lemma map_of_move:
  assumes "\<not> prefix a b" and "\<not> prefix b a" and "\<forall>q. prefix b q \<longrightarrow> map_of d q = None"
  shows "map_of (map (\<lambda>w. (move_path a b (fst w), snd w)) d) q
    = (if prefix b q then map_of d (a @ drop (length b) q) else if prefix a q then None else map_of d q)"
  using assms(3)
proof (induction d)
  case (Cons w d)
  have nb: "\<not> prefix b (fst w)" using Cons.prems by (cases w) (metis fst_conv map_of_Cons_code(2) option.distinct(1))
  have IH: "map_of (map (\<lambda>w. (move_path a b (fst w), snd w)) d) q
    = (if prefix b q then map_of d (a @ drop (length b) q) else if prefix a q then None else map_of d q)"
    by (rule Cons.IH) (use Cons.prems in \<open>cases w, auto split: if_splits\<close>)
  have ab: "\<not> prefix a q" if "prefix b q" using that assms(1,2) prefix_same_cases by blast
  obtain p n where w: "w = (p, n)" by fastforce
  have "move_path a b p = q \<longleftrightarrow> (if prefix b q then p = a @ drop (length b) q else \<not> prefix a q \<and> p = q)"
  proof (cases "prefix a p")
    case True
    then obtain r where p: "p = a @ r" by (auto simp: prefix_def)
    then show ?thesis using ab by (auto simp: move_path_def prefix_def)
  next
    case False
    then have "\<not> prefix b p" "p \<noteq> a @ r" for r using nb w by auto
    then show ?thesis using False by (auto simp: move_path_def)
  qed
  note K = this
  have "map_of (map (\<lambda>w. (move_path a b (fst w), snd w)) (w # d)) q
      = (if move_path a b p = q then Some n else map_of (map (\<lambda>w. (move_path a b (fst w), snd w)) d) q)" by (simp add: w)
  then show ?case unfolding K IH by (auto simp: w)
qed simp

end
