(* ===== verification/LoomBackupLaws.thy ===== *)
theory LoomBackupLaws
  imports LoomBackup LoomFilesLaws
begin

text \<open>
  Lemmas on backups: portable paths, what a walk finds, what a copy writes, what a verified manifest
  says of the tree, and how far an operation in a partial directory reaches.
\<close>

section \<open>Portable paths\<close>

lemma slash_parts_plain: "CHR ''/'' \<notin> set s \<Longrightarrow> slash_parts s = [s]"
  by (induction s) auto

lemma slash_parts_append: "CHR ''/'' \<notin> set a \<Longrightarrow> slash_parts (a @ CHR ''/'' # s) = a # slash_parts s"
  by (induction a) auto

lemma slash_parts_join: "q \<noteq> [] \<Longrightarrow> \<forall>n\<in>set q. CHR ''/'' \<notin> set n \<Longrightarrow> slash_parts (join ''/'' q) = q"
proof (induction q)
  case (Cons n q)
  then show ?case by (cases q) (simp_all add: slash_parts_plain slash_parts_append)
qed simp

lemma slash_parts_no_slash: "p \<in> set (slash_parts s) \<Longrightarrow> CHR ''/'' \<notin> set p"
  by (induction s arbitrary: p) (auto split: list.splits if_splits)

lemma slash_parts_not_Nil [simp]: "slash_parts s \<noteq> []"
  by (cases s) (auto split: list.splits)

lemma join_Nil: "\<forall>n\<in>set r. name_ok n \<Longrightarrow> join ''/'' r = [] \<longleftrightarrow> r = []"
proof (cases r)
  case (Cons a s)
  moreover assume "\<forall>n\<in>set r. name_ok n"
  ultimately have "a \<noteq> []" by (simp add: name_ok_def)
  then show ?thesis using Cons by (cases s) simp_all
qed simp

lemma join_inj:
  assumes "join ''/'' p = join ''/'' q" and "\<forall>n\<in>set p. name_ok n" and "\<forall>n\<in>set q. name_ok n"
  shows "p = q"
proof (cases "p = []")
  case True
  then show ?thesis using assms(1) join_Nil [OF assms(3)] by simp
next
  case False
  then have "q \<noteq> []" using assms(1) join_Nil [OF assms(2)] by auto
  then have "slash_parts (join ''/'' q) = q" using slash_parts_join assms(3) by (simp add: name_ok_def)
  moreover have "slash_parts (join ''/'' p) = p" using slash_parts_join False assms(2) by (simp add: name_ok_def)
  ultimately show ?thesis using assms(1) by simp
qed

lemma normal_part_of: "normal_part (path_part_of s) = (if s = ''..'' then None else Some s)"
  by (simp add: normal_part_def path_part_of_def)

lemma checked_relative_Inr:
  assumes "checked_relative v = Inr q"
  shows "q \<noteq> []" and "\<forall>n\<in>set q. name_ok n"
proof -
  let ?parts = "filter (\<lambda>p. p \<noteq> [] \<and> p \<noteq> ''.'') (slash_parts v)"
  have v: "v \<noteq> []" "\<not> prefix ''/'' v" "\<forall>c\<in>set (path_components v). normal_part c \<noteq> None" "q = List.map_filter normal_part (path_components v)"
    using assms by (auto simp: checked_relative_def split: if_splits)
  have dot: "hd (slash_parts v) \<noteq> ''.''" using v(2,3) by (auto simp: path_components_def Let_def normal_part_def)
  then have c: "path_components v = map path_part_of ?parts" using v(2) by (simp add: path_components_def)
  have up: "p \<noteq> ''..''" if "p \<in> set ?parts" for p using v(3) that unfolding c by (auto simp: normal_part_of)
  then have "List.map_filter normal_part (map path_part_of ps) = ps" if "set ps \<subseteq> set ?parts" for ps
    using that by (induction ps) (auto simp: map_filter_simps normal_part_of)
  then have q: "q = ?parts" using v(4) c by simp
  then show "\<forall>n\<in>set q. name_ok n" using up slash_parts_no_slash by (auto simp: name_ok_def)
  have "hd (slash_parts v) \<noteq> []" using v(1,2) by (cases v) (auto split: list.splits)
  moreover have "hd (slash_parts v) \<in> set (slash_parts v)" by simp
  ultimately have "?parts \<noteq> []" using dot unfolding filter_empty_conv by blast
  then show "q \<noteq> []" unfolding q .
qed

lemma checked_relative_join:
  assumes "q \<noteq> []" and "\<forall>n\<in>set q. name_ok n" and "CHR 0x5C \<notin> set (join ''/'' q)"
  shows "checked_relative (join ''/'' q) = Inr q"
proof -
  have s: "slash_parts (join ''/'' q) = q" using slash_parts_join assms(1,2) by (auto simp: name_ok_def)
  obtain a r where q: "q = a # r" using assms(1) by (cases q) auto
  then have a: "a \<noteq> []" "CHR ''/'' \<notin> set a" "a \<noteq> ''.''" using assms(2) by (auto simp: name_ok_def)
  have j: "join ''/'' q = a @ (if r = [] then [] else ''/'' @ join ''/'' r)" using q by (cases r) simp_all
  have "\<not> prefix ''/'' (join ''/'' q)" unfolding j using a(1,2) by (cases a) auto
  moreover have f: "filter (\<lambda>p. p \<noteq> [] \<and> p \<noteq> ''.'') q = q" using assms(2) by (auto simp: name_ok_def intro!: filter_True)
  moreover have "hd q \<noteq> ''.''" using q a(3) by simp
  ultimately have c: "path_components (join ''/'' q) = map path_part_of q" by (simp add: path_components_def s)
  have n: "normal_part (path_part_of n) = Some n" if "n \<in> set q" for n using assms(2) that by (auto simp: normal_part_of name_ok_def)
  then have "List.map_filter normal_part (map path_part_of ps) = ps" if "set ps \<subseteq> set q" for ps
    using that by (induction ps) (auto simp: map_filter_simps)
  moreover have "join ''/'' q \<noteq> []" unfolding j using a(1) by simp
  ultimately show ?thesis using n c assms(3) \<open>\<not> prefix ''/'' (join ''/'' q)\<close> by (auto simp: checked_relative_def)
qed

section \<open>What a walk finds\<close>

definition rel_name :: "path \<Rightarrow> path \<Rightarrow> bytes" where
  "rel_name root p = replace_char (CHR 0x5C) (CHR ''/'') (join ''/'' (drop (length root) p))"

lemma relative_string_Inr: "relative_string root p = Inr r \<longleftrightarrow> prefix root p \<and> utf8_valid (join ''/'' (drop (length root) p)) \<and> r = rel_name root p"
  by (auto simp: relative_string_def rel_name_def Let_def)

lemma relative_names: "map_r (relative_string root) ps = Inr rs \<Longrightarrow> rs = map (rel_name root) ps"
  by (induction ps arbitrary: rs) (auto simp: bind_r_Inr_iff relative_string_Inr)

definition walked :: "bool \<Rightarrow> bool \<Rightarrow> path \<Rightarrow> disk \<Rightarrow> path \<Rightarrow> bytes set \<Rightarrow> path set" where
  "walked xm xl root d dir ns = {p. (\<exists>n\<in>ns. prefix (dir @ [n]) p) \<and> file_at d p \<noteq> None \<and> \<not> excluded xm xl (rel_name root p)}"

definition found_files :: "bool \<Rightarrow> bool \<Rightarrow> path \<Rightarrow> disk \<Rightarrow> path \<Rightarrow> path set" where
  "found_files xm xl root d dir = {p. prefix dir p \<and> file_at d p \<noteq> None \<and> \<not> excluded xm xl (rel_name root p)}"

lemma below_folder:
  assumes "disk_ok d" and "map_of d a = Some Folder" and "map_of d p \<noteq> None" and "prefix a p" and "p \<noteq> a"
  shows "\<exists>n\<in>set (names_in d a). prefix (a @ [n]) p"
proof -
  obtain s where s: "p = a @ s" using assms(4) by (rule prefixE)
  then obtain n r where "s = n # r" using assms(5) by (cases s) simp_all
  then have p: "prefix (a @ [n]) p" using s by simp
  have "map_of d (a @ [n]) \<noteq> None" using disk_ok_nothing_below [OF assms(1) _ p] assms(3) by blast
  then show ?thesis using p set_names_in by blast
qed

lemma walked_folder:
  assumes "disk_ok d" and "map_of d a = Some Folder"
  shows "walked xm xl root d a (set (names_in d a)) = found_files xm xl root d a"
proof -
  have "\<exists>n\<in>set (names_in d a). prefix (a @ [n]) p" if "prefix a p" "file_at d p \<noteq> None" for p
  proof (rule below_folder [OF assms _ that(1)])
    show "p \<noteq> a" using that(2) assms(2) by (auto simp: file_at_def)
    show "map_of d p \<noteq> None" using that(2) by (cases "map_of d p") (simp_all add: file_at_def)
  qed
  then show ?thesis unfolding walked_def found_files_def using append_prefixD by blast
qed

lemma below_file:
  assumes "disk_ok d" and "map_of d a = Some (File b m)" and "map_of d p \<noteq> None" and "prefix a p"
  shows "p = a"
  using disk_ok_above [OF assms(1,3), of a] assms(2,4) by (fastforce simp: strict_prefix_def)

lemma walked_file:
  assumes "disk_ok d" and "map_of d a = Some (File b m)"
  shows "found_files xm xl root d a = (if excluded xm xl (rel_name root a) then {} else {a})"
proof -
  have one: "prefix a p \<and> file_at d p \<noteq> None \<longleftrightarrow> p = a" for p
    using below_file [OF assms, of p] assms(2) by (auto simp: file_at_def split: option.splits)
  have "found_files xm xl root d a = {p. (prefix a p \<and> file_at d p \<noteq> None) \<and> \<not> excluded xm xl (rel_name root p)}"
    unfolding found_files_def by (rule Collect_cong) blast
  then show ?thesis unfolding one by auto
qed

lemma walked_Cons: "walked xm xl root d dir (insert n ns) = found_files xm xl root d (dir @ [n]) \<union> walked xm xl root d dir ns"
  by (auto simp: walked_def found_files_def)

lemma walked_disjoint: "n \<notin> ns \<Longrightarrow> found_files xm xl root d (dir @ [n]) \<inter> walked xm xl root d dir ns = {}"
  by (auto simp: walked_def found_files_def prefix_def)

lemma file_at_listed: "file_at d p \<noteq> None \<Longrightarrow> p \<in> fst ` set d"
proof -
  assume "file_at d p \<noteq> None"
  then have "map_of d p \<noteq> None" by (cases "map_of d p") (simp_all add: file_at_def)
  then show ?thesis by (simp add: map_of_eq_None_iff)
qed

lemma finite_found: "finite (found_files xm xl root d a)" "finite (walked xm xl root d a ns)"
proof -
  have "found_files xm xl root d a \<subseteq> fst ` set d" unfolding found_files_def using file_at_listed by blast
  then show "finite (found_files xm xl root d a)" by (rule finite_subset) simp
  have "walked xm xl root d a ns \<subseteq> fst ` set d" unfolding walked_def using file_at_listed by blast
  then show "finite (walked xm xl root d a ns)" by (rule finite_subset) simp
qed

definition nodes_clean :: "path \<Rightarrow> disk \<Rightarrow> path \<Rightarrow> bool" where
  "nodes_clean root d a \<longleftrightarrow> (\<forall>p x. prefix a p \<longrightarrow> map_of d p = Some x \<longrightarrow> x = Folder \<or> (\<exists>b m. x = File b m) \<and> relative_string root p = Inr (rel_name root p))"

lemma io_Inr: "io oper p r = Inr a \<longleftrightarrow> r = Inr a"
  by (simp add: io_def split: sum.splits)

lemma lstat_Inr: "std_lstat S p d = Inr n \<longleftrightarrow> os_fault S Lstat p = None \<and> map_of d p = Some n"
  by (auto simp: std_lstat_def sys_def bind_r_def split: option.splits)

lemma list_dir_Inr: "map_of d a = Some Folder \<Longrightarrow> list_dir S a d = Inr ns \<longleftrightarrow> os_fault S ReadDir a = None \<and> os_fault S DirEntry a = None \<and> ns = names_in d a"
  by (auto simp: list_dir_def std_read_dir_def bind_r_Inr_iff io_Inr sys_def follow_plain split: option.splits)

lemma walk_sound:
  assumes "walk S xm xl root d dir ns out = Inr out'" and "disk_ok d" and "distinct ns"
  shows "(\<exists>ys. out' = out @ ys \<and> distinct ys \<and> set ys = walked xm xl root d dir (set ns)) \<and> (\<forall>n\<in>set ns. nodes_clean root d (dir @ [n]))"
  using assms
proof (induction S xm xl root d dir ns out arbitrary: out' rule: walk.induct)
  case (1 S xm xl root d dir out)
  then show ?case by (simp add: walked_def)
next
  case (2 S xm xl root d dir n ns out)
  let ?a = "dir @ [n]"
  obtain x where x: "io ''stat'' ?a (std_lstat S ?a d) = Inr x" using 2(5) by (auto split: sum.splits)
  then have mx: "map_of d ?a = Some x" by (simp add: io_Inr lstat_Inr)
  show ?case
  proof (cases x)
    case Folder
    note F = Folder
    obtain ms where ms: "list_dir S ?a d = Inr ms" using 2(5) x Folder by (auto split: sum.splits)
    obtain out1 where o1: "walk S xm xl root d ?a ms out = Inr out1" "walk S xm xl root d dir ns out1 = Inr out'"
      using 2(5) x Folder ms by (auto split: sum.splits)
    have nm: "ms = names_in d ?a" using ms list_dir_Inr mx Folder by simp
    obtain ys where ys: "out1 = out @ ys" "distinct ys" "set ys = found_files xm xl root d ?a" "\<forall>m\<in>set ms. nodes_clean root d (?a @ [m])"
      using 2(3) [OF x Folder ms o1(1) 2(6)] nm walked_folder [OF 2(6)] mx F by auto
    obtain zs where zs: "out' = out1 @ zs" "distinct zs" "set zs = walked xm xl root d dir (set ns)" "\<forall>n\<in>set ns. nodes_clean root d (dir @ [n])"
      using 2(4) [OF x Folder ms o1(1) o1(2) 2(6)] 2(7) by auto
    have "nodes_clean root d ?a"
      unfolding nodes_clean_def
    proof (intro allI impI)
      fix p y assume *: "prefix ?a p" "map_of d p = Some y"
      show "y = Folder \<or> (\<exists>b m. y = File b m) \<and> relative_string root p = Inr (rel_name root p)"
      proof (cases "p = ?a")
        case False
        then have "\<exists>m\<in>set ms. prefix (?a @ [m]) p" using below_folder [OF 2(6) _ _ *(1)] mx F *(2) unfolding nm by simp
        then show ?thesis using ys(4) *(2) unfolding nodes_clean_def by blast
      qed (use * mx F in simp)
    qed
    moreover have "set ys \<inter> set zs = {}" using walked_disjoint [of n "set ns"] 2(7) ys(3) zs(3) by simp
    ultimately show ?thesis using ys zs walked_Cons [of xm xl root d dir n "set ns"] by (intro conjI exI [of _ "ys @ zs"]) simp_all
  next
    case (File b m)
    obtain r where r: "relative_string root ?a = Inr r" using 2(5) x File by (auto split: sum.splits)
    then have rn: "r = rel_name root ?a" by (simp add: relative_string_Inr)
    have cl: "nodes_clean root d ?a" using below_file [OF 2(6)] mx File r rn unfolding nodes_clean_def by fastforce
    have ff: "found_files xm xl root d ?a = (if excluded xm xl r then {} else {?a})" using walked_file [OF 2(6)] mx File rn by simp
    show ?thesis
    proof (cases "excluded xm xl r")
      case True
      then have "walk S xm xl root d dir ns out = Inr out'" using 2(5) x File r by simp
      then obtain zs where zs: "out' = out @ zs" "distinct zs" "set zs = walked xm xl root d dir (set ns)" "\<forall>n\<in>set ns. nodes_clean root d (dir @ [n])"
        using 2(1) [OF x File r True _ 2(6)] 2(7) by auto
      then show ?thesis using cl ff True walked_Cons [of xm xl root d dir n "set ns"] by (intro conjI exI [of _ zs]) simp_all
    next
      case False
      then have l: "\<not> MAX_BACKUP_FILES < length (out @ [?a])" and w: "walk S xm xl root d dir ns (out @ [?a]) = Inr out'"
        using 2(5) x File r by (simp_all split: if_splits)
      then obtain zs where zs: "out' = (out @ [?a]) @ zs" "distinct zs" "set zs = walked xm xl root d dir (set ns)" "\<forall>n\<in>set ns. nodes_clean root d (dir @ [n])"
        using 2(2) [OF x File r False l w 2(6)] 2(7) by auto
      moreover have "?a \<notin> set zs" using walked_disjoint [of n "set ns" xm xl root d dir] ff False zs(3) 2(7) by auto
      ultimately show ?thesis using cl ff False walked_Cons [of xm xl root d dir n "set ns"] by (intro conjI exI [of _ "?a # zs"]) simp_all
    qed
  qed (use 2(5) x in simp_all)
qed

text \<open>With no refusal of the system, a clean tree of not too many files is walked to the end.\<close>

definition no_faults :: "os \<Rightarrow> bool" where
  "no_faults S \<longleftrightarrow> (\<forall>c p. os_fault S c p = None)"

lemma walk_complete:
  assumes "no_faults S" and "disk_ok d" and "distinct ns" and "\<forall>n\<in>set ns. map_of d (dir @ [n]) \<noteq> None \<and> nodes_clean root d (dir @ [n])"
    and "length out + card (walked xm xl root d dir (set ns)) \<le> MAX_BACKUP_FILES"
  shows "\<exists>out'. walk S xm xl root d dir ns out = Inr out'"
  using assms
proof (induction S xm xl root d dir ns out rule: walk.induct)
  case (2 S xm xl root d dir n ns out)
  let ?a = "dir @ [n]"
  obtain x where mx: "map_of d ?a = Some x" and cl: "nodes_clean root d ?a" using 2(8) by auto
  then have x: "io ''stat'' ?a (std_lstat S ?a d) = Inr x" using 2(5) by (simp add: io_Inr lstat_Inr no_faults_def)
  have n: "n \<notin> set ns" "distinct ns" "\<forall>n\<in>set ns. map_of d (dir @ [n]) \<noteq> None \<and> nodes_clean root d (dir @ [n])" using 2(7,8) by simp_all
  have fin: "finite (found_files xm xl root d ?a)" "finite (walked xm xl root d dir (set ns))" by (rule finite_found)+
  have card: "length out + card (found_files xm xl root d ?a) + card (walked xm xl root d dir (set ns)) \<le> MAX_BACKUP_FILES"
    using 2(9) walked_Cons [of xm xl root d dir n "set ns"] card_Un_disjoint [OF fin] walked_disjoint [OF n(1)] by simp
  have kind: "x = Folder \<or> (\<exists>b m. x = File b m)" "x \<noteq> Folder \<Longrightarrow> relative_string root ?a = Inr (rel_name root ?a)"
    using cl mx unfolding nodes_clean_def by blast+
  show ?case
  proof (cases x)
    case Folder
    let ?ms = "names_in d ?a"
    have ms: "list_dir S ?a d = Inr ?ms" using list_dir_Inr mx Folder 2(5) by (simp add: no_faults_def)
    have w: "walked xm xl root d ?a (set ?ms) = found_files xm xl root d ?a" by (rule walked_folder) (use 2(6) mx Folder in simp_all)
    have sub: "\<forall>m\<in>set ?ms. map_of d (?a @ [m]) \<noteq> None \<and> nodes_clean root d (?a @ [m])"
      using cl unfolding nodes_clean_def by (metis append_prefixD set_names_in)
    obtain out1 where o1: "walk S xm xl root d ?a ?ms out = Inr out1"
      using 2(3) [OF x Folder ms 2(5,6) distinct_names_in sub] w card by auto
    then obtain ys where ys: "out1 = out @ ys" "distinct ys" "set ys = found_files xm xl root d ?a"
      using walk_sound [OF o1 2(6) distinct_names_in] w by auto
    then have "length out1 + card (walked xm xl root d dir (set ns)) \<le> MAX_BACKUP_FILES" using card distinct_card [OF ys(2)] by simp
    then obtain out2 where "walk S xm xl root d dir ns out1 = Inr out2" using 2(4) [OF x Folder ms o1 2(5,6) n(2,3)] by blast
    then show ?thesis using x Folder ms o1 by simp
  next
    case (File b m)
    then have r: "relative_string root ?a = Inr (rel_name root ?a)" using kind(2) by simp
    have ff: "found_files xm xl root d ?a = (if excluded xm xl (rel_name root ?a) then {} else {?a})" using walked_file [OF 2(6)] mx File by simp
    show ?thesis
    proof (cases "excluded xm xl (rel_name root ?a)")
      case True
      then obtain out1 where "walk S xm xl root d dir ns out = Inr out1" using 2(1) [OF x File r True 2(5,6) n(2,3)] card by auto
      then show ?thesis using x File r True by simp
    next
      case False
      then have l: "length (out @ [?a]) + card (walked xm xl root d dir (set ns)) \<le> MAX_BACKUP_FILES" using card ff by simp
      then have l': "\<not> MAX_BACKUP_FILES < length (out @ [?a])" by simp
      then obtain out1 where "walk S xm xl root d dir ns (out @ [?a]) = Inr out1" using 2(2) [OF x File r False l' 2(5,6) n(2,3) l] by blast
      then show ?thesis using x File r False l' by simp
    qed
  qed (use kind(1) in simp_all)
qed simp

lemma walk_files_sound:
  assumes "walk_files S xm xl root root d = Inr ps" and "disk_ok d" and "map_of d root = Some Folder"
  shows "distinct ps" and "set ps = found_files xm xl root d root" and "nodes_clean root d root"
proof -
  have w: "walk S xm xl root d root (names_in d root) [] = Inr ps"
    using assms(1) list_dir_Inr [OF assms(3)] by (auto simp: walk_files_def bind_r_Inr_iff)
  note s = walk_sound [OF w assms(2) distinct_names_in]
  then show "distinct ps" "set ps = found_files xm xl root d root" using walked_folder [OF assms(2,3)] by auto
  show "nodes_clean root d root" unfolding nodes_clean_def
  proof (intro allI impI)
    fix p x assume *: "prefix root p" "map_of d p = Some x"
    show "x = Folder \<or> (\<exists>b m. x = File b m) \<and> relative_string root p = Inr (rel_name root p)"
    proof (cases "p = root")
      case False
      then have "\<exists>n\<in>set (names_in d root). prefix (root @ [n]) p" using below_folder [OF assms(2,3) _ *(1)] *(2) by simp
      then show ?thesis using s *(2) unfolding nodes_clean_def by blast
    qed (use * assms(3) in simp)
  qed
qed

lemma walk_files_complete:
  assumes "no_faults S" and "disk_ok d" and "map_of d root = Some Folder" and "nodes_clean root d root"
    and "card (found_files xm xl root d root) \<le> MAX_BACKUP_FILES"
  shows "\<exists>ps. walk_files S xm xl root root d = Inr ps"
proof -
  have "list_dir S root d = Inr (names_in d root)" using list_dir_Inr [OF assms(3)] assms(1) by (simp add: no_faults_def)
  moreover have "\<forall>n\<in>set (names_in d root). map_of d (root @ [n]) \<noteq> None \<and> nodes_clean root d (root @ [n])"
    using assms(4) unfolding nodes_clean_def by (metis append_prefixD set_names_in)
  then have "\<exists>ps. walk S xm xl root d root (names_in d root) [] = Inr ps"
    using walk_complete [OF assms(1,2) distinct_names_in] assms(5) walked_folder [OF assms(2,3)] by simp
  ultimately show ?thesis by (simp add: walk_files_def)
qed

end
