(* ===== verification/LoomBackupCopy.thy ===== *)
theory LoomBackupCopy
  imports LoomBackupLaws
begin

text \<open>What copying a file writes, and how far a backup or a restore under way can reach.\<close>

section \<open>Hashing while copying\<close>

text \<open>Documented of \<open>blake3::Hasher\<close>: only the concatenation of what it is fed matters.\<close>

definition hasher_ok :: "'h blake3 \<Rightarrow> bool" where
  "hasher_ok H \<longleftrightarrow> (\<forall>h. b3_update H h [] = h) \<and> (\<forall>h a b. b3_update H (b3_update H h a) b = b3_update H h (a @ b))"

lemma hasher_append: "hasher_ok H \<Longrightarrow> b3_update H (b3_update H h a) b = b3_update H h (a @ b)"
  unfolding hasher_ok_def by blast

lemma u64_less: "unat (n :: u64) < 2 ^ 64"
proof -
  have "unat n < 2 ^ LENGTH(64)" by (rule unsigned_less)
  then show ?thesis by simp
qed

lemma concat_chunks: "concat (chunks b) = b"
  by (induction b rule: chunks.induct) (subst chunks.simps, simp)

lemma chunk_length: "c \<in> set (chunks b) \<Longrightarrow> length c \<le> 65536"
  by (induction b rule: chunks.induct) (subst (asm) (2) chunks.simps, auto split: if_splits)

lemma u64_add_Some: "u64_add a b = Some c \<Longrightarrow> unat c = unat a + unat b"
  by (auto simp: u64_add_def unat_word_ariths split: if_splits)

lemma chunk_add: "u64_add n (of_nat (length c)) = Some n' \<Longrightarrow> length c \<le> 65536 \<Longrightarrow> unat n' = unat n + length c"
  using u64_add_Some [of n "of_nat (length c)" n'] by (simp add: unat_of_nat)

lemma hash_loop_Inr:
  assumes "hasher_ok H" and "hash_loop H p cs h n = Inr (h', n')" and "\<forall>c\<in>set cs. length c \<le> 65536"
  shows "h' = b3_update H h (concat cs) \<and> unat n' = unat n + length (concat cs)"
  using assms(2,3)
proof (induction cs arbitrary: h n)
  case Nil
  then show ?case using assms(1) by (simp add: hasher_ok_def)
next
  case (Cons c cs)
  then obtain n1 where n1: "u64_add n (of_nat (length c)) = Some n1" "hash_loop H p cs (b3_update H h c) n1 = Inr (h', n')"
    by (auto split: option.splits)
  have "h' = b3_update H (b3_update H h c) (concat cs) \<and> unat n' = unat n1 + length (concat cs)"
    using Cons.IH [OF n1(2)] Cons.prems(2) by simp
  then show ?case using chunk_add [OF n1(1)] Cons.prems(2) hasher_append [OF assms(1)] by simp
qed

lemma hash_loop_complete:
  "unat n + length (concat cs) < 2 ^ 64 \<Longrightarrow> \<exists>r. hash_loop H p cs h n = Inr r"
proof (induction cs arbitrary: h n)
  case (Cons c cs)
  then have "unat n + length c < 2 ^ 64" by simp
  then have "u64_add n (of_nat (length c)) = Some (n + of_nat (length c))" "unat (n + of_nat (length c)) = unat n + length c"
    by (simp_all add: u64_add_def unat_of_nat unat_word_ariths)
  then show ?case using Cons by simp
qed simp

lemma of_nat_unat: "unat (n :: u64) = k \<Longrightarrow> n = of_nat k"
  by auto

lemma hash_file_Inr:
  assumes "hasher_ok H" and "map_of d p = Some (File b m)" and "hash_file H S p d = Inr (n, digest)"
  shows "n = of_nat (length b) \<and> length b < 2 ^ 64 \<and> digest = to_hex (b3 H b)"
proof -
  have "std_open S p d = Inr b" using assms(3) follow_plain [OF assms(2)]
    by (auto simp: hash_file_def bind_r_Inr_iff io_Inr std_open_def split: option.splits)
  then obtain h where l: "hash_loop H p (chunks b) (b3_new H) 0 = Inr (h, n)" "digest = to_hex (b3_finalize H h)"
    using assms(3) by (auto simp: hash_file_def bind_r_Inr_iff io_Inr)
  have "h = b3_update H (b3_new H) b \<and> unat n = length b"
    using hash_loop_Inr [OF assms(1) l(1)] chunk_length by (simp add: concat_chunks)
  then show ?thesis using l(2) of_nat_unat [of n] u64_less [of n] by (auto simp: b3_def)
qed

lemma hash_file_complete:
  assumes "hasher_ok H" and "no_faults S" and "map_of d p = Some (File b m)" and "length b < 2 ^ 64"
  shows "hash_file H S p d = Inr (of_nat (length b), to_hex (b3 H b))"
proof -
  have o: "std_open S p d = Inr b" using assms(2) follow_plain [OF assms(3)] by (simp add: std_open_def sys_def no_faults_def)
  obtain h n where l: "hash_loop H p (chunks b) (b3_new H) 0 = Inr (h, n)"
    using hash_loop_complete [of 0 "chunks b" H p "b3_new H"] assms(4) by (auto simp: concat_chunks)
  then have "hash_file H S p d = Inr (n, to_hex (b3_finalize H h))"
    using o assms(2) by (simp add: hash_file_def io_def sys_def no_faults_def)
  then show ?thesis using hash_file_Inr [OF assms(1,3)] by simp
qed

section \<open>One file\<close>

lemma io_s_Inr: "io_s oper p m d = (d', Inr a) \<longleftrightarrow> m d = (d', Inr a)"
  by (auto simp: io_s_def io_def split: prod.splits sum.splits)

lemma copy_loop_Inr:
  assumes "hasher_ok H" and "copy_loop H S src dst cs h n d = (d', Inr (h', n'))" and "map_of d dst = Some (File c m)"
    and "\<forall>c\<in>set cs. length c \<le> 65536"
  shows "h' = b3_update H h (concat cs) \<and> unat n' = unat n + length (concat cs) \<and> map_of d' = (map_of d)(dst \<mapsto> File (c @ concat cs) m)"
  using assms(2-4)
proof (induction cs arbitrary: h n d c)
  case Nil
  then show ?case using assms(1) by (auto simp: hasher_ok_def bind_s_def io_def sys_def split: option.splits)
next
  case (Cons x cs)
  obtain d1 n1 where w: "std_write_all S dst x d = (d1, Inr ())" "u64_add n (of_nat (length x)) = Some n1"
    "copy_loop H S src dst cs (b3_update H h x) n1 d1 = (d', Inr (h', n'))"
    using Cons.prems(1) by (auto simp: io_s_Inr elim!: bind_s_Inr split: option.splits)
  then have d1: "map_of d1 = (map_of d)(dst \<mapsto> File (c @ x) m)" using write_all_Inr [OF w(1)] Cons.prems(2) by auto
  have x: "map_of d1 dst = Some (File (c @ x) m)" "\<forall>c\<in>set cs. length c \<le> 65536" using d1 Cons.prems(3) by simp_all
  have "h' = b3_update H (b3_update H h x) (concat cs) \<and> unat n' = unat n1 + length (concat cs) \<and> map_of d' = (map_of d1)(dst \<mapsto> File ((c @ x) @ concat cs) m)"
    by (rule Cons.IH [OF w(3) x])
  note IH = this
  then have "map_of d' = ((map_of d)(dst \<mapsto> File (c @ x) m))(dst \<mapsto> File ((c @ x) @ concat cs) m)" unfolding d1 by blast
  then have "map_of d' = (map_of d)(dst \<mapsto> File (c @ concat (x # cs)) m)" by (simp only: fun_upd_upd append_assoc concat.simps)
  then show ?case using IH chunk_add [OF w(2)] Cons.prems(3) hasher_append [OF assms(1)] by simp
qed

lemma copy_hashed_Inr:
  assumes "hasher_ok H" and "copy_hashed H S src dst d = (d', Inr f)" and "file_at d src = Some (b, m)"
  shows "f = \<lparr>bf_path = [], bf_bytes = of_nat (length b), bf_blake3 = to_hex (b3 H b)\<rparr> \<and> length b < 2 ^ 64 \<and> map_of d dst = None
    \<and> (\<forall>p. file_at d' p = (if p = dst then Some (b, m) else file_at d p)) \<and> (\<forall>p n. map_of d p = Some n \<longrightarrow> map_of d' p = Some n)"
proof -
  have s: "map_of d src = Some (File b m)" using assms(3) by (simp add: file_at_Some)
  obtain d1 c d2 d3 h n k where
    1: "std_mkdirs S [] (butlast dst) d = (d1, Inr ())" "io ''open source'' src (std_open S src d1) = Inr c" "std_create_new S dst d1 = (d2, Inr ())"
    "copy_loop H S src dst (chunks c) (b3_new H) 0 d2 = (d3, Inr (h, n))" "io ''stat source'' src (mode_of S src d3) = Inr k"
    "std_chmod S dst k d3 = (d', Inr ())" "f = \<lparr>bf_path = [], bf_bytes = n, bf_blake3 = to_hex (b3_finalize H h)\<rparr>"
    using assms(2) by (auto simp: copy_hashed_def io_s_Inr std_sync_def elim!: bind_s_Inr)
  have sf: "same_files d d1" by (rule mkdirs_same_files [OF 1(1)])
  then have s1: "map_of d1 src = Some (File b m)" using s by (simp add: same_files_def)
  then have c: "c = b" using 1(2) follow_plain [OF s1] by (auto simp: io_Inr std_open_def bind_r_Inr_iff)
  have n1: "map_of d1 dst = None" and d2: "map_of d2 = (map_of d1)(dst \<mapsto> File [] (os_umode S))"
    using create_new_Inr [OF 1(3)] by simp_all
  then have ne: "src \<noteq> dst" using s1 by auto
  have L: "h = b3_update H (b3_new H) b \<and> unat n = length b \<and> map_of d3 = (map_of d2)(dst \<mapsto> File b (os_umode S))"
    using copy_loop_Inr [OF assms(1) 1(4)] d2 c chunk_length by (simp add: concat_chunks)
  then have s3: "map_of d3 src = Some (File b m)" using d2 s1 ne by simp
  then have k: "k = m" using 1(5) follow_plain [OF s3] by (auto simp: io_Inr mode_of_def std_stat_def bind_r_Inr_iff)
  have d': "map_of d' = (map_of d1)(dst \<mapsto> File b m)" using chmod_Inr [OF 1(6)] L d2 k by auto
  have f: "file_at d' p = (if p = dst then Some (b, m) else file_at d p)" for p
    using d' sf by (auto simp: same_files_def file_at_def)
  have "map_of d dst = None" using sf n1 unfolding same_files_def by (metis option.collapse option.distinct(1))
  moreover have "map_of d' p = Some x" if "map_of d p = Some x" for p x
    using that sf d' n1 by (auto simp: same_files_def)
  moreover have "n = of_nat (length b)" "length b < 2 ^ 64" using L of_nat_unat [of n] u64_less [of n] by auto
  ultimately show ?thesis using 1(7) L f by (auto simp: b3_def)
qed

section \<open>Staying in the partial directory\<close>

lemma confined_io: "confined a m \<Longrightarrow> confined a (io_s oper p m)"
  unfolding confined_def io_s_def by (auto split: prod.splits)

lemma confined_copy_loop: "strict_prefix a dst \<Longrightarrow> confined a (copy_loop H S src dst cs h n)"
proof (induction cs arbitrary: h n)
  case (Cons c cs)
  show ?case
    by (auto intro!: confined_bind confined_io confined_write Cons simp del: fun_upd_apply split: option.split)
qed (auto intro!: confined_bind)

lemma confined_copy:
  assumes "q \<noteq> []" and "\<forall>n\<in>set (a @ q). name_ok n"
  shows "confined a (copy_hashed H S src (a @ q))"
proof -
  have s: "strict_prefix a (a @ q)" "name_ok (last (a @ q))" using assms by (simp_all add: strict_prefix_def)
  have "\<forall>n\<in>set (butlast (a @ q)). name_ok n" using assms(2) in_set_butlastD by fast
  moreover have "prefix a (butlast (a @ q))" using assms(1) by (simp add: butlast_append)
  ultimately have m: "confined a (std_mkdirs S [] (butlast (a @ q)))" by (intro confined_mkdirs) simp_all
  show ?thesis unfolding copy_hashed_def
    by (intro confined_bind confined_io confined_pure m confined_create_new [OF s])
      (auto intro!: confined_bind confined_io confined_pure confined_copy_loop confined_write s split: prod.split)
qed

lemma confined_written:
  "strict_prefix a p \<Longrightarrow> name_ok (last p) \<Longrightarrow> confined a (write_synced S what p b)"
  unfolding write_synced_def by (intro confined_bind confined_io confined_create_new confined_write confined_sync)

lemma confined_copy_files: "(\<forall>n\<in>set a. name_ok n) \<Longrightarrow> confined a (copy_files V src a ps files)"
proof (induction ps arbitrary: files)
  case (Cons p ps)
  have "confined a (bind_s (lift_r (checked_relative r)) (\<lambda>q. bind_s (copy_hashed (be_hash V) (be_os V) p (a @ q)) (\<lambda>f. copy_files V src a ps (files @ [f\<lparr>bf_path := r\<rparr>]))))" for r
  proof (cases "checked_relative r")
    case (Inr q)
    have "confined a (copy_hashed (be_hash V) (be_os V) p (a @ q))"
      by (rule confined_copy) (use checked_relative_Inr [OF Inr] Cons.prems in auto)
    moreover have "bind_s (lift_r (Inr q)) g = g q" for g :: "path \<Rightarrow> (disk, backup_error, backup_file list) fallible" by (rule ext) simp
    ultimately show ?thesis using Inr Cons by (simp add: confined_bind)
  qed (simp add: confined_def bind_s_def)
  note one = this
  show ?case unfolding copy_files.simps by (rule confined_bind [OF confined_pure(3)], rule one)
qed simp

lemma confined_restore_files: "(\<forall>n\<in>set a. name_ok n) \<Longrightarrow> confined a (restore_files V backup a fs)"
proof (induction fs)
  case (Cons f fs)
  show ?case
  proof (cases "checked_relative (bf_path f)")
    case (Inr q)
    have "confined a (copy_hashed (be_hash V) (be_os V) (backup @ q) (a @ q))"
      by (rule confined_copy) (use checked_relative_Inr [OF Inr] Cons.prems in auto)
    then have "confined a (bind_s (copy_hashed (be_hash V) (be_os V) (backup @ q) (a @ q)) (\<lambda>c.
       if bf_bytes c \<noteq> bf_bytes f \<or> bf_blake3 c \<noteq> bf_blake3 f then fail (Integrity (ChangedDuringRestore (bf_path f)))
       else restore_files V backup a fs))" using Cons by (intro confined_bind) auto
    then show ?thesis using Inr by (simp add: confined_def)
  qed (simp add: confined_def)
qed simp

end
