(* ===== verification/LoomBackupCheck.thy ===== *)
theory LoomBackupCheck
  imports LoomBackupCopy
begin

text \<open>What verification says of a tree, and when it accepts one.\<close>

section \<open>The files of a backup\<close>

text \<open>No file below the directory has a backslash in its name, which the relative strings of the source replace.\<close>

definition portable :: "path \<Rightarrow> disk \<Rightarrow> bool" where
  "portable root d \<longleftrightarrow> (\<forall>q. file_at d (root @ q) \<noteq> None \<longrightarrow> (\<forall>n\<in>set q. CHR 0x5C \<notin> set n))"

definition stored_files :: "path \<Rightarrow> disk \<Rightarrow> path set" where
  "stored_files root d = {q. file_at d (root @ q) \<noteq> None \<and> q \<noteq> [BACKUP_MANIFEST_FILE] \<and> q \<noteq> [BACKUP_SIGNATURE_FILE]}"

definition record_of :: "'h blake3 \<Rightarrow> path \<Rightarrow> disk \<Rightarrow> path \<Rightarrow> backup_file" where
  "record_of H root d q =
     (case file_at d (root @ q) of
        Some (b, _) \<Rightarrow> \<lparr>bf_path = join ''/'' q, bf_bytes = of_nat (length b), bf_blake3 = to_hex (b3 H b)\<rparr>
      | None \<Rightarrow> \<lparr>bf_path = join ''/'' q, bf_bytes = 0, bf_blake3 = []\<rparr>)"

text \<open>The manifest lists each stored file once, with its length and digest, and nothing else.\<close>

definition lists_exactly :: "'h blake3 \<Rightarrow> path \<Rightarrow> disk \<Rightarrow> backup_file list \<Rightarrow> bool" where
  "lists_exactly H root d fs \<longleftrightarrow> distinct (map bf_path fs) \<and> set fs = record_of H root d ` stored_files root d"

lemma record_of_path [simp]: "bf_path (record_of H root d q) = join ''/'' q"
  by (auto simp: record_of_def split: option.splits prod.splits)

lemma set_join: "c \<in> set (join ''/'' q) \<Longrightarrow> c = CHR ''/'' \<or> (\<exists>n\<in>set q. c \<in> set n)"
proof (induction q)
  case (Cons n q)
  then show ?case by (cases q) auto
qed simp

lemma replace_char_id: "a \<notin> set s \<Longrightarrow> replace_char a b s = s"
  by (induction s) auto

lemma file_at_node: "file_at d p \<noteq> None \<Longrightarrow> map_of d p \<noteq> None"
  by (cases "map_of d p") (simp_all add: file_at_def)

lemma fixed_names [simp]: "name_ok BACKUP_MANIFEST_FILE" "name_ok BACKUP_SIGNATURE_FILE" "BACKUP_MANIFEST_FILE \<noteq> BACKUP_SIGNATURE_FILE"
  by (simp_all add: name_ok_def BACKUP_MANIFEST_FILE_def BACKUP_SIGNATURE_FILE_def)

text \<open>The root of a backup, in a well-formed tree.\<close>

definition rooted :: "path \<Rightarrow> disk \<Rightarrow> bool" where
  "rooted root d \<longleftrightarrow> disk_ok d \<and> map_of d root = Some Folder \<and> portable root d"

lemma rooted_disk: "rooted root d \<Longrightarrow> disk_ok d" "rooted root d \<Longrightarrow> map_of d root = Some Folder" "rooted root d \<Longrightarrow> portable root d"
  by (simp_all add: rooted_def)

lemma rooted_names: "rooted root d \<Longrightarrow> map_of d (root @ q) \<noteq> None \<Longrightarrow> \<forall>n\<in>set q. name_ok n"
  using disk_ok_names [OF rooted_disk(1), of root d "root @ q"] by auto

lemma plain_join: "rooted root d \<Longrightarrow> file_at d (root @ q) \<noteq> None \<Longrightarrow> CHR 0x5C \<notin> set (join ''/'' q)"
  using set_join [of "CHR 0x5C" q] rooted_disk(3) [of root d] unfolding portable_def by fastforce

lemma rel_name_plain: "rooted root d \<Longrightarrow> file_at d (root @ q) \<noteq> None \<Longrightarrow> rel_name root (root @ q) = join ''/'' q"
  using plain_join by (simp add: rel_name_def replace_char_id del: replace_char.simps)

lemma stored_names: "rooted root d \<Longrightarrow> q \<in> stored_files root d \<Longrightarrow> q \<noteq> [] \<and> map_of d (root @ q) \<noteq> None"
  using rooted_disk(2) [of root d] file_at_node [of d "root @ q"] by (auto simp: stored_files_def file_at_def)

lemma stored_file: "q \<in> stored_files root d \<Longrightarrow> file_at d (root @ q) \<noteq> None"
  by (simp add: stored_files_def)

lemma checked_stored: "rooted root d \<Longrightarrow> q \<in> stored_files root d \<Longrightarrow> checked_relative (join ''/'' q) = Inr q"
  using stored_names [of root d q] rooted_names [of root d q] plain_join [of root d q] stored_file [of q root d] checked_relative_join [of q] by blast

lemma join_stored:
  "rooted root d \<Longrightarrow> p \<in> stored_files root d \<Longrightarrow> q \<in> stored_files root d \<Longrightarrow> join ''/'' p = join ''/'' q \<Longrightarrow> p = q"
  using join_inj rooted_names stored_names by blast

lemma join_fixed:
  assumes "\<forall>n\<in>set q. name_ok n" and "name_ok f"
  shows "join ''/'' q = f \<longleftrightarrow> q = [f]"
  using join_inj [of q "[f]"] assms by auto

lemma excluded_stored:
  assumes "rooted root d" and "file_at d (root @ q) \<noteq> None"
  shows "excluded True False (rel_name root (root @ q)) \<longleftrightarrow> q = [BACKUP_MANIFEST_FILE] \<or> q = [BACKUP_SIGNATURE_FILE]"
  using rel_name_plain [OF assms] rooted_names [OF assms(1) file_at_node [OF assms(2)]]
  by (simp add: excluded_def join_fixed)

lemma found_stored:
  assumes "rooted root d"
  shows "found_files True False root d root = (\<lambda>q. root @ q) ` stored_files root d"
proof -
  have "p \<in> found_files True False root d root \<longleftrightarrow> (\<exists>q. p = root @ q \<and> q \<in> stored_files root d)" for p
    using excluded_stored [OF assms] by (fastforce simp: found_files_def stored_files_def prefix_def)
  then show ?thesis by blast
qed

lemma found_names:
  assumes "rooted root d"
  shows "rel_name root ` found_files True False root d root = join ''/'' ` stored_files root d"
proof -
  have "rel_name root (root @ q) = join ''/'' q" if "q \<in> stored_files root d" for q
    by (rule rel_name_plain [OF assms stored_file [OF that]])
  then show ?thesis unfolding found_stored [OF assms] image_image by (rule image_cong [OF refl])
qed

lemma card_found: "rooted root d \<Longrightarrow> card (found_files True False root d root) = card (stored_files root d)"
  unfolding found_stored by (rule card_image) (simp add: inj_on_def)

section \<open>Declared paths\<close>

lemma declare_paths_Inr:
  "declare_paths fs (sort_dedup D) = Inr D' \<Longrightarrow>
     D' = sort_dedup (map bf_path fs @ D) \<and> distinct (map bf_path fs) \<and> set (map bf_path fs) \<inter> set D = {}
     \<and> (\<forall>f\<in>set fs. \<exists>q. checked_relative (bf_path f) = Inr q)"
proof (induction fs arbitrary: D)
  case (Cons f fs)
  have e: "sort_dedup (bf_path f # sort_dedup D) = sort_dedup (bf_path f # D)" by (rule sort_dedup_set) simp
  have r: "\<exists>q. checked_relative (bf_path f) = Inr q" "bf_path f \<notin> set D" "declare_paths fs (sort_dedup (bf_path f # D)) = Inr D'"
    using Cons.prems unfolding e [symmetric] by (auto simp: bind_r_Inr_iff split: if_splits)
  have "sort_dedup (map bf_path fs @ bf_path f # D) = sort_dedup (map bf_path (f # fs) @ D)" by (rule sort_dedup_set) simp
  then show ?case using Cons.IH [OF r(3)] r(1,2) by auto
qed simp

lemma declare_paths_complete:
  "distinct (map bf_path fs) \<Longrightarrow> set (map bf_path fs) \<inter> set D = {} \<Longrightarrow> \<forall>f\<in>set fs. \<exists>q. checked_relative (bf_path f) = Inr q
     \<Longrightarrow> \<exists>D'. declare_paths fs D = Inr D'"
proof (induction fs arbitrary: D)
  case (Cons f fs)
  have "\<exists>D'. declare_paths fs (sort_dedup (bf_path f # D)) = Inr D'" by (rule Cons.IH) (use Cons.prems in auto)
  then show ?case using Cons.prems by auto
qed simp

section \<open>Verification\<close>

lemma map_r_Inr_all: "map_r f xs = Inr ys \<Longrightarrow> x \<in> set xs \<Longrightarrow> \<exists>y. f x = Inr y"
  by (induction xs arbitrary: ys) (auto simp: bind_r_Inr_iff)

lemma map_r_complete: "(\<forall>x\<in>set xs. \<exists>y. f x = Inr y) \<Longrightarrow> \<exists>ys. map_r f xs = Inr ys"
  by (induction xs) auto

lemma verify_record_Inr:
  assumes "hasher_ok (be_hash V)" and "verify_record V root d f = Inr u" and "checked_relative (bf_path f) = Inr q"
  shows "\<exists>b m. file_at d (root @ q) = Some (b, m) \<and> length b < 2 ^ 64 \<and> bf_bytes f = of_nat (length b) \<and> bf_blake3 f = to_hex (b3 (be_hash V) b)"
proof -
  obtain x where x: "map_of d (root @ q) = Some x"
    "(case x of File _ _ \<Rightarrow> bind_r (hash_file (be_hash V) (be_os V) (root @ q) d) (\<lambda>(n, digest).
        if n \<noteq> bf_bytes f \<or> digest \<noteq> bf_blake3 f then Inl (Integrity (FileChanged (bf_path f) (bf_bytes f) (bf_blake3 f) n digest)) else Inr ())
      | _ \<Rightarrow> Inl (Integrity (RecordNotRegular (bf_path f)))) = Inr u"
    using assms(2) unfolding verify_record_def by (auto simp only: assms(3) bind_r_simps bind_r_Inr_iff [of "io _ _ _"] Let_def io_Inr lstat_Inr)
  then obtain b m where b: "x = File b m" by (cases x) simp_all
  then have "hash_file (be_hash V) (be_os V) (root @ q) d = Inr (bf_bytes f, bf_blake3 f)"
    using x(2) by (auto simp: bind_r_Inr_iff split: if_splits)
  then show ?thesis using hash_file_Inr [OF assms(1), of d "root @ q" b m] x(1) b by (simp add: file_at_Some)
qed

lemma verify_record_complete:
  assumes "hasher_ok (be_hash V)" and "no_faults (be_os V)" and "checked_relative (bf_path f) = Inr q"
    and "file_at d (root @ q) = Some (b, m)" and "length b < 2 ^ 64" and "bf_bytes f = of_nat (length b)" and "bf_blake3 f = to_hex (b3 (be_hash V) b)"
  shows "verify_record V root d f = Inr ()"
proof -
  have m: "map_of d (root @ q) = Some (File b m)" using assms(4) by (simp add: file_at_Some)
  have "std_lstat (be_os V) (root @ q) d = Inr (File b m)" using m assms(2) by (simp add: lstat_Inr no_faults_def)
  then show ?thesis using hash_file_complete [OF assms(1,2) m assms(5)] assms(3,6,7) by (simp add: verify_record_def io_def)
qed

lemma verify_files_sound:
  assumes R: "rooted root d" and H: "hasher_ok (be_hash V)" and v: "verify_manifest_files V root d m = Inr u"
  shows "nodes_clean root d root \<and> lists_exactly (be_hash V) root d (bm_files m) \<and> (\<forall>q\<in>stored_files root d. \<forall>b k. file_at d (root @ q) = Some (b, k) \<longrightarrow> length b < 2 ^ 64)"
proof -
  obtain D ps rs where 1: "declare_paths (bm_files m) [] = Inr D" "walk_files (be_os V) True False root root d = Inr ps"
    "map_r (relative_string root) ps = Inr rs" "sort_dedup rs = D" "\<exists>us. map_r (verify_record V root d) (bm_files m) = Inr us"
    using v by (auto simp: verify_manifest_files_def bind_r_Inr_iff Let_def split: if_splits)
  have D: "D = sort_dedup (map bf_path (bm_files m))" "distinct (map bf_path (bm_files m))"
    using declare_paths_Inr [of "bm_files m" "[]" D] 1(1) by (simp_all add: sort_dedup_def)
  note w = walk_files_sound [OF 1(2) rooted_disk(1,2) [OF R]]
  have "set D = rel_name root ` found_files True False root d root"
    unfolding 1(4) [symmetric] relative_names [OF 1(3)] using w(2) by simp
  then have paths: "bf_path ` set (bm_files m) = join ''/'' ` stored_files root d"
    unfolding D(1) found_names [OF R] by simp
  have rec: "f = record_of (be_hash V) root d q" "\<forall>b k. file_at d (root @ q) = Some (b, k) \<longrightarrow> length b < 2 ^ 64"
    if f: "f \<in> set (bm_files m)" and q: "q \<in> stored_files root d" "bf_path f = join ''/'' q" for f q
  proof -
    have c: "checked_relative (bf_path f) = Inr q" using checked_stored [OF R q(1)] q(2) by simp
    obtain us where us: "map_r (verify_record V root d) (bm_files m) = Inr us" using 1(5) by blast
    obtain x where "verify_record V root d f = Inr x" using map_r_Inr_all [OF us f] by blast
    then obtain b k where "file_at d (root @ q) = Some (b, k)" "length b < 2 ^ 64" "bf_bytes f = of_nat (length b)" "bf_blake3 f = to_hex (b3 (be_hash V) b)"
      using verify_record_Inr [OF H _ c] by blast
    then show "f = record_of (be_hash V) root d q" "\<forall>b k. file_at d (root @ q) = Some (b, k) \<longrightarrow> length b < 2 ^ 64"
      using q(2) by (simp_all add: record_of_def)
  qed
  have "set (bm_files m) = record_of (be_hash V) root d ` stored_files root d"
  proof (intro set_eqI iffI)
    fix f assume f: "f \<in> set (bm_files m)"
    then obtain q where "q \<in> stored_files root d" "bf_path f = join ''/'' q" using paths by blast
    then show "f \<in> record_of (be_hash V) root d ` stored_files root d" using rec(1) [OF f] by blast
  next
    fix f assume "f \<in> record_of (be_hash V) root d ` stored_files root d"
    then obtain q where q: "f = record_of (be_hash V) root d q" "q \<in> stored_files root d" by blast
    then have "join ''/'' q \<in> bf_path ` set (bm_files m)" unfolding paths by (intro imageI)
    then obtain g where g: "g \<in> set (bm_files m)" "bf_path g = join ''/'' q" by (elim imageE) simp
    then show "f \<in> set (bm_files m)" using rec(1) [OF g(1) q(2) g(2)] q(1) by simp
  qed
  moreover have "length b < 2 ^ 64" if "q \<in> stored_files root d" "file_at d (root @ q) = Some (b, k)" for q b k
  proof -
    have "join ''/'' q \<in> bf_path ` set (bm_files m)" unfolding paths by (rule imageI [OF that(1)])
    then obtain g where "g \<in> set (bm_files m)" "bf_path g = join ''/'' q" by (elim imageE) simp
    then show ?thesis using rec(2) [of g q] that by blast
  qed
  ultimately show ?thesis using w(3) D(2) by (simp add: lists_exactly_def)
qed

lemma verify_files_complete:
  assumes R: "rooted root d" and H: "hasher_ok (be_hash V)" and S: "no_faults (be_os V)" and cl: "nodes_clean root d root"
    and l: "lists_exactly (be_hash V) root d (bm_files m)" and n: "length (bm_files m) \<le> MAX_BACKUP_FILES"
    and len: "\<forall>q\<in>stored_files root d. \<forall>b k. file_at d (root @ q) = Some (b, k) \<longrightarrow> length b < 2 ^ 64"
  shows "verify_manifest_files V root d m = Inr ()"
proof -
  have files: "set (bm_files m) = record_of (be_hash V) root d ` stored_files root d" "distinct (map bf_path (bm_files m))"
    using l by (simp_all add: lists_exactly_def)
  have paths: "bf_path ` set (bm_files m) = join ''/'' ` stored_files root d" unfolding files(1) image_image by simp
  have each: "\<exists>q\<in>stored_files root d. f = record_of (be_hash V) root d q \<and> checked_relative (bf_path f) = Inr q" if "f \<in> set (bm_files m)" for f
    using that checked_stored [OF R] unfolding files(1) by auto
  then have "\<forall>f\<in>set (bm_files m). \<exists>q. checked_relative (bf_path f) = Inr q" by blast
  then obtain D where D: "declare_paths (bm_files m) [] = Inr D" using declare_paths_complete [OF files(2), of "[]"] by auto
  then have De: "D = sort_dedup (map bf_path (bm_files m))" using declare_paths_Inr [of "bm_files m" "[]" D] by (simp add: sort_dedup_def)
  have "card (stored_files root d) = card (set (bm_files m))"
    unfolding files(1)
  proof (rule card_image [symmetric], rule inj_onI)
    fix p q assume *: "p \<in> stored_files root d" "q \<in> stored_files root d" "record_of (be_hash V) root d p = record_of (be_hash V) root d q"
    then have "bf_path (record_of (be_hash V) root d p) = bf_path (record_of (be_hash V) root d q)" by simp
    then show "p = q" using join_stored [OF R] *(1,2) by simp
  qed
  also have "\<dots> \<le> MAX_BACKUP_FILES" using n card_length [of "bm_files m"] by simp
  finally obtain ps where ps: "walk_files (be_os V) True False root root d = Inr ps"
    using walk_files_complete [OF S rooted_disk(1,2) [OF R] cl, of True False] card_found [OF R] by auto
  note w = walk_files_sound [OF ps rooted_disk(1,2) [OF R]]
  have "\<exists>r. relative_string root p = Inr r" if "p \<in> set ps" for p
  proof -
    have p: "prefix root p" "file_at d p \<noteq> None" using that w(2) by (simp_all add: found_files_def)
    then obtain b k where "map_of d p = Some (File b k)" by (auto simp: file_at_Some)
    then have "File b k = Folder \<or> (\<exists>b' k'. File b k = File b' k') \<and> relative_string root p = Inr (rel_name root p)"
      by (rule cl [unfolded nodes_clean_def, rule_format, OF p(1)])
    then show ?thesis by simp
  qed
  then have "\<forall>p\<in>set ps. \<exists>r. relative_string root p = Inr r" by (rule ballI)
  from map_r_complete [OF this] obtain rs where rs: "map_r (relative_string root) ps = Inr rs" by (elim exE)
  have "set rs = join ''/'' ` stored_files root d" unfolding relative_names [OF rs] using w(2) found_names [OF R] by simp
  then have "sort_dedup rs = D" unfolding De by (intro sort_dedup_set) (simp add: paths)
  moreover have "\<exists>us. map_r (verify_record V root d) (bm_files m) = Inr us"
  proof (rule map_r_complete, rule ballI)
    fix f assume "f \<in> set (bm_files m)"
    then obtain q where q: "q \<in> stored_files root d" "f = record_of (be_hash V) root d q" "checked_relative (bf_path f) = Inr q" using each by blast
    then obtain b k where b: "file_at d (root @ q) = Some (b, k)" by (auto simp: stored_files_def)
    then have "length b < 2 ^ 64" using len q(1) by blast
    then have "verify_record V root d f = Inr ()"
      by (rule verify_record_complete [OF H S q(3) b]) (simp_all add: q(2) record_of_def b)
    then show "\<exists>y. verify_record V root d f = Inr y" by blast
  qed
  ultimately show ?thesis using D ps rs by (auto simp: verify_manifest_files_def)
qed

lemma load_manifest_Inr:
  assumes "load_manifest_bytes S root d = Inr b"
  shows "\<exists>k. file_at d (root @ [BACKUP_MANIFEST_FILE]) = Some (b, k)"
proof -
  obtain x where x: "map_of d (root @ [BACKUP_MANIFEST_FILE]) = Some x"
    "(case x of File b m \<Rightarrow> if MAX_MANIFEST_BYTES < length b then Inl (Integrity (ManifestTooLarge (length b)))
                       else io ''read manifest'' (root @ [BACKUP_MANIFEST_FILE]) (std_read S (root @ [BACKUP_MANIFEST_FILE]) d)
         | _ \<Rightarrow> Inl (Integrity ManifestNotRegular)) = Inr b"
    using assms by (auto simp: load_manifest_bytes_def bind_r_Inr_iff io_Inr lstat_Inr Let_def)
  then obtain c k where "x = File c k" by (cases x) simp_all
  then have c: "map_of d (root @ [BACKUP_MANIFEST_FILE]) = Some (File c k)" "std_read S (root @ [BACKUP_MANIFEST_FILE]) d = Inr b"
    using x by (simp_all add: io_Inr split: if_splits)
  then have "c = b" using follow_plain [OF c(1)] by (auto simp: std_read_def std_open_def bind_r_Inr_iff split: option.splits)
  then show ?thesis using c(1) by (simp add: file_at_Some)
qed

lemma load_manifest_complete:
  assumes "no_faults S" and "file_at d (root @ [BACKUP_MANIFEST_FILE]) = Some (b, k)" and "length b \<le> MAX_MANIFEST_BYTES"
  shows "load_manifest_bytes S root d = Inr b"
proof -
  have m: "map_of d (root @ [BACKUP_MANIFEST_FILE]) = Some (File b k)" using assms(2) by (simp add: file_at_Some)
  then show ?thesis using follow_plain [OF m] assms(1,3)
    by (simp add: load_manifest_bytes_def io_def std_lstat_def std_read_def std_open_def sys_def no_faults_def Let_def)
qed

end
