(* ===== verification/LoomBackupRun.thy ===== *)
theory LoomBackupRun
  imports LoomBackupCheck
begin

text \<open>A backup or a restore from beginning to end: what it leaves when it fails, and what it publishes.\<close>

section \<open>The partial directory\<close>

definition partial_name :: "os \<Rightarrow> path \<Rightarrow> u64 \<Rightarrow> path" where
  "partial_name S dst n = butlast dst @ [''.'' @ last dst @ ''.partial-'' @ decimal (os_pid S) @ ''-'' @ decimal (unat n)]"

lemma decimal_digits: "c \<in> set (decimal n) \<Longrightarrow> c \<noteq> CHR ''/''"
proof (induction n rule: decimal.induct)
  case (1 n)
  have d: "digit k \<noteq> CHR ''/''" if "k < 10" for k
  proof
    assume "digit k = CHR ''/''"
    then have "nat_of_byte (byte_of (48 + k)) = nat_of_byte (CHR ''/'')" by (simp only: digit_def)
    then show False using that by (simp add: nat_of_byte_def byte_of_def)
  qed
  show ?case
  proof (cases "n < 10")
    case True
    then show ?thesis using 1 d by (simp add: decimal.simps [of n])
  next
    case False
    then have "c \<in> set (decimal (n div 10)) \<or> c = digit (n mod 10)" using 1(2) by (auto simp: decimal.simps [of n])
    then show ?thesis using 1(1) False d [of "n mod 10"] by auto
  qed
qed

text \<open>A destination: not the root, a valid name, in a directory that is not a link.\<close>

definition destination :: "path \<Rightarrow> disk \<Rightarrow> bool" where
  "destination dst d \<longleftrightarrow> dst \<noteq> [] \<and> name_ok (last dst) \<and> (\<forall>t. map_of d (butlast dst) \<noteq> Some (Link t))"

lemma partial_name_ok:
  assumes "dst \<noteq> []" and "name_ok (last dst)"
  shows "butlast (partial_name S dst n) = butlast dst" and "name_ok (last (partial_name S dst n))"
    and "\<not> prefix (partial_name S dst n) dst" and "\<not> prefix dst (partial_name S dst n)"
proof -
  let ?x = "''.'' @ last dst @ ''.partial-'' @ decimal (os_pid S) @ ''-'' @ decimal (unat n)"
  show "butlast (partial_name S dst n) = butlast dst" by (simp add: partial_name_def)
  have long: "?x \<noteq> y" if "length y < 10 + length (last dst)" for y
    using that by auto
  have "CHR ''/'' \<notin> set ?x" using assms(2) decimal_digits by (auto simp: name_ok_def)
  then show "name_ok (last (partial_name S dst n))"
    using long [of "''.''"] long [of "''..''"] by (simp add: partial_name_def name_ok_def)
  have d: "dst = butlast dst @ [last dst]" using assms(1) by simp
  have ne: "?x \<noteq> last dst" by (rule long) simp
  have "\<not> prefix (butlast dst @ [a]) (butlast dst @ [b])" if "a \<noteq> b" for a b using that by simp
  then show "\<not> prefix (partial_name S dst n) dst" "\<not> prefix dst (partial_name S dst n)"
    using d ne unfolding partial_name_def by metis+
qed

lemma partial_path_Inr:
  assumes "partial_path S dst M = (M', Inr part)" and "destination dst (mc_disk M)"
  shows "part = partial_name S dst (mc_nonce M) \<and> mc_disk M' = mc_disk M \<and> map_of (mc_disk M) (butlast dst) = Some Folder"
proof -
  have p: "path_is_dir S (butlast dst) (mc_disk M)" "part = partial_name S dst (mc_nonce M)" "mc_disk M' = mc_disk M"
    using assms(1) by (auto simp: partial_path_def partial_name_def parent_of_def Let_def split: if_splits)
  then have f: "follow (mc_disk M) (butlast dst) = Some Folder"
    by (auto simp: path_is_dir_def std_stat_def bind_r_Inr_iff split: option.splits)
  obtain x where x: "map_of (mc_disk M) (butlast dst) = Some x" using f follow_None by (cases "map_of (mc_disk M) (butlast dst)") simp_all
  then have "\<forall>t. x \<noteq> Link t" using assms(2) by (auto simp: destination_def)
  then show ?thesis using p f x follow_plain [OF x] by simp
qed

lemma mkdir_workspace:
  assumes "disk_ok d" and "map_of d (butlast p) = Some Folder" and "p \<noteq> []" and "name_ok (last p)" and "std_mkdir S p d = (d', Inr u)"
  shows "map_of d p = None \<and> d' = put_node p Folder d \<and> workspace p d'"
proof -
  have d': "map_of d p = None" "d' = put_node p Folder d" using assms(5) by (auto simp: std_mkdir_def split: sum.splits if_splits)
  have p: "p = butlast p @ [last p]" using assms(3) by simp
  have "disk_ok d'" using disk_ok_put [OF assms(1,2,4), of Folder] p d'(2) by simp
  moreover have "map_of d' q = None" if "prefix p q" "q \<noteq> p" for q
    using disk_ok_nothing_below [OF assms(1) d'(1) that(1)] that(2) d'(2) by simp
  ultimately show ?thesis using d' unfolding workspace_def by fastforce
qed

section \<open>Publishing\<close>

definition moved :: "path \<Rightarrow> path \<Rightarrow> disk \<Rightarrow> disk \<Rightarrow> bool" where
  "moved a b d d' \<longleftrightarrow> (\<forall>q. map_of d' q = (if prefix b q then map_of d (a @ drop (length b) q) else if prefix a q then None else map_of d q))"

lemma publish_cases:
  assumes "publish_partial S part dst d = (d', r)" and "disk_ok d" and "\<not> prefix part dst" and "\<not> prefix dst part"
  shows "d' = d \<and> (\<exists>e. r = Inl e)
    \<or> map_of d dst = None \<and> moved part dst d d' \<and> (r = Inr () \<or> (\<exists>e. r = Inl (BackupIo ''sync destination parent'' (butlast dst) e)))"
proof (cases "sys S Sync part")
  case (Inl e)
  then show ?thesis using assms(1) by (auto simp: publish_partial_def bind_s_def io_s_def io_def std_sync_def)
next
  case (Inr u)
  note s = Inr
  obtain d1 r1 where ren: "std_rename S part dst d = (d1, r1)" by fastforce
  show ?thesis
  proof (cases r1)
    case (Inl e)
    then have "d1 = d" using ren by (auto simp: std_rename_def split: sum.splits if_splits)
    then show ?thesis using assms(1) s ren Inl by (auto simp: publish_partial_def bind_s_def io_s_def io_def std_sync_def)
  next
    case (Inr v)
    then have n: "map_of d dst = None" "d1 = map (\<lambda>w. (move_path part dst (fst w), snd w)) d"
      using ren by (auto simp: std_rename_def split: sum.splits if_splits)
    have "moved part dst d d1" unfolding moved_def n(2)
      using map_of_move [OF assms(3,4)] disk_ok_nothing_below [OF assms(2) n(1)] by blast
    moreover have "d' = d1 \<and> (r = Inr () \<or> (\<exists>e. r = Inl (BackupIo ''sync destination parent'' (butlast dst) e)))"
      using assms(1) s ren Inr
      by (cases "sys S Sync (butlast dst)") (auto simp: publish_partial_def bind_s_def io_s_def io_def std_sync_def parent_of_def)
    ultimately show ?thesis using n(1) by simp
  qed
qed

text \<open>Nothing is left behind, unless the system refuses to remove the partial directory.\<close>

definition as_before :: "os \<Rightarrow> path \<Rightarrow> disk \<Rightarrow> disk \<Rightarrow> bool" where
  "as_before S part d d' \<longleftrightarrow> (\<forall>q. map_of d' q = map_of d q \<or> prefix part q \<and> (os_fault S RemoveAll part \<noteq> None \<or> os_fault S Stat part \<noteq> None))"

text \<open>What was staged is at the destination, and nothing else has changed.\<close>

definition delivered :: "path \<Rightarrow> path \<Rightarrow> disk \<Rightarrow> disk \<Rightarrow> disk \<Rightarrow> bool" where
  "delivered part dst d d3 d' \<longleftrightarrow> map_of d part = None \<and> map_of d dst = None \<and> workspace part d3 \<and> only_below part (put_node part Folder d) d3
     \<and> moved part dst d3 d'"

lemma removed_as_before:
  assumes "disk_ok d" and "map_of d part = None" and "workspace part d2" and "only_below part (put_node part Folder d) d2"
  shows "as_before S part d (if path_exists S part d2 then std_remove_all S part d2 else d2)"
proof -
  have o: "map_of d2 q = map_of d q" if "\<not> prefix part q" for q
    using assms(4) that by (auto simp: only_below_def strict_prefix_def)
  show ?thesis
  proof (cases "os_fault S RemoveAll part = None \<and> os_fault S Stat part = None")
    case True
    have f: "map_of d2 part = Some Folder" using assms(3) by (simp add: workspace_def)
    then have "path_exists S part d2" using True follow_plain [OF f] by (simp add: path_exists_def std_stat_def sys_def)
    moreover have "std_remove_all S part d2 = filter (\<lambda>w. \<not> prefix part (fst w)) d2" using True by (simp add: std_remove_all_def sys_def)
    ultimately show ?thesis
      using o disk_ok_nothing_below [OF assms(1,2)] by (auto simp: as_before_def map_of_remove_all)
  next
    case False
    then show ?thesis using o by (auto simp: as_before_def std_remove_all_def map_of_remove_all split: sum.splits)
  qed
qed

lemma in_partial_cases:
  assumes ip: "in_partial S what dst (published S dst work) M = (M', r)" and ok: "disk_ok (mc_disk M)" and dst: "destination dst (mc_disk M)"
    and cf: "\<forall>part. (\<forall>n\<in>set part. name_ok n) \<longrightarrow> confined part (work part)"
  shows "(\<exists>e. r = Inl e) \<and> as_before S (partial_name S dst (mc_nonce M)) (mc_disk M) (mc_disk M')
    \<or> (\<exists>d3 a. work (partial_name S dst (mc_nonce M)) (put_node (partial_name S dst (mc_nonce M)) Folder (mc_disk M)) = (d3, Inr a)
         \<and> delivered (partial_name S dst (mc_nonce M)) dst (mc_disk M) d3 (mc_disk M')
         \<and> workspace (partial_name S dst (mc_nonce M)) (put_node (partial_name S dst (mc_nonce M)) Folder (mc_disk M))
         \<and> (r = Inr a \<or> (\<exists>e. r = Inl (BackupIo ''sync destination parent'' (butlast dst) e))))"
proof -
  let ?part = "partial_name S dst (mc_nonce M)"
  have refl: "as_before S ?part (mc_disk M) (mc_disk M)" by (simp add: as_before_def)
  obtain M1 r1 where pp: "partial_path S dst M = (M1, r1)" by fastforce
  show ?thesis
  proof (cases r1)
    case (Inl e)
    then have "mc_disk M1 = mc_disk M" using pp by (auto simp: partial_path_def Let_def split: if_splits)
    moreover have "M' = M1 \<and> r = Inl e" using ip pp Inl by (auto simp: in_partial_def bind_s_def)
    ultimately show ?thesis using refl by simp
  next
    case (Inr part)
    then have p: "part = ?part" "mc_disk M1 = mc_disk M" "map_of (mc_disk M) (butlast dst) = Some Folder"
      using partial_path_Inr [OF pp [unfolded Inr] dst] by simp_all
    have nm: "dst \<noteq> []" "name_ok (last dst)" using dst by (simp_all add: destination_def)
    note pn = partial_name_ok [OF nm, of S "mc_nonce M"]
    obtain d1 r2 where mk: "std_mkdir S ?part (mc_disk M) = (d1, r2)" by fastforce
    have body: "in_partial S what dst (published S dst work) M
      = (case io_s (''create partial '' @ what) ?part (std_mkdir S ?part) (mc_disk M1) of
          (d, Inl e) \<Rightarrow> (M1\<lparr>mc_disk := d\<rparr>, Inl e)
        | (d, Inr _) \<Rightarrow> (case published S dst work ?part d of
            (d, Inr a) \<Rightarrow> (M1\<lparr>mc_disk := d\<rparr>, Inr a)
          | (d, Inl e) \<Rightarrow> (M1\<lparr>mc_disk := if path_exists S ?part d then std_remove_all S ?part d else d\<rparr>, Inl e)))"
      unfolding in_partial_def using pp Inr p(1) by (simp add: bind_s_def)
    show ?thesis
    proof (cases r2)
      case (Inl e)
      then have "d1 = mc_disk M" using mk by (auto simp: std_mkdir_def split: sum.splits if_splits)
      moreover have "M' = M1\<lparr>mc_disk := d1\<rparr> \<and> (\<exists>e. r = Inl e)" using ip body mk Inl p(2) by (auto simp: io_s_def io_def)
      ultimately show ?thesis using refl by auto
    next
      case (Inr u)
      have "?part \<noteq> []" by (simp add: partial_name_def)
      then have ws: "map_of (mc_disk M) ?part = None" "d1 = put_node ?part Folder (mc_disk M)" "workspace ?part d1"
        using mkdir_workspace [OF ok _ _ pn(2) mk [unfolded Inr]] pn(1) p(3) by metis+
      have "map_of d1 ?part \<noteq> None" "disk_ok d1" using ws(3) by (simp_all add: workspace_def)
      then have names: "\<forall>n\<in>set ?part. name_ok n" using disk_ok_names by blast
      obtain d2 r3 where pub: "published S dst work ?part d1 = (d2, r3)" by fastforce
      have res: "M' = M1\<lparr>mc_disk := case r3 of Inr _ \<Rightarrow> d2 | Inl _ \<Rightarrow> if path_exists S ?part d2 then std_remove_all S ?part d2 else d2\<rparr>" "r = r3"
        using ip body mk Inr p(2) pub by (cases r3; auto simp: io_s_def io_def)+
      obtain d3 r4 where st: "work ?part d1 = (d3, r4)" by fastforce
      note c = confinedD [OF cf [THEN spec, THEN mp, OF names] st ws(3)]
      have clean: ?thesis if "d2 = d3" "r3 = Inl e" for e
      proof -
        have "mc_disk M' = (if path_exists S ?part d3 then std_remove_all S ?part d3 else d3)" using res that by simp
        moreover have "as_before S ?part (mc_disk M) (if path_exists S ?part d3 then std_remove_all S ?part d3 else d3)"
          by (rule removed_as_before [OF ok ws(1)]) (use c ws(2) in blast)+
        ultimately have "as_before S ?part (mc_disk M) (mc_disk M')" by (simp only:)
        then show ?thesis using res(2) that(2) by blast
      qed
      show ?thesis
      proof (cases r4)
        case (Inl e)
        then have "d2 = d3 \<and> r3 = Inl e" using pub st by (simp add: published_def bind_s_def)
        then show ?thesis using clean by blast
      next
        case (Inr a)
        obtain d4 r5 where pb: "publish_partial S ?part dst d3 = (d4, r5)" by fastforce
        have o: "d2 = d4" "r3 = (case r5 of Inl e \<Rightarrow> Inl e | Inr _ \<Rightarrow> Inr a)"
          using pub st Inr pb by (simp_all add: published_def bind_s_def split: sum.splits)
        have dk: "disk_ok d3" using c by (simp add: workspace_def)
        from publish_cases [OF pb dk pn(3,4)] show ?thesis
        proof (elim disjE conjE exE)
          fix e assume "d4 = d3" "r5 = Inl e"
          then show ?thesis using clean o by simp
        next
          assume m: "map_of d3 dst = None" "moved ?part dst d3 d4" and r5: "r5 = Inr ()"
          have "map_of (mc_disk M) dst = None" using m(1) c ws(2) pn(3) by (auto simp: only_below_def strict_prefix_def split: if_splits)
          then show ?thesis using st Inr ws c m o r5 res by (auto simp: delivered_def)
        next
          fix e assume m: "map_of d3 dst = None" "moved ?part dst d3 d4" and r5: "r5 = Inl (BackupIo ''sync destination parent'' (butlast dst) e)"
          have dn: "map_of (mc_disk M) dst = None" using m(1) c ws(2) pn(3) by (auto simp: only_below_def strict_prefix_def split: if_splits)
          have gone: "map_of d4 ?part = None" using m(2) pn(4) by (simp add: moved_def)
          then have "mc_disk M' = d4" using res o r5 follow_None [OF gone] by (auto simp: path_exists_def std_stat_def sys_def bind_r_def split: option.splits)
          then show ?thesis using st Inr ws c m o r5 res dn by (auto simp: delivered_def)
        qed
      qed
    qed
  qed
qed

end
