(* ===== verification/LoomBackupContents.thy ===== *)
theory LoomBackupContents
  imports LoomBackupRun
begin

text \<open>What a finished backup and a finished restore hold.\<close>

section \<open>Copying many files\<close>

lemma not_below: "\<not> prefix part src \<Longrightarrow> \<not> prefix src part \<Longrightarrow> \<not> prefix part (src @ q)"
  by (metis prefixI prefix_same_cases)

lemma copy_files_Inr:
  assumes H: "hasher_ok (be_hash V)" and np: "\<not> prefix part src" "\<not> prefix src part"
    and "copy_files V src part ps files d = (d', Inr files')"
    and "\<forall>p\<in>set ps. \<exists>q. p = src @ q \<and> checked_relative (rel_name src p) = Inr q \<and> file_at d p \<noteq> None"
  shows "(\<forall>p. file_at d' p = (if \<exists>q. src @ q \<in> set ps \<and> p = part @ q then file_at d (src @ drop (length part) p) else file_at d p))
    \<and> files' = files @ map (\<lambda>p. (record_of (be_hash V) src d (drop (length src) p))\<lparr>bf_path := rel_name src p\<rparr>) ps
    \<and> (\<forall>p\<in>set ps. \<forall>b k. file_at d p = Some (b, k) \<longrightarrow> length b < 2 ^ 64)"
  using assms(4,5)
proof (induction ps arbitrary: files d)
  case (Cons p ps)
  obtain q b k where p: "p = src @ q" "checked_relative (rel_name src p) = Inr q" "file_at d p = Some (b, k)" using Cons.prems(2) by auto
  obtain d1 f where c: "copy_hashed (be_hash V) (be_os V) p (part @ q) d = (d1, Inr f)"
    "copy_files V src part ps (files @ [f\<lparr>bf_path := rel_name src p\<rparr>]) d1 = (d', Inr files')"
    using Cons.prems(1) p(2) by (auto simp: relative_string_Inr elim!: bind_s_Inr)
  note h = copy_hashed_Inr [OF H c(1) p(3)]
  have same: "file_at d1 (src @ r) = file_at d (src @ r)" for r using h not_below [OF np, of r] by auto
  have "\<forall>p\<in>set ps. \<exists>q. p = src @ q \<and> checked_relative (rel_name src p) = Inr q \<and> file_at d1 p \<noteq> None"
    using Cons.prems(2) same by fastforce
  from Cons.IH [OF c(2) this] have IH: "file_at d' r = (if \<exists>q. src @ q \<in> set ps \<and> r = part @ q then file_at d1 (src @ drop (length part) r) else file_at d1 r)"
    "files' = (files @ [f\<lparr>bf_path := rel_name src p\<rparr>]) @ map (\<lambda>p. (record_of (be_hash V) src d1 (drop (length src) p))\<lparr>bf_path := rel_name src p\<rparr>) ps"
    "\<forall>p\<in>set ps. \<forall>b k. file_at d1 p = Some (b, k) \<longrightarrow> length b < 2 ^ 64" for r
    by blast+
  have "file_at d' r = (if \<exists>q. src @ q \<in> set (p # ps) \<and> r = part @ q then file_at d (src @ drop (length part) r) else file_at d r)" for r
    using IH(1) [of r] h p(1,3) same by auto
  moreover have "record_of (be_hash V) src d1 r = record_of (be_hash V) src d r" for r by (simp add: record_of_def same)
  moreover have "f\<lparr>bf_path := rel_name src p\<rparr> = (record_of (be_hash V) src d q)\<lparr>bf_path := rel_name src p\<rparr>"
    using h p(1,3) by (simp add: record_of_def)
  moreover have "\<forall>p\<in>set ps. \<forall>b k. file_at d p = Some (b, k) \<longrightarrow> length b < 2 ^ 64"
    using IH(3) same Cons.prems(2) by fastforce
  ultimately show ?case using IH(2) h p(1,3) by simp
qed simp

lemma restore_files_Inr:
  assumes H: "hasher_ok (be_hash V)" and np: "\<not> prefix part backup" "\<not> prefix backup part"
    and "restore_files V backup part fs d = (d', Inr u)"
    and "\<forall>f\<in>set fs. \<exists>q. checked_relative (bf_path f) = Inr q \<and> file_at d (backup @ q) \<noteq> None"
  shows "file_at d' p = (if \<exists>f\<in>set fs. \<exists>q. checked_relative (bf_path f) = Inr q \<and> p = part @ q then file_at d (backup @ drop (length part) p) else file_at d p)"
  using assms(4,5)
proof (induction fs arbitrary: d)
  case (Cons f fs)
  obtain q b k where p: "checked_relative (bf_path f) = Inr q" "file_at d (backup @ q) = Some (b, k)" using Cons.prems(2) by auto
  obtain d1 c where c: "copy_hashed (be_hash V) (be_os V) (backup @ q) (part @ q) d = (d1, Inr c)" "restore_files V backup part fs d1 = (d', Inr u)"
    using Cons.prems(1) p(1) by (auto elim!: bind_s_Inr split: if_splits)
  note h = copy_hashed_Inr [OF H c(1) p(2)]
  have same: "file_at d1 (backup @ r) = file_at d (backup @ r)" for r using h not_below [OF np, of r] by auto
  have "\<forall>f\<in>set fs. \<exists>q. checked_relative (bf_path f) = Inr q \<and> file_at d1 (backup @ q) \<noteq> None"
    using Cons.prems(2) same by fastforce
  from Cons.IH [OF c(2) this] show ?case using h p same by auto
qed simp

section \<open>A finished backup\<close>

definition kept_files :: "path \<Rightarrow> disk \<Rightarrow> path set" where
  "kept_files src d = {q \<in> stored_files src d. q \<noteq> [''loom'', ''store.lock'']}"

lemma lock_name:
  assumes "\<forall>n\<in>set q. name_ok n"
  shows "join ''/'' q = PROCESS_LOCK_RELATIVE \<longleftrightarrow> q = [''loom'', ''store.lock'']"
proof -
  have j: "PROCESS_LOCK_RELATIVE = join ''/'' [''loom'', ''store.lock'']" by (simp add: PROCESS_LOCK_RELATIVE_def)
  have n: "\<forall>n\<in>set [''loom'', ''store.lock'']. name_ok n" by (simp add: name_ok_def)
  show ?thesis unfolding j using join_inj [OF _ assms n] by metis
qed

lemma found_kept:
  assumes "rooted src d"
  shows "found_files True True src d src = (\<lambda>q. src @ q) ` kept_files src d"
proof -
  have "excluded True True (rel_name src (src @ q)) \<longleftrightarrow> q = [BACKUP_MANIFEST_FILE] \<or> q = [BACKUP_SIGNATURE_FILE] \<or> q = [''loom'', ''store.lock'']"
    if f: "file_at d (src @ q) \<noteq> None" for q
  proof -
    note n = rooted_names [OF assms file_at_node [OF f]]
    show ?thesis using rel_name_plain [OF assms f] join_fixed [OF n] lock_name [OF n] by (simp add: excluded_def)
  qed
  then have "p \<in> found_files True True src d src \<longleftrightarrow> (\<exists>q. p = src @ q \<and> q \<in> kept_files src d)" for p
    by (fastforce simp: found_files_def stored_files_def kept_files_def prefix_def)
  then show ?thesis by blast
qed

lemma kept_stored: "q \<in> kept_files src d \<Longrightarrow> q \<in> stored_files src d"
  by (simp add: kept_files_def)

text \<open>The staged files, apart from manifest and signature.\<close>

lemma write_synced_Inr:
  "write_synced S what p b d = (d', Inr u) \<Longrightarrow> map_of d p = None \<and> map_of d' = (map_of d)(p \<mapsto> File b (os_umode S))"
  by (auto simp: write_synced_def io_s_Inr std_sync_def elim!: bind_s_Inr dest!: create_new_Inr write_all_Inr)

lemma file_at_upd: "map_of d' = (map_of d)(p \<mapsto> File b m) \<Longrightarrow> file_at d' q = (if q = p then Some (b, m) else file_at d q)"
  by (simp add: file_at_def)

definition signature_of :: "'h backup_env \<Rightarrow> bytes \<Rightarrow> bytes \<Rightarrow> nat \<Rightarrow> bytes \<Rightarrow> bytes \<Rightarrow> backup_signature" where
  "signature_of V key_id key version manifest payload =
     \<lparr>bs_format_version = version, bs_algorithm = ''ed25519'', bs_key_id = key_id,
      bs_manifest_blake3 = to_hex (b3 (be_hash V) manifest), bs_ed25519 = to_hex (ed_sign (be_ed V) key payload)\<rparr>"

definition signature_written :: "'h backup_env \<Rightarrow> (bytes \<times> bytes) option \<Rightarrow> nat \<Rightarrow> bytes \<Rightarrow> (bytes \<times> nat) option \<Rightarrow> bool" where
  "signature_written V signer version manifest file \<longleftrightarrow>
     (case signer of
        None \<Rightarrow> file = None
      | Some (key_id, key) \<Rightarrow> \<not> blank key_id \<and> CHR 0x00 \<notin> set key_id \<and> (\<exists>payload j. payload_to_sign (be_hash V) version key_id manifest = Inr payload
          \<and> bc_signature (be_json V) (signature_of V key_id key version manifest payload) = Inr j
          \<and> file = Some (j @ newline, os_umode (be_os V))))"

text \<open>A backup of \<open>src\<close> at \<open>dst\<close>: the kept files with their permissions, the manifest, the signature.\<close>

definition backup_of :: "'h backup_env \<Rightarrow> (bytes \<times> bytes) option \<Rightarrow> nat \<Rightarrow> path \<Rightarrow> disk \<Rightarrow> path \<Rightarrow> disk \<Rightarrow> backup_manifest \<Rightarrow> bool" where
  "backup_of V signer version src d dst d' m \<longleftrightarrow>
     bm_format_version m = BACKUP_FORMAT_VERSION \<and> length (bm_files m) \<le> MAX_BACKUP_FILES
     \<and> distinct (map bf_path (bm_files m)) \<and> set (bm_files m) = record_of (be_hash V) src d ` kept_files src d
     \<and> (\<forall>q\<in>kept_files src d. \<forall>b k. file_at d (src @ q) = Some (b, k) \<longrightarrow> length b < 2 ^ 64)
     \<and> (\<exists>j. bc_manifest (be_json V) m = Inr j \<and> file_at d' (dst @ [BACKUP_MANIFEST_FILE]) = Some (j @ newline, os_umode (be_os V))
          \<and> signature_written V signer version (j @ newline) (file_at d' (dst @ [BACKUP_SIGNATURE_FILE])))
     \<and> (\<forall>q. q \<noteq> [BACKUP_MANIFEST_FILE] \<longrightarrow> q \<noteq> [BACKUP_SIGNATURE_FILE] \<longrightarrow>
          file_at d' (dst @ q) = (if q \<in> kept_files src d then file_at d (src @ q) else None))"

lemma walk_bounded:
  "walk S xm xl root d dir ns out = Inr out' \<Longrightarrow> length out \<le> MAX_BACKUP_FILES \<Longrightarrow> length out' \<le> MAX_BACKUP_FILES"
  by (induction S xm xl root d dir ns out arbitrary: out' rule: walk.induct) (fastforce split: sum.splits fnode.splits if_splits)+

text \<open>The files a backup copies, and the records it writes of them.\<close>

lemma walk_kept:
  assumes "rooted src d" and "walk_files S True True src src d = Inr ps"
  shows "distinct ps" and "set ps = (\<lambda>q. src @ q) ` kept_files src d"
  using walk_files_sound [OF assms(2) rooted_disk(1,2) [OF assms(1)]] found_kept [OF assms(1)] by simp_all

lemma kept_name:
  assumes "rooted src d" and "q \<in> kept_files src d"
  shows "rel_name src (src @ q) = join ''/'' q" and "checked_relative (join ''/'' q) = Inr q"
  using rel_name_plain [OF assms(1) stored_file [OF kept_stored [OF assms(2)]]] checked_stored [OF assms(1) kept_stored [OF assms(2)]] .

lemma copied_records:
  assumes H: "hasher_ok (be_hash V)" and R: "rooted src d" and np: "\<not> prefix part src" "\<not> prefix src part"
    and w: "walk_files (be_os V) True True src src d = Inr ps" and cp: "copy_files V src part ps [] d = (d1, Inr files)"
  shows "set files = record_of (be_hash V) src d ` kept_files src d" and "distinct (map bf_path files)" and "length files = length ps"
    and "\<And>p. file_at d1 p = (if \<exists>q\<in>kept_files src d. p = part @ q then file_at d (src @ drop (length part) p) else file_at d p)"
    and "\<forall>q\<in>kept_files src d. \<forall>b k. file_at d (src @ q) = Some (b, k) \<longrightarrow> length b < 2 ^ 64"
proof -
  note kept = walk_kept(2) [OF R w] and name = kept_name [OF R]
  have "\<forall>p\<in>set ps. \<exists>q. p = src @ q \<and> checked_relative (rel_name src p) = Inr q \<and> file_at d p \<noteq> None"
    unfolding kept using name by (auto simp: kept_files_def stored_files_def)
  note c = copy_files_Inr [OF H np cp this]
  have files: "files = map (\<lambda>p. record_of (be_hash V) src d (drop (length src) p)) ps"
  proof -
    have "(record_of (be_hash V) src d (drop (length src) p))\<lparr>bf_path := rel_name src p\<rparr> = record_of (be_hash V) src d (drop (length src) p)" if "p \<in> set ps" for p
    proof -
      obtain q where "p = src @ q" "q \<in> kept_files src d" using \<open>p \<in> set ps\<close> unfolding kept by (rule imageE)
      then show ?thesis using name(1) [of q] by (simp add: record_of_def split: option.split prod.split)
    qed
    then show ?thesis using c by simp
  qed
  then show "length files = length ps" by simp
  show "set files = record_of (be_hash V) src d ` kept_files src d" using kept by (auto simp: files image_image)
  show "file_at d1 p = (if \<exists>q\<in>kept_files src d. p = part @ q then file_at d (src @ drop (length part) p) else file_at d p)" for p
    using c unfolding kept by auto
  show "\<forall>q\<in>kept_files src d. \<forall>b k. file_at d (src @ q) = Some (b, k) \<longrightarrow> length b < 2 ^ 64" using c unfolding kept by simp
  show "distinct (map bf_path files)"
    unfolding files map_map distinct_map
  proof (intro conjI walk_kept(1) [OF R w] inj_onI)
    fix x y assume *: "x \<in> set ps" "y \<in> set ps" "(bf_path \<circ> (\<lambda>p. record_of (be_hash V) src d (drop (length src) p))) x = (bf_path \<circ> (\<lambda>p. record_of (be_hash V) src d (drop (length src) p))) y"
    obtain p where p: "x = src @ p" "p \<in> kept_files src d" using *(1) unfolding kept by (rule imageE)
    obtain q where q: "y = src @ q" "q \<in> kept_files src d" using *(2) unfolding kept by (rule imageE)
    have "join ''/'' p = join ''/'' q" using *(3) p(1) q(1) by simp
    then have "p = q" by (rule join_stored [OF R kept_stored [OF p(2)] kept_stored [OF q(2)]])
    then show "x = y" using p(1) q(1) by simp
  qed
qed

lemma stage_backup_Inr:
  assumes H: "hasher_ok (be_hash V)" and R: "rooted src d" and np: "\<not> prefix part src" "\<not> prefix src part"
    and empty: "\<And>q. file_at d (part @ q) = None"
    and st: "stage_backup V src tenant signer version part d = (d', Inr m)"
  shows "backup_of V signer version src d part d' m \<and> bm_tenant m = tenant"
proof -
  obtain ps files d1 d2 j where s: "walk_files (be_os V) True True src src d = Inr ps" "copy_files V src part ps [] d = (d1, Inr files)"
    "m = \<lparr>bm_format_version = BACKUP_FORMAT_VERSION, bm_tenant = tenant, bm_files = sort_key bf_path files\<rparr>"
    "bc_manifest (be_json V) m = Inr j" "write_synced (be_os V) ''manifest'' (part @ [BACKUP_MANIFEST_FILE]) (j @ newline) d1 = (d2, Inr ())"
    "(case signer of None \<Rightarrow> ret () | Some (key_id, key) \<Rightarrow> bind_s (write_signature V part key_id key (j @ newline) version) (\<lambda>_. ret ())) d2 = (d', Inr ())"
    using st by (auto simp: stage_backup_def Let_def write_manifest_def manifest_bytes_def json_r_def bind_r_Inr_iff elim!: bind_s_Inr split: sum.splits)
  note cr = copied_records [OF H R np s(1,2)]
  have "distinct (map bf_path files)" by (rule cr(2))
  then have dist: "distinct (map bf_path (bm_files m))" using s(3) by (simp add: distinct_map inj_on_def)
  have recs: "set (bm_files m) = record_of (be_hash V) src d ` kept_files src d" using s(3) cr(1) by simp
  have count: "length (bm_files m) \<le> MAX_BACKUP_FILES"
    using walk_bounded [of "be_os V" True True src d src] s(1,3) cr(3) by (auto simp: walk_files_def bind_r_Inr_iff)
  have d1: "file_at d1 (part @ q) = (if q \<in> kept_files src d then file_at d (src @ q) else None)" for q
    using cr(4) [of "part @ q"] empty [of q] by auto
  note m1 = file_at_upd [OF conjunct2 [OF write_synced_Inr [OF s(5)]]]
  have sig: "signature_written V signer version (j @ newline) (file_at d' (part @ [BACKUP_SIGNATURE_FILE]))
      \<and> (\<forall>q. q \<noteq> [BACKUP_SIGNATURE_FILE] \<longrightarrow> file_at d' (part @ q) = file_at d2 (part @ q))"
  proof (cases signer)
    case None
    have "[BACKUP_SIGNATURE_FILE] \<notin> kept_files src d" by (simp add: kept_files_def stored_files_def)
    then show ?thesis using None s(6) d1 m1 fixed_names(3) [THEN not_sym] by (simp add: signature_written_def)
  next
    case (Some kk)
    obtain key_id key where kk: "kk = (key_id, key)" by fastforce
    obtain sg where wsg: "write_signature V part key_id key (j @ newline) version d2 = (d', Inr sg)" using s(6) Some kk by (auto elim!: bind_s_Inr)
    then have nb: "\<not> (blank key_id \<or> 256 < length key_id \<or> CHR 0x00 \<in> set key_id)" by (auto simp: write_signature_def)
    obtain payload k where pk: "payload_to_sign (be_hash V) version key_id (j @ newline) = Inr payload"
      "bc_signature (be_json V) (signature_of V key_id key version (j @ newline) payload) = Inr k"
      "write_synced (be_os V) ''signature'' (part @ [BACKUP_SIGNATURE_FILE]) (k @ newline) d2 = (d', Inr ())"
      using wsg nb by (auto simp: write_signature_def Let_def json_r_def signature_of_def elim!: bind_s_Inr split: sum.splits)
    note m2 = file_at_upd [OF conjunct2 [OF write_synced_Inr [OF pk(3)]]]
    show ?thesis using Some kk nb pk(1,2) m2 by (simp add: signature_written_def)
  qed
  note len = cr(5)
  have all: "file_at d' (part @ q) = (if q \<in> kept_files src d then file_at d (src @ q) else None)"
    if "q \<noteq> [BACKUP_MANIFEST_FILE]" "q \<noteq> [BACKUP_SIGNATURE_FILE]" for q
    using that sig m1 d1 by simp
  have man: "file_at d' (part @ [BACKUP_MANIFEST_FILE]) = Some (j @ newline, os_umode (be_os V))"
    using sig m1 fixed_names(3) by simp
  show ?thesis unfolding backup_of_def using s(3,4) dist recs count len all man sig by simp
qed

section \<open>Delivery\<close>

lemma delivered_files:
  assumes "delivered part dst d d3 d'"
  shows "file_at d' (dst @ q) = file_at d3 (part @ q)"
  using assms by (simp add: delivered_def moved_def file_at_def)

lemma delivered_elsewhere:
  assumes "delivered part dst d d3 d'" and "disk_ok d" and "\<not> prefix dst q"
  shows "map_of d' q = map_of d q"
proof (cases "prefix part q")
  case True
  then show ?thesis using assms disk_ok_nothing_below [OF assms(2) _ True] by (simp add: delivered_def moved_def)
next
  case False
  then have "map_of d3 q = map_of (put_node part Folder d) q" using assms(1) by (auto simp: delivered_def only_below_def strict_prefix_def)
  then show ?thesis using assms(1,3) False by (auto simp: delivered_def moved_def)
qed

lemma delivered_disk:
  assumes dl: "delivered part dst d d3 d'" and dst: "dst \<noteq> []" "name_ok (last dst)" and part: "butlast part = butlast dst" "part \<noteq> []"
  shows "disk_ok d'" and "map_of d' dst = Some Folder" and "prefix dst p \<Longrightarrow> map_of d' p = Some x \<Longrightarrow> x = Folder \<or> (\<exists>b m. x = File b m)"
proof -
  have ws: "workspace part d3" and mv: "moved part dst d3 d'" using dl by (simp_all add: delivered_def)
  have ok: "disk_ok d3" "map_of d3 part = Some Folder" using ws by (simp_all add: workspace_def)
  have sn: "part = butlast part @ [last part]" "dst = butlast dst @ [last dst]" using dst(1) part(2) by simp_all
  have parent: "map_of d3 (butlast dst) = Some Folder"
    using disk_ok_above_eq [OF ok, of "butlast part"] part(1) sn(1) by (metis prefixI)
  have np: "\<not> prefix part (butlast dst)" "\<not> prefix dst (butlast dst)"
    using sn part(1) by (metis prefix_length_le length_append_singleton not_less_eq_eq order_refl)+
  show "map_of d' dst = Some Folder" using mv ok(2) by (simp add: moved_def)
  show "x = Folder \<or> (\<exists>b m. x = File b m)" if "prefix dst p" "map_of d' p = Some x"
  proof -
    have "map_of d3 (part @ drop (length dst) p) = Some x" using that mv by (simp add: moved_def)
    then show ?thesis using ws unfolding workspace_def by (metis prefixI)
  qed
  have root: "map_of d' [] = Some Folder"
  proof -
    have "\<not> prefix dst []" "\<not> prefix part []" using dst(1) part(2) by simp_all
    then have "map_of d' [] = map_of d3 []" using mv by (simp add: moved_def)
    then show ?thesis using ok(1) by (simp add: disk_ok_def)
  qed
  have "map_of d' q = Some Folder \<and> name_ok n" if q: "map_of d' (q @ [n]) \<noteq> None" for q n
  proof (cases "dst = q @ [n]")
    case True
    then have "q = butlast dst" "n = last dst" by simp_all
    then show ?thesis using parent np mv dst(2) by (simp add: moved_def)
  next
    case False
    show ?thesis
    proof (cases "prefix dst q")
      case True
      then have "map_of d3 ((part @ drop (length dst) q) @ [n]) \<noteq> None" using q mv by (auto simp: moved_def prefix_def)
      then have "map_of d3 (part @ drop (length dst) q) = Some Folder \<and> name_ok n" using ok(1) unfolding disk_ok_def by blast
      then show ?thesis using True mv by (simp add: moved_def)
    next
      case nd: False
      then have nq: "\<not> prefix dst (q @ [n])" using False by simp
      then have n3: "\<not> prefix part (q @ [n])" "map_of d3 (q @ [n]) \<noteq> None" using q mv by (auto simp: moved_def split: if_splits)
      then have "map_of d3 q = Some Folder \<and> name_ok n" using ok(1) unfolding disk_ok_def by blast
      moreover have "\<not> prefix part q" using n3(1) by simp
      ultimately show ?thesis using nd mv by (simp add: moved_def)
    qed
  qed
  then show "disk_ok d'" using root unfolding disk_ok_def by blast
qed

section \<open>From source to backup\<close>

lemma backup_of_stored:
  assumes "backup_of V signer version src d dst d' m"
  shows "stored_files dst d' = kept_files src d"
proof -
  have e: "file_at d' (dst @ q) = (if q \<in> kept_files src d then file_at d (src @ q) else None)"
    if "q \<noteq> [BACKUP_MANIFEST_FILE]" "q \<noteq> [BACKUP_SIGNATURE_FILE]" for q
    using assms that unfolding backup_of_def by blast
  have "q \<in> stored_files dst d' \<longleftrightarrow> q \<in> kept_files src d" for q
  proof (cases "q = [BACKUP_MANIFEST_FILE] \<or> q = [BACKUP_SIGNATURE_FILE]")
    case False
    then have "q \<in> kept_files src d \<Longrightarrow> file_at d (src @ q) \<noteq> None" by (simp add: kept_files_def stored_files_def)
    then show ?thesis using e [of q] False by (cases "q \<in> kept_files src d") (simp_all add: stored_files_def)
  qed (auto simp: stored_files_def kept_files_def)
  then show ?thesis by blast
qed

lemma backup_of_lists:
  assumes "backup_of V signer version src d dst d' m"
  shows "lists_exactly (be_hash V) dst d' (bm_files m)"
proof -
  have "record_of (be_hash V) dst d' q = record_of (be_hash V) src d q" if "q \<in> kept_files src d" for q
  proof -
    have "q \<noteq> [BACKUP_MANIFEST_FILE]" "q \<noteq> [BACKUP_SIGNATURE_FILE]" using that by (simp_all add: kept_files_def stored_files_def)
    then have "file_at d' (dst @ q) = file_at d (src @ q)" using assms that by (simp add: backup_of_def)
    then show ?thesis by (simp add: record_of_def)
  qed
  then have "record_of (be_hash V) src d ` kept_files src d = record_of (be_hash V) dst d' ` stored_files dst d'"
    unfolding backup_of_stored [OF assms] by (intro image_cong) simp_all
  then show ?thesis using assms by (simp add: lists_exactly_def backup_of_def)
qed

lemma nested_rejected:
  assumes "reject_nested_destination S src dst d = Inr u" and "map_of d src = Some Folder" and "map_of d (butlast dst) = Some Folder"
  shows "\<not> prefix src (butlast dst)"
proof -
  obtain a b where c: "std_canonicalize S src d = Inr a" "std_canonicalize S (butlast dst) d = Inr b" "\<not> prefix a b"
    using assms(1) by (auto simp: reject_nested_destination_def parent_of_def bind_r_Inr_iff io_Inr split: if_splits)
  have "a = src" using c(1) canon_plain [OF assms(2)] by (auto simp: std_canonicalize_def bind_r_Inr_iff)
  moreover have "b = butlast dst" using c(2) canon_plain [OF assms(3)] by (auto simp: std_canonicalize_def bind_r_Inr_iff)
  ultimately show ?thesis using c(3) by simp
qed

lemma partial_apart:
  assumes "\<not> prefix src (butlast dst)" and "map_of d src = Some Folder" and "map_of d (partial_name S dst n) = None" and "disk_ok d"
  shows "\<not> prefix (partial_name S dst n) src" and "\<not> prefix src (partial_name S dst n)"
proof -
  show "\<not> prefix (partial_name S dst n) src" using disk_ok_nothing_below [OF assms(4,3)] assms(2) by force
  have "src \<noteq> partial_name S dst n" using assms(2,3) by auto
  then show "\<not> prefix src (partial_name S dst n)" using assms(1) by (simp add: partial_name_def)
qed

lemma fresh_partial:
  assumes "disk_ok d" and "map_of d part = None"
  shows "file_at (put_node part Folder d) p = file_at d p" and "\<And>q. file_at (put_node part Folder d) (part @ q) = None"
proof -
  show f: "file_at (put_node part Folder d) p = file_at d p" for p using assms(2) by (simp add: file_at_def)
  show "file_at (put_node part Folder d) (part @ q) = None" for q
    unfolding f using disk_ok_nothing_below [OF assms, of "part @ q"] by (simp add: file_at_def)
qed

lemma confined_stage: "\<forall>part. (\<forall>n\<in>set part. name_ok n) \<longrightarrow> confined part (stage_backup V src tenant signer version part)"
proof (intro allI impI)
  fix part assume part: "\<forall>n\<in>set part. name_ok n"
  have s: "strict_prefix part (part @ [BACKUP_MANIFEST_FILE])" "strict_prefix part (part @ [BACKUP_SIGNATURE_FILE])" by (simp_all add: strict_prefix_def)
  have m: "confined part (write_manifest V part m)" for m
    unfolding write_manifest_def by (intro confined_bind confined_pure confined_written s) simp
  have g: "confined part (write_signature V part key_id key b version)" for key_id key b
  proof (cases "blank key_id \<or> 256 < length key_id \<or> CHR 0x00 \<in> set key_id")
    case False
    then have "write_signature V part key_id key b version = bind_s (lift_r (payload_to_sign (be_hash V) version key_id b)) (\<lambda>payload.
        bind_s (lift_r (json_r ManifestDecode (bc_signature (be_json V) (signature_of V key_id key version b payload)))) (\<lambda>j.
           bind_s (write_synced (be_os V) ''signature'' (part @ [BACKUP_SIGNATURE_FILE]) (j @ newline)) (\<lambda>_. ret (signature_of V key_id key version b payload))))"
      by (auto simp: write_signature_def signature_of_def Let_def fun_eq_iff)
    then show ?thesis by (simp add: confined_bind confined_written s)
  qed (auto simp: write_signature_def confined_def)
  have h: "confined part (case signer of None \<Rightarrow> ret () | Some (key_id, key) \<Rightarrow> bind_s (write_signature V part key_id key b version) (\<lambda>_. ret ()))" for b
    by (auto intro!: confined_bind g split: option.split)
  show "confined part (stage_backup V src tenant signer version part)" unfolding stage_backup_def Let_def
    by (intro confined_bind confined_pure confined_copy_files [OF part] m h)
qed

lemma create_backup_Inr:
  assumes H: "hasher_ok (be_hash V)" and R: "rooted src (mc_disk M)" and dst: "destination dst (mc_disk M)"
    and cr: "create_backup_inner V src dst tenant signer version M = (M', r)"
  shows "(\<exists>e. r = Inl e) \<and> (mc_disk M' = mc_disk M \<or> as_before (be_os V) (partial_name (be_os V) dst (mc_nonce M)) (mc_disk M) (mc_disk M'))
    \<or> (\<exists>m d3. delivered (partial_name (be_os V) dst (mc_nonce M)) dst (mc_disk M) d3 (mc_disk M')
         \<and> backup_of V signer version src (mc_disk M) dst (mc_disk M') m \<and> bm_tenant m = tenant \<and> \<not> prefix src (butlast dst)
         \<and> (r = Inr m \<or> (\<exists>e. r = Inl (BackupIo ''sync destination parent'' (butlast dst) e))))"
proof (cases "path_exists (be_os V) dst (mc_disk M) \<or> (\<exists>e. reject_nested_destination (be_os V) src dst (mc_disk M) = Inl e)")
  case True
  then show ?thesis using cr by (auto simp: create_backup_inner_def bind_s_def split: if_splits)
next
  case False
  let ?d = "mc_disk M" and ?part = "partial_name (be_os V) dst (mc_nonce M)"
  obtain u where rn: "reject_nested_destination (be_os V) src dst ?d = Inr u" using False by (cases "reject_nested_destination (be_os V) src dst ?d") auto
  then have ip: "in_partial (be_os V) ''backup'' dst (published (be_os V) dst (stage_backup V src tenant signer version)) M = (M', r)"
    using cr False by (simp add: create_backup_inner_def bind_s_def)
  note ok = rooted_disk [OF R]
  from in_partial_cases [OF ip ok(1) dst confined_stage] show ?thesis
  proof
    assume "\<exists>d3 m. stage_backup V src tenant signer version ?part (put_node ?part Folder ?d) = (d3, Inr m) \<and> delivered ?part dst ?d d3 (mc_disk M')
         \<and> workspace ?part (put_node ?part Folder ?d) \<and> (r = Inr m \<or> (\<exists>e. r = Inl (BackupIo ''sync destination parent'' (butlast dst) e)))"
    then obtain d3 m where st: "stage_backup V src tenant signer version ?part (put_node ?part Folder ?d) = (d3, Inr m)" and dl: "delivered ?part dst ?d d3 (mc_disk M')"
      and ws: "workspace ?part (put_node ?part Folder ?d)"
      and r: "r = Inr m \<or> (\<exists>e. r = Inl (BackupIo ''sync destination parent'' (butlast dst) e))" by blast
    have pn: "map_of ?d ?part = None" using dl by (simp add: delivered_def)
    have "map_of (put_node ?part Folder ?d) (butlast ?part) = Some Folder"
      using ws disk_ok_above [of "put_node ?part Folder ?d" ?part "butlast ?part"] by (simp add: workspace_def partial_name_def strict_prefix_def)
    then have par: "map_of ?d (butlast dst) = Some Folder" by (auto simp: partial_name_def split: if_splits)
    note nn = nested_rejected [OF rn ok(2) par]
    note ap = partial_apart [OF nn ok(2) pn ok(1)]
    let ?d1 = "put_node ?part Folder ?d"
    have fresh: "file_at ?d1 p = file_at ?d p" "\<And>q. file_at ?d1 (?part @ q) = None" for p using fresh_partial [OF ok(1) pn] by blast+
    have "map_of ?d1 src = Some Folder" using ok(2) by simp
    then have R1: "rooted src ?d1" using ws ok(3) fresh(1) by (simp add: rooted_def workspace_def portable_def)
    have b: "backup_of V signer version src ?d1 ?part d3 m \<and> bm_tenant m = tenant" by (rule stage_backup_Inr [OF H R1 ap fresh(2) st])
    have same: "kept_files src ?d1 = kept_files src ?d" "record_of (be_hash V) src ?d1 = record_of (be_hash V) src ?d"
      using fresh(1) by (simp_all add: kept_files_def stored_files_def record_of_def fun_eq_iff)
    have "backup_of V signer version src ?d dst (mc_disk M') m"
      using b unfolding backup_of_def same fresh(1) delivered_files [OF dl] by blast
    then show ?thesis using b dl r nn by blast
  qed blast
qed

end
