(* ===== verification/LoomBackupComplete.thy ===== *)
theory LoomBackupComplete
  imports LoomBackupContents
begin

text \<open>When the system refuses nothing, a backup and a restore go through.\<close>

section \<open>Single calls\<close>

lemma no_faults_sys [simp]: "no_faults S \<Longrightarrow> sys S c p = Inr ()"
  by (simp add: no_faults_def sys_def)

definition folder_or_free :: "disk \<Rightarrow> path \<Rightarrow> bool" where
  "folder_or_free d p \<longleftrightarrow> map_of d p = None \<or> map_of d p = Some Folder"

lemma mkdirs_complete:
  assumes "no_faults S" and "map_of d p = Some Folder" and "\<forall>r. prefix r cs \<longrightarrow> folder_or_free d (p @ r)"
  shows "\<exists>d'. std_mkdirs S p cs d = (d', Inr ()) \<and> (\<forall>x. map_of d' x = (if \<exists>r. prefix r cs \<and> x = p @ r then Some Folder else map_of d x))"
  using assms(2,3)
proof (induction cs arbitrary: p d)
  case (Cons c cs)
  have pre: "(\<exists>r. prefix r (c # cs) \<and> x = p @ r) \<longleftrightarrow> x = p \<or> (\<exists>r. prefix r cs \<and> x = (p @ [c]) @ r)" for x
    by (auto simp: prefix_Cons)
  have below: "folder_or_free d ((p @ [c]) @ r)" if "prefix r cs" for r using Cons.prems(2) that by auto
  have "\<exists>d1. (map_of d1 = (map_of d)(p @ [c] \<mapsto> Folder)) \<and> std_mkdirs S p (c # cs) d = std_mkdirs S (p @ [c]) cs d1"
  proof (cases "map_of d (p @ [c]) = Some Folder")
    case True
    then show ?thesis using follow_plain [OF True] by (intro exI [of _ d]) (auto simp: fun_upd_idem)
  next
    case False
    then have n: "map_of d (p @ [c]) = None" using below [of "[]"] by (simp add: folder_or_free_def)
    have "std_mkdir S (p @ [c]) d = (put_node (p @ [c]) Folder d, Inr ())"
      using n Cons.prems(1) follow_plain [OF Cons.prems(1)] assms(1) by (simp add: std_mkdir_def)
    then show ?thesis using follow_None [OF n] by (intro exI [of _ "put_node (p @ [c]) Folder d"]) (simp add: bind_s_def)
  qed
  then obtain d1 where d1: "map_of d1 = (map_of d)(p @ [c] \<mapsto> Folder)" "std_mkdirs S p (c # cs) d = std_mkdirs S (p @ [c]) cs d1" by blast
  have "\<exists>d'. std_mkdirs S (p @ [c]) cs d1 = (d', Inr ()) \<and> (\<forall>x. map_of d' x = (if \<exists>r. prefix r cs \<and> x = (p @ [c]) @ r then Some Folder else map_of d1 x))"
    by (rule Cons.IH) (use d1(1) below in \<open>auto simp: folder_or_free_def\<close>)
  then obtain d' where d': "std_mkdirs S (p @ [c]) cs d1 = (d', Inr ())"
    "\<And>x. map_of d' x = (if \<exists>r. prefix r cs \<and> x = (p @ [c]) @ r then Some Folder else map_of d1 x)" by blast
  have "map_of d' x = (if \<exists>r. prefix r (c # cs) \<and> x = p @ r then Some Folder else map_of d x)" for x
    unfolding pre d'(2) using d1(1) Cons.prems(1) by (cases "\<exists>r. prefix r cs \<and> x = (p @ [c]) @ r") auto
  then show ?case using d1(2) d'(1) by simp
qed simp

lemma copy_loop_complete:
  assumes "no_faults S" and "map_of d dst = Some (File c m)" and "unat n + length (concat cs) < 2 ^ 64"
  shows "\<exists>d' r. copy_loop H S src dst cs h n d = (d', Inr r)"
  using assms(2,3)
proof (induction cs arbitrary: h n d c)
  case Nil
  then show ?case using assms(1) by (simp add: io_def bind_s_def)
next
  case (Cons x cs)
  have a: "unat n + length x < 2 ^ 64" using Cons.prems(2) by simp
  then have n: "u64_add n (of_nat (length x)) = Some (n + of_nat (length x))" "unat (n + of_nat (length x)) = unat n + length x"
    by (simp_all add: u64_add_def unat_of_nat unat_word_ariths)
  have w: "std_write_all S dst x d = (put_node dst (File (c @ x) m) d, Inr ())" using Cons.prems(1) assms(1) by (simp add: std_write_all_def)
  have "\<exists>d' r. copy_loop H S src dst cs (b3_update H h x) (n + of_nat (length x)) (put_node dst (File (c @ x) m) d) = (d', Inr r)"
    by (rule Cons.IH) (use Cons.prems(2) n(2) in simp_all)
  then show ?case using assms(1) n(1) w by (simp add: io_def io_s_def bind_s_def)
qed

lemma copy_hashed_complete:
  assumes S: "no_faults S" and H: "hasher_ok H" and f: "file_at d src = Some (b, k)" "length b < 2 ^ 64"
    and root: "map_of d [] = Some Folder" and free: "\<forall>r. prefix r (butlast dst) \<longrightarrow> folder_or_free d r" "map_of d dst = None" "dst \<noteq> []"
  shows "\<exists>d' f. copy_hashed H S src dst d = (d', Inr f) \<and> (\<forall>p. map_of d' p = (if p = dst then Some (File b k) else if prefix p (butlast dst) then Some Folder else map_of d p))"
proof -
  obtain d1 where d1: "std_mkdirs S [] (butlast dst) d = (d1, Inr ())" "\<And>x. map_of d1 x = (if prefix x (butlast dst) then Some Folder else map_of d x)"
    using mkdirs_complete [OF S root, of "butlast dst"] free(1) by auto
  have nb: "\<not> prefix dst (butlast dst)" using free(3) by (metis append_butlast_last_id not_Cons_self2 prefix_order.antisym prefixI self_append_conv)
  have s: "map_of d src = Some (File b k)" using f(1) by (simp add: file_at_Some)
  have ns: "\<not> prefix src (butlast dst)" "src \<noteq> dst" using free(1,2) s by (auto simp: folder_or_free_def)
  have s1: "map_of d1 src = Some (File b k)" using d1(2) ns s by simp
  have o: "std_open S src d1 = Inr b" using follow_plain [OF s1] S by (simp add: std_open_def)
  have par: "map_of d1 (butlast dst) = Some Folder" using d1(2) by simp
  have n1: "map_of d1 dst = None" using d1(2) nb free(2) by simp
  let ?d2 = "put_node dst (File [] (os_umode S)) d1"
  have c: "std_create_new S dst d1 = (?d2, Inr ())" using n1 follow_plain [OF par] S by (simp add: std_create_new_def)
  have m2: "map_of ?d2 dst = Some (File [] (os_umode S))" by simp
  obtain d3 r where l: "copy_loop H S src dst (chunks b) (b3_new H) 0 ?d2 = (d3, Inr r)"
    using copy_loop_complete [OF S m2] f(2) by (metis concat_chunks add_0 unsigned_0)
  obtain h n where r: "r = (h, n)" by fastforce
  have m3: "map_of d3 = (map_of ?d2)(dst \<mapsto> File b (os_umode S))"
    using copy_loop_Inr [OF H l [unfolded r] m2] chunk_length by (simp add: concat_chunks)
  have s3: "map_of d3 src = Some (File b k)" using m3 s1 ns by simp
  have st: "mode_of S src d3 = Inr k" using follow_plain [OF s3] S by (simp add: mode_of_def std_stat_def)
  have ch: "std_chmod S dst k d3 = (put_node dst (File b k) d3, Inr ())" using m3 S by (simp add: std_chmod_def)
  have "copy_hashed H S src dst d = (put_node dst (File b k) d3, Inr \<lparr>bf_path = [], bf_bytes = n, bf_blake3 = to_hex (b3_finalize H h)\<rparr>)"
    using d1(1) o c l r st ch S by (simp add: copy_hashed_def bind_s_def io_s_def io_def std_sync_def)
  moreover have "map_of (put_node dst (File b k) d3) p = (if p = dst then Some (File b k) else if prefix p (butlast dst) then Some Folder else map_of d p)" for p
    using m3 d1(2) [of p] by simp
  ultimately show ?thesis by blast
qed

section \<open>Filling a directory\<close>

text \<open>Below the directory there are only the files already copied, and folders on the way to a file of \<open>Q\<close>.\<close>

definition filling :: "path \<Rightarrow> path set \<Rightarrow> path set \<Rightarrow> disk \<Rightarrow> bool" where
  "filling part Q D d \<longleftrightarrow> workspace part d
     \<and> (\<forall>r x. map_of d (part @ r) = Some x \<longrightarrow> x = Folder \<and> (r = [] \<or> (\<exists>q\<in>Q. strict_prefix r q)) \<or> r \<in> D)"

definition no_nesting :: "path set \<Rightarrow> bool" where
  "no_nesting Q \<longleftrightarrow> (\<forall>p\<in>Q. \<forall>q\<in>Q. \<not> strict_prefix p q) \<and> (\<forall>q\<in>Q. q \<noteq> [] \<and> (\<forall>n\<in>set q. name_ok n))"

lemma butlast_strict: "q \<noteq> [] \<Longrightarrow> prefix r (butlast q) \<longleftrightarrow> strict_prefix r q"
  by (metis append_butlast_last_id prefix_order.less_le prefix_snoc prefix_length_le length_append_singleton not_less_eq_eq order_refl)

lemma filling_free:
  assumes F: "filling part Q D d" and Q: "no_nesting Q" "q \<in> Q" "q \<notin> D" "D \<subseteq> Q"
  shows "map_of d (part @ q) = None" and "prefix r (butlast (part @ q)) \<Longrightarrow> folder_or_free d r"
proof -
  have q: "q \<noteq> []" using Q(1,2) by (simp add: no_nesting_def)
  show "map_of d (part @ q) = None"
  proof (rule ccontr)
    assume "map_of d (part @ q) \<noteq> None"
    then obtain x where "map_of d (part @ q) = Some x" by blast
    then have "x = Folder \<and> (q = [] \<or> (\<exists>p\<in>Q. strict_prefix q p)) \<or> q \<in> D" using F unfolding filling_def by blast
    then show False using q Q unfolding no_nesting_def by blast
  qed
  assume "prefix r (butlast (part @ q))"
  then have r: "strict_prefix r (part @ q)" using q by (simp add: butlast_strict)
  have ws: "disk_ok d" "map_of d part = Some Folder" using F by (simp_all add: filling_def workspace_def)
  show "folder_or_free d r"
  proof (cases "prefix part r")
    case True
    then obtain s where s: "r = part @ s" by (auto simp: prefix_def)
    then have sq: "strict_prefix s q" using r by (auto simp: strict_prefix_def)
    have "s \<notin> D" using sq Q unfolding no_nesting_def by blast
    then show ?thesis using F s unfolding filling_def folder_or_free_def by (cases "map_of d r") auto
  next
    case False
    then have "prefix r part" using r by (metis prefix_append prefix_order.less_imp_le prefix_same_cases append_Nil2 prefixI prefix_order.trans)
    then show ?thesis using disk_ok_above_eq [OF ws] by (simp add: folder_or_free_def)
  qed
qed

lemma filling_copy:
  assumes S: "no_faults S" and H: "hasher_ok H" and F: "filling part Q D d" and Q: "no_nesting Q" "q \<in> Q" "q \<notin> D" "D \<subseteq> Q"
    and part: "\<forall>n\<in>set part. name_ok n" and f: "file_at d src = Some (b, k)" "length b < 2 ^ 64"
  shows "\<exists>d' f. copy_hashed H S src (part @ q) d = (d', Inr f) \<and> filling part Q (insert q D) d'"
proof -
  have ws: "workspace part d" "disk_ok d" using F by (simp_all add: filling_def workspace_def)
  have q: "q \<noteq> []" "\<forall>n\<in>set q. name_ok n" using Q(1,2) by (simp_all add: no_nesting_def)
  obtain d' f where c: "copy_hashed H S src (part @ q) d = (d', Inr f)"
    "\<And>p. map_of d' p = (if p = part @ q then Some (File b k) else if prefix p (butlast (part @ q)) then Some Folder else map_of d p)"
    using copy_hashed_complete [OF S H f, of "part @ q"] filling_free [OF F Q] ws(2) q(1) by (auto simp: disk_ok_def)
  have "confined part (copy_hashed H S src (part @ q))" by (rule confined_copy) (use q part in auto)
  then have w: "workspace part d'" using confinedD c(1) ws(1) by blast
  have "x = Folder \<and> (r = [] \<or> (\<exists>q\<in>Q. strict_prefix r q)) \<or> r \<in> insert q D" if "map_of d' (part @ r) = Some x" for r x
  proof (cases "r = q")
    case False
    show ?thesis
    proof (cases "prefix (part @ r) (butlast (part @ q))")
      case True
      then have "strict_prefix r q" using q(1) by (simp add: butlast_append butlast_strict)
      then show ?thesis using True that False c(2) [of "part @ r"] Q(2) by auto
    next
      case nb: False
      then have "map_of d (part @ r) = Some x" using that False c(2) [of "part @ r"] by simp
      then show ?thesis using F unfolding filling_def by blast
    qed
  qed simp
  then show ?thesis using c(1) w unfolding filling_def by blast
qed

text \<open>The source of a copy is not in the directory that is filled.\<close>

definition copyable :: "path \<Rightarrow> disk \<Rightarrow> path \<Rightarrow> bool" where
  "copyable src d q \<longleftrightarrow> (\<exists>b k. file_at d (src @ q) = Some (b, k) \<and> length b < 2 ^ 64)"

lemma copy_keeps_source:
  assumes H: "hasher_ok H" and np: "\<not> prefix part src" "\<not> prefix src part"
    and c: "copy_hashed H S (src @ q) (part @ q) d = (d', Inr f)" and q: "copyable src d q"
  shows "file_at d' (src @ r) = file_at d (src @ r)" and "f = record_of H src d q\<lparr>bf_path := []\<rparr>"
proof -
  obtain b k where b: "file_at d (src @ q) = Some (b, k)" using q by (auto simp: copyable_def)
  note h = copy_hashed_Inr [OF H c b]
  show "file_at d' (src @ r) = file_at d (src @ r)" using h not_below [OF np, of r] by auto
  show "f = record_of H src d q\<lparr>bf_path := []\<rparr>" using h b by (simp add: record_of_def)
qed

lemma copy_files_complete:
  assumes S: "no_faults (be_os V)" and H: "hasher_ok (be_hash V)" and np: "\<not> prefix part src" "\<not> prefix src part"
    and Q: "no_nesting Q" and part: "\<forall>n\<in>set part. name_ok n"
    and F: "filling part Q D d" and D: "D \<subseteq> Q" and ps: "distinct ps" 
    and each: "\<forall>p\<in>set ps. \<exists>q\<in>Q - D. p = src @ q \<and> relative_string src p = Inr (join ''/'' q) \<and> checked_relative (join ''/'' q) = Inr q \<and> copyable src d q"
  shows "\<exists>d' fs. copy_files V src part ps files d = (d', Inr fs) \<and> filling part Q Q d'"
  using F D ps each
proof (induction ps arbitrary: D d files)
  case Nil
  then show ?case unfolding filling_def by auto
next
  case (Cons p ps)
  obtain q where q: "q \<in> Q" "q \<notin> D" "p = src @ q" "relative_string src p = Inr (join ''/'' q)" "checked_relative (join ''/'' q) = Inr q" "copyable src d q"
    using Cons.prems(4) by auto
  obtain b k where b: "file_at d (src @ q) = Some (b, k)" "length b < 2 ^ 64" using q(6) by (auto simp: copyable_def)
  obtain d1 f where c: "copy_hashed (be_hash V) (be_os V) (src @ q) (part @ q) d = (d1, Inr f)" "filling part Q (insert q D) d1"
    using filling_copy [OF S H Cons.prems(1) Q q(1,2) Cons.prems(2) part b] by blast
  note same = copy_keeps_source(1) [OF H np c(1) q(6)]
  have "\<forall>p\<in>set ps. \<exists>r\<in>Q - insert q D. p = src @ r \<and> relative_string src p = Inr (join ''/'' r) \<and> checked_relative (join ''/'' r) = Inr r \<and> copyable src d1 r"
    using Cons.prems(3,4) q(3) unfolding copyable_def same by fastforce
  then have "\<exists>d' fs. copy_files V src part ps (files @ [f\<lparr>bf_path := join ''/'' q\<rparr>]) d1 = (d', Inr fs) \<and> filling part Q Q d'"
    by (intro Cons.IH [OF c(2)]) (use Cons.prems(2,3) q(1) in simp_all)
  then show ?case using q(3-5) c(1) by (simp add: bind_s_def)
qed

lemma restore_files_complete:
  assumes S: "no_faults (be_os V)" and H: "hasher_ok (be_hash V)" and np: "\<not> prefix part src" "\<not> prefix src part"
    and Q: "no_nesting Q" and part: "\<forall>n\<in>set part. name_ok n"
    and F: "filling part Q D d" and D: "D \<subseteq> Q" and fs: "distinct (map bf_path fs)"
    and each: "\<forall>f\<in>set fs. \<exists>q\<in>Q - D. f = record_of (be_hash V) src d q \<and> checked_relative (join ''/'' q) = Inr q \<and> copyable src d q"
  shows "\<exists>d'. restore_files V src part fs d = (d', Inr ())"
  using F D fs each
proof (induction fs arbitrary: D d)
  case (Cons f fs)
  obtain q where q: "q \<in> Q" "q \<notin> D" "f = record_of (be_hash V) src d q" "checked_relative (join ''/'' q) = Inr q" "copyable src d q"
    using Cons.prems(4) by auto
  obtain b k where b: "file_at d (src @ q) = Some (b, k)" "length b < 2 ^ 64" using q(5) by (auto simp: copyable_def)
  obtain d1 c where c: "copy_hashed (be_hash V) (be_os V) (src @ q) (part @ q) d = (d1, Inr c)" "filling part Q (insert q D) d1"
    using filling_copy [OF S H Cons.prems(1) Q q(1,2) Cons.prems(2) part b] by blast
  note same = copy_keeps_source [OF H np c(1) q(5)]
  have rec: "record_of (be_hash V) src d1 r = record_of (be_hash V) src d r" for r by (simp add: record_of_def same(1))
  have "\<exists>r\<in>Q - insert q D. g = record_of (be_hash V) src d1 r \<and> checked_relative (join ''/'' r) = Inr r \<and> copyable src d1 r" if g: "g \<in> set fs" for g
  proof -
    obtain r where r: "r \<in> Q" "r \<notin> D" "g = record_of (be_hash V) src d r" "checked_relative (join ''/'' r) = Inr r" "copyable src d r"
      using Cons.prems(4) g by auto
    have "bf_path f \<noteq> bf_path g" using Cons.prems(3) g by auto
    then have "r \<noteq> q" using r(3) q(3) by auto
    then show ?thesis using r by (auto simp: rec copyable_def same(1))
  qed
  then have "\<exists>d'. restore_files V src part fs d1 = (d', Inr ())"
    by (intro Cons.IH [OF c(2)]) (use Cons.prems(2,3) q(1) in auto)
  then show ?case using q(3,4) c(1) same(2) by (simp add: bind_s_def)
qed simp

section \<open>Staging a backup\<close>

text \<open>A database that can be backed up: no links or devices, names in UTF-8 that are no fixed name, not too much.\<close>

definition backable :: "path \<Rightarrow> disk \<Rightarrow> bool" where
  "backable src d \<longleftrightarrow> rooted src d \<and> nodes_clean src d src \<and> card (kept_files src d) \<le> MAX_BACKUP_FILES \<and> (\<forall>q\<in>kept_files src d. copyable src d q)
     \<and> map_of d (src @ [BACKUP_MANIFEST_FILE]) \<noteq> Some Folder \<and> map_of d (src @ [BACKUP_SIGNATURE_FILE]) \<noteq> Some Folder"

text \<open>The manifest of the files can be written, in no more than verification reads.\<close>

definition manifest_fits :: "'h backup_env \<Rightarrow> path \<Rightarrow> disk \<Rightarrow> bytes \<Rightarrow> bool" where
  "manifest_fits V src d tenant \<longleftrightarrow>
     (\<forall>m. bm_format_version m = BACKUP_FORMAT_VERSION \<longrightarrow> bm_tenant m = tenant \<longrightarrow> distinct (map bf_path (bm_files m))
        \<longrightarrow> set (bm_files m) = record_of (be_hash V) src d ` kept_files src d
        \<longrightarrow> (\<exists>j. bc_manifest (be_json V) m = Inr j \<and> length (j @ newline) \<le> MAX_MANIFEST_BYTES))"

definition signer_fits :: "'h backup_env \<Rightarrow> (bytes \<times> bytes) option \<Rightarrow> nat \<Rightarrow> bool" where
  "signer_fits V signer version \<longleftrightarrow>
     (case signer of
        None \<Rightarrow> True
      | Some (key_id, key) \<Rightarrow> \<not> blank key_id \<and> length key_id \<le> 256 \<and> CHR 0x00 \<notin> set key_id
          \<and> (version = BACKUP_SIGNATURE_VERSION \<or> version = BACKUP_SIGNATURE_VERSION_V2)
          \<and> (\<forall>b payload. \<exists>j. bc_signature (be_json V) (signature_of V key_id key version b payload) = Inr j \<and> length (j @ newline) \<le> MAX_SIGNATURE_BYTES))"

lemma no_nesting_stored: "rooted src d \<Longrightarrow> no_nesting (stored_files src d)"
proof -
  assume R: "rooted src d"
  have "\<not> strict_prefix p q" if "p \<in> stored_files src d" "q \<in> stored_files src d" for p q
  proof
    assume "strict_prefix p q"
    then have "strict_prefix (src @ p) (src @ q)" by (simp add: strict_prefix_def)
    moreover have "map_of d (src @ q) \<noteq> None" using stored_names [OF R that(2)] by blast
    ultimately have "map_of d (src @ p) = Some Folder" using disk_ok_above [OF rooted_disk(1) [OF R]] by blast
    then show False using stored_file [OF that(1)] by (simp add: file_at_def)
  qed
  moreover have "q \<noteq> [] \<and> (\<forall>n\<in>set q. name_ok n)" if "q \<in> stored_files src d" for q
    using stored_names [OF R that] rooted_names [OF R] by blast
  ultimately show ?thesis unfolding no_nesting_def by blast
qed

lemma no_nesting_kept: "rooted src d \<Longrightarrow> no_nesting (kept_files src d)"
  using no_nesting_stored [of src d] kept_stored [of _ src d] unfolding no_nesting_def by blast

lemma fixed_free:
  assumes "filling part Q Q d'" and "map_of d (src @ [f]) \<noteq> Some Folder" and "disk_ok d" and "\<forall>q\<in>Q. map_of d (src @ q) \<noteq> None" and "[f] \<notin> Q"
  shows "map_of d' (part @ [f]) = None"
proof (rule ccontr)
  assume "map_of d' (part @ [f]) \<noteq> None"
  then obtain q where q: "q \<in> Q" "strict_prefix [f] q" using assms(1,5) unfolding filling_def by blast
  then have "strict_prefix (src @ [f]) (src @ q)" by (simp add: strict_prefix_def)
  then show False using disk_ok_above [OF assms(3)] assms(2,4) q(1) by blast
qed

lemma write_synced_complete:
  assumes "no_faults S" and "map_of d (butlast p) = Some Folder" and "map_of d p = None"
  shows "\<exists>d'. write_synced S what p b d = (d', Inr ()) \<and> map_of d' = (map_of d)(p \<mapsto> File b (os_umode S))"
  using follow_plain [OF assms(2)] assms
  by (simp add: write_synced_def bind_s_def io_s_def io_def std_create_new_def std_write_all_def std_sync_def)

lemma write_signature_complete:
  assumes S: "no_faults (be_os V)" and sg: "signer_fits V (Some (key_id, key)) version"
    and d: "map_of d part = Some Folder" "map_of d (part @ [BACKUP_SIGNATURE_FILE]) = None"
  shows "\<exists>d' r. write_signature V part key_id key b version d = (d', Inr r)"
proof -
  have k: "\<not> blank key_id" "length key_id \<le> 256" "CHR 0x00 \<notin> set key_id" "version = BACKUP_SIGNATURE_VERSION \<or> version = BACKUP_SIGNATURE_VERSION_V2"
    using sg by (simp_all add: signer_fits_def)
  obtain payload where p: "payload_to_sign (be_hash V) version key_id b = Inr payload"
    using k(4) by (auto simp: payload_to_sign_def BACKUP_SIGNATURE_VERSION_def BACKUP_SIGNATURE_VERSION_V2_def)
  obtain j where j: "bc_signature (be_json V) (signature_of V key_id key version b payload) = Inr j" using sg by (auto simp: signer_fits_def)
  obtain d' where "write_synced (be_os V) ''signature'' (part @ [BACKUP_SIGNATURE_FILE]) (j @ newline) d = (d', Inr ())"
    using write_synced_complete [OF S, of d "part @ [BACKUP_SIGNATURE_FILE]"] d by auto
  then show ?thesis using k(1-3) p j by (simp add: write_signature_def signature_of_def json_r_def bind_s_def Let_def)
qed

lemma stage_backup_complete:
  assumes S: "no_faults (be_os V)" and H: "hasher_ok (be_hash V)" and B: "backable src d" and np: "\<not> prefix part src" "\<not> prefix src part"
    and ws: "workspace part d" "\<forall>q. q \<noteq> [] \<longrightarrow> map_of d (part @ q) = None" and fit: "manifest_fits V src d tenant" "signer_fits V signer version"
  shows "\<exists>d' m. stage_backup V src tenant signer version part d = (d', Inr m)"
proof -
  let ?Q = "kept_files src d"
  have R: "rooted src d" and cl: "nodes_clean src d src" and each: "\<forall>q\<in>?Q. copyable src d q" using B by (simp_all add: backable_def)
  have "card (found_files True True src d src) = card ?Q" unfolding found_kept [OF R] by (rule card_image) (simp add: inj_on_def)
  then obtain ps where w: "walk_files (be_os V) True True src src d = Inr ps"
    using walk_files_complete [OF S rooted_disk(1,2) [OF R] cl, of True True] B by (auto simp: backable_def)
  note kept = walk_kept [OF R w] and name = kept_name [OF R]
  have rs: "relative_string src (src @ q) = Inr (join ''/'' q)" if q: "q \<in> ?Q" for q
  proof -
    obtain b k where "map_of d (src @ q) = Some (File b k)" using each q by (auto simp: copyable_def file_at_Some)
    then have "File b k = Folder \<or> (\<exists>b' k'. File b k = File b' k') \<and> relative_string src (src @ q) = Inr (rel_name src (src @ q))"
      using cl prefixI [OF refl] unfolding nodes_clean_def by blast
    then show ?thesis using name(1) [OF q] by simp
  qed
  have names: "\<forall>n\<in>set part. name_ok n" using ws(1) disk_ok_names [of d part] by (auto simp: workspace_def)
  have "filling part ?Q {} d" unfolding filling_def
  proof (intro conjI allI impI ws(1))
    fix r x assume "map_of d (part @ r) = Some x"
    then show "x = Folder \<and> (r = [] \<or> (\<exists>q\<in>?Q. strict_prefix r q)) \<or> r \<in> {}" using ws by (cases "r = []") (auto simp: workspace_def)
  qed
  moreover have "\<forall>p\<in>set ps. \<exists>q\<in>?Q - {}. p = src @ q \<and> relative_string src p = Inr (join ''/'' q) \<and> checked_relative (join ''/'' q) = Inr q \<and> copyable src d q"
    unfolding kept(2) using rs name(2) each by blast
  ultimately obtain d1 fs where c: "copy_files V src part ps [] d = (d1, Inr fs)" "filling part ?Q ?Q d1"
    using copy_files_complete [OF S H np no_nesting_kept [OF R] names _ _ kept(1)] by blast
  note cr = copied_records [OF H R np w c(1)]
  let ?m = "\<lparr>bm_format_version = BACKUP_FORMAT_VERSION, bm_tenant = tenant, bm_files = sort_key bf_path fs\<rparr>"
  have "distinct (map bf_path (sort_key bf_path fs))" using cr(2) by (simp add: distinct_map inj_on_def)
  then have "\<exists>j. bc_manifest (be_json V) ?m = Inr j \<and> length (j @ newline) \<le> MAX_MANIFEST_BYTES"
    using fit(1) [unfolded manifest_fits_def, THEN spec, of ?m] cr(1) by simp
  then obtain j where j: "bc_manifest (be_json V) ?m = Inr j" by blast
  have node: "\<forall>q\<in>?Q. map_of d (src @ q) \<noteq> None" using stored_names [OF R kept_stored] by blast
  have fixed: "[BACKUP_MANIFEST_FILE] \<notin> ?Q" "[BACKUP_SIGNATURE_FILE] \<notin> ?Q" by (simp_all add: kept_files_def stored_files_def)
  have nf: "map_of d (src @ [BACKUP_MANIFEST_FILE]) \<noteq> Some Folder" "map_of d (src @ [BACKUP_SIGNATURE_FILE]) \<noteq> Some Folder" using B by (simp_all add: backable_def)
  have free: "map_of d1 (part @ [BACKUP_MANIFEST_FILE]) = None" "map_of d1 (part @ [BACKUP_SIGNATURE_FILE]) = None"
    using fixed_free [OF c(2) nf(1) rooted_disk(1) [OF R] node fixed(1)] fixed_free [OF c(2) nf(2) rooted_disk(1) [OF R] node fixed(2)] .
  have pf: "map_of d1 part = Some Folder" using c(2) by (simp add: filling_def workspace_def)
  obtain d2 where d2: "write_synced (be_os V) ''manifest'' (part @ [BACKUP_MANIFEST_FILE]) (j @ newline) d1 = (d2, Inr ())"
    "map_of d2 = (map_of d1)(part @ [BACKUP_MANIFEST_FILE] \<mapsto> File (j @ newline) (os_umode (be_os V)))"
    using write_synced_complete [OF S, of d1 "part @ [BACKUP_MANIFEST_FILE]"] pf free(1) by auto
  have d2f: "map_of d2 part = Some Folder" "map_of d2 (part @ [BACKUP_SIGNATURE_FILE]) = None" using d2(2) pf free fixed_names(3) [THEN not_sym] by auto
  have "\<exists>d3. (case signer of None \<Rightarrow> ret () | Some (key_id, key) \<Rightarrow> bind_s (write_signature V part key_id key (j @ newline) version) (\<lambda>_. ret ())) d2 = (d3, Inr ())"
  proof (cases signer)
    case (Some kk)
    obtain key_id key where kk: "kk = (key_id, key)" by fastforce
    then have "signer_fits V (Some (key_id, key)) version" using fit(2) Some by simp
    then obtain d3 r where "write_signature V part key_id key (j @ newline) version d2 = (d3, Inr r)"
      using write_signature_complete [OF S _ d2f] by blast
    then show ?thesis using Some kk by (simp add: bind_s_def)
  qed simp
  then show ?thesis using w c(1) j d2(1) by (auto simp: stage_backup_def bind_s_def write_manifest_def manifest_bytes_def json_r_def Let_def)
qed

section \<open>From the partial directory to the destination\<close>

text \<open>A place a directory can be published at: nothing is there, its parent is a directory outside the source, and the
  name of the partial directory is free.\<close>

definition free_place :: "os \<Rightarrow> path \<Rightarrow> path \<Rightarrow> machine \<Rightarrow> bool" where
  "free_place S src dst M \<longleftrightarrow> destination dst (mc_disk M) \<and> utf8_valid (last dst) \<and> map_of (mc_disk M) (butlast dst) = Some Folder
     \<and> map_of (mc_disk M) dst = None \<and> map_of (mc_disk M) (partial_name S dst (mc_nonce M)) = None \<and> \<not> prefix src (butlast dst)"

lemma free_place_partial:
  assumes "free_place S src dst M" and "disk_ok (mc_disk M)" and "map_of (mc_disk M) src = Some Folder"
  shows "\<not> prefix (partial_name S dst (mc_nonce M)) src" and "\<not> prefix src (partial_name S dst (mc_nonce M))"
    and "workspace (partial_name S dst (mc_nonce M)) (put_node (partial_name S dst (mc_nonce M)) Folder (mc_disk M))"
    and "\<forall>q. q \<noteq> [] \<longrightarrow> map_of (put_node (partial_name S dst (mc_nonce M)) Folder (mc_disk M)) (partial_name S dst (mc_nonce M) @ q) = None"
    and "\<forall>n\<in>set (partial_name S dst (mc_nonce M)). name_ok n"
proof -
  let ?part = "partial_name S dst (mc_nonce M)" and ?d = "mc_disk M"
  have p: "dst \<noteq> []" "name_ok (last dst)" "map_of ?d (butlast dst) = Some Folder" "map_of ?d ?part = None" "\<not> prefix src (butlast dst)"
    using assms(1) by (simp_all add: free_place_def destination_def)
  show "\<not> prefix ?part src" "\<not> prefix src ?part" using partial_apart [OF p(5) assms(3) p(4) assms(2)] .
  note pn = partial_name_ok [OF p(1,2), of S "mc_nonce M"]
  have "std_mkdir (S\<lparr>os_fault := \<lambda>_ _. None\<rparr>) ?part ?d = (put_node ?part Folder ?d, Inr ())"
    using p(3,4) pn(1) follow_plain [OF p(3)] by (simp add: std_mkdir_def sys_def)
  from mkdir_workspace [OF assms(2) _ _ pn(2) this] show ws: "workspace ?part (put_node ?part Folder ?d)"
    using p(3) pn(1) by (simp add: partial_name_def)
  then show "\<forall>n\<in>set ?part. name_ok n" using disk_ok_names [of "put_node ?part Folder ?d" ?part] by (simp add: workspace_def)
  show "\<forall>q. q \<noteq> [] \<longrightarrow> map_of (put_node ?part Folder ?d) (?part @ q) = None"
    using disk_ok_nothing_below [OF assms(2) p(4)] by simp
qed

lemma in_partial_complete:
  assumes S: "no_faults S" and F: "free_place S src dst M" and ok: "disk_ok (mc_disk M)" "map_of (mc_disk M) src = Some Folder"
    and cf: "confined (partial_name S dst (mc_nonce M)) (work (partial_name S dst (mc_nonce M)))"
    and w: "work (partial_name S dst (mc_nonce M)) (put_node (partial_name S dst (mc_nonce M)) Folder (mc_disk M)) = (d3, Inr a)"
  shows "\<exists>M'. in_partial S what dst (published S dst work) M = (M', Inr a)"
proof -
  let ?part = "partial_name S dst (mc_nonce M)" and ?d = "mc_disk M"
  have p: "dst \<noteq> []" "name_ok (last dst)" "utf8_valid (last dst)" "map_of ?d (butlast dst) = Some Folder" "map_of ?d dst = None" "map_of ?d ?part = None"
    using F by (simp_all add: free_place_def destination_def)
  note pn = partial_name_ok [OF p(1,2), of S "mc_nonce M"]
  note fp = free_place_partial [OF F ok]
  have "path_is_dir S (butlast dst) ?d" using follow_plain [OF p(4)] S by (simp add: path_is_dir_def std_stat_def)
  then have pp: "partial_path S dst M = (M\<lparr>mc_nonce := mc_nonce M + 1\<rparr>, Inr ?part)"
    using p(1,3) by (simp add: partial_path_def parent_of_def partial_name_def Let_def)
  have mk: "std_mkdir S ?part ?d = (put_node ?part Folder ?d, Inr ())"
    using p(4,6) pn(1) follow_plain [OF p(4)] S by (simp add: std_mkdir_def)
  have c: "workspace ?part d3" "only_below ?part (put_node ?part Folder ?d) d3" using confinedD [OF cf w fp(3)] by blast+
  have "map_of d3 dst = None" using c(2) pn(3) p(5,6) by (auto simp: only_below_def strict_prefix_def)
  then have "\<exists>d4. std_rename S ?part dst d3 = (d4, Inr ())" using S c(1) by (simp add: std_rename_def workspace_def)
  then obtain d4 where r: "std_rename S ?part dst d3 = (d4, Inr ())" ..
  have "published S dst work ?part (put_node ?part Folder ?d) = (d4, Inr a)"
    using w r S by (simp add: published_def publish_partial_def bind_s_def io_s_def io_def std_sync_def)
  then show ?thesis using pp mk by (simp add: in_partial_def bind_s_def io_s_def io_def)
qed

lemma reject_complete:
  assumes "no_faults S" and "free_place S src dst M" and "map_of (mc_disk M) src = Some Folder"
  shows "\<not> path_exists S dst (mc_disk M)" and "reject_nested_destination S src dst (mc_disk M) = Inr ()"
proof -
  have p: "map_of (mc_disk M) (butlast dst) = Some Folder" "map_of (mc_disk M) dst = None" "\<not> prefix src (butlast dst)"
    using assms(2) by (simp_all add: free_place_def)
  show "\<not> path_exists S dst (mc_disk M)" using follow_None [OF p(2)] assms(1) by (simp add: path_exists_def std_stat_def)
  show "reject_nested_destination S src dst (mc_disk M) = Inr ()"
    using canon_plain [OF assms(3)] canon_plain [OF p(1)] p(3) assms(1)
    by (simp add: reject_nested_destination_def std_canonicalize_def io_def parent_of_def)
qed

lemma create_backup_complete:
  assumes S: "no_faults (be_os V)" and H: "hasher_ok (be_hash V)" and B: "backable src (mc_disk M)" and F: "free_place (be_os V) src dst M"
    and fit: "manifest_fits V src (mc_disk M) tenant" "signer_fits V signer version"
  shows "\<exists>M' m. create_backup_inner V src dst tenant signer version M = (M', Inr m)"
proof -
  let ?part = "partial_name (be_os V) dst (mc_nonce M)" and ?d = "mc_disk M"
  have R: "rooted src ?d" using B by (simp add: backable_def)
  note ok = rooted_disk [OF R]
  note fp = free_place_partial [OF F ok(1,2)]
  have pn: "map_of ?d ?part = None" using F by (simp add: free_place_def)
  let ?d1 = "put_node ?part Folder ?d"
  have f1: "file_at ?d1 p = file_at ?d p" for p using fresh_partial(1) [OF ok(1) pn] .
  have same: "kept_files src ?d1 = kept_files src ?d" "record_of (be_hash V) src ?d1 = record_of (be_hash V) src ?d" "copyable src ?d1 = copyable src ?d"
    by (simp_all add: f1 kept_files_def stored_files_def record_of_def copyable_def fun_eq_iff)
  have ne: "src @ q \<noteq> ?part" for q using fp(2) by (metis prefixI)
  have m1: "map_of ?d1 (src @ q) = map_of ?d (src @ q)" for q using ne by simp
  have "map_of ?d1 src = Some Folder" using m1 [of "[]"] ok(2) by simp
  then have R1: "rooted src ?d1" using fp(3) ok(3) by (simp add: rooted_def workspace_def portable_def f1)
  have "nodes_clean src ?d1 src" using B m1 unfolding backable_def nodes_clean_def by (auto simp: prefix_def)
  then have "backable src ?d1" using B R1 same m1 by (simp add: backable_def)
  moreover have "manifest_fits V src ?d1 tenant" using fit(1) by (simp add: manifest_fits_def same)
  ultimately obtain d3 m where st: "stage_backup V src tenant signer version ?part ?d1 = (d3, Inr m)"
    using stage_backup_complete [OF S H _ fp(1-4) _ fit(2)] by blast
  have "confined ?part (stage_backup V src tenant signer version ?part)" using confined_stage fp(5) by blast
  from in_partial_complete [where what = "''backup''" and work = "stage_backup V src tenant signer version", OF S F ok(1,2) this st] reject_complete [OF S F ok(2)] show ?thesis
    by (auto simp: create_backup_inner_def bind_s_def)
qed

end
