(* ===== verification/LoomBackupVerified.thy ===== *)
theory LoomBackupVerified
  imports LoomBackupComplete
begin

text \<open>What verification accepts, what a restore of it delivers, and that a finished backup is accepted.\<close>

section \<open>Acceptance\<close>

text \<open>The manifest at the root decodes, the tree has only files and folders with portable names, and the manifest lists its files.\<close>

definition good_backup :: "'h backup_env \<Rightarrow> path \<Rightarrow> disk \<Rightarrow> backup_manifest \<Rightarrow> bool" where
  "good_backup V root d m \<longleftrightarrow>
     (\<exists>b k. file_at d (root @ [BACKUP_MANIFEST_FILE]) = Some (b, k) \<and> length b \<le> MAX_MANIFEST_BYTES \<and> decode_manifest (be_json V) b = Inr m)
     \<and> nodes_clean root d root \<and> lists_exactly (be_hash V) root d (bm_files m) \<and> (\<forall>q\<in>stored_files root d. copyable root d q)"

lemma load_manifest_small: "load_manifest_bytes S root d = Inr b \<Longrightarrow> length b \<le> MAX_MANIFEST_BYTES"
proof -
  assume l: "load_manifest_bytes S root d = Inr b"
  obtain k where "file_at d (root @ [BACKUP_MANIFEST_FILE]) = Some (b, k)" using load_manifest_Inr [OF l] by blast
  then have "map_of d (root @ [BACKUP_MANIFEST_FILE]) = Some (File b k)" by (simp add: file_at_Some)
  then show ?thesis using l by (auto simp: load_manifest_bytes_def bind_r_Inr_iff io_Inr lstat_Inr Let_def split: if_splits)
qed

lemma copyable_all:
  "(\<forall>q\<in>stored_files root d. copyable root d q) \<longleftrightarrow> (\<forall>q\<in>stored_files root d. \<forall>b k. file_at d (root @ q) = Some (b, k) \<longrightarrow> length b < 2 ^ 64)"
  by (force simp: copyable_def stored_files_def)

lemma accepted_good:
  assumes "rooted root d" and "hasher_ok (be_hash V)" and "load_manifest_bytes S root d = Inr b" and "decode_manifest (be_json V) b = Inr m"
    and "verify_manifest_files V root d m = Inr u"
  shows "good_backup V root d m"
  using verify_files_sound [OF assms(1,2,5)] load_manifest_Inr [OF assms(3)] load_manifest_small [OF assms(3)] assms(4)
  unfolding good_backup_def copyable_all by blast

lemma verify_backup_Inr:
  assumes "rooted root d" and "hasher_ok (be_hash V)" and "verify_backup V root d = Inr m"
  shows "good_backup V root d m"
  using assms(3) accepted_good [OF assms(1,2)] by (auto simp: verify_backup_def load_manifest_def bind_r_Inr_iff)

lemma decoded: "decode_manifest J b = Inr m \<Longrightarrow> length (bm_files m) \<le> MAX_BACKUP_FILES \<and> bm_tenant m \<noteq> [] \<and> bm_format_version m = BACKUP_FORMAT_VERSION"
  by (auto simp: decode_manifest_def bind_r_Inr_iff split: if_splits)

lemma good_loads:
  assumes "rooted root d" and "hasher_ok (be_hash V)" and "no_faults (be_os V)" and "good_backup V root d m"
  shows "\<exists>b k. file_at d (root @ [BACKUP_MANIFEST_FILE]) = Some (b, k) \<and> load_manifest_bytes (be_os V) root d = Inr b \<and> decode_manifest (be_json V) b = Inr m"
    and "verify_manifest_files V root d m = Inr ()"
proof -
  obtain b k where b: "file_at d (root @ [BACKUP_MANIFEST_FILE]) = Some (b, k)" "length b \<le> MAX_MANIFEST_BYTES" "decode_manifest (be_json V) b = Inr m"
    using assms(4) by (auto simp: good_backup_def)
  then show "\<exists>b k. file_at d (root @ [BACKUP_MANIFEST_FILE]) = Some (b, k) \<and> load_manifest_bytes (be_os V) root d = Inr b \<and> decode_manifest (be_json V) b = Inr m"
    using load_manifest_complete [OF assms(3) b(1,2)] by blast
  have g: "nodes_clean root d root" "lists_exactly (be_hash V) root d (bm_files m)"
    "\<forall>q\<in>stored_files root d. \<forall>b k. file_at d (root @ q) = Some (b, k) \<longrightarrow> length b < 2 ^ 64"
    using assms(4) unfolding good_backup_def copyable_all by blast+
  show "verify_manifest_files V root d m = Inr ()"
    by (rule verify_files_complete [OF assms(1-3) g(1,2) _ g(3)]) (use decoded [OF b(3)] in simp)
qed

lemma verify_backup_complete:
  assumes "rooted root d" and "hasher_ok (be_hash V)" and "no_faults (be_os V)" and "good_backup V root d m"
  shows "verify_backup V root d = Inr m"
  using good_loads [OF assms] by (auto simp: verify_backup_def load_manifest_def)

section \<open>Restoring what was accepted\<close>

lemma good_files:
  assumes "rooted root d" and "good_backup V root d m" and "f \<in> set (bm_files m)"
  shows "\<exists>q\<in>stored_files root d. f = record_of (be_hash V) root d q \<and> checked_relative (bf_path f) = Inr q \<and> copyable root d q"
proof -
  obtain q where q: "q \<in> stored_files root d" "f = record_of (be_hash V) root d q"
    using assms(2,3) by (auto simp: good_backup_def lists_exactly_def)
  moreover have "copyable root d q" using assms(2) q(1) by (simp add: good_backup_def)
  ultimately show ?thesis using checked_stored [OF assms(1) q(1)] by auto
qed

lemma good_covers:
  assumes "rooted root d" and "good_backup V root d m" and "q \<in> stored_files root d"
  shows "\<exists>f\<in>set (bm_files m). checked_relative (bf_path f) = Inr q"
proof -
  have "record_of (be_hash V) root d q \<in> set (bm_files m)" using assms(2,3) by (simp add: good_backup_def lists_exactly_def)
  then show ?thesis using checked_stored [OF assms(1,3)] by force
qed

lemma confined_restore:
  "\<forall>part. (\<forall>n\<in>set part. name_ok n) \<longrightarrow> confined part (bind_s (restore_files V backup part fs) (\<lambda>_. ret m))"
  by (intro allI impI confined_bind confined_pure confined_restore_files)

text \<open>The tree before the partial directory was made is the tree after.\<close>

lemma with_partial:
  assumes R: "rooted src d" and part: "map_of d part = None" and ws: "workspace part (put_node part Folder d)"
  shows "rooted src (put_node part Folder d)" and "\<And>p. file_at (put_node part Folder d) p = file_at d p"
proof -
  show f: "file_at (put_node part Folder d) p = file_at d p" for p using fresh_partial(1) [OF rooted_disk(1) [OF R] part] .
  show "rooted src (put_node part Folder d)" using R ws part by (auto simp: rooted_def workspace_def portable_def f)
qed

lemma restore_verified_Inr:
  assumes H: "hasher_ok (be_hash V)" and R: "rooted backup (mc_disk M)" and G: "good_backup V backup (mc_disk M) m" and dst: "destination dst (mc_disk M)"
    and rs: "restore_verified_backup V backup dst m M = (M', r)"
  shows "(\<exists>e. r = Inl e) \<and> (mc_disk M' = mc_disk M \<or> as_before (be_os V) (partial_name (be_os V) dst (mc_nonce M)) (mc_disk M) (mc_disk M'))
    \<or> (\<exists>d3. delivered (partial_name (be_os V) dst (mc_nonce M)) dst (mc_disk M) d3 (mc_disk M')
         \<and> (\<forall>q. file_at (mc_disk M') (dst @ q) = (if q \<in> stored_files backup (mc_disk M) then file_at (mc_disk M) (backup @ q) else None))
         \<and> (r = Inr m \<or> (\<exists>e. r = Inl (BackupIo ''sync destination parent'' (butlast dst) e))))"
proof (cases "path_exists (be_os V) dst (mc_disk M) \<or> (\<exists>e. reject_nested_destination (be_os V) backup dst (mc_disk M) = Inl e)")
  case True
  then show ?thesis using rs by (auto simp: restore_verified_backup_def bind_s_def split: if_splits)
next
  case False
  let ?d = "mc_disk M" and ?part = "partial_name (be_os V) dst (mc_nonce M)"
  let ?d1 = "put_node ?part Folder ?d"
  let ?work = "\<lambda>part. bind_s (restore_files V backup part (bm_files m)) (\<lambda>_. ret m)"
  obtain u where rn: "reject_nested_destination (be_os V) backup dst ?d = Inr u" using False by (cases "reject_nested_destination (be_os V) backup dst ?d") auto
  then have ip: "in_partial (be_os V) ''restore'' dst (published (be_os V) dst ?work) M = (M', r)"
    using rs False by (simp add: restore_verified_backup_def bind_s_def)
  note ok = rooted_disk [OF R]
  from in_partial_cases [OF ip ok(1) dst confined_restore] show ?thesis
  proof
    assume "\<exists>d3 a. ?work ?part ?d1 = (d3, Inr a) \<and> delivered ?part dst ?d d3 (mc_disk M') \<and> workspace ?part ?d1
      \<and> (r = Inr a \<or> (\<exists>e. r = Inl (BackupIo ''sync destination parent'' (butlast dst) e)))"
    then obtain d3 a where st: "?work ?part ?d1 = (d3, Inr a)" and dl: "delivered ?part dst ?d d3 (mc_disk M')" and ws: "workspace ?part ?d1"
      and r: "r = Inr a \<or> (\<exists>e. r = Inl (BackupIo ''sync destination parent'' (butlast dst) e))" by blast
    have a: "a = m" "restore_files V backup ?part (bm_files m) ?d1 = (d3, Inr ())" using st by (auto elim!: bind_s_Inr)
    have pn: "map_of ?d ?part = None" using dl by (simp add: delivered_def)
    have "map_of ?d1 (butlast ?part) = Some Folder"
      using ws disk_ok_above [of ?d1 ?part "butlast ?part"] by (simp add: workspace_def partial_name_def strict_prefix_def)
    then have par: "map_of ?d (butlast dst) = Some Folder" by (auto simp: partial_name_def split: if_splits)
    note ap = partial_apart [OF nested_rejected [OF rn ok(2) par] ok(2) pn ok(1)]
    note fresh = with_partial(2) [OF R pn ws]
    have e: "file_at ?d1 (?part @ q) = None" for q using fresh_partial(2) [OF ok(1) pn] .
    have each: "\<forall>f\<in>set (bm_files m). \<exists>q. checked_relative (bf_path f) = Inr q \<and> file_at ?d1 (backup @ q) \<noteq> None"
      using good_files [OF R G] unfolding fresh copyable_def by fastforce
    have "file_at d3 (?part @ q) = (if q \<in> stored_files backup ?d then file_at ?d (backup @ q) else None)" for q
    proof -
      have "(\<exists>f\<in>set (bm_files m). checked_relative (bf_path f) = Inr q) \<longleftrightarrow> q \<in> stored_files backup ?d"
        using good_covers [OF R G, of q] good_files [OF R G] by fastforce
      then show ?thesis using restore_files_Inr [OF H ap a(2) each, of "?part @ q"] e [of q] by (simp add: fresh)
    qed
    then have "\<forall>q. file_at (mc_disk M') (dst @ q) = (if q \<in> stored_files backup ?d then file_at ?d (backup @ q) else None)"
      unfolding delivered_files [OF dl] by blast
    moreover have "r = Inr m \<or> (\<exists>e. r = Inl (BackupIo ''sync destination parent'' (butlast dst) e))" using r a(1) by simp
    ultimately show ?thesis using dl by - (rule disjI2, rule exI [of _ d3], rule conjI, assumption, rule conjI)
  qed blast
qed

lemma restore_verified_complete:
  assumes S: "no_faults (be_os V)" and H: "hasher_ok (be_hash V)" and R: "rooted backup (mc_disk M)" and G: "good_backup V backup (mc_disk M) m"
    and F: "free_place (be_os V) backup dst M"
  shows "\<exists>M'. restore_verified_backup V backup dst m M = (M', Inr m)"
proof -
  let ?part = "partial_name (be_os V) dst (mc_nonce M)" and ?d = "mc_disk M"
  let ?d1 = "put_node ?part Folder ?d" and ?Q = "stored_files backup (mc_disk M)"
  note ok = rooted_disk [OF R] and nn = no_nesting_stored [OF R]
  note fp = free_place_partial [OF F ok(1,2)]
  have pn: "map_of ?d ?part = None" using F by (simp add: free_place_def)
  note f1 = with_partial(2) [OF R pn fp(3)]
  have same: "record_of (be_hash V) backup ?d1 = record_of (be_hash V) backup ?d" "copyable backup ?d1 = copyable backup ?d"
    by (simp_all add: f1 record_of_def copyable_def fun_eq_iff)
  have fill: "filling ?part ?Q {} ?d1" unfolding filling_def
  proof (intro conjI allI impI fp(3))
    fix r x assume "map_of ?d1 (?part @ r) = Some x"
    then show "x = Folder \<and> (r = [] \<or> (\<exists>q\<in>?Q. strict_prefix r q)) \<or> r \<in> {}" using fp(4) by (cases "r = []") auto
  qed
  have each: "\<exists>q\<in>?Q - {}. f = record_of (be_hash V) backup ?d1 q \<and> checked_relative (join ''/'' q) = Inr q \<and> copyable backup ?d1 q" if f: "f \<in> set (bm_files m)" for f
  proof -
    obtain q where q: "q \<in> ?Q" "f = record_of (be_hash V) backup ?d q" "copyable backup ?d q" using good_files [OF R G f] by blast
    then show ?thesis using checked_stored [OF R q(1)] by (intro bexI [of _ q]) (simp_all add: same)
  qed
  have dist: "distinct (map bf_path (bm_files m))" using G by (simp add: good_backup_def lists_exactly_def)
  have "\<exists>d3. restore_files V backup ?part (bm_files m) ?d1 = (d3, Inr ())"
    by (rule restore_files_complete [OF S H fp(1,2) nn fp(5) fill empty_subsetI dist]) (intro ballI each)
  then obtain d3 where st: "restore_files V backup ?part (bm_files m) ?d1 = (d3, Inr ())" ..
  let ?work = "\<lambda>part. bind_s (restore_files V backup part (bm_files m)) (\<lambda>_. ret m)"
  have w: "?work ?part ?d1 = (d3, Inr m)" using st by (simp add: bind_s_def)
  have c: "confined ?part (?work ?part)" using confined_restore [THEN spec, THEN mp, OF fp(5)] .
  note ip = in_partial_complete [where what = "''restore''" and work = ?work, OF S F ok(1,2) c w]
  then show ?thesis using reject_complete [OF S F ok(2)] by (simp add: restore_verified_backup_def bind_s_def)
qed

section \<open>A finished backup\<close>

lemma backup_of_file:
  assumes "backup_of V signer version src d dst d' m" and "file_at d' (dst @ q) \<noteq> None"
  shows "q = [BACKUP_MANIFEST_FILE] \<or> q = [BACKUP_SIGNATURE_FILE] \<or> q \<in> kept_files src d"
  using assms unfolding backup_of_def by (metis (no_types, lifting))

lemma utf8_fixed [simp]: "utf8_valid BACKUP_MANIFEST_FILE" "utf8_valid BACKUP_SIGNATURE_FILE"
  by code_simp+

lemma backup_rooted:
  assumes R: "rooted src d" and B: "backup_of V signer version src d dst d' m" and dl: "delivered part dst d d3 d'" 
    and dst: "dst \<noteq> []" "name_ok (last dst)" and part: "butlast part = butlast dst" "part \<noteq> []"
  shows "rooted dst d'" and "nodes_clean src d src \<Longrightarrow> nodes_clean dst d' dst"
proof -
  note dd = delivered_disk [OF dl dst part]
  have plain: "CHR 0x5C \<notin> set n" if q: "file_at d' (dst @ q) \<noteq> None" "n \<in> set q" for q n
    using backup_of_file [OF B q(1)]
  proof (elim disjE)
    assume "q \<in> kept_files src d"
    then have "file_at d (src @ q) \<noteq> None" by (rule stored_file [OF kept_stored])
    then show ?thesis using rooted_disk(3) [OF R] q(2) unfolding portable_def by blast
  qed (use q(2) in \<open>auto simp: BACKUP_MANIFEST_FILE_def BACKUP_SIGNATURE_FILE_def\<close>)
  then show r: "rooted dst d'" using dd(1,2) by (auto simp: rooted_def portable_def)
  assume cl: "nodes_clean src d src"
  have utf: "utf8_valid (join ''/'' q)" if q: "file_at d' (dst @ q) \<noteq> None" for q
    using backup_of_file [OF B q]
  proof (elim disjE)
    assume k: "q \<in> kept_files src d"
    then obtain b n where "map_of d (src @ q) = Some (File b n)" using stored_file [OF kept_stored [OF k]] by (auto simp: file_at_Some)
    then have "File b n = Folder \<or> (\<exists>b' k'. File b n = File b' k') \<and> relative_string src (src @ q) = Inr (rel_name src (src @ q))"
      using cl prefixI [OF refl] unfolding nodes_clean_def by blast
    then show ?thesis by (simp add: relative_string_Inr)
  qed simp_all
  show "nodes_clean dst d' dst" unfolding nodes_clean_def
  proof (intro allI impI)
    fix p x assume p: "prefix dst p" "map_of d' p = Some x"
    then obtain q where q: "p = dst @ q" by (auto simp: prefix_def)
    show "x = Folder \<or> (\<exists>b m. x = File b m) \<and> relative_string dst p = Inr (rel_name dst p)"
    proof (cases "x = Folder")
      case False
      then obtain b n where "x = File b n" using dd(3) [OF p] by blast
      then have "file_at d' (dst @ q) \<noteq> None" using p(2) q by (simp add: file_at_def)
      then show ?thesis using utf q \<open>x = File b n\<close> by (simp add: relative_string_Inr)
    qed simp
  qed
qed

lemma backup_copyable:
  assumes "backup_of V signer version src d dst d' m"
  shows "\<forall>q\<in>stored_files dst d'. copyable dst d' q"
proof
  fix q assume q: "q \<in> stored_files dst d'"
  then have k: "q \<in> kept_files src d" using backup_of_stored [OF assms] by simp
  then have n: "q \<noteq> [BACKUP_MANIFEST_FILE]" "q \<noteq> [BACKUP_SIGNATURE_FILE]" by (simp_all add: kept_files_def stored_files_def)
  obtain b n' where b: "file_at d (src @ q) = Some (b, n')" using stored_file [OF kept_stored [OF k]] by auto
  moreover have "length b < 2 ^ 64" using assms k b unfolding backup_of_def by blast
  ultimately show "copyable dst d' q" using assms k n by (auto simp: copyable_def backup_of_def)
qed

text \<open>Documented of \<open>serde_json\<close>: what was written is read back, the newline at its end being white space.\<close>

definition manifest_json_ok :: "backup_codec \<Rightarrow> bool" where
  "manifest_json_ok J \<longleftrightarrow> (\<forall>m j. bc_manifest J m = Inr j \<longrightarrow> bc_manifest_of J (j @ newline) = Inr m)"

definition signature_json_ok :: "backup_codec \<Rightarrow> bool" where
  "signature_json_ok J \<longleftrightarrow> (\<forall>s j. bc_signature J s = Inr j \<longrightarrow> bc_signature_of J (j @ newline) = Inr s)"

lemma backup_manifest_decodes:
  assumes "backup_of V signer version src d dst d' m" and "manifest_json_ok (be_json V)" and "bm_tenant m \<noteq> []"
  shows "\<exists>j. bc_manifest (be_json V) m = Inr j \<and> file_at d' (dst @ [BACKUP_MANIFEST_FILE]) = Some (j @ newline, os_umode (be_os V))
    \<and> decode_manifest (be_json V) (j @ newline) = Inr m \<and> signature_written V signer version (j @ newline) (file_at d' (dst @ [BACKUP_SIGNATURE_FILE]))"
proof -
  obtain j where j: "bc_manifest (be_json V) m = Inr j" "file_at d' (dst @ [BACKUP_MANIFEST_FILE]) = Some (j @ newline, os_umode (be_os V))"
    "signature_written V signer version (j @ newline) (file_at d' (dst @ [BACKUP_SIGNATURE_FILE]))" using assms(1) unfolding backup_of_def by blast
  have f: "bm_format_version m = BACKUP_FORMAT_VERSION" "length (bm_files m) \<le> MAX_BACKUP_FILES" using assms(1) unfolding backup_of_def by blast+
  have "bc_manifest_of (be_json V) (j @ newline) = Inr m" using assms(2) j(1) unfolding manifest_json_ok_def by blast
  then have "decode_manifest (be_json V) (j @ newline) = Inr m" using f assms(3) by (simp add: decode_manifest_def json_r_def)
  then show ?thesis using j by blast
qed

lemma backup_good:
  assumes "backup_of V signer version src d dst d' m" and "manifest_json_ok (be_json V)" and "bm_tenant m \<noteq> []" and "nodes_clean dst d' dst"
    and "\<forall>j. bc_manifest (be_json V) m = Inr j \<longrightarrow> length (j @ newline) \<le> MAX_MANIFEST_BYTES"
  shows "good_backup V dst d' m"
  using backup_manifest_decodes [OF assms(1-3)] assms(4,5) backup_of_lists [OF assms(1)] backup_copyable [OF assms(1)]
  unfolding good_backup_def by blast

text \<open>Another system, disk or process may read the backup: what counts is the tree below its root.\<close>

lemma good_backup_elsewhere:
  assumes "\<forall>q. map_of d2 (root @ q) = map_of d (root @ q)" and "be_hash V2 = be_hash V" and "be_json V2 = be_json V"
  shows "good_backup V2 root d2 m = good_backup V root d m" and "stored_files root d2 = stored_files root d"
    and "disk_ok d2 \<Longrightarrow> rooted root d \<Longrightarrow> rooted root d2"
proof -
  have f: "file_at d2 (root @ q) = file_at d (root @ q)" for q using assms(1) by (simp add: file_at_def)
  have n: "nodes_clean root d2 root = nodes_clean root d root"
  proof -
    have "map_of d2 p = map_of d p" if "prefix root p" for p using assms(1) that by (auto simp: prefix_def)
    then show ?thesis by (simp add: nodes_clean_def)
  qed
  show s: "stored_files root d2 = stored_files root d" by (simp add: stored_files_def f)
  have "record_of (be_hash V) root d2 = record_of (be_hash V) root d" by (simp add: fun_eq_iff record_of_def f)
  then show "good_backup V2 root d2 m = good_backup V root d m" using assms(2,3) by (simp add: good_backup_def n s lists_exactly_def f copyable_def)
  show "rooted root d2" if "disk_ok d2" "rooted root d"
    using that assms(1) [THEN spec, of "[]"] by (simp add: rooted_def portable_def f)
qed

section \<open>What later proofs use of a finished backup\<close>

lemma created_root:
  assumes "rooted src d" and "backup_of V signer version src d bak d' m" and "delivered (partial_name S bak n) bak d d3 d'" and "destination bak d"
  shows "rooted bak d'" and "nodes_clean src d src \<Longrightarrow> nodes_clean bak d' bak"
proof -
  have bk: "bak \<noteq> []" "name_ok (last bak)" using assms(4) by (simp_all add: destination_def)
  have pt: "partial_name S bak n \<noteq> []" by (simp add: partial_name_def)
  show "rooted bak d'" "nodes_clean src d src \<Longrightarrow> nodes_clean bak d' bak" using backup_rooted [OF assms(1-3) bk partial_name_ok(1) [OF bk] pt] .
qed

lemma created_good:
  assumes "manifest_json_ok (be_json V)" and B: "backup_of V signer version src d bak d' m" and fit: "manifest_fits V src d tenant"
    and t: "bm_tenant m = tenant" "tenant \<noteq> []" and "nodes_clean bak d' bak"
  shows "good_backup V bak d' m"
proof -
  have "length (j @ newline) \<le> MAX_MANIFEST_BYTES" if "bc_manifest (be_json V) m = Inr j" for j
    using fit B t(1) that unfolding manifest_fits_def backup_of_def by fastforce
  then show ?thesis using backup_good [OF B assms(1) _ assms(6)] t by blast
qed

text \<open>The signature file.\<close>

lemma load_signature_Inr:
  assumes "load_signature J S root d = Inr r"
  shows "\<exists>s k. file_at d (root @ [BACKUP_SIGNATURE_FILE]) = Some (s, k) \<and> bc_signature_of J s = Inr r"
proof -
  let ?p = "root @ [BACKUP_SIGNATURE_FILE]"
  obtain x where x: "std_lstat S ?p d = Inr x" using assms by (auto simp: load_signature_def Let_def split: sum.splits os_error.splits)
  then obtain s k where s: "x = File s k" using assms by (cases x) (simp_all add: load_signature_def Let_def)
  have m: "map_of d ?p = Some (File s k)" using x s by (simp add: lstat_Inr)
  have "bind_r (io ''read signature'' ?p (std_read S ?p d)) (\<lambda>b. json_r (\<lambda>e. Authenticity (RecordInvalid e)) (bc_signature_of J b)) = Inr r"
    using assms x s by (simp add: load_signature_def Let_def split: if_splits)
  then obtain b where b: "std_read S ?p d = Inr b" "json_r (\<lambda>e. Authenticity (RecordInvalid e)) (bc_signature_of J b) = Inr r"
    by (auto simp: bind_r_Inr_iff io_Inr)
  have "b = s" using b(1) follow_plain [OF m] by (auto simp: std_read_def std_open_def bind_r_Inr_iff)
  then show ?thesis using b(2) m by (auto simp: json_r_def file_at_Some split: sum.splits)
qed

lemma load_signature_complete:
  assumes "no_faults S" and "file_at d (root @ [BACKUP_SIGNATURE_FILE]) = Some (s, k)" and "length s \<le> MAX_SIGNATURE_BYTES" and "bc_signature_of J s = Inr r"
  shows "load_signature J S root d = Inr r"
proof -
  have m: "map_of d (root @ [BACKUP_SIGNATURE_FILE]) = Some (File s k)" using assms(2) by (simp add: file_at_Some)
  then show ?thesis using follow_plain [OF m] assms(1,3,4)
    by (simp add: load_signature_def std_lstat_def std_read_def std_open_def io_def json_r_def Let_def)
qed

lemma to_hex_length: "length (to_hex b) = 2 * length b"
  by (induction b) (simp_all add: to_hex_def)

lemma backup_decode_hex: "length b = n \<Longrightarrow> backup_decode_hex n (to_hex b) what = Inr b"
  by (simp add: backup_decode_hex_def to_hex_length hex_pairs_to_hex)

end
