(* ===== verification/LoomBackupDemo.thy ===== *)
theory LoomBackupDemo
  imports LoomBackupVerified LoomKeysProps
begin

text \<open>A concrete database directory, with a checksum for the hash and a codec that knows one manifest.\<close>

section \<open>The parameters\<close>

definition toy_os :: os where "toy_os = \<lparr>os_fault = (\<lambda>_ _. None), os_pid = 7, os_umode = 420\<rparr>"

definition toy_sum :: "u64 blake3" where
  "toy_sum = \<lparr>b3_new = 0, b3_update = (\<lambda>h b. fold (\<lambda>c x. x + of_nat (nat_of_byte c)) b h), b3_finalize = (\<lambda>x. [byte_of (unat x mod 256)])\<rparr>"

definition toy_manifest :: backup_manifest where
  "toy_manifest = \<lparr>bm_format_version = 1, bm_tenant = ''t'', bm_files = [\<lparr>bf_path = ''loom/a'', bf_bytes = 1, bf_blake3 = ''78''\<rparr>]\<rparr>"

text \<open>The signature of the padded scheme does not depend on the message, so the digest tells the records apart.\<close>

definition toy_record :: "nat \<Rightarrow> bytes \<Rightarrow> backup_signature" where
  "toy_record n digest = \<lparr>bs_format_version = n, bs_algorithm = ''ed25519'', bs_key_id = ''q3'', bs_manifest_blake3 = digest,
     bs_ed25519 = to_hex (replicate 32 (byte_of 17) @ replicate 32 (byte_of 17))\<rparr>"

definition toy_json :: "nat \<Rightarrow> backup_codec" where
  "toy_json n = \<lparr>bc_manifest = (\<lambda>m. if m = toy_manifest then Inr ''M'' else Inl ''e''),
     bc_manifest_of = (\<lambda>b. if b = ''M'' @ newline then Inr toy_manifest else Inl ''e''),
     bc_signature = (\<lambda>s. if s = toy_record n (bs_manifest_blake3 s) then Inr (bs_manifest_blake3 s) else Inl ''e''),
     bc_signature_of = (\<lambda>b. Inr (toy_record n (butlast b)))\<rparr>"

definition toy_env :: "nat \<Rightarrow> u64 backup_env" where
  "toy_env n = \<lparr>be_os = toy_os, be_hash = toy_sum, be_json = toy_json n, be_ed = padded\<rparr>"

lemma toy_env [simp]: "be_os (toy_env n) = toy_os" "be_hash (toy_env n) = toy_sum" "be_json (toy_env n) = toy_json n" "be_ed (toy_env n) = padded"
  by (simp_all add: toy_env_def)

lemma toy_os [simp]: "no_faults toy_os" "os_umode toy_os = 420" "os_pid toy_os = 7"
  by (simp_all add: no_faults_def toy_os_def)

lemma toy_hasher [simp]: "hasher_ok toy_sum"
  by (simp add: hasher_ok_def toy_sum_def)

lemma toy_codec [simp]: "manifest_json_ok (toy_json n)" "signature_json_ok (toy_json n)"
  by (auto simp: manifest_json_ok_def signature_json_ok_def toy_json_def newline_def split: if_splits)

lemma toy_padded [simp]: "ed25519_ok padded"
  by (auto simp: ed25519_ok_def padded_def toy_ed25519_def min_def)

section \<open>The directory\<close>

definition toy_machine :: machine where
  "toy_machine = \<lparr>mc_disk = [([], Folder), ([''db''], Folder), ([''db'', ''loom''], Folder), ([''db'', ''loom'', ''a''], File ''x'' 384),
     ([''db'', ''loom'', ''store.lock''], File [] 384)], mc_nonce = 0\<rparr>"

abbreviation "toy_disk \<equiv> [([], Folder), ([''db''], Folder), ([''db'', ''loom''], Folder), ([''db'', ''loom'', ''a''], File ''x'' 384),
     ([''db'', ''loom'', ''store.lock''], File [] 384)]"

lemma toy_machine [simp]: "mc_disk toy_machine = toy_disk" "mc_nonce toy_machine = 0"
  by (simp_all add: toy_machine_def)

lemma disk_ok_listed:
  assumes "map_of d [] = Some Folder" and "\<forall>w\<in>set d. fst w = [] \<or> map_of d (butlast (fst w)) = Some Folder \<and> name_ok (last (fst w))"
  shows "disk_ok d"
proof -
  have "map_of d p = Some Folder \<and> name_ok n" if node: "map_of d (p @ [n]) \<noteq> None" for p n
  proof -
    obtain x where "map_of d (p @ [n]) = Some x" using node by blast
    then have "(p @ [n], x) \<in> set d" by (rule map_of_SomeD)
    then show ?thesis using assms(2) by fastforce
  qed
  then show ?thesis using assms(1) unfolding disk_ok_def by blast
qed

lemma toy_rooted: "rooted [''db''] toy_disk"
proof -
  have "disk_ok toy_disk" by (rule disk_ok_listed) (simp_all add: name_ok_def)
  moreover have "portable [''db''] toy_disk" by (auto simp: portable_def file_at_def)
  ultimately show ?thesis by (simp add: rooted_def)
qed

lemma toy_kept: "kept_files [''db''] toy_disk = {[''loom'', ''a'']}"
  by (auto simp: kept_files_def stored_files_def file_at_def BACKUP_MANIFEST_FILE_def BACKUP_SIGNATURE_FILE_def split: if_splits)

lemma toy_names: "relative_string [''db''] [''db'', ''loom'', ''a''] = Inr (rel_name [''db''] [''db'', ''loom'', ''a''])"
  "relative_string [''db''] [''db'', ''loom'', ''store.lock''] = Inr (rel_name [''db''] [''db'', ''loom'', ''store.lock''])"
  by code_simp+

lemma toy_backable: "backable [''db''] toy_disk"
proof -
  have "nodes_clean [''db''] toy_disk [''db'']" using toy_names by (auto simp: nodes_clean_def split: if_splits)
  then show ?thesis using toy_rooted
    by (simp add: backable_def toy_kept copyable_def file_at_def MAX_BACKUP_FILES_def BACKUP_MANIFEST_FILE_def BACKUP_SIGNATURE_FILE_def)
qed

lemma toy_partial: "partial_name toy_os [n] k = [''.'' @ n @ ''.partial-7-'' @ decimal (unat k)]"
proof -
  have "decimal 7 = ''7''" by code_simp
  then show ?thesis by (simp add: partial_name_def)
qed

lemma toy_utf8: "utf8_valid ''bk''" "utf8_valid ''rs''"
  by code_simp+

lemma toy_place: "free_place toy_os [''db''] [''bk''] toy_machine"
  using toy_utf8 by (simp add: free_place_def destination_def toy_partial name_ok_def del: utf8_valid.simps)

lemma toy_fits: "manifest_fits (toy_env n) [''db''] toy_disk ''t''"
proof -
  have r: "record_of toy_sum [''db''] toy_disk [''loom'', ''a''] = \<lparr>bf_path = ''loom/a'', bf_bytes = 1, bf_blake3 = ''78''\<rparr>"
    by (simp add: record_of_def file_at_def) code_simp
  have one: "xs = [x]" if "distinct (map f xs)" "set xs = {x}" for f :: "backup_file \<Rightarrow> bytes" and x xs
    using that by (cases xs; cases "tl xs") auto
  have "m = toy_manifest" if "bm_format_version m = 1" "bm_tenant m = ''t''" "distinct (map bf_path (bm_files m))"
    "set (bm_files m) = {\<lparr>bf_path = ''loom/a'', bf_bytes = 1, bf_blake3 = ''78''\<rparr>}" for m :: backup_manifest
    using that(1,2) one [OF that(3,4)] by (simp add: toy_manifest_def)
  then show ?thesis
    by (simp add: manifest_fits_def BACKUP_FORMAT_VERSION_def toy_kept r toy_json_def MAX_MANIFEST_BYTES_def newline_def)
qed

lemma toy_unsigned: "signer_fits V None n"
  by (simp add: signer_fits_def)

lemma toy_signer:
  assumes "n = 1 \<or> n = 2"
  shows "signer_fits (toy_env n) (Some (''q3'', replicate 32 (byte_of 17))) n"
proof -
  have "signature_of (toy_env n) ''q3'' (replicate 32 (byte_of 17)) n b p = toy_record n (to_hex (b3 toy_sum b))" for b p
    by (simp add: signature_of_def toy_record_def padded_def toy_ed25519_def)
  moreover have "length (to_hex (b3 toy_sum b)) = 2" for b by (simp add: to_hex_length b3_def toy_sum_def)
  ultimately show ?thesis using assms
    by (auto simp: signer_fits_def toy_json_def toy_record_def newline_def MAX_SIGNATURE_BYTES_def BACKUP_SIGNATURE_VERSION_def
      BACKUP_SIGNATURE_VERSION_V2_def nat_of_byte_def)
qed

section \<open>Backing it up\<close>

lemma toy_created:
  assumes "signer_fits (toy_env n) signer version"
  shows "\<exists>M1 m. create_backup_inner (toy_env n) [''db''] [''bk''] ''t'' signer version toy_machine = (M1, Inr m)"
  by (rule create_backup_complete) (use assms toy_backable toy_place toy_fits in simp_all)

text \<open>Next to the backup there is room for a restore.\<close>

lemma toy_room:
  assumes "delivered (partial_name toy_os [''bk''] 0) [''bk''] toy_disk d3 (mc_disk M1)" and "disk_ok (mc_disk M1)"
  shows "free_place toy_os [''bk''] [''rs''] M1"
proof -
  have d: "disk_ok toy_disk" using toy_rooted by (simp add: rooted_def)
  have e: "map_of (mc_disk M1) q = map_of toy_disk q" if "\<not> prefix [''bk''] q" for q by (rule delivered_elsewhere [OF assms(1) d that])
  have "map_of (mc_disk M1) [] = Some Folder" using assms(2) by (simp add: disk_ok_def)
  then show ?thesis using e [of "[''rs'']"] e [of "partial_name toy_os [''rs''] (mc_nonce M1)"]
    using toy_utf8 by (simp add: free_place_def destination_def name_ok_def toy_partial del: utf8_valid.simps)
qed

lemma toy_backup:
  assumes "create_backup_inner (toy_env n) [''db''] [''bk''] ''t'' signer k toy_machine = (M1, Inr m)"
  shows "rooted [''bk''] (mc_disk M1)" and "good_backup (toy_env n) [''bk''] (mc_disk M1) m" and "free_place toy_os [''bk''] [''rs''] M1"
proof -
  have dst: "destination [''bk''] toy_disk" using toy_place by (simp add: free_place_def)
  obtain d3 where dl: "delivered (partial_name toy_os [''bk''] 0) [''bk''] toy_disk d3 (mc_disk M1)"
    and B: "backup_of (toy_env n) signer k [''db''] toy_disk [''bk''] (mc_disk M1) m" and t: "bm_tenant m = ''t''"
    using create_backup_Inr [OF _ _ _ assms] toy_rooted dst by auto
  note root = created_root [OF toy_rooted B dl dst]
  show "rooted [''bk''] (mc_disk M1)" by (rule root(1))
  have "nodes_clean [''db''] toy_disk [''db'']" using toy_backable by (simp add: backable_def)
  then show "good_backup (toy_env n) [''bk''] (mc_disk M1) m" by (intro created_good [OF _ B toy_fits t] root(2)) simp_all
  show "free_place toy_os [''bk''] [''rs''] M1" by (rule toy_room [OF dl rooted_disk(1) [OF root(1)]])
qed

section \<open>A system that cannot list directories\<close>

definition toy_blind :: "u64 backup_env" where
  "toy_blind = (toy_env 2)\<lparr>be_os := toy_os\<lparr>os_fault := \<lambda>c p. if c = ReadDir then Some (OsError ''blind'') else None\<rparr>\<rparr>"

lemma follow_some: "map_of d p = Some n \<Longrightarrow> \<forall>t. n \<noteq> Link t \<Longrightarrow> follow d p = Some n" "map_of d p = None \<Longrightarrow> follow d p = None"
  by (rule follow_plain) (simp_all add: follow_None)

lemma toy_blind [simp]: "be_hash toy_blind = toy_sum" "os_fault (be_os toy_blind) RemoveAll p = None" "os_fault (be_os toy_blind) Stat p = None"
  by (simp_all add: toy_blind_def)

lemma toy_destination: "destination [''bk''] toy_disk"
  by (simp add: destination_def name_ok_def)

lemma toy_blind_fails:
  "\<exists>M'. create_backup_inner toy_blind [''db''] [''bk''] ''t'' None version toy_machine = (M', Inl (BackupIo ''read directory'' [''db''] (OsError ''blind'')))"
proof -
  have pt: "partial_path (be_os toy_blind) [''bk''] toy_machine = (toy_machine\<lparr>mc_nonce := 1\<rparr>, Inr (partial_name toy_os [''bk''] 0))"
    using toy_utf8 by (simp add: partial_path_def path_is_dir_def std_stat_def sys_def toy_blind_def parent_of_def follow_some partial_name_def Let_def del: utf8_valid.simps)
  have "stage_backup toy_blind [''db''] ''t'' None version part d = (d, Inl (BackupIo ''read directory'' [''db''] (OsError ''blind'')))" for part d
    by (simp add: stage_backup_def bind_s_def walk_files_def list_dir_def std_read_dir_def sys_def io_def toy_blind_def)
  then show ?thesis using pt
    by (simp add: create_backup_inner_def path_exists_def std_stat_def sys_def follow_some reject_nested_destination_def std_canonicalize_def canon_plain io_def
      parent_of_def in_partial_def published_def bind_s_def io_s_def std_mkdir_def toy_partial) (simp add: toy_blind_def)
qed

section \<open>A signed backup on disk\<close>

definition toy_plain_env :: "u64 backup_env" where
  "toy_plain_env = (toy_env 2)\<lparr>be_ed := toy_ed25519\<rparr>"

definition toy_signed_disk :: disk where
  "toy_signed_disk = [([], Folder), ([''bk''], Folder), ([''bk'', BACKUP_MANIFEST_FILE], File (''M'' @ newline) 420),
     ([''bk'', BACKUP_SIGNATURE_FILE], File (to_hex (b3 toy_sum (''M'' @ newline)) @ newline) 420)]"

lemma toy_signed_loads:
  "load_manifest_bytes (be_os toy_plain_env) [''bk''] toy_signed_disk = Inr (''M'' @ newline)"
  "load_signature (be_json toy_plain_env) (be_os toy_plain_env) [''bk''] toy_signed_disk = Inr (toy_record 2 (to_hex (b3 toy_sum (''M'' @ newline))))"
  "check_signature_record (be_hash toy_plain_env) (toy_record 2 (to_hex (b3 toy_sum (''M'' @ newline)))) (''M'' @ newline) = Inr ()"
  "\<exists>sig. backup_decode_hex 64 (bs_ed25519 (toy_record 2 digest)) ''Ed25519 signature'' = Inr sig"
proof -
  have ne: "BACKUP_SIGNATURE_FILE \<noteq> BACKUP_MANIFEST_FILE" using fixed_names(3) by (rule not_sym)
  have f: "file_at toy_signed_disk ([''bk''] @ [BACKUP_MANIFEST_FILE]) = Some (''M'' @ newline, 420)"
    "file_at toy_signed_disk ([''bk''] @ [BACKUP_SIGNATURE_FILE]) = Some (to_hex (b3 toy_sum (''M'' @ newline)) @ newline, 420)"
    using ne by (simp_all add: toy_signed_disk_def file_at_def)
  have l: "length (to_hex (b3 toy_sum b)) = 2" for b by (simp add: to_hex_length b3_def toy_sum_def)
  show "load_manifest_bytes (be_os toy_plain_env) [''bk''] toy_signed_disk = Inr (''M'' @ newline)"
    by (rule load_manifest_complete [OF _ f(1)]) (simp_all add: toy_plain_env_def MAX_MANIFEST_BYTES_def newline_def)
  show "load_signature (be_json toy_plain_env) (be_os toy_plain_env) [''bk''] toy_signed_disk = Inr (toy_record 2 (to_hex (b3 toy_sum (''M'' @ newline))))"
    by (rule load_signature_complete [OF _ f(2)]) (simp_all add: toy_plain_env_def MAX_SIGNATURE_BYTES_def newline_def toy_json_def l)
  show "check_signature_record (be_hash toy_plain_env) (toy_record 2 (to_hex (b3 toy_sum (''M'' @ newline)))) (''M'' @ newline) = Inr ()"
    by (simp add: check_signature_record_def toy_plain_env_def toy_record_def BACKUP_SIGNATURE_VERSION_V2_def)
  show "\<exists>sig. backup_decode_hex 64 (bs_ed25519 (toy_record 2 digest)) ''Ed25519 signature'' = Inr sig"
    using backup_decode_hex [of "replicate 32 (byte_of 17) @ replicate 32 (byte_of 17)" 64] by (simp add: toy_record_def)
qed

lemma toy_public: "verifying_key padded (toy_root ''q3'' Active 1 (CHR ''1'')) = Inr (replicate 32 (byte_of 17))"
proof -
  have vk0: "verifying_key L = verifying_key toy_ed25519" if "ed_point L = (\<lambda>_. None)" for L
    using that by (auto simp: fun_eq_iff verifying_key_def toy_ed25519_def split: option.splits)
  have "hex_value (CHR ''1'') = Some 1" by (simp add: hex_value_def nat_of_byte_def)
  then have "decode_hex 32 (replicate 64 (CHR ''1'')) = Some (replicate 32 (byte_of 17))"
    using toy_hex [of "CHR ''1''" 1 32] toy_trim [of "CHR ''1''" 64] by (simp add: decode_hex_def)
  then show ?thesis using vk0 [of padded] by (simp add: verifying_key_def toy_root_def padded_def toy_ed25519_def)
qed

end
