(* ===== verification/LoomBackupProps.thy ===== *)
theory LoomBackupProps
  imports LoomBackupDemo
begin

text \<open>
  The properties of backup and restore (\<open>crates/loom-branch/src/backup.rs\<close>): what verification accepts,
  that a backup restores to what was backed up, that both go through and what a failure leaves,
  and what a signature on a backup stands for.
\<close>

section \<open>Signed payloads\<close>

lemma separated: "CHR 0x00 \<notin> set a \<Longrightarrow> CHR 0x00 \<notin> set b \<Longrightarrow> a @ CHR 0x00 # x = b @ CHR 0x00 # y \<longleftrightarrow> a = b \<and> x = y"
proof (induction a arbitrary: b)
  case Nil
  then show ?case by (cases b) auto
next
  case (Cons c a)
  then show ?case by (cases b) auto
qed

lemma domains_differ: "SIGNATURE_DOMAIN @ x \<noteq> SIGNATURE_DOMAIN_V2 @ y"
  by (simp add: SIGNATURE_DOMAIN_def SIGNATURE_DOMAIN_V2_def)

lemma payload_v1_inj:
  "CHR 0x00 \<notin> set k \<Longrightarrow> CHR 0x00 \<notin> set k' \<Longrightarrow> signature_payload k a = signature_payload k' b \<longleftrightarrow> k = k' \<and> a = b"
  by (simp add: signature_payload_def separated)

lemma payload_v2_inj:
  assumes "length k < 2 ^ 64" and "length k' < 2 ^ 64"
  shows "signature_payload_v2 k a = signature_payload_v2 k' b \<longleftrightarrow> k = k' \<and> a = b"
proof
  assume e: "signature_payload_v2 k a = signature_payload_v2 k' b"
  then have p: "u64_le (of_nat (length k)) = u64_le (of_nat (length k'))" "k @ a = k' @ b"
    by (simp_all add: signature_payload_v2_def)
  then have "unat (of_nat (length k) :: u64) = unat (of_nat (length k') :: u64)" by simp
  then have "length k = length k'" using assms by (simp add: unat_of_nat)
  then show "k = k' \<and> a = b" using p(2) by simp
qed simp

text \<open>A record whose key id has no NUL, as every record that was written has.\<close>

definition plain_record :: "backup_signature \<Rightarrow> bool" where
  "plain_record r \<longleftrightarrow> CHR 0x00 \<notin> set (bs_key_id r) \<and> length (bs_key_id r) < 2 ^ 64"

lemma payload_pins:
  assumes "verified_payload H r a = Inr p" and "verified_payload H r' b = Inr p" and "plain_record r" and "plain_record r'"
  shows "bs_format_version r = bs_format_version r' \<and> bs_key_id r = bs_key_id r' \<and> b3 H a = b3 H b
    \<and> (bs_format_version r = BACKUP_SIGNATURE_VERSION \<longrightarrow> a = b)"
proof -
  note payloads = verified_payload_def plain_record_def signature_payload_def signature_payload_v2_def
  have v: "bs_format_version r = BACKUP_SIGNATURE_VERSION \<and> p = signature_payload (bs_key_id r) a
      \<or> bs_format_version r = BACKUP_SIGNATURE_VERSION_V2 \<and> p = signature_payload_v2 (bs_key_id r) (b3 H a)"
    using assms(1) by (auto simp: verified_payload_def split: if_splits)
  have v': "bs_format_version r' = BACKUP_SIGNATURE_VERSION \<and> p = signature_payload (bs_key_id r') b
      \<or> bs_format_version r' = BACKUP_SIGNATURE_VERSION_V2 \<and> p = signature_payload_v2 (bs_key_id r') (b3 H b)"
    using assms(2) by (auto simp: verified_payload_def split: if_splits)
  have n: "CHR 0x00 \<notin> set (bs_key_id r)" "CHR 0x00 \<notin> set (bs_key_id r')" "length (bs_key_id r) < 2 ^ 64" "length (bs_key_id r') < 2 ^ 64"
    using assms(3,4) by (simp_all add: plain_record_def)
  have d: "signature_payload x y \<noteq> signature_payload_v2 z w" for x y z w
    using domains_differ by (simp add: signature_payload_def signature_payload_v2_def)
  have ne: "BACKUP_SIGNATURE_VERSION \<noteq> BACKUP_SIGNATURE_VERSION_V2" by (simp add: BACKUP_SIGNATURE_VERSION_def BACKUP_SIGNATURE_VERSION_V2_def)
  from v v' show ?thesis
    using d payload_v1_inj [OF n(1,2)] payload_v2_inj [OF n(3,4)] ne by (elim disjE conjE) auto
qed

section \<open>Verification\<close>

text \<open>C16: verification accepts exactly the good backups: the manifest at the root is a regular file of at
  most 16 MiB that decodes to \<open>m\<close>, the tree below the root has no link and no special file, and \<open>m\<close> lists every file but
  manifest and signature exactly once, with its length and digest, and nothing else.  What is accepted is a good
  backup whatever the system refuses, and if it refuses nothing every good backup is accepted.\<close>

theorem verification_is_exact:
  assumes R: "rooted root d" and H: "hasher_ok (be_hash V)"
  shows "(verify_backup V root d = Inr m \<longrightarrow> good_backup V root d m)
    \<and> (no_faults (be_os V) \<longrightarrow> good_backup V root d m \<longrightarrow> verify_backup V root d = Inr m)"
  using verify_backup_Inr [OF R H] verify_backup_complete [OF R H] by blast

theorem verification_is_exact_witness:
  "\<exists>M1 m. create_backup (toy_env 2) [''db''] [''bk''] ''t'' toy_machine = (M1, Inr m) \<and> verify_backup (toy_env 2) [''bk''] (mc_disk M1) = Inr m"
proof -
  obtain M1 m where c: "create_backup_inner (toy_env 2) [''db''] [''bk''] ''t'' None BACKUP_SIGNATURE_VERSION toy_machine = (M1, Inr m)"
    using toy_created [OF toy_unsigned] by blast
  have "rooted [''bk''] (mc_disk M1) \<and> good_backup (toy_env 2) [''bk''] (mc_disk M1) m" using toy_backup [OF c] by blast
  then have "verify_backup (toy_env 2) [''bk''] (mc_disk M1) = Inr m"
    using verification_is_exact [of "[''bk'']" "mc_disk M1" "toy_env 2" m] by simp
  then show ?thesis using c by (auto simp: create_backup_def)
qed

section \<open>Backing up and restoring\<close>

text \<open>C17: what is restored is what was backed up: when a backup was made, signed or not, and the tree at its
  destination is later, on any system, restored to another place, the manifest is the same and the restored directory has exactly the files of the
  source but its process lock, byte for byte and with their permissions; nothing outside the new directory has
  changed.  This holds whatever calls the two systems refuse.\<close>

theorem restored_is_backed_up:
  assumes H: "hasher_ok (be_hash V)" and J: "manifest_json_ok (be_json V)" and R: "rooted src (mc_disk M0)" and bak: "destination bak (mc_disk M0)"
    and cr: "create_backup_inner V src bak tenant signer version M0 = (M1, Inr m)"
    and later: "\<forall>q. map_of (mc_disk M2) (bak @ q) = map_of (mc_disk M1) (bak @ q)" "disk_ok (mc_disk M2)" "be_hash V2 = be_hash V" "be_json V2 = be_json V"
    and dst: "destination dst (mc_disk M2)" and rs: "restore_backup V2 bak dst M2 = (M3, Inr m')"
  shows "m' = m
    \<and> (\<forall>q. file_at (mc_disk M3) (dst @ q) = (if q \<in> kept_files src (mc_disk M0) then file_at (mc_disk M0) (src @ q) else None))
    \<and> (\<forall>p. \<not> prefix dst p \<longrightarrow> map_of (mc_disk M3) p = map_of (mc_disk M2) p)"
proof -
  obtain d3 where dl: "delivered (partial_name (be_os V) bak (mc_nonce M0)) bak (mc_disk M0) d3 (mc_disk M1)"
    and B: "backup_of V signer version src (mc_disk M0) bak (mc_disk M1) m"
    using create_backup_Inr [OF H R bak cr] by auto
  have R1: "rooted bak (mc_disk M1)" by (rule created_root(1) [OF R B dl bak])
  note same = good_backup_elsewhere [OF later(1,3,4)]
  have R2: "rooted bak (mc_disk M2)" by (rule same(3) [OF later(2) R1])
  have H2: "hasher_ok (be_hash V2)" using H later(3) by simp
  obtain m2 where v: "verify_backup V2 bak (mc_disk M2) = Inr m2" "restore_verified_backup V2 bak dst m2 M2 = (M3, Inr m')"
    using rs by (auto simp: restore_backup_def elim!: bind_s_Inr)
  have G: "good_backup V2 bak (mc_disk M2) m2" by (rule verify_backup_Inr [OF R2 H2 v(1)])
  obtain d4 where e: "delivered (partial_name (be_os V2) dst (mc_nonce M2)) dst (mc_disk M2) d4 (mc_disk M3)" "m' = m2"
    "\<And>q. file_at (mc_disk M3) (dst @ q) = (if q \<in> stored_files bak (mc_disk M2) then file_at (mc_disk M2) (bak @ q) else None)"
    using restore_verified_Inr [OF H2 R2 G dst v(2)] by auto
  have G1: "good_backup V bak (mc_disk M1) m2" using G same(1) by simp
  have "m2 = m"
  proof -
    obtain b k where b: "file_at (mc_disk M1) (bak @ [BACKUP_MANIFEST_FILE]) = Some (b, k)" "decode_manifest (be_json V) b = Inr m2" using G1 by (auto simp: good_backup_def)
    obtain j where j: "bc_manifest (be_json V) m = Inr j" "file_at (mc_disk M1) (bak @ [BACKUP_MANIFEST_FILE]) = Some (j @ newline, os_umode (be_os V))"
      using B unfolding backup_of_def by blast
    have "bc_manifest_of (be_json V) b = Inr m" using J j b(1) unfolding manifest_json_ok_def by simp
    then show ?thesis using b(2) by (auto simp: decode_manifest_def json_r_def split: if_splits)
  qed
  moreover have "file_at (mc_disk M3) (dst @ q) = (if q \<in> kept_files src (mc_disk M0) then file_at (mc_disk M0) (src @ q) else None)" for q
  proof -
    have "file_at (mc_disk M2) (bak @ q) = file_at (mc_disk M0) (src @ q)" if k: "q \<in> kept_files src (mc_disk M0)"
    proof -
      have "q \<noteq> [BACKUP_MANIFEST_FILE]" "q \<noteq> [BACKUP_SIGNATURE_FILE]" using k by (simp_all add: kept_files_def stored_files_def)
      then have "file_at (mc_disk M1) (bak @ q) = file_at (mc_disk M0) (src @ q)" using B k by (simp add: backup_of_def)
      then show ?thesis using later(1) by (simp add: file_at_def)
    qed
    then show ?thesis unfolding e(3) same(2) backup_of_stored [OF B] by simp
  qed
  ultimately show ?thesis using e(2) delivered_elsewhere [OF e(1) later(2)] by blast
qed

theorem restored_is_backed_up_witness:
  "\<exists>M1 M3 m. create_backup (toy_env 2) [''db''] [''bk''] ''t'' toy_machine = (M1, Inr m)
     \<and> restore_backup (toy_env 2) [''bk''] [''rs''] M1 = (M3, Inr m)
     \<and> file_at (mc_disk M3) [''rs'', ''loom'', ''a''] = Some (''x'', 384) \<and> file_at (mc_disk M3) [''rs'', ''loom'', ''store.lock''] = None"
proof -
  obtain M1 m where c: "create_backup_inner (toy_env 2) [''db''] [''bk''] ''t'' None BACKUP_SIGNATURE_VERSION toy_machine = (M1, Inr m)"
    using toy_created [OF toy_unsigned] by blast
  note b = toy_backup [OF c]
  then have ok: "disk_ok (mc_disk M1)" by (simp add: rooted_def)
  have v: "verify_backup (toy_env 2) [''bk''] (mc_disk M1) = Inr m" by (rule verify_backup_complete) (use b in simp_all)
  have "\<exists>M3. restore_verified_backup (toy_env 2) [''bk''] [''rs''] m M1 = (M3, Inr m)"
    by (rule restore_verified_complete) (use b in simp_all)
  then obtain M3 where r: "restore_backup (toy_env 2) [''bk''] [''rs''] M1 = (M3, Inr m)" using v by (auto simp: restore_backup_def bind_s_def)
  have "file_at (mc_disk M3) ([''rs''] @ q) = (if q \<in> kept_files [''db''] toy_disk then file_at toy_disk ([''db''] @ q) else None)" for q
    using restored_is_backed_up [OF _ _ _ _ c _ ok _ _ _ r] toy_rooted toy_place b by (simp add: free_place_def)
  from this [of "[''loom'', ''a'']"] this [of "[''loom'', ''store.lock'']"] show ?thesis
    using c r by (auto simp: create_backup_def toy_kept file_at_def)
qed

text \<open>C18: a backup goes through: when the system refuses nothing, the source has only portable files and
  folders, the manifest of its files fits, and the destination is free, a backup is made, signed or
  not; verification accepts it with its manifest, and every free place takes a restore of it.\<close>

theorem backup_completes:
  assumes S: "no_faults (be_os V)" and H: "hasher_ok (be_hash V)" and J: "manifest_json_ok (be_json V)"
    and src: "backable src (mc_disk M)" and bak: "free_place (be_os V) src bak M"
    and fit: "manifest_fits V src (mc_disk M) tenant" "signer_fits V signer version" and tenant: "tenant \<noteq> []"
  shows "\<exists>M1 m. create_backup_inner V src bak tenant signer version M = (M1, Inr m) \<and> verify_backup V bak (mc_disk M1) = Inr m
    \<and> (\<forall>dst. free_place (be_os V) bak dst M1 \<longrightarrow> (\<exists>M2. restore_backup V bak dst M1 = (M2, Inr m)))"
proof -
  have R: "rooted src (mc_disk M)" and cl: "nodes_clean src (mc_disk M) src" using src by (simp_all add: backable_def)
  have place: "destination bak (mc_disk M)" using bak by (simp add: free_place_def)
  obtain M1 m where cr: "create_backup_inner V src bak tenant signer version M = (M1, Inr m)"
    using create_backup_complete [OF S H src bak fit] by blast
  obtain d3 where dl: "delivered (partial_name (be_os V) bak (mc_nonce M)) bak (mc_disk M) d3 (mc_disk M1)"
    and B: "backup_of V signer version src (mc_disk M) bak (mc_disk M1) m" and t: "bm_tenant m = tenant"
    using create_backup_Inr [OF H R place cr] by auto
  note root = created_root [OF R B dl place]
  have G: "good_backup V bak (mc_disk M1) m" by (rule created_good [OF J B fit(1) t tenant root(2) [OF cl]])
  have v: "verify_backup V bak (mc_disk M1) = Inr m" by (rule verify_backup_complete [OF root(1) H S G])
  have "\<exists>M2. restore_backup V bak dst M1 = (M2, Inr m)" if "free_place (be_os V) bak dst M1" for dst
    using restore_verified_complete [OF S H root(1) G that] v by (simp add: restore_backup_def bind_s_def)
  then show ?thesis using cr v by blast
qed

theorem backup_completes_witness:
  "\<exists>M1 m. create_backup (toy_env 2) [''db''] [''bk''] ''t'' toy_machine = (M1, Inr m) \<and> verify_backup (toy_env 2) [''bk''] (mc_disk M1) = Inr m"
  using backup_completes [of "toy_env 2" "[''db'']" toy_machine "[''bk'']" "''t''" None BACKUP_SIGNATURE_VERSION] toy_backable toy_place toy_fits
  by (auto simp: create_backup_def toy_unsigned)

text \<open>Not every backup that is made can be read again: nothing bounds the manifest when it is written, or asks for a tenant.\<close>

lemma unusable_backup:
  assumes H: "hasher_ok (be_hash V)" and J: "manifest_json_ok (be_json V)" and R: "rooted src (mc_disk M)" and bak: "destination bak (mc_disk M)"
    and cr: "create_backup_inner V src bak tenant signer version M = (M1, Inr m)"
    and bad: "tenant = [] \<or> (\<exists>j. bc_manifest (be_json V) m = Inr j \<and> MAX_MANIFEST_BYTES < length (j @ newline))"
  shows "\<exists>e. verify_backup V bak (mc_disk M1) = Inl e"
proof (cases "verify_backup V bak (mc_disk M1)")
  case (Inr m')
  obtain d3 where dl: "delivered (partial_name (be_os V) bak (mc_nonce M)) bak (mc_disk M) d3 (mc_disk M1)"
    and B: "backup_of V signer version src (mc_disk M) bak (mc_disk M1) m" and t: "bm_tenant m = tenant"
    using create_backup_Inr [OF H R bak cr] by auto
  have "good_backup V bak (mc_disk M1) m'" by (rule verify_backup_Inr [OF created_root(1) [OF R B dl bak] H Inr])
  then obtain b k where b: "file_at (mc_disk M1) (bak @ [BACKUP_MANIFEST_FILE]) = Some (b, k)" "length b \<le> MAX_MANIFEST_BYTES" "decode_manifest (be_json V) b = Inr m'"
    by (auto simp: good_backup_def)
  obtain j where j: "bc_manifest (be_json V) m = Inr j" "b = j @ newline" using B b(1) unfolding backup_of_def by auto
  then have "bc_manifest_of (be_json V) b = Inr m" using J unfolding manifest_json_ok_def by simp
  then have "m' = m \<and> bm_tenant m' \<noteq> []" using b(3) decoded [OF b(3)] by (auto simp: decode_manifest_def json_r_def split: if_splits)
  then show ?thesis using bad t j b(2) by auto
qed simp

definition only_unsynced :: "path \<Rightarrow> backup_error \<Rightarrow> disk \<Rightarrow> disk \<Rightarrow> bool" where
  "only_unsynced dst e d d' \<longleftrightarrow> (\<exists>x. e = BackupIo ''sync destination parent'' (butlast dst) x) \<and> (\<forall>p. \<not> prefix dst p \<longrightarrow> map_of d' p = map_of d p)"

lemma as_before_refl [simp]: "as_before S part d d"
  by (simp add: as_before_def)

lemma delivered_away: "delivered part dst d d3 d' \<Longrightarrow> rooted src d \<Longrightarrow> \<forall>p. \<not> prefix dst p \<longrightarrow> map_of d' p = map_of d p"
  using delivered_elsewhere rooted_disk(1) by blast

lemma failed_create:
  assumes H: "hasher_ok (be_hash V)" and R: "rooted src (mc_disk M)" and dst: "destination dst (mc_disk M)"
    and cr: "create_backup_inner V src dst tenant signer version M = (M', Inl e)"
  shows "as_before (be_os V) (partial_name (be_os V) dst (mc_nonce M)) (mc_disk M) (mc_disk M')
      \<or> only_unsynced dst e (mc_disk M) (mc_disk M') \<and> (\<exists>m. backup_of V signer version src (mc_disk M) dst (mc_disk M') m)"
  using create_backup_Inr [OF H R dst cr]
proof
  assume "\<exists>m d3. delivered (partial_name (be_os V) dst (mc_nonce M)) dst (mc_disk M) d3 (mc_disk M')
       \<and> backup_of V signer version src (mc_disk M) dst (mc_disk M') m \<and> bm_tenant m = tenant \<and> \<not> prefix src (butlast dst)
       \<and> (Inl e = Inr m \<or> (\<exists>x. Inl e = Inl (BackupIo ''sync destination parent'' (butlast dst) x)))"
  then obtain m d3 x where d3: "delivered (partial_name (be_os V) dst (mc_nonce M)) dst (mc_disk M) d3 (mc_disk M')"
    and "backup_of V signer version src (mc_disk M) dst (mc_disk M') m" "e = BackupIo ''sync destination parent'' (butlast dst) x" by auto
  then show ?thesis using delivered_away [OF d3 R] unfolding only_unsynced_def by blast
qed auto

lemma failed_restore:
  assumes H: "hasher_ok (be_hash V)" and R: "rooted src (mc_disk M)" and dst: "destination dst (mc_disk M)"
    and rs: "restore_backup V src dst M = (M', Inl e)"
  shows "as_before (be_os V) (partial_name (be_os V) dst (mc_nonce M)) (mc_disk M) (mc_disk M')
      \<or> only_unsynced dst e (mc_disk M) (mc_disk M')
        \<and> (\<forall>q. file_at (mc_disk M') (dst @ q) = (if q \<in> stored_files src (mc_disk M) then file_at (mc_disk M) (src @ q) else None))"
proof (cases "verify_backup V src (mc_disk M)")
  case (Inl x)
  then show ?thesis using rs by (simp add: restore_backup_def bind_s_def)
next
  case (Inr m)
  then have "restore_verified_backup V src dst m M = (M', Inl e)" using rs by (simp add: restore_backup_def bind_s_def)
  from restore_verified_Inr [OF H R verify_backup_Inr [OF R H Inr] dst this] show ?thesis
  proof
    assume "\<exists>d3. delivered (partial_name (be_os V) dst (mc_nonce M)) dst (mc_disk M) d3 (mc_disk M')
       \<and> (\<forall>q. file_at (mc_disk M') (dst @ q) = (if q \<in> stored_files src (mc_disk M) then file_at (mc_disk M) (src @ q) else None))
       \<and> (Inl e = Inr m \<or> (\<exists>x. Inl e = Inl (BackupIo ''sync destination parent'' (butlast dst) x)))"
    then obtain d3 x where d3: "delivered (partial_name (be_os V) dst (mc_nonce M)) dst (mc_disk M) d3 (mc_disk M')"
      "\<forall>q. file_at (mc_disk M') (dst @ q) = (if q \<in> stored_files src (mc_disk M) then file_at (mc_disk M) (src @ q) else None)"
      "e = BackupIo ''sync destination parent'' (butlast dst) x" by auto
    then have "only_unsynced dst e (mc_disk M) (mc_disk M')" using delivered_away [OF d3(1) R] unfolding only_unsynced_def by blast
    then show ?thesis using d3(2) by (intro disjI2 conjI)
  qed auto
qed

text \<open>C19: a failure leaves no trace: a backup or a restore that returns an error has left every path as it
  was, but for what the system refused to remove of the partial directory; the one exception is a parent directory
  that cannot be synced after the rename: then the complete backup, or the restored files, stand at the destination,
  and nothing else has changed.\<close>

theorem failure_leaves_no_trace:
  assumes H: "hasher_ok (be_hash V)" and R: "rooted src (mc_disk M)" and dst: "destination dst (mc_disk M)"
  shows "(create_backup_inner V src dst tenant signer version M = (M', Inl e) \<longrightarrow>
        as_before (be_os V) (partial_name (be_os V) dst (mc_nonce M)) (mc_disk M) (mc_disk M')
        \<or> only_unsynced dst e (mc_disk M) (mc_disk M') \<and> (\<exists>m. backup_of V signer version src (mc_disk M) dst (mc_disk M') m))
    \<and> (restore_backup V src dst M = (M', Inl e) \<longrightarrow>
        as_before (be_os V) (partial_name (be_os V) dst (mc_nonce M)) (mc_disk M) (mc_disk M')
        \<or> only_unsynced dst e (mc_disk M) (mc_disk M')
          \<and> (\<forall>q. file_at (mc_disk M') (dst @ q) = (if q \<in> stored_files src (mc_disk M) then file_at (mc_disk M) (src @ q) else None)))"
  using failed_create [OF H R dst] failed_restore [OF H R dst] by blast

theorem failure_leaves_no_trace_witness:
  "\<exists>M' e. create_backup toy_blind [''db''] [''bk''] ''t'' toy_machine = (M', Inl e) \<and> (\<forall>p. map_of (mc_disk M') p = map_of toy_disk p)"
proof -
  obtain M' where c: "create_backup_inner toy_blind [''db''] [''bk''] ''t'' None BACKUP_SIGNATURE_VERSION toy_machine = (M', Inl (BackupIo ''read directory'' [''db''] (OsError ''blind'')))"
    using toy_blind_fails by blast
  have d: "hasher_ok (be_hash toy_blind)" "rooted [''db''] (mc_disk toy_machine)" "destination [''bk''] (mc_disk toy_machine)"
    using toy_rooted toy_destination by simp_all
  have "as_before (be_os toy_blind) (partial_name (be_os toy_blind) [''bk''] (mc_nonce toy_machine)) (mc_disk toy_machine) (mc_disk M')"
    using failure_leaves_no_trace [OF d, THEN conjunct1, THEN mp, OF c] by (simp add: only_unsynced_def del: toy_machine)
  then have "\<forall>p. map_of (mc_disk M') p = map_of toy_disk p" by (simp add: as_before_def)
  then show ?thesis using c by (auto simp: create_backup_def)
qed

section \<open>Signed backups\<close>

lemma signed_record:
  assumes S: "no_faults (be_os V)" and H: "hasher_ok (be_hash V)" and J: "manifest_json_ok (be_json V)" "signature_json_ok (be_json V)" and L: "ed25519_ok (be_ed V)"
    and src: "backable src (mc_disk M)" and bak: "destination bak (mc_disk M)" and tenant: "tenant \<noteq> []"
    and fit: "manifest_fits V src (mc_disk M) tenant" "signer_fits V (Some (key_id, key)) version"
    and cr: "create_backup_inner V src bak tenant (Some (key_id, key)) version M = (M1, Inr m)"
  shows "\<exists>b payload. load_manifest_bytes (be_os V) bak (mc_disk M1) = Inr b \<and> decode_manifest (be_json V) b = Inr m
    \<and> load_signature (be_json V) (be_os V) bak (mc_disk M1) = Inr (signature_of V key_id key version b payload)
    \<and> check_signature_record (be_hash V) (signature_of V key_id key version b payload) b = Inr ()
    \<and> verified_payload (be_hash V) (signature_of V key_id key version b payload) b = Inr payload
    \<and> rooted bak (mc_disk M1) \<and> verify_manifest_files V bak (mc_disk M1) m = Inr ()"
proof -
  have R: "rooted src (mc_disk M)" and cl: "nodes_clean src (mc_disk M) src" using src by (simp_all add: backable_def)
  obtain d3 where dl: "delivered (partial_name (be_os V) bak (mc_nonce M)) bak (mc_disk M) d3 (mc_disk M1)"
    and B: "backup_of V (Some (key_id, key)) version src (mc_disk M) bak (mc_disk M1) m" and t: "bm_tenant m = tenant"
    using create_backup_Inr [OF H R bak cr] by auto
  note root = created_root [OF R B dl bak]
  have G: "good_backup V bak (mc_disk M1) m" by (rule created_good [OF J(1) B fit(1) t tenant root(2) [OF cl]])
  obtain b k where b: "file_at (mc_disk M1) (bak @ [BACKUP_MANIFEST_FILE]) = Some (b, k)"
    "load_manifest_bytes (be_os V) bak (mc_disk M1) = Inr b" "decode_manifest (be_json V) b = Inr m" using good_loads(1) [OF root(1) H S G] by blast
  obtain payload j where w: "payload_to_sign (be_hash V) version key_id b = Inr payload"
    "bc_signature (be_json V) (signature_of V key_id key version b payload) = Inr j"
    "file_at (mc_disk M1) (bak @ [BACKUP_SIGNATURE_FILE]) = Some (j @ newline, os_umode (be_os V))"
    using B b(1) unfolding backup_of_def by (auto simp: signature_written_def)
  let ?r = "signature_of V key_id key version b payload"
  have "\<exists>j. bc_signature (be_json V) ?r = Inr j \<and> length (j @ newline) \<le> MAX_SIGNATURE_BYTES" using fit(2) by (simp add: signer_fits_def)
  then have "length (j @ newline) \<le> MAX_SIGNATURE_BYTES" using w(2) by auto
  then have "load_signature (be_json V) (be_os V) bak (mc_disk M1) = Inr ?r"
    using load_signature_complete [OF S w(3)] J(2) w(2) unfolding signature_json_ok_def by blast
  moreover have "check_signature_record (be_hash V) ?r b = Inr ()" "verified_payload (be_hash V) ?r b = Inr payload"
    using w(1) by (auto simp: check_signature_record_def verified_payload_def payload_to_sign_def signature_of_def split: if_splits)
  ultimately show ?thesis using b(2,3) root(1) good_loads(2) [OF root(1) H S G] by blast
qed

lemma signature_decodes:
  "ed25519_ok (be_ed V) \<Longrightarrow> backup_decode_hex 64 (bs_ed25519 (signature_of V key_id key version b payload)) what = Inr (ed_sign (be_ed V) key payload)"
  using backup_decode_hex [of "ed_sign (be_ed V) key payload" 64] by (simp add: ed25519_ok_def signature_of_def)

lemma signed_accepted:
  assumes L: "ed25519_ok (be_ed V)" and b: "load_manifest_bytes (be_os V) bak d = Inr b" "decode_manifest (be_json V) b = Inr m"
    and r: "load_signature (be_json V) (be_os V) bak d = Inr (signature_of V key_id key version b payload)"
    "check_signature_record (be_hash V) (signature_of V key_id key version b payload) b = Inr ()"
    "verified_payload (be_hash V) (signature_of V key_id key version b payload) b = Inr payload" and f: "verify_manifest_files V bak d m = Inr ()"
  shows "verify_signed_backup V bak key_id (ed_public (be_ed V) key) d = Inr m"
proof -
  have "bs_algorithm (signature_of V key_id key version b payload) = ''ed25519''" "bs_key_id (signature_of V key_id key version b payload) = key_id"
    by (simp_all add: signature_of_def)
  moreover have "ed_verify (be_ed V) (ed_public (be_ed V) key) payload (ed_sign (be_ed V) key payload) = None" using L by (simp add: ed25519_ok_def)
  ultimately show ?thesis using b r f signature_decodes [OF L] by (simp add: verify_signed_backup_def verify_signature_def)
qed

text \<open>The demonstration database, backed up and signed.\<close>

lemma toy_signed:
  "\<exists>M1 m. create_signed_backup (toy_env 2) [''db''] [''bk''] ''t'' ''q3'' (replicate 32 (byte_of 17)) 2 toy_machine = (M1, Inr m)
     \<and> rooted [''bk''] (mc_disk M1)
     \<and> verify_signed_backup (toy_env 2) [''bk''] ''q3'' (ed_public padded (replicate 32 (byte_of 17))) (mc_disk M1) = Inr m"
proof -
  let ?k = "replicate 32 (byte_of 17)"
  obtain M1 m where c: "create_backup_inner (toy_env 2) [''db''] [''bk''] ''t'' (Some (''q3'', ?k)) 2 toy_machine = (M1, Inr m)"
    using toy_created [OF toy_signer] by blast
  obtain b payload where s: "load_manifest_bytes toy_os [''bk''] (mc_disk M1) = Inr b" "decode_manifest (toy_json 2) b = Inr m"
    "load_signature (toy_json 2) toy_os [''bk''] (mc_disk M1) = Inr (signature_of (toy_env 2) ''q3'' ?k 2 b payload)"
    "check_signature_record toy_sum (signature_of (toy_env 2) ''q3'' ?k 2 b payload) b = Inr ()"
    "verified_payload toy_sum (signature_of (toy_env 2) ''q3'' ?k 2 b payload) b = Inr payload"
    "rooted [''bk''] (mc_disk M1)" "verify_manifest_files (toy_env 2) [''bk''] (mc_disk M1) m = Inr ()"
    using signed_record [OF _ _ _ _ _ _ _ _ _ _ c] toy_backable toy_fits toy_signer toy_destination by auto
  have "verify_signed_backup (toy_env 2) [''bk''] ''q3'' (ed_public (be_ed (toy_env 2)) ?k) (mc_disk M1) = Inr m"
    by (rule signed_accepted) (use s in simp_all)
  then show ?thesis using c s(6) by (auto simp: create_signed_backup_def)
qed

text \<open>C20: what a signature on a backup stands for: an accepted signed backup is a good backup whose signature
  record names the expected key and algorithm, and whose signature verifies under the given public key over a payload
  that no other record and manifest share: any record without a NUL in its key id with the same payload has
  the same format and key id, and its manifest has the same digest (for the first format it is the same manifest).\<close>

theorem signed_acceptance_pins:
  assumes R: "rooted root d" and H: "hasher_ok (be_hash V)" and key: "CHR 0x00 \<notin> set key_id" "length key_id < 2 ^ 64"
    and ok: "verify_signed_backup V root key_id public_key d = Inr m"
  shows "good_backup V root d m
    \<and> (\<exists>b k s k' r sig payload. file_at d (root @ [BACKUP_MANIFEST_FILE]) = Some (b, k) \<and> decode_manifest (be_json V) b = Inr m
        \<and> file_at d (root @ [BACKUP_SIGNATURE_FILE]) = Some (s, k') \<and> bc_signature_of (be_json V) s = Inr r
        \<and> bs_key_id r = key_id \<and> bs_algorithm r = ''ed25519'' \<and> hex_pairs (bs_ed25519 r) = Some sig \<and> 2 * 64 = length (bs_ed25519 r)
        \<and> ed_verify (be_ed V) public_key payload sig = None
        \<and> verified_payload (be_hash V) r b = Inr payload
        \<and> (\<forall>r' b'. plain_record r' \<longrightarrow> verified_payload (be_hash V) r' b' = Inr payload \<longrightarrow>
              bs_format_version r' = bs_format_version r \<and> bs_key_id r' = key_id \<and> b3 (be_hash V) b' = b3 (be_hash V) b
              \<and> (bs_format_version r = BACKUP_SIGNATURE_VERSION \<longrightarrow> b' = b)))"
proof -
  obtain b r0 where b: "load_manifest_bytes (be_os V) root d = Inr b" "verify_signature V root d b key_id public_key = Inr r0"
    "decode_manifest (be_json V) b = Inr m" "verify_manifest_files V root d m = Inr ()"
    using ok by (auto simp: verify_signed_backup_def bind_r_Inr_iff)
  obtain r sig payload where r: "load_signature (be_json V) (be_os V) root d = Inr r" "bs_algorithm r = ''ed25519''" "bs_key_id r = key_id"
    "backup_decode_hex 64 (bs_ed25519 r) ''Ed25519 signature'' = Inr sig" "verified_payload (be_hash V) r b = Inr payload"
    "ed_verify (be_ed V) public_key payload sig = None"
    using b(2) by (auto simp: verify_signature_def bind_r_Inr_iff split: if_splits option.splits)
  have x: "hex_pairs (bs_ed25519 r) = Some sig" "2 * 64 = length (bs_ed25519 r)" using r(4) by (auto simp: backup_decode_hex_def split: if_splits option.splits)
  have plain: "plain_record r" using key r(3) by (simp add: plain_record_def)
  have pins: "bs_format_version r' = bs_format_version r \<and> bs_key_id r' = key_id \<and> b3 (be_hash V) b' = b3 (be_hash V) b
      \<and> (bs_format_version r = BACKUP_SIGNATURE_VERSION \<longrightarrow> b' = b)"
    if "plain_record r'" "verified_payload (be_hash V) r' b' = Inr payload" for r' b'
    using payload_pins [OF r(5) that(2) plain that(1)] r(3) by auto
  obtain k where k: "file_at d (root @ [BACKUP_MANIFEST_FILE]) = Some (b, k)" using load_manifest_Inr [OF b(1)] by blast
  obtain s k' where s: "file_at d (root @ [BACKUP_SIGNATURE_FILE]) = Some (s, k')" "bc_signature_of (be_json V) s = Inr r" using load_signature_Inr [OF r(1)] by blast
  have "good_backup V root d m" by (rule accepted_good [OF R H b(1,3,4)])
  then show ?thesis using k b(3) s r(2,3,5,6) x pins by blast
qed

theorem signed_acceptance_pins_witness:
  "\<exists>M1 m. create_signed_backup (toy_env 2) [''db''] [''bk''] ''t'' ''q3'' (replicate 32 (byte_of 17)) 2 toy_machine = (M1, Inr m)
     \<and> good_backup (toy_env 2) [''bk''] (mc_disk M1) m"
proof -
  obtain M1 m where c: "create_signed_backup (toy_env 2) [''db''] [''bk''] ''t'' ''q3'' (replicate 32 (byte_of 17)) 2 toy_machine = (M1, Inr m)"
    "rooted [''bk''] (mc_disk M1)" "verify_signed_backup (toy_env 2) [''bk''] ''q3'' (ed_public padded (replicate 32 (byte_of 17))) (mc_disk M1) = Inr m"
    using toy_signed by blast
  have "good_backup (toy_env 2) [''bk''] (mc_disk M1) m" using signed_acceptance_pins [OF c(2) _ _ _ c(3)] by simp
  then show ?thesis using c(1) by blast
qed

text \<open>C21: a signed backup is accepted: what was backed up and signed, in either format, verifies under the
  public key of the signing key and the same key id, with its manifest; and so it does against a trust-root register whose
  key of that id has this public key and is still trusted.\<close>

theorem signed_backup_verifies:
  assumes S: "no_faults (be_os V)" and H: "hasher_ok (be_hash V)" and J: "manifest_json_ok (be_json V)" "signature_json_ok (be_json V)" and L: "ed25519_ok (be_ed V)"
    and src: "backable src (mc_disk M)" and bak: "destination bak (mc_disk M)" and tenant: "tenant \<noteq> []"
    and fit: "manifest_fits V src (mc_disk M) tenant" "signer_fits V (Some (key_id, key)) version"
    and cr: "create_signed_backup V src bak tenant key_id key version M = (M1, Inr m)"
  shows "verify_signed_backup V bak key_id (ed_public (be_ed V) key) (mc_disk M1) = Inr m
    \<and> (\<forall>dir root. resolve_key dir key_id = Inr root \<longrightarrow> tr_key_id root = key_id \<longrightarrow> verifying_key (be_ed V) root = Inr (ed_public (be_ed V) key)
        \<longrightarrow> verify_signed_backup_with V bak dir (mc_disk M1) = Inr (m, key_id))"
proof -
  obtain b payload where r: "load_manifest_bytes (be_os V) bak (mc_disk M1) = Inr b" "decode_manifest (be_json V) b = Inr m"
    "load_signature (be_json V) (be_os V) bak (mc_disk M1) = Inr (signature_of V key_id key version b payload)"
    "check_signature_record (be_hash V) (signature_of V key_id key version b payload) b = Inr ()"
    "verified_payload (be_hash V) (signature_of V key_id key version b payload) b = Inr payload" "verify_manifest_files V bak (mc_disk M1) m = Inr ()"
    using signed_record [OF S H J L src bak tenant fit cr [unfolded create_signed_backup_def]] by blast
  have fields: "bs_algorithm (signature_of V key_id key version b payload) = ''ed25519''" "bs_key_id (signature_of V key_id key version b payload) = key_id"
    by (simp_all add: signature_of_def)
  have sig: "ed_verify (be_ed V) (ed_public (be_ed V) key) payload (ed_sign (be_ed V) key payload) = None" "length (ed_sign (be_ed V) key payload) = 64"
    using L by (simp_all add: ed25519_ok_def)
  have "verify_signed_backup_with V bak dir (mc_disk M1) = Inr (m, key_id)"
    if "resolve_key dir key_id = Inr root" "tr_key_id root = key_id" "verifying_key (be_ed V) root = Inr (ed_public (be_ed V) key)" for dir root
  proof -
    have "directory_verify (be_ed V) dir key_id ''ed25519'' payload (ed_sign (be_ed V) key payload) = Inr root"
      using that sig by (cases "tr_algorithm root") (simp add: directory_verify_def verify_against_def)
    then show ?thesis using r signature_decodes [OF L] fields that(2) by (simp add: verify_signed_backup_with_def)
  qed
  then show ?thesis using signed_accepted [OF L r] by blast
qed

theorem signed_backup_verifies_witness:
  "\<exists>M1 m. create_signed_backup (toy_env 2) [''db''] [''bk''] ''t'' ''q3'' (replicate 32 (byte_of 17)) 2 toy_machine = (M1, Inr m)
     \<and> verify_signed_backup (toy_env 2) [''bk''] ''q3'' (replicate 32 (byte_of 17)) (mc_disk M1) = Inr m
     \<and> verify_signed_backup_with (toy_env 2) [''bk''] (directory toy_register BackupRoot) (mc_disk M1) = Inr (m, ''q3'')"
proof -
  let ?k = "replicate 32 (byte_of 17)" and ?root = "toy_root ''q3'' Active 1 (CHR ''1'')"
  obtain M1 m where c: "create_signed_backup (toy_env 2) [''db''] [''bk''] ''t'' ''q3'' ?k 2 toy_machine = (M1, Inr m)" using toy_signed by blast
  have p: "ed_public padded ?k = ?k" by (simp add: padded_def toy_ed25519_def)
  have r: "resolve_key (directory toy_register BackupRoot) ''q3'' = Inr ?root" "tr_key_id ?root = ''q3''"
    by (simp_all add: resolve_key_def find_root_def in_role_def toy_register_def toy_root_def)
  show ?thesis using toy_destination signed_backup_verifies [OF _ _ _ _ _ _ _ _ _ _ c] c r toy_public toy_backable toy_fits toy_signer by (auto simp: p)
qed

text \<open>C22: revocation reaches the backups: once a key is revoked in its role, no later custody makes a
  verifier accept a backup on its word: verification never answers with that key, and a backup whose record names it
  is refused, with the revocation and its reason if manifest and record are otherwise in order.\<close>

theorem revoked_key_backups_refused:
  assumes rev: "revoke (be_ed V) g role key_id reason seal = Inr g1" and run: "fold_r (run_op (be_ed V)) xs g1 = Inr g2"
  shows "(\<forall>m k. verify_signed_backup_with V root (directory g2 role) d = Inr (m, k) \<longrightarrow> k \<noteq> key_id)
    \<and> (\<forall>r b sig payload. load_signature (be_json V) (be_os V) root d = Inr r \<longrightarrow> bs_key_id r = key_id \<longrightarrow>
        (\<exists>e. verify_signed_backup_with V root (directory g2 role) d = Inl e)
        \<and> (load_manifest_bytes (be_os V) root d = Inr b \<longrightarrow> check_signature_record (be_hash V) r b = Inr ()
            \<longrightarrow> backup_decode_hex 64 (bs_ed25519 r) ''Ed25519 signature'' = Inr sig
            \<longrightarrow> (\<exists>n. verify_signed_backup_with V root (directory g2 role) d = Inl (Authenticity (KeyRefused (KeyRevoked key_id n reason))))))"
proof -
  obtain n where n: "resolve_key (directory g2 role) key_id = Inl (KeyRevoked key_id n reason)" using revoked_resolution [OF rev run] by blast
  then have dv: "directory_verify (be_ed V) (directory g2 role) key_id alg msg s = Inl (KeyRevoked key_id n reason)" for alg msg s
    by (simp add: directory_verify_def)
  have named: "k = bs_key_id r" if "directory_verify (be_ed V) (directory g2 role) (bs_key_id r) alg msg s = Inr t" "k = tr_key_id t" for k r alg msg s t
    using that find_root_Some by (auto simp: directory_verify_iff)
  have other: "k \<noteq> key_id" if v: "verify_signed_backup_with V root (directory g2 role) d = Inr (m, k)" for m k
  proof -
    have "\<exists>b (r :: backup_signature) s msg. (case directory_verify (be_ed V) (directory g2 role) (bs_key_id r) (bs_algorithm r) msg s of
         Inl e \<Rightarrow> Inl (Authenticity (KeyRefused e))
       | Inr root_key \<Rightarrow> bind_r (decode_manifest (be_json V) b) (\<lambda>m. bind_r (verify_manifest_files V root d m) (\<lambda>_. Inr (m, tr_key_id root_key)))) = Inr (m, k)"
      using v unfolding verify_signed_backup_with_def bind_r_Inr_iff by blast
    then obtain b s msg and r :: backup_signature where x: "(case directory_verify (be_ed V) (directory g2 role) (bs_key_id r) (bs_algorithm r) msg s of
         Inl e \<Rightarrow> Inl (Authenticity (KeyRefused e))
       | Inr root_key \<Rightarrow> bind_r (decode_manifest (be_json V) b) (\<lambda>m. bind_r (verify_manifest_files V root d m) (\<lambda>_. Inr (m, tr_key_id root_key)))) = Inr (m, k)" by (elim exE)
    then obtain t where t: "directory_verify (be_ed V) (directory g2 role) (bs_key_id r) (bs_algorithm r) msg s = Inr t"
      by (cases "directory_verify (be_ed V) (directory g2 role) (bs_key_id r) (bs_algorithm r) msg s") simp_all
    then have "k = bs_key_id r" using x named [OF t] by (auto simp: bind_r_Inr_iff)
    then show ?thesis using t dv by auto
  qed
  have payload: "\<exists>payload. verified_payload (be_hash V) r b = Inr payload" if "check_signature_record (be_hash V) r b = Inr ()" for r b
    using that by (auto simp: check_signature_record_def verified_payload_def split: if_splits)
  have refused: "\<exists>e. verify_signed_backup_with V root (directory g2 role) d = Inl e"
    if "load_signature (be_json V) (be_os V) root d = Inr r" "bs_key_id r = key_id" for r
  proof (cases "verify_signed_backup_with V root (directory g2 role) d")
    case (Inr a)
    then show ?thesis using that dv by (auto simp: verify_signed_backup_with_def bind_r_Inr_iff split: sum.splits)
  qed simp
  show ?thesis using other refused payload dv by (fastforce simp: verify_signed_backup_with_def)
qed

theorem revoked_key_backups_refused_witness:
  "\<exists>g1 n. revoke toy_ed25519 toy_rotated BackupRoot ''q3'' ''lost'' False = Inr g1
     \<and> verify_signed_backup_with toy_plain_env [''bk''] (directory g1 BackupRoot) toy_signed_disk = Inl (Authenticity (KeyRefused (KeyRevoked ''q3'' n ''lost'')))"
proof -
  have rev: "revoke (be_ed toy_plain_env) toy_rotated BackupRoot ''q3'' ''lost'' False
      = Inr (set_status BackupRoot ''q3'' (\<lambda>r. r\<lparr>tr_status := Revoked, tr_reason := Some ''lost''\<rparr>) toy_rotated)"
    using toy_revoke by (simp add: toy_plain_env_def)
  have run: "fold_r (run_op (be_ed toy_plain_env)) [] g = Inr g" for g by simp
  note l = toy_signed_loads
  have "bs_key_id (toy_record 2 (to_hex (b3 toy_sum (''M'' @ newline)))) = ''q3''" by (simp add: toy_record_def)
  with revoked_key_backups_refused [OF rev run, of "[''bk'']" toy_signed_disk] l show ?thesis using rev by (fastforce simp: toy_plain_env_def)
qed

end
