(* ===== verification/Spec2Isabelle.thy ===== *)
theory Spec2Isabelle
  imports LoomTreeProps LoomMergeProps LoomRefProps LoomSessionProps LoomRegistryProps LoomTaintProps LoomActionProps LoomMemoryProps
    LoomKeysProps LoomAsOfProps LoomBackupProps
begin

text \<open>
  LoomDB is a branching, provenance-carrying record store for agents (a Rust workspace,
  \<open>src/crates/\<close>).  A database is a page store (a third-party crate) that keeps immutable commits;
  each commit is a B+tree of records; named refs point at commits; a session is a branch with a
  capability token.  Every write goes through one path that checks the token and the signed envelope, writes the
  records, their derivation nodes, their index entries and the claims' version history in one commit, and
  moves the branch.  On top of it sit merging, taint and recall, retrieval behind a policy,
  forgetting, and the gateway that lets an action out into the world.

  The model is a shallow embedding.  A function of the source is a HOL function; a
  \<open>Result\<close> is a sum whose left side is the error; a method that changes the database is a state
  transformer \<open>'s \<Rightarrow> 's \<times> (error + 'a)\<close> (\<open>LoomState\<close>); a loop is recursion over the list it
  walks, or a well-founded \<open>function\<close>.  Byte vectors and strings are lists of 8-bit characters, machine integers
  are words; the workspace is built with \<open>overflow-checks = true\<close>, so an overflow is the error
  \<open>Panic\<close>.  Clock readings are arguments.

  \<^bold>\<open>Parameters.\<close>  What is not under \<open>src/\<close> is a record of functions, with its documented behaviour as a named
  predicate: the hash and the signatures (\<open>crypto\<close>, \<open>crypto_ok\<close>), bincode and JSON (\<open>node_codec_ok\<close>,
  \<open>codec_ok\<close>, \<open>index_codec_ok\<close>), the page store (\<open>pager\<close>, \<open>pager_ok\<close>), the ref store's file system (\<open>vfs\<close>, \<open>vfs_ok\<close>), BLAKE3's
  streaming interface (\<open>blake3\<close>, \<open>hasher_ok\<close>), Ed25519 (\<open>ed25519_ok\<close>), the Unicode tables.  \<open>LoomDemo\<close>, \<open>LoomSessionDemo\<close>, \<open>LoomTaintDemo\<close>, \<open>LoomMemoryDemo\<close> and \<open>LoomBackupDemo\<close> instantiate them
  concretely; the witnesses of the properties are computed there.

  \<^bold>\<open>Theories, in the order of the code.\<close>
  \<^item> \<open>LoomPrelude\<close>: bytes, encodings, the result monad, prefixes, maps as sorted lists.  \<open>LoomFloat\<close>, \<open>LoomFloat32\<close>: the
    IEEE-754 comparisons and arithmetic the code uses, on bit patterns.
  \<^item> \<open>LoomCore\<close> (\<open>loom-core\<close>: \<open>time.rs\<close>, \<open>value.rs\<close>, \<open>error.rs\<close>): intervals, trust labels, values, claims, records.
  \<^item> \<open>LoomTree\<close> (\<open>loom-branch/tree.rs\<close>), with \<open>LoomSorted\<close>, \<open>LoomTreeInv\<close>, \<open>LoomTreeRead\<close>, \<open>LoomTreeWrite\<close>,
    \<open>LoomTreeStore\<close>, \<open>LoomTreeCommit\<close>: the B+tree, its invariant, its abstraction \<open>tree_entries\<close> to a sorted list, and the
    refinement of every operation.  The depth of a tree is bounded by the invariant, so lookup and
    insertion terminate on every tree that satisfies it.  Insertion refuses no record: the code's refusal of
    a record too large for a page is never reached (\<open>leaf_split_refuses\<close>, \<open>oversize_record_accepted\<close>).  Properties in
    \<open>LoomTreeProps\<close>.
  \<^item> \<open>LoomMerge\<close>, \<open>LoomMergeRef\<close>, \<open>LoomMergeProps\<close> (\<open>merge.rs\<close>): the typed three-way merge and its equivalence with the merge
    that decides every key.
  \<^item> \<open>LoomEnvelope\<close>, \<open>LoomToken\<close>, \<open>LoomProvKeys\<close>, \<open>LoomProvProps\<close> (\<open>envelope.rs\<close>, \<open>token.rs\<close>, \<open>provenance.rs\<close>, \<open>history.rs\<close>,
    \<open>index.rs\<close>): signed envelopes, capability tokens, derivation nodes and the layout of the engine's keys.
  \<^item> \<open>LoomRefs\<close>, \<open>LoomRefsLaws\<close>, \<open>LoomRefStore\<close>, \<open>LoomRefProps\<close> (\<open>refs.rs\<close>): branch edits, the framed log, torn tails,
    compaction; the file store refines the in-memory one.
  \<^item> \<open>LoomState\<close>, \<open>LoomSession\<close>, \<open>LoomSessionWrite\<close>, \<open>LoomSessionMerge\<close> (\<open>session.rs\<close>): the database; opening, the actor registry,
    sessions, the write path, reading with capture, merging.  \<open>LoomTxn\<close>, \<open>LoomWriteLaws\<close>, \<open>LoomSessionLaws\<close>,
    \<open>LoomAncestry\<close>, \<open>LoomProvLaws\<close>, \<open>LoomAppendOnly\<close>: the invariant \<open>loom_ok\<close>, what a branch \<open>holds\<close>, and what each stage of a write
    touches.  Properties in \<open>LoomSessionProps\<close>, \<open>LoomBranchProps\<close>, \<open>LoomRegistryProps\<close>.
  \<^item> \<open>LoomText\<close>, \<open>LoomRecall\<close>, \<open>LoomTaint\<close>, \<open>LoomTaintLaws\<close>, \<open>LoomRecallLaws\<close>, \<open>LoomTaintProps\<close> (\<open>loom-provenance/taint.rs\<close>, \<open>recall.rs\<close>): the flood over
    the derivation nodes, the recall plan, marking stale; \<open>LoomRecallLaws\<close> says what is contaminated over the stored records
    (\<open>contaminated_node\<close>, \<open>contaminated_write\<close>) and what that puts into each section of a plan.  The walk has a frontier that only shrinks
    the set of unseen nodes, so it ends without fuel.
  \<^item> \<open>LoomPolicy\<close>, \<open>LoomAction\<close>, \<open>LoomActionProps\<close> (\<open>loom-policy\<close>, \<open>loom-action\<close>): the indexed policy engine and the action gateway.
  \<^item> \<open>LoomMemory\<close>, \<open>LoomMemoryLaws\<close>, \<open>LoomIndexLaws\<close>, \<open>LoomMemoryProps\<close> (\<open>loom-memory\<close>): scoring, packing, retrieval, forgetting.
  \<^item> \<open>LoomAsOf\<close>, \<open>LoomAsOfLaws\<close>, \<open>LoomAsOfProps\<close> (\<open>loom-query\<close>): questions about what was believed at a known time, over the
    version history the write path keeps.
  \<^item> \<open>LoomKeys\<close>, \<open>LoomKeysLaws\<close>, \<open>LoomKeysProps\<close> (\<open>loom-keys\<close>): the register of trust roots, its rotation, the directory a
    verifier asks and the software signer.
  \<^item> \<open>LoomFiles\<close>, \<open>LoomFilesLaws\<close>: \<open>std::fs\<close> over a tree of paths; any system call may be refused (\<open>os_fault\<close>).  A path is the list
    of the components of an absolute, canonical path; links are followed where the library follows them, forty deep.
  \<^item> \<open>LoomBackup\<close> (\<open>loom-branch/backup.rs\<close>, \<open>Loom::backup_to\<close>), with \<open>LoomBackupLaws\<close> (portable names and the walk), \<open>LoomBackupCopy\<close>
    (copying and hashing, staying in the partial directory), \<open>LoomBackupCheck\<close> (verification), \<open>LoomBackupRun\<close> (partial directory and
    publication), \<open>LoomBackupContents\<close> (what a finished backup holds), \<open>LoomBackupComplete\<close> (backups go through when nothing is
    refused), \<open>LoomBackupVerified\<close> (what is accepted and restored).  The walk recurses to the depth of the tree.  Properties in
    \<open>LoomBackupProps\<close>, about trees whose file names have no backslash (\<open>portable\<close>), which the source rewrites.

  \<^bold>\<open>Interfaces\<close> are locales, each interpreted on the model: the record store a merge reads, the ref store a
  session persists to, the decider a gateway asks, and the step of a custody (\<open>custody_step\<close>, which every rotation
  operation implements).

  \<^bold>\<open>Scope of the properties.\<close>  The write path accepts any key.  What is proved of provenance (that it is append-only, that taint
  reaches every write) is about batches of the caller's keys (\<open>caller_key\<close>); a batch that names the log's own keys is
  accepted and overwrites them, and \<open>provenance_is_append_only\<close> states that too.  A read is captured under the token's
  session and consumed by a write under the envelope's; \<open>reads_reach_the_next_write\<close> is about the case that they agree, and
  \<open>envelope_session_escapes\<close> says what happens otherwise.  A signature pins a source up to its printed text
  (\<open>source_split_ambiguous\<close>) and leaves out the policy.  An as-of answer about the past keeps everything but the
  status and the end of the known interval of a claim that was still believed.

  \<^bold>\<open>Simplifications.\<close>  The page and record counters of a tree are natural numbers, not \<open>u64\<close>: they count what was allocated one
  by one and do not reach the bound.  \<open>std_rename\<close> fails on any existing target, where \<open>rename(2)\<close> replaces an empty directory;
  the backup code renames only onto a name it has found free.  A connector (\<open>execute\<close>) returns; one that panics after it has
  acted has no record, and a retry would run it again.  \<open>verify\<close> and \<open>verify_strict\<close> of a signature are one parameter,
  \<open>cr_verify\<close>.

  \<^bold>\<open>Not modelled.\<close>  The approximate nearest-neighbour graph (\<open>hnsw.rs\<close>, \<open>hnsw_store.rs\<close>, \<open>ann.rs\<close>) is a heuristic whose quality is
  measured, and exact retrieval does not use it.  The command line tools, the server's
  transport and telemetry, and the drill, benchmark and soak harnesses are input and output around
  the engine.
\<close>

end
